(* ===== verification/Prelude.thy ===== *)
theory Prelude
  imports Main "HOL-Library.Word" "HOL-Library.Sublist" "HOL-Library.AList"
begin

text \<open>
  What every component of the SySeBa model shares: C strings and the parts of the C library the
  sources call on them (\<^verbatim>\<open>isspace\<close>, \<^verbatim>\<open>tolower\<close>, \<^verbatim>\<open>strcasecmp\<close>, \<^verbatim>\<open>strtoul\<close>, \<^verbatim>\<open>snprintf\<close> into a
  fixed buffer, \<^verbatim>\<open>strtok\<close>, \<^verbatim>\<open>strrchr\<close>), decimal formatting, the generic facts about separators, normal
  path components and canonical path strings on which the path, configuration and restore
  components rest, and the interface of a table with unique keys.

  A C string is a \<^typ>\<open>string\<close>: the characters before the terminating NUL.
\<close>

named_theorems cstr \<open>evaluation of C string functions\<close>
named_theorems frame \<open>operations that leave the file system as it is\<close>

section \<open>Lists\<close>

lemma take_append_le: "i \<le> length xs \<Longrightarrow> take i (xs @ ys) = take i xs"
  by simp

lemma nth_after_sep:
  assumes "d \<notin> set c" and "length p < i" and "i < length (p @ d # c)"
  shows "(p @ d # c) ! i \<noteq> d"
proof -
  obtain j where j: "i = Suc (length p + j)" using assms(2) less_iff_Suc_add by auto
  with assms(3) have "c ! j \<in> set c" by simp
  with assms(1) j show ?thesis by (auto simp: nth_append)
qed

section \<open>Association lists\<close>

lemma alist_delete_shorter: "map_of h a = Some v \<Longrightarrow> length (AList.delete a h) < length h"
  unfolding AList.delete_eq by (intro length_filter_less) (auto dest: map_of_SomeD)

lemma distinct_map_fst_delete: "distinct (map fst h) \<Longrightarrow> distinct (map fst (AList.delete a h))"
  by (simp add: AList.delete_eq distinct_map_filter)

lemma fst_set_delete: "fst ` set (AList.delete a h) = fst ` set h - {a}"
  by (auto simp: AList.delete_eq image_iff)

section \<open>Words of different widths\<close>

lemma unat_ucast_32_64 [simp]: "unat (ucast (w :: 32 word) :: 64 word) = unat w"
  by transfer (simp add: take_bit_int_eq_self_iff min_def)

lemma unat_ucast_64_32: "unat x < 2 ^ 32 \<Longrightarrow> unat (ucast (x :: 64 word) :: 32 word) = unat x"
  by (simp add: unsigned_ucast_eq take_bit_nat_eq_self_iff)

lemma unat_32_less: "unat (w :: 32 word) < 2 ^ 32"
  by (rule order_less_le_trans [OF unsigned_less]) simp

lemma unat_64_less: "unat (w :: 64 word) < 2 ^ 64"
  by (rule order_less_le_trans [OF unsigned_less]) simp

lemma unat_diff: "a \<le> b \<Longrightarrow> unat (b - a :: 64 word) = unat b - unat a"
  by (rule unat_sub)

section \<open>Characters\<close>

definition uchar :: "char \<Rightarrow> nat" where
  "uchar c = of_char c"

definition c_isspace :: "char \<Rightarrow> bool" where
  "c_isspace c \<longleftrightarrow> uchar c = 32 \<or> 9 \<le> uchar c \<and> uchar c \<le> 13"

definition c_isdigit :: "char \<Rightarrow> bool" where
  "c_isdigit c \<longleftrightarrow> 48 \<le> uchar c \<and> uchar c \<le> 57"

definition c_tolower :: "char \<Rightarrow> char" where
  "c_tolower c = (if 65 \<le> uchar c \<and> uchar c \<le> 90 then char_of (uchar c + 32) else c)"

definition strcasecmp_eq :: "string \<Rightarrow> string \<Rightarrow> bool" where
  "strcasecmp_eq a b \<longleftrightarrow> map c_tolower a = map c_tolower b"

lemmas [cstr] = uchar_def c_isspace_def c_isdigit_def c_tolower_def strcasecmp_eq_def

lemma uchar_less [simp]: "uchar c < 256"
  by (simp add: uchar_def)

lemma uchar_eq_iff: "uchar a = uchar b \<longleftrightarrow> a = b"
  by (simp add: uchar_def)

lemma uchar_char_of: "n < 256 \<Longrightarrow> uchar (char_of n) = n"
  by (simp add: uchar_def)

section \<open>Bounded buffers: snprintf\<close>

text \<open>
  \<^verbatim>\<open>snprintf(buf, size, ...)\<close> returns the length of the whole text and stores its first
  \<open>size - 1\<close> characters. The sources test \<open>result >= (int) size\<close>, that is \<open>\<not> fits size text\<close>;
  where they ignore the result the buffer holds \<open>cut size text\<close>.
\<close>

definition fits :: "nat \<Rightarrow> string \<Rightarrow> bool" where
  "fits n s \<longleftrightarrow> length s < n"

definition cut :: "nat \<Rightarrow> string \<Rightarrow> string" where
  "cut n s = take (n - 1) s"

lemma cut_fits: "fits n s \<Longrightarrow> cut n s = s"
  by (simp add: fits_def cut_def)

lemma fits_cut: "0 < n \<Longrightarrow> fits n (cut n s)"
  by (simp add: fits_def cut_def min_def) linarith

section \<open>Decimal text and strtoul\<close>

definition digit_char :: "nat \<Rightarrow> char" where
  "digit_char d = char_of (48 + d)"

fun dec :: "nat \<Rightarrow> string" where
  "dec n = (if n < 10 then [digit_char n] else dec (n div 10) @ [digit_char (n mod 10)])"

declare dec.simps [simp del]

definition dec2 :: "nat \<Rightarrow> string" where \<comment> \<open>\<^verbatim>\<open>%02u\<close>\<close>
  "dec2 n = (if n < 10 then CHR ''0'' # dec n else dec n)"

definition digits_value :: "string \<Rightarrow> nat" where
  "digits_value s = foldl (\<lambda>v c. 10 * v + (uchar c - 48)) 0 s"

lemma digit_char_digit: "d < 10 \<Longrightarrow> c_isdigit (digit_char d) \<and> uchar (digit_char d) = 48 + d"
  by (simp add: digit_char_def c_isdigit_def uchar_char_of)

lemma dec_digits: "\<forall>c \<in> set (dec n). c_isdigit c"
proof (induction n rule: dec.induct)
  case (1 n)
  then show ?case by (subst dec.simps) (auto simp: digit_char_digit)
qed

lemma dec_nonempty [simp]: "dec n \<noteq> []"
  by (subst dec.simps) simp

lemma digits_value_snoc: "digits_value (s @ [c]) = 10 * digits_value s + (uchar c - 48)"
  by (simp add: digits_value_def)

lemma digits_value_dec: "digits_value (dec n) = n"
proof (induction n rule: dec.induct)
  case (1 n)
  show ?case
  proof (cases "n < 10")
    case True
    then show ?thesis by (subst dec.simps) (simp add: digits_value_def digit_char_digit)
  next
    case False
    with "1.IH" have IH: "digits_value (dec (n div 10)) = n div 10" by simp
    have "dec n = dec (n div 10) @ [digit_char (n mod 10)]"
      using False by (subst dec.simps) simp
    then have "digits_value (dec n) = 10 * (n div 10) + (uchar (digit_char (n mod 10)) - 48)"
      using IH by (simp add: digits_value_snoc)
    then show ?thesis by (simp add: digit_char_digit)
  qed
qed

lemma dec_length: "n < 10 ^ Suc k \<Longrightarrow> length (dec n) \<le> Suc k"
proof (induction k arbitrary: n)
  case 0
  then show ?case by (subst dec.simps) simp
next
  case (Suc k)
  show ?case
  proof (cases "n < 10")
    case True
    then show ?thesis by (subst dec.simps) simp
  next
    case False
    have "n div 10 < 10 ^ Suc k" using Suc.prems by (simp add: div_less_iff_less_mult)
    from Suc.IH [OF this] False show ?thesis by (subst dec.simps) simp
  qed
qed

lemma dec_word_length: "length (dec (unat (w :: 64 word))) \<le> 20"
proof -
  have "unat w < 10 ^ Suc 19" using unat_64_less [of w] by simp
  from dec_length [OF this] show ?thesis by simp
qed

lemma dec_inj: "dec m = dec n \<Longrightarrow> m = n"
  by (metis digits_value_dec)

lemma isdigit_not_space: "c_isdigit c \<Longrightarrow> \<not> c_isspace c"
  by (auto simp: c_isdigit_def c_isspace_def)

text \<open>
  \<^verbatim>\<open>strtoul(s, &end, 10)\<close> on a 64-bit \<^verbatim>\<open>unsigned long\<close>: white space, an optional sign, digits.
  \<open>None\<close> is "no conversion" (\<open>end == s\<close>); otherwise the value, the unread rest and whether
  \<^verbatim>\<open>errno\<close> became \<^verbatim>\<open>ERANGE\<close>. A minus sign negates in unsigned arithmetic.
\<close>

definition ULONG_MAX :: nat where
  "ULONG_MAX = 2 ^ 64 - 1"

definition c_strtoul :: "string \<Rightarrow> (nat \<times> string \<times> bool) option" where
  "c_strtoul s =
     (let s1 = dropWhile c_isspace s;
          neg = (s1 \<noteq> [] \<and> hd s1 = CHR ''-'');
          s2 = (if s1 \<noteq> [] \<and> (hd s1 = CHR ''-'' \<or> hd s1 = CHR ''+'') then tl s1 else s1);
          ds = takeWhile c_isdigit s2;
          v = digits_value ds
      in if ds = [] then None
         else if ULONG_MAX < v then Some (ULONG_MAX, dropWhile c_isdigit s2, True)
         else Some (if neg \<and> 0 < v then 2 ^ 64 - v else v, dropWhile c_isdigit s2, False))"

lemma c_strtoul_bound: "c_strtoul s = Some (v, rest, er) \<Longrightarrow> v \<le> ULONG_MAX"
  by (auto simp: c_strtoul_def Let_def ULONG_MAX_def split: if_splits)

lemma dec_hd: "hd (dec n) \<in> set (dec n)"
  by (rule hd_in_set) simp

lemma c_strtoul_dec:
  assumes "n \<le> ULONG_MAX" and rest: "rest = [] \<or> \<not> c_isdigit (hd rest)"
  shows "c_strtoul (dec n @ rest) = Some (n, rest, False)"
proof -
  obtain x xs where d: "dec n = x # xs" by (cases "dec n") auto
  have x: "c_isdigit x" using dec_digits [of n] d by simp
  have ds: "takeWhile c_isdigit (dec n @ rest) = dec n"
    using dec_digits [of n] rest by (cases rest) auto
  have rs: "dropWhile c_isdigit (dec n @ rest) = rest"
    using dec_digits [of n] rest by (cases rest) auto
  have sign: "x \<noteq> CHR ''-''" "x \<noteq> CHR ''+''"
    using x by (auto simp: cstr)
  have sp: "dropWhile c_isspace (dec n @ rest) = dec n @ rest"
    using x d by (simp add: isdigit_not_space)
  have "digits_value (dec n) = n" by (rule digits_value_dec)
  with sp ds rs sign d assms(1) show ?thesis
    unfolding c_strtoul_def Let_def by (simp add: ULONG_MAX_def)
qed

section \<open>Trimming white space\<close>

text \<open>The two loops of \<^verbatim>\<open>syseba_trim\<close> and \<^verbatim>\<open>syseba_trim_token\<close>: from the left, then from the right.\<close>

definition c_trim :: "string \<Rightarrow> string" where
  "c_trim s = rev (dropWhile c_isspace (rev (dropWhile c_isspace s)))"

definition trimmed :: "string \<Rightarrow> bool" where
  "trimmed s \<longleftrightarrow> s = [] \<or> \<not> c_isspace (hd s) \<and> \<not> c_isspace (last s)"

lemma rev_dropWhile_rev: "s = [] \<or> \<not> P (last s) \<Longrightarrow> rev (dropWhile P (rev s)) = s"
  by (cases s rule: rev_cases) auto

lemma c_trim_id: "trimmed s \<Longrightarrow> c_trim s = s"
proof -
  assume t: "trimmed s"
  then have "dropWhile c_isspace s = s"
    by (cases s) (auto simp: trimmed_def)
  with t rev_dropWhile_rev [of s c_isspace] show ?thesis
    by (auto simp: c_trim_def trimmed_def)
qed

lemma c_trim_append_space: "c_isspace c \<Longrightarrow> c_trim (s @ [c]) = c_trim s"
proof (cases "\<forall>x \<in> set s. c_isspace x")
  case True
  then have "dropWhile c_isspace s = []" by simp
  moreover assume "c_isspace c"
  ultimately show ?thesis
    using True by (auto simp: c_trim_def dropWhile_append dest: set_dropWhileD)
next
  case False
  moreover assume "c_isspace c"
  ultimately show ?thesis by (auto simp: c_trim_def dropWhile_append)
qed

lemma c_trim_Cons_space: "c_isspace c \<Longrightarrow> c_trim (c # s) = c_trim s"
  by (simp add: c_trim_def)

lemma c_trim_trimmed: "trimmed (c_trim s)"
proof -
  let ?t = "dropWhile c_isspace s"
  have last: "c_trim s \<noteq> [] \<Longrightarrow> \<not> c_isspace (last (c_trim s))"
    unfolding c_trim_def by (metis hd_dropWhile hd_rev rev_is_Nil_conv rev_rev_ident)
  have pre: "prefix (c_trim s) ?t"
    unfolding c_trim_def by (metis rev_rev_ident suffix_dropWhile suffix_to_prefix)
  have "c_trim s \<noteq> [] \<Longrightarrow> hd (c_trim s) = hd ?t"
    using pre by (auto simp: prefix_def)
  moreover have "c_trim s \<noteq> [] \<Longrightarrow> ?t \<noteq> []"
    using pre prefix_bot.extremum_unique by fastforce
  ultimately show ?thesis
    using last hd_dropWhile [of c_isspace s] by (auto simp: trimmed_def)
qed

section \<open>Separators: strtok, strrchr\<close>

fun split_on :: "char \<Rightarrow> string \<Rightarrow> string list" where
  "split_on c [] = [[]]"
| "split_on c (x # xs) =
     (if x = c then [] # split_on c xs
      else (case split_on c xs of [] \<Rightarrow> [[x]] | w # ws \<Rightarrow> (x # w) # ws))"

definition strtok :: "char \<Rightarrow> string \<Rightarrow> string list" where
  "strtok c s = filter (\<lambda>w. w \<noteq> []) (split_on c s)"

text \<open>\<^verbatim>\<open>strrchr(s, c)\<close>: the text before the last \<open>c\<close> and the text after it.\<close>

definition strrchr :: "char \<Rightarrow> string \<Rightarrow> (string \<times> string) option" where
  "strrchr c s =
     (if c \<in> set s
      then Some (rev (tl (dropWhile (\<lambda>x. x \<noteq> c) (rev s))), rev (takeWhile (\<lambda>x. x \<noteq> c) (rev s)))
      else None)"

lemma split_on_nonempty [simp]: "split_on c s \<noteq> []"
  by (induction s) (auto split: list.splits)

lemma split_on_parts: "w \<in> set (split_on c s) \<Longrightarrow> c \<notin> set w"
  by (induction s arbitrary: w) (auto split: list.splits if_splits)

lemma split_on_chars: "w \<in> set (split_on c s) \<Longrightarrow> set w \<subseteq> set s"
proof (induction s arbitrary: w)
  case (Cons x xs)
  then show ?case
    by (cases "split_on c xs") (fastforce split: if_splits)+
qed simp

lemma split_on_word: "c \<notin> set w \<Longrightarrow> split_on c w = [w]"
  by (induction w) auto

lemma split_on_append_sep:
  "c \<notin> set w \<Longrightarrow> split_on c (w @ c # s) = w # split_on c s"
  by (induction w) auto

lemma split_on_append:
  "split_on c (s @ c # t) = split_on c s @ split_on c t"
  by (induction s) (auto split: list.splits)

lemma strtok_append: "strtok c (s @ c # t) = strtok c s @ strtok c t"
  by (simp add: strtok_def split_on_append)

lemma strtok_Cons_sep: "strtok c (c # t) = strtok c t"
  by (simp add: strtok_def)

lemma strtok_word: "c \<notin> set w \<Longrightarrow> w \<noteq> [] \<Longrightarrow> strtok c w = [w]"
  by (simp add: strtok_def split_on_word)

lemma strtok_Nil [simp]: "strtok c [] = []"
  by (simp add: strtok_def)

lemma strtok_parts: "w \<in> set (strtok c s) \<Longrightarrow> w \<noteq> [] \<and> c \<notin> set w \<and> set w \<subseteq> set s"
  using split_on_parts split_on_chars by (fastforce simp: strtok_def)

lemma length_concat_split_on:
  "length (concat (split_on c s)) + length (split_on c s) = length s + 1"
  by (induction s) (auto split: list.splits)

lemma strtok_length: "2 * length (strtok c s) \<le> length s + 1"
proof -
  have le: "length (filter (\<lambda>w. w \<noteq> []) ws) \<le> length (concat ws)" for ws :: "string list"
  proof (induction ws)
    case (Cons w ws)
    then show ?case by (cases w) auto
  qed simp
  have "length (strtok c s) \<le> length (concat (split_on c s))"
    unfolding strtok_def by (rule le)
  moreover have "length (strtok c s) \<le> length (split_on c s)"
    unfolding strtok_def by (rule length_filter_le)
  ultimately show ?thesis
    using length_concat_split_on [of c s] by linarith
qed

lemma strrchr_None [simp]: "strrchr c s = None \<longleftrightarrow> c \<notin> set s"
  by (simp add: strrchr_def)

lemma strrchr_append: "c \<notin> set t \<Longrightarrow> strrchr c (s @ c # t) = Some (s, t)"
  by (simp add: strrchr_def takeWhile_append dropWhile_append)

lemma strrchr_Some: "strrchr c s = Some (a, b) \<longleftrightarrow> s = a @ c # b \<and> c \<notin> set b"
proof
  assume r: "strrchr c s = Some (a, b)"
  then have "c \<in> set s" by (simp add: strrchr_def split: if_splits)
  then obtain x y where s: "s = x @ c # y" and y: "c \<notin> set y"
    by (meson split_list_last)
  with r strrchr_append [OF y, of x] show "s = a @ c # b \<and> c \<notin> set b" by simp
next
  assume "s = a @ c # b \<and> c \<notin> set b"
  then show "strrchr c s = Some (a, b)" using strrchr_append by auto
qed

section \<open>Path components and canonical path strings\<close>

abbreviation slash :: char where
  "slash \<equiv> CHR ''/''"

definition good_comp :: "string \<Rightarrow> bool" where
  "good_comp w \<longleftrightarrow> w \<noteq> [] \<and> slash \<notin> set w \<and> w \<noteq> ''.'' \<and> w \<noteq> ''..''"

text \<open>The absolute path string of a list of components.\<close>

definition path_str :: "string list \<Rightarrow> string" where
  "path_str cs = (if cs = [] then [slash] else concat (map (Cons slash) cs))"

lemma split_on_concat:
  "\<forall>c \<in> set cs. slash \<notin> set c \<Longrightarrow> split_on slash (concat (map (Cons slash) cs)) = [] # cs"
proof (induction cs)
  case (Cons c cs)
  show ?case
  proof (cases cs)
    case Nil
    with Cons.prems show ?thesis by (simp add: split_on_word)
  next
    case (Cons d ds)
    with Cons.prems Cons.IH show ?thesis
      using split_on_append_sep [of slash c "d @ concat (map (Cons slash) ds)"] by simp
  qed
qed simp

lemma strtok_path_str: "\<forall>c \<in> set cs. good_comp c \<Longrightarrow> strtok slash (path_str cs) = cs"
proof -
  assume g: "\<forall>c \<in> set cs. good_comp c"
  then have "filter (\<lambda>w. w \<noteq> []) cs = cs"
    by (simp add: good_comp_def filter_id_conv)
  with g show ?thesis
    by (simp add: path_str_def strtok_def split_on_concat good_comp_def)
qed

lemma path_str_hd [simp]: "path_str cs \<noteq> [] \<and> hd (path_str cs) = slash"
  by (cases cs) (auto simp: path_str_def)

lemma path_str_Cons: "\<exists>t. path_str cs = slash # t"
  by (cases cs) (auto simp: path_str_def)

lemma path_str_inj:
  "\<forall>c \<in> set as. good_comp c \<Longrightarrow> \<forall>c \<in> set bs. good_comp c \<Longrightarrow> path_str as = path_str bs \<Longrightarrow> as = bs"
  by (metis strtok_path_str)

lemma path_str_snoc: "cs \<noteq> [] \<Longrightarrow> path_str (cs @ [c]) = path_str cs @ slash # c"
  by (simp add: path_str_def)

lemma last_path_str: "\<forall>c \<in> set cs. good_comp c \<Longrightarrow> cs \<noteq> [] \<Longrightarrow> last (path_str cs) \<noteq> slash"
proof (cases cs rule: rev_cases)
  case (snoc ys y)
  assume "\<forall>c \<in> set cs. good_comp c"
  with snoc have "y \<noteq> []" and "slash \<notin> set y" by (auto simp: good_comp_def)
  moreover have "last (path_str cs) = last y"
    using snoc \<open>y \<noteq> []\<close> by (cases "ys = []") (auto simp: path_str_def)
  ultimately show ?thesis by (metis last_in_set)
qed simp

text \<open>
  The containment test on two path strings: a textual prefix that ends at a component boundary.
\<close>

definition str_within :: "string \<Rightarrow> string \<Rightarrow> bool" where
  "str_within b c \<longleftrightarrow>
     prefix b c \<and> (b \<noteq> [] \<and> last b = slash \<or> length c = length b \<or> c ! length b = slash)"

lemma concat_slash_within:
  assumes "\<forall>c \<in> set bs. slash \<notin> set c" and "\<forall>c \<in> set cs. slash \<notin> set c"
  shows "(\<exists>t. concat (map (Cons slash) cs) = concat (map (Cons slash) bs) @ t \<and> (t = [] \<or> hd t = slash))
    \<longleftrightarrow> prefix bs cs"
proof
  assume "prefix bs cs"
  then obtain ds where "cs = bs @ ds" by (auto simp: prefix_def)
  then show "\<exists>t. concat (map (Cons slash) cs) = concat (map (Cons slash) bs) @ t \<and> (t = [] \<or> hd t = slash)"
    by (cases ds) auto
next
  assume "\<exists>t. concat (map (Cons slash) cs) = concat (map (Cons slash) bs) @ t \<and> (t = [] \<or> hd t = slash)"
  then obtain t where t: "concat (map (Cons slash) cs) = concat (map (Cons slash) bs) @ t"
    and h: "t = [] \<or> hd t = slash" by blast
  show "prefix bs cs"
  proof (cases t)
    case Nil
    with t assms have "[] # cs = [] # bs" by (metis append_Nil2 split_on_concat)
    then show ?thesis by simp
  next
    case (Cons x u)
    with t h have "concat (map (Cons slash) cs) = concat (map (Cons slash) bs) @ slash # u" by simp
    then have "split_on slash (concat (map (Cons slash) cs))
        = split_on slash (concat (map (Cons slash) bs)) @ split_on slash u"
      by (simp add: split_on_append)
    with assms have "cs = bs @ split_on slash u" by (simp add: split_on_concat)
    then show ?thesis by simp
  qed
qed

lemma str_within_path_str:
  assumes b: "\<forall>c \<in> set bs. good_comp c" and c: "\<forall>c \<in> set cs. good_comp c"
  shows "str_within (path_str bs) (path_str cs) \<longleftrightarrow> prefix bs cs"
proof (cases "bs = []")
  case True
  then show ?thesis
    using path_str_Cons [of cs] by (auto simp: str_within_def path_str_def [of "[]"])
next
  case False
  show ?thesis
  proof (cases "cs = []")
    case True
    obtain x xs where bs: "bs = x # xs" using False by (cases bs) auto
    then have "x \<noteq> []" using b by (simp add: good_comp_def)
    with bs True False show ?thesis
      by (auto simp: str_within_def path_str_def prefix_def)
  next
    case cs: False
    have "str_within (path_str bs) (path_str cs) \<longleftrightarrow>
      (\<exists>t. path_str cs = path_str bs @ t \<and> (t = [] \<or> hd t = slash))"
      using last_path_str [OF b False]
      by (auto simp: str_within_def prefix_def nth_append) (metis hd_conv_nth)+
    also have "\<dots> \<longleftrightarrow> prefix bs cs"
      using concat_slash_within [of bs cs] b c cs False by (simp add: path_str_def good_comp_def)
    finally show ?thesis .
  qed
qed

section \<open>Tables with keys\<close>

text \<open>
  A table with keys: an entry that has been added is found, and no other entry is affected.
\<close>

locale keyed_table =
  fixes ok :: "'t \<Rightarrow> bool" and lookup :: "'t \<Rightarrow> 'k \<Rightarrow> 'v option" and add :: "'k \<Rightarrow> 'v \<Rightarrow> 't \<Rightarrow> 't"
  assumes add_ok: "ok t \<Longrightarrow> lookup t p = None \<Longrightarrow> ok (add p v t)"
    and lookup_add: "ok t \<Longrightarrow> lookup (add p v t) q = (if q = p then Some v else lookup t q)"
begin

lemma fill:
  "ok t \<Longrightarrow> distinct (map fst xs) \<Longrightarrow> \<forall>x \<in> set xs. lookup t (fst x) = None \<Longrightarrow>
     ok (foldl (\<lambda>t x. add (fst x) (snd x) t) t xs) \<and>
     lookup (foldl (\<lambda>t x. add (fst x) (snd x) t) t xs) = lookup t ++ map_of xs"
proof (induction xs arbitrary: t)
  case (Cons x xs)
  then have new: "ok (add (fst x) (snd x) t)" by (intro add_ok) auto
  have "\<forall>y \<in> set xs. lookup (add (fst x) (snd x) t) (fst y) = None"
    using Cons.prems by (auto simp: lookup_add image_iff)
  with Cons.IH [OF new] Cons.prems have IH: "ok (foldl (\<lambda>t x. add (fst x) (snd x) t) (add (fst x) (snd x) t) xs)"
    "lookup (foldl (\<lambda>t x. add (fst x) (snd x) t) (add (fst x) (snd x) t) xs) = lookup (add (fst x) (snd x) t) ++ map_of xs" by auto
  have "map_of xs (fst x) = None" using Cons.prems(2) by (simp add: map_of_eq_None_iff)
  then have "(lookup (add (fst x) (snd x) t) ++ map_of xs) q = (lookup t ++ map_of (x # xs)) q" for q
    using Cons.prems(1) by (cases x) (auto simp: lookup_add map_add_def split: option.splits)
  then have "lookup (add (fst x) (snd x) t) ++ map_of xs = lookup t ++ map_of (x # xs)" by blast
  with IH show ?case unfolding foldl.simps by metis
qed simp

end

end
