(* ===== verification/Posix.thy ===== *)
theory Posix
  imports Prelude
begin

text \<open>
  The operating-system interface the POSIX branch of SySeBa runs on, as far as the sources use it:
  a file tree with regular files, directories, symbolic links and other nodes, path resolution
  with intermediate links and \<^verbatim>\<open>..\<close>, and the calls \<^verbatim>\<open>lstat\<close>, \<^verbatim>\<open>open\<close>, \<^verbatim>\<open>read\<close>, \<^verbatim>\<open>write\<close>, \<^verbatim>\<open>fstat\<close>,
  \<^verbatim>\<open>fchmod\<close>, \<^verbatim>\<open>futimens\<close>, \<^verbatim>\<open>fsync\<close>, \<^verbatim>\<open>mkdir\<close>, \<^verbatim>\<open>rename\<close>, \<^verbatim>\<open>unlink\<close>, \<^verbatim>\<open>rmdir\<close>, \<^verbatim>\<open>readdir\<close> and \<^verbatim>\<open>realpath\<close>.

  Every call first takes one entry of the schedule \<open>os_sched\<close>: it may fail with any \<^verbatim>\<open>errno\<close>
  (permissions, a full disk, an interrupted call, another device), transfer fewer bytes than asked,
  or find that another process has changed the file being read. An exhausted schedule means no
  further interference, so a theorem over all schedules covers every failure at every call.
  \<^verbatim>\<open>errno\<close> is part of the state and, as POSIX says, a successful call does not clear it.
\<close>

section \<open>Nodes and the file tree\<close>

datatype errno =
    ENOENT | EEXIST | ENOTDIR | EISDIR | ENOTEMPTY | ELOOP | EACCES | EINVAL | ENAMETOOLONG
  | EXDEV | EAGAIN | EINTR | EIO | ENOSPC | EROFS | ENOMEM

record inode =
  f_data :: string
  f_mode :: nat
  f_mtime :: int
  f_atime :: int
  f_dev :: nat
  f_ino :: nat

datatype node = Reg inode | Dir | Lnk string | Special

type_synonym cpath = "string list"
type_synonym fstree = "(cpath \<times> node) list"

text \<open>The root directory always exists; other locations are looked up in the tree.\<close>

definition fs_get :: "fstree \<Rightarrow> cpath \<Rightarrow> node option" where
  "fs_get t p = (if p = [] then Some Dir else map_of t p)"

definition fs_put :: "cpath \<Rightarrow> node \<Rightarrow> fstree \<Rightarrow> fstree" where
  "fs_put p n t = AList.update p n t"

definition fs_del :: "cpath \<Rightarrow> fstree \<Rightarrow> fstree" where
  "fs_del p t = AList.delete p t"

text \<open>The names in a directory, in the order the kernel lists them.\<close>

definition children :: "fstree \<Rightarrow> cpath \<Rightarrow> string list" where
  "children t d = map last (filter (\<lambda>k. k \<noteq> [] \<and> butlast k = d) (map fst t))"

text \<open>\<^verbatim>\<open>rename\<close> moves a node with everything below it.\<close>

definition fs_move :: "cpath \<Rightarrow> cpath \<Rightarrow> fstree \<Rightarrow> fstree" where
  "fs_move a b t =
     map (\<lambda>(k, n). (b @ drop (length a) k, n)) (filter (\<lambda>(k, n). prefix a k) t) @
     filter (\<lambda>(k, n). \<not> prefix a k \<and> \<not> prefix b k) t"

lemma fs_get_root [simp]: "fs_get t [] = Some Dir"
  by (simp add: fs_get_def)

lemma fs_get_put [simp]: "p \<noteq> [] \<Longrightarrow> fs_get (fs_put p n t) q = (if q = p then Some n else fs_get t q)"
  by (simp add: fs_get_def fs_put_def update_conv)

lemma fs_get_del [simp]: "p \<noteq> [] \<Longrightarrow> fs_get (fs_del p t) q = (if q = p then None else fs_get t q)"
  by (simp add: fs_get_def fs_del_def delete_conv)

lemma map_of_filter_key: "map_of (filter (\<lambda>(k, n). P k) t) q = (if P q then map_of t q else None)"
  by (induction t) auto

lemma map_of_move:
  "map_of (map (\<lambda>(k, n). (b @ drop (length a) k, n)) (filter (\<lambda>(k, n). prefix a k) t)) q =
     (if prefix b q then map_of t (a @ drop (length b) q) else None)"
  by (induction t) (auto simp: prefix_def)

text \<open>After a rename the nodes below the new name are those that were below the old one.\<close>

lemma fs_get_move:
  assumes "a \<noteq> []" and "b \<noteq> []"
  shows "fs_get (fs_move a b t) q =
    (if prefix b q then fs_get t (a @ drop (length b) q) else if prefix a q then None else fs_get t q)"
  using assms
  by (auto simp: fs_get_def fs_move_def map_add_def map_of_move map_of_filter_key
      map_of_append split: option.splits)

lemma children_iff:
  "c \<in> set (children t d) \<longleftrightarrow> fs_get t (d @ [c]) \<noteq> None"
proof -
  have "c \<in> set (children t d) \<longleftrightarrow> (\<exists>k \<in> fst ` set t. k \<noteq> [] \<and> butlast k = d \<and> last k = c)"
    by (auto simp: children_def)
  also have "\<dots> \<longleftrightarrow> d @ [c] \<in> fst ` set t"
    by (metis append_butlast_last_id butlast_snoc last_snoc snoc_eq_iff_butlast)
  also have "\<dots> \<longleftrightarrow> fs_get t (d @ [c]) \<noteq> None"
    by (simp add: fs_get_def map_of_eq_None_iff)
  finally show ?thesis .
qed

section \<open>Path resolution\<close>

text \<open>
  \<open>namei t n base cs follow\<close> resolves the components \<open>cs\<close> from the directory \<open>base\<close>; \<open>n\<close> bounds
  the number of symbolic links (Linux allows 40). The last component may be missing; a link there
  is followed only with \<open>follow\<close>.
\<close>

text \<open>Where a link's target starts: at the root for an absolute target, else in the link's directory.\<close>

definition link_base :: "cpath \<Rightarrow> string \<Rightarrow> cpath" where
  "link_base base target = (if target \<noteq> [] \<and> hd target = slash then [] else base)"

function namei :: "fstree \<Rightarrow> nat \<Rightarrow> cpath \<Rightarrow> string list \<Rightarrow> bool \<Rightarrow> errno + cpath" where
  "namei t n base [] follow = Inr base"
| "namei t n base (c # cs) follow =
     (if c = [] \<or> c = ''.'' then namei t n base cs follow
      else if c = ''..'' then namei t n (butlast base) cs follow
      else (case fs_get t (base @ [c]) of
          None \<Rightarrow> if cs = [] then Inr (base @ [c]) else Inl ENOENT
        | Some Dir \<Rightarrow> namei t n (base @ [c]) cs follow
        | Some (Lnk target) \<Rightarrow>
            if cs = [] \<and> \<not> follow then Inr (base @ [c])
            else (case n of 0 \<Rightarrow> Inl ELOOP
              | Suc m \<Rightarrow> namei t m (link_base base target) (split_on slash target @ cs) follow)
        | Some (Reg f) \<Rightarrow> if cs = [] then Inr (base @ [c]) else Inl ENOTDIR
        | Some Special \<Rightarrow> if cs = [] then Inr (base @ [c]) else Inl ENOTDIR))"
  by pat_completeness auto
termination
  by (relation "measures [\<lambda>(t, n, base, cs, follow). n, \<lambda>(t, n, base, cs, follow). length cs]") auto

definition max_links :: nat where
  "max_links = 40"

section \<open>The state and the calls\<close>

record tm =
  tm_year :: nat
  tm_mon :: nat
  tm_mday :: nat
  tm_hour :: nat
  tm_min :: nat
  tm_sec :: nat

datatype sysev = SOk | SFail errno | SPartial nat | SChange inode

record os =
  os_fs :: fstree
  os_cwd :: cpath
  os_errno :: "errno option"
  os_sched :: "sysev list"
  os_clock :: "(nat \<times> nat) list"
  os_pid :: nat
  os_time :: int
  os_localtime :: "int \<Rightarrow> tm"
  os_dmtime :: "cpath \<Rightarrow> int"
  os_ino :: nat

definition locate :: "bool \<Rightarrow> string \<Rightarrow> os \<Rightarrow> errno + cpath" where
  "locate follow p s =
     (if p = [] then Inl ENOENT
      else namei (os_fs s) max_links (if hd p = slash then [] else os_cwd s) (split_on slash p) follow)"

definition set_errno :: "errno \<Rightarrow> os \<Rightarrow> os" where
  "set_errno e s = s\<lparr>os_errno := Some e\<rparr>"

definition tick :: "os \<Rightarrow> sysev \<times> os" where
  "tick s = (case os_sched s of [] \<Rightarrow> (SOk, s) | e # es \<Rightarrow> (e, s\<lparr>os_sched := es\<rparr>))"

definition syscall :: "(sysev \<Rightarrow> os \<Rightarrow> (errno + 'a) \<times> os) \<Rightarrow> os \<Rightarrow> (errno + 'a) \<times> os" where
  "syscall body s =
     (case tick s of
        (SFail e, s1) \<Rightarrow> (Inl e, set_errno e s1)
      | (ev, s1) \<Rightarrow> (case body ev s1 of
            (Inl e, s2) \<Rightarrow> (Inl e, set_errno e s2)
          | (Inr x, s2) \<Rightarrow> (Inr x, s2)))"

definition query :: "(os \<Rightarrow> errno + 'a) \<Rightarrow> os \<Rightarrow> (errno + 'a) \<times> os" where
  "query q = syscall (\<lambda>_ s. (q s, s))"

definition lookup_node :: "bool \<Rightarrow> string \<Rightarrow> os \<Rightarrow> errno + (cpath \<times> node)" where
  "lookup_node follow p s =
     (case locate follow p s of
        Inl e \<Rightarrow> Inl e
      | Inr loc \<Rightarrow> (case fs_get (os_fs s) loc of None \<Rightarrow> Inl ENOENT | Some n \<Rightarrow> Inr (loc, n)))"

definition sys_lstat :: "string \<Rightarrow> os \<Rightarrow> (errno + (cpath \<times> node)) \<times> os" where
  "sys_lstat p = query (lookup_node False p)"

text \<open>\<^verbatim>\<open>realpath\<close>: every component must exist; the result is the canonical path string.\<close>

definition sys_realpath :: "string \<Rightarrow> os \<Rightarrow> (errno + string) \<times> os" where
  "sys_realpath p = query (\<lambda>s. case lookup_node True p s of
       Inl e \<Rightarrow> Inl e
     | Inr (loc, n) \<Rightarrow> if fits 4096 (path_str loc) then Inr (path_str loc) else Inl ENAMETOOLONG)"

definition sys_access :: "string \<Rightarrow> os \<Rightarrow> (errno + unit) \<times> os" where
  "sys_access p = query (\<lambda>s. case lookup_node True p s of Inl e \<Rightarrow> Inl e | Inr _ \<Rightarrow> Inr ())"

definition set_fs :: "fstree \<Rightarrow> os \<Rightarrow> os" where
  "set_fs t s = s\<lparr>os_fs := t\<rparr>"

definition strip_slashes :: "string \<Rightarrow> string" where
  "strip_slashes p = (if length p > 1 then hd p # rev (dropWhile (\<lambda>c. c = slash) (rev (tl p))) else p)"

text \<open>\<^verbatim>\<open>mkdir\<close> accepts slashes after a name that does not exist yet.\<close>

definition sys_mkdir :: "string \<Rightarrow> os \<Rightarrow> (errno + unit) \<times> os" where
  "sys_mkdir p = syscall (\<lambda>_ s.
     case locate False (strip_slashes p) s of
       Inl e \<Rightarrow> (Inl e, s)
     | Inr loc \<Rightarrow> (case fs_get (os_fs s) loc of
           Some _ \<Rightarrow> (Inl EEXIST, s)
         | None \<Rightarrow> (Inr (), set_fs (fs_put loc Dir (os_fs s)) s)))"

definition sys_unlink :: "string \<Rightarrow> os \<Rightarrow> (errno + unit) \<times> os" where
  "sys_unlink p = syscall (\<lambda>_ s.
     case lookup_node False p s of
       Inl e \<Rightarrow> (Inl e, s)
     | Inr (loc, Dir) \<Rightarrow> (Inl EISDIR, s)
     | Inr (loc, _) \<Rightarrow> (Inr (), set_fs (fs_del loc (os_fs s)) s))"

definition sys_rmdir :: "string \<Rightarrow> os \<Rightarrow> (errno + unit) \<times> os" where
  "sys_rmdir p = syscall (\<lambda>_ s.
     case lookup_node False p s of
       Inl e \<Rightarrow> (Inl e, s)
     | Inr (loc, Dir) \<Rightarrow>
         if loc = [] \<or> children (os_fs s) loc \<noteq> [] then (Inl ENOTEMPTY, s)
         else (Inr (), set_fs (fs_del loc (os_fs s)) s)
     | Inr (loc, _) \<Rightarrow> (Inl ENOTDIR, s))"

definition rename_check :: "fstree \<Rightarrow> cpath \<times> node \<Rightarrow> cpath \<Rightarrow> errno option" where
  "rename_check t src b =
     (case src of (a, n) \<Rightarrow>
        if a = [] \<or> b = [] \<or> strict_prefix a b then Some EINVAL
        else (case fs_get t b of
            None \<Rightarrow> None
          | Some Dir \<Rightarrow> if n \<noteq> Dir then Some EISDIR
                        else if children t b \<noteq> [] then Some ENOTEMPTY else None
          | Some _ \<Rightarrow> if n = Dir then Some ENOTDIR else None))"

definition sys_rename :: "string \<Rightarrow> string \<Rightarrow> os \<Rightarrow> (errno + unit) \<times> os" where
  "sys_rename p q = syscall (\<lambda>_ s.
     case (lookup_node False p s, locate False q s) of
       (Inl e, _) \<Rightarrow> (Inl e, s)
     | (_, Inl e) \<Rightarrow> (Inl e, s)
     | (Inr (a, n), Inr b) \<Rightarrow>
         if a = b then (Inr (), s)
         else (case rename_check (os_fs s) (a, n) b of
             Some e \<Rightarrow> (Inl e, s)
           | None \<Rightarrow> (Inr (), set_fs (fs_move a b (os_fs s)) s)))"

text \<open>Opening for reading without following a final link yields the node's location.\<close>

definition sys_open_read :: "string \<Rightarrow> os \<Rightarrow> (errno + cpath) \<times> os" where
  "sys_open_read p = query (\<lambda>s.
     case lookup_node False p s of
       Inl e \<Rightarrow> Inl e
     | Inr (loc, Lnk _) \<Rightarrow> Inl ELOOP
     | Inr (loc, _) \<Rightarrow> Inr loc)"

text \<open>\<^verbatim>\<open>open(path, O_WRONLY | O_CREAT | O_EXCL | O_NOFOLLOW, mode)\<close>.\<close>

definition sys_open_excl :: "string \<Rightarrow> nat \<Rightarrow> os \<Rightarrow> (errno + cpath) \<times> os" where
  "sys_open_excl p mode = syscall (\<lambda>_ s.
     case locate False p s of
       Inl e \<Rightarrow> (Inl e, s)
     | Inr loc \<Rightarrow> (case fs_get (os_fs s) loc of
           Some _ \<Rightarrow> (Inl EEXIST, s)
         | None \<Rightarrow> (Inr loc,
             s\<lparr>os_fs := fs_put loc (Reg \<lparr>f_data = [], f_mode = mode, f_mtime = os_time s,
                   f_atime = os_time s, f_dev = 0, f_ino = os_ino s\<rparr>) (os_fs s),
               os_ino := os_ino s + 1\<rparr>)))"

text \<open>\<^verbatim>\<open>open(path, O_WRONLY | O_APPEND | O_CREAT | O_NOFOLLOW, mode)\<close>.\<close>

definition sys_open_append :: "string \<Rightarrow> nat \<Rightarrow> os \<Rightarrow> (errno + cpath) \<times> os" where
  "sys_open_append p mode = syscall (\<lambda>_ s.
     case locate False p s of
       Inl e \<Rightarrow> (Inl e, s)
     | Inr loc \<Rightarrow> (case fs_get (os_fs s) loc of
           Some (Lnk _) \<Rightarrow> (Inl ELOOP, s)
         | Some Dir \<Rightarrow> (Inl EISDIR, s)
         | Some _ \<Rightarrow> (Inr loc, s)
         | None \<Rightarrow> (Inr loc,
             s\<lparr>os_fs := fs_put loc (Reg \<lparr>f_data = [], f_mode = mode, f_mtime = os_time s,
                   f_atime = os_time s, f_dev = 0, f_ino = os_ino s\<rparr>) (os_fs s),
               os_ino := os_ino s + 1\<rparr>)))"

text \<open>\<^verbatim>\<open>fdopen\<close> allocates a stream and may fail.\<close>

definition sys_fdopen :: "cpath \<Rightarrow> os \<Rightarrow> (errno + unit) \<times> os" where
  "sys_fdopen loc = query (\<lambda>_. Inr ())"

text \<open>\<^verbatim>\<open>open(path, O_RDONLY | O_DIRECTORY)\<close>, which follows a final link.\<close>

definition sys_open_dir :: "string \<Rightarrow> os \<Rightarrow> (errno + cpath) \<times> os" where
  "sys_open_dir p = query (\<lambda>s.
     case lookup_node True p s of
       Inl e \<Rightarrow> Inl e
     | Inr (loc, Dir) \<Rightarrow> Inr loc
     | Inr (loc, _) \<Rightarrow> Inl ENOTDIR)"

text \<open>Calls on an open regular file, named by its location.\<close>

definition fd_file :: "cpath \<Rightarrow> os \<Rightarrow> inode option" where
  "fd_file loc s = (case fs_get (os_fs s) loc of Some (Reg f) \<Rightarrow> Some f | _ \<Rightarrow> None)"

definition fd_update :: "cpath \<Rightarrow> (inode \<Rightarrow> inode) \<Rightarrow> os \<Rightarrow> (errno + unit) \<times> os" where
  "fd_update loc upd s =
     (case fd_file loc s of
        None \<Rightarrow> (Inl EINVAL, s)
      | Some f \<Rightarrow> (Inr (), set_fs (fs_put loc (Reg (upd f)) (os_fs s)) s))"

definition sys_fstat :: "cpath \<Rightarrow> os \<Rightarrow> (errno + node) \<times> os" where
  "sys_fstat loc = query (\<lambda>s. case fs_get (os_fs s) loc of None \<Rightarrow> Inl ENOENT | Some n \<Rightarrow> Inr n)"

definition apply_change :: "sysev \<Rightarrow> cpath \<Rightarrow> os \<Rightarrow> os" where
  "apply_change ev loc s =
     (case ev of SChange f \<Rightarrow> snd (fd_update loc (\<lambda>_. f) s) | _ \<Rightarrow> s)"

text \<open>A short transfer: a read of a regular file returns at least one byte before the end of file.\<close>

definition read_count :: "sysev \<Rightarrow> nat \<Rightarrow> nat" where
  "read_count ev n = (case ev of SPartial k \<Rightarrow> min n (max 1 k) | _ \<Rightarrow> n)"

definition write_count :: "sysev \<Rightarrow> nat \<Rightarrow> nat" where
  "write_count ev n = (case ev of SPartial k \<Rightarrow> min n k | _ \<Rightarrow> n)"

definition sys_read :: "cpath \<Rightarrow> nat \<Rightarrow> nat \<Rightarrow> os \<Rightarrow> (errno + string) \<times> os" where
  "sys_read loc off n = syscall (\<lambda>ev s.
     let s' = apply_change ev loc s in
     (case fd_file loc s' of
        None \<Rightarrow> (Inl EISDIR, s')
      | Some f \<Rightarrow> (Inr (take (read_count ev n) (drop off (f_data f))), s')))"

definition sys_write :: "cpath \<Rightarrow> string \<Rightarrow> os \<Rightarrow> (errno + nat) \<times> os" where
  "sys_write loc bytes = syscall (\<lambda>ev s.
     let n = write_count ev (length bytes) in
     (case fd_update loc (\<lambda>f. f\<lparr>f_data := f_data f @ take n bytes\<rparr>) s of
        (Inl e, s') \<Rightarrow> (Inl e, s')
      | (Inr _, s') \<Rightarrow> (Inr n, s')))"

definition sys_fchmod :: "cpath \<Rightarrow> nat \<Rightarrow> os \<Rightarrow> (errno + unit) \<times> os" where
  "sys_fchmod loc mode = syscall (\<lambda>_. fd_update loc (\<lambda>f. f\<lparr>f_mode := mode\<rparr>))"

definition sys_futimens :: "cpath \<Rightarrow> int \<Rightarrow> int \<Rightarrow> os \<Rightarrow> (errno + unit) \<times> os" where
  "sys_futimens loc at mt = syscall (\<lambda>_. fd_update loc (\<lambda>f. f\<lparr>f_atime := at, f_mtime := mt\<rparr>))"

definition sys_fsync :: "cpath \<Rightarrow> os \<Rightarrow> (errno + unit) \<times> os" where
  "sys_fsync loc = query (\<lambda>_. Inr ())"

text \<open>
  Reading a whole stream with \<^verbatim>\<open>fgets\<close> or \<^verbatim>\<open>fread\<close>: the bytes delivered and whether \<^verbatim>\<open>ferror\<close> is set; a
  stream that fails after some bytes delivers those first.
\<close>

definition stdio_read :: "cpath \<Rightarrow> os \<Rightarrow> (string \<times> bool) \<times> os" where
  "stdio_read loc s =
     (case tick s of
        (SFail e, s1) \<Rightarrow> (([], True), set_errno e s1)
      | (ev, s1) \<Rightarrow>
          (case fd_file loc s1 of
             None \<Rightarrow> (([], True), set_errno EISDIR s1)
           | Some f \<Rightarrow>
               (case ev of
                  SPartial k \<Rightarrow> ((take k (f_data f), True), set_errno EIO s1)
                | _ \<Rightarrow> ((f_data f, False), s1))))"

text \<open>
  Writing text to a fresh stream and flushing it: the bytes that reached the file and whether the
  stream succeeded.
\<close>

definition stdio_write :: "cpath \<Rightarrow> string \<Rightarrow> os \<Rightarrow> bool \<times> os" where
  "stdio_write loc bytes s =
     (case tick s of
        (SFail e, s1) \<Rightarrow> (False, set_errno e s1)
      | (ev, s1) \<Rightarrow>
          let n = write_count ev (length bytes) in
          (case fd_update loc (\<lambda>f. f\<lparr>f_data := f_data f @ take n bytes\<rparr>) s1 of
             (Inl e, s2) \<Rightarrow> (False, set_errno e s2)
           | (Inr _, s2) \<Rightarrow> if n < length bytes then (False, set_errno ENOSPC s2) else (True, s2)))"

definition sys_fclose :: "cpath \<Rightarrow> os \<Rightarrow> (errno + unit) \<times> os" where
  "sys_fclose loc = query (\<lambda>_. Inr ())"

text \<open>
  \<^verbatim>\<open>opendir\<close> and the \<^verbatim>\<open>readdir\<close> sequence: the names, with the two dot entries first, and the error
  at which the sequence breaks off, if it does.
\<close>

definition sys_readdir :: "string \<Rightarrow> os \<Rightarrow> (errno + (string list \<times> errno option)) \<times> os" where
  "sys_readdir p = syscall (\<lambda>ev s.
     (case lookup_node True p s of
        Inl e \<Rightarrow> Inl e
      | Inr (loc, Dir) \<Rightarrow>
          let names = ''.'' # ''..'' # children (os_fs s) loc in
          (case ev of SPartial k \<Rightarrow> Inr (take k names, Some EIO) | _ \<Rightarrow> Inr (names, None))
      | Inr (loc, _) \<Rightarrow> Inl ENOTDIR, s))"

text \<open>\<^verbatim>\<open>clock_gettime(CLOCK_MONOTONIC)\<close>: the next reading as seconds and nanoseconds; no reading left is a failed call.\<close>

definition sys_clock :: "os \<Rightarrow> (nat \<times> nat) option \<times> os" where
  "sys_clock s = (case os_clock s of [] \<Rightarrow> (None, s) | w # ws \<Rightarrow> (Some w, s\<lparr>os_clock := ws\<rparr>))"

definition sys_getcwd :: "nat \<Rightarrow> os \<Rightarrow> (errno + string) \<times> os" where
  "sys_getcwd n = query (\<lambda>s. if fits n (path_str (os_cwd s)) then Inr (path_str (os_cwd s)) else Inl ENAMETOOLONG)"

definition sys_chmod :: "string \<Rightarrow> nat \<Rightarrow> os \<Rightarrow> (errno + unit) \<times> os" where
  "sys_chmod p mode = syscall (\<lambda>_ s.
     case lookup_node True p s of
       Inl e \<Rightarrow> (Inl e, s)
     | Inr (loc, Reg f) \<Rightarrow> (Inr (), set_fs (fs_put loc (Reg (f\<lparr>f_mode := mode\<rparr>)) (os_fs s)) s)
     | Inr (loc, _) \<Rightarrow> (Inr (), s))"

lemma set_errno_simps [simp]:
  "os_fs (set_errno e s) = os_fs s" "os_cwd (set_errno e s) = os_cwd s"
  "os_sched (set_errno e s) = os_sched s" "os_errno (set_errno e s) = Some e"
  "os_pid (set_errno e s) = os_pid s" "os_time (set_errno e s) = os_time s"
  "os_localtime (set_errno e s) = os_localtime s" "os_dmtime (set_errno e s) = os_dmtime s" "os_clock (set_errno e s) = os_clock s"
  by (simp_all add: set_errno_def)

lemma set_fs_simps [simp]:
  "os_fs (set_fs t s) = t" "os_cwd (set_fs t s) = os_cwd s" "os_sched (set_fs t s) = os_sched s"
  "os_errno (set_fs t s) = os_errno s" "os_pid (set_fs t s) = os_pid s"
  "os_time (set_fs t s) = os_time s" "os_localtime (set_fs t s) = os_localtime s"
  "os_dmtime (set_fs t s) = os_dmtime s"
  by (simp_all add: set_fs_def)

section \<open>Calls that only read\<close>

text \<open>
  A call that leaves the file tree, the working directory, the time and the process alone: only
  \<^verbatim>\<open>errno\<close>, the schedule and the clock readings may move, and an undisturbed run stays undisturbed.
\<close>

definition quiet :: "os \<Rightarrow> os \<Rightarrow> bool" where
  "quiet s s' \<longleftrightarrow>
     s' = s\<lparr>os_errno := os_errno s', os_sched := os_sched s', os_clock := os_clock s'\<rparr> \<and>
     suffix (os_sched s') (os_sched s)"

lemma quiet_refl [intro, simp]: "quiet s s"
  by (simp add: quiet_def)

lemma quiet_trans [trans]: "quiet s s' \<Longrightarrow> quiet s' s'' \<Longrightarrow> quiet s s''"
  by (cases s; cases s'; cases s'') (auto simp: quiet_def intro: suffix_order.trans)

lemma quiet_fs: "quiet s s' \<Longrightarrow> os_fs s' = os_fs s \<and> os_cwd s' = os_cwd s"
  by (cases s; cases s') (auto simp: quiet_def)

lemma quiet_env:
  "quiet s s' \<Longrightarrow> os_pid s' = os_pid s \<and> os_time s' = os_time s \<and> os_localtime s' = os_localtime s \<and>
     os_dmtime s' = os_dmtime s"
  by (cases s; cases s') (auto simp: quiet_def)

lemma quiet_suffix: "quiet s s' \<Longrightarrow> suffix (os_sched s') (os_sched s)"
  by (simp add: quiet_def)

lemma quiet_sched: "quiet s s' \<Longrightarrow> os_sched s = [] \<Longrightarrow> os_sched s' = []"
  using quiet_suffix by fastforce

lemma quiet_errno [intro, simp]: "quiet s (set_errno e s)"
  by (simp add: quiet_def set_errno_def)

lemma quiet_tick: "tick s = (ev, s') \<Longrightarrow> quiet s s'"
  by (auto simp: tick_def quiet_def suffix_def split: list.splits)

text \<open>
  What a routine that only reads guarantees: any reflexive and transitive relation that allows the
  schedule to advance and \<^verbatim>\<open>errno\<close> to be set is respected by every routine built from queries.
\<close>

locale reading =
  fixes R :: "os \<Rightarrow> os \<Rightarrow> bool"
  assumes R_refl [simp]: "R s s"
    and R_trans: "R s s' \<Longrightarrow> R s' s'' \<Longrightarrow> R s s''"
    and R_tick: "tick s = (ev, s') \<Longrightarrow> R s s'"
    and R_errno: "R s (set_errno e s)"
begin

lemma R_query: "R s (snd (query q s))"
proof -
  obtain ev s1 where t: "tick s = (ev, s1)" by (cases "tick s")
  have "R s1 (snd (query q s))"
    using t by (auto simp: query_def syscall_def R_errno split: sysev.splits sum.splits)
  with R_tick [OF t] show ?thesis by (rule R_trans)
qed

lemma reads_calls: "R s (snd (sys_lstat p s))" "R s (snd (sys_realpath p s))" "R s (snd (sys_getcwd n s))"
  by (simp_all add: sys_lstat_def sys_realpath_def sys_getcwd_def R_query)

end

interpretation quiet: reading quiet
  by unfold_locales (auto intro: quiet_trans quiet_tick)

lemmas query_quiet [frame] = quiet.R_query

lemma syscall_quiet: "(\<And>ev s1. snd (body ev s1) = s1) \<Longrightarrow> quiet s (snd (syscall body s))"
proof -
  assume b: "\<And>ev s1. snd (body ev s1) = s1"
  obtain ev s1 where t: "tick s = (ev, s1)" by (cases "tick s")
  have "quiet s1 (snd (syscall body s))"
    using t b [of ev s1] by (auto simp: syscall_def split: sysev.splits sum.splits prod.splits)
  with quiet_tick [OF t] show ?thesis by (rule quiet_trans)
qed

lemma readers_quiet [frame]:
  "quiet s (snd (sys_lstat p s))" "quiet s (snd (sys_realpath p s))" "quiet s (snd (sys_access p s))"
  "quiet s (snd (sys_open_read p s))" "quiet s (snd (sys_fstat loc s))" "quiet s (snd (sys_fsync loc s))"
  "quiet s (snd (sys_readdir p s))" "quiet s (snd (sys_getcwd n s))"
  "quiet s (snd (sys_fdopen loc s))" "quiet s (snd (sys_open_dir p s))" "quiet s (snd (sys_fclose loc s))"
  by (simp_all add: sys_lstat_def sys_realpath_def sys_access_def sys_open_read_def sys_fstat_def
      sys_fsync_def sys_readdir_def syscall_quiet sys_getcwd_def sys_fdopen_def sys_open_dir_def
      sys_fclose_def frame)

lemma clock_quiet [frame]: "quiet s (snd (sys_clock s))"
  by (simp add: sys_clock_def quiet_def split: list.splits)

lemma tick_calm: "os_sched s = [] \<Longrightarrow> tick s = (SOk, s)"
  by (simp add: tick_def)

lemma query_calm:
  "os_sched s = [] \<Longrightarrow>
     query q s = (case q s of Inl e \<Rightarrow> (Inl e, set_errno e s) | Inr x \<Rightarrow> (Inr x, s))"
  by (auto simp: query_def syscall_def tick_calm split: sum.splits)

lemma syscall_calm:
  "os_sched s = [] \<Longrightarrow>
     syscall body s = (case body SOk s of (Inl e, s2) \<Rightarrow> (Inl e, set_errno e s2) | (Inr x, s2) \<Rightarrow> (Inr x, s2))"
  by (auto simp: syscall_def tick_calm split: sum.splits)

section \<open>Resolution of canonical paths\<close>

definition good_path :: "cpath \<Rightarrow> bool" where
  "good_path cs \<longleftrightarrow> (\<forall>c \<in> set cs. good_comp c)"

lemma good_path_simps [simp]:
  "good_path []" "good_path (c # cs) \<longleftrightarrow> good_comp c \<and> good_path cs"
  "good_path (as @ bs) \<longleftrightarrow> good_path as \<and> good_path bs"
  by (auto simp: good_path_def)

lemma good_path_butlast: "good_path cs \<Longrightarrow> good_path (butlast cs)"
  by (auto simp: good_path_def dest: in_set_butlastD)

lemma good_path_take: "good_path cs \<Longrightarrow> good_path (take n cs)"
  by (auto simp: good_path_def dest: in_set_takeD)

text \<open>Every proper ancestor is a directory (no symbolic link on the way).\<close>

definition dir_chain :: "fstree \<Rightarrow> cpath \<Rightarrow> bool" where
  "dir_chain t cs \<longleftrightarrow> (\<forall>i < length cs. fs_get t (take i cs) = Some Dir)"

lemma dir_chain_snoc: "dir_chain t (cs @ [c]) \<longleftrightarrow> dir_chain t cs \<and> fs_get t cs = Some Dir"
  unfolding dir_chain_def by (auto simp: less_Suc_eq)

lemma namei_chain:
  assumes "good_path cs" and "\<forall>i < length cs. fs_get t (base @ take i cs) = Some Dir"
    and "follow \<longrightarrow> (\<forall>l. fs_get t (base @ cs) \<noteq> Some (Lnk l))"
  shows "namei t n base cs follow = Inr (base @ cs)"
  using assms
proof (induction cs arbitrary: base)
  case (Cons c cs)
  have c: "c \<noteq> []" "c \<noteq> ''.''" "c \<noteq> ''..''"
    using Cons.prems(1) by (auto simp: good_path_def good_comp_def)
  show ?case
  proof (cases "cs = []")
    case True
    with c Cons.prems(3) show ?thesis by (auto split: option.splits node.splits)
  next
    case False
    then have "fs_get t (base @ [c]) = Some Dir" using Cons.prems(2) by (auto dest: spec [of _ 1])
    moreover have "namei t n (base @ [c]) cs follow = Inr ((base @ [c]) @ cs)"
    proof (rule Cons.IH)
      show "\<forall>i < length cs. fs_get t ((base @ [c]) @ take i cs) = Some Dir"
        using Cons.prems(2) by (auto dest: spec [of _ "Suc _"])
    qed (use Cons.prems in \<open>auto simp: good_path_def\<close>)
    ultimately show ?thesis using c by simp
  qed
qed simp

lemma locate_path_str:
  assumes "good_path cs" and "dir_chain (os_fs s) cs"
    and "follow \<longrightarrow> (\<forall>l. fs_get (os_fs s) cs \<noteq> Some (Lnk l))"
  shows "locate follow (path_str cs) s = Inr cs"
proof (cases "cs = []")
  case True
  then show ?thesis by (simp add: locate_def path_str_def)
next
  case False
  have "split_on slash (path_str cs) = [] # cs"
    using assms(1) False by (simp add: path_str_def split_on_concat good_path_def good_comp_def)
  with namei_chain [of cs "os_fs s" "[]" follow max_links] assms show ?thesis
    by (simp add: locate_def dir_chain_def)
qed

section \<open>Following and not following the last link\<close>

lemma namei_follow_same:
  "namei t n base cs f = Inr loc \<Longrightarrow> f = False \<Longrightarrow> (\<forall>l. fs_get t loc \<noteq> Some (Lnk l)) \<Longrightarrow>
     namei t n base cs True = Inr loc"
proof (induction t n base cs f rule: namei.induct)
  case (2 t n base c cs f)
  then show ?case by (auto split: option.splits node.splits nat.splits if_splits)
qed simp

lemma namei_nofollow_exists:
  "namei t n base cs f = Inr loc \<Longrightarrow> f = True \<Longrightarrow> fs_get t loc \<noteq> None \<Longrightarrow>
     \<exists>loc'. namei t n base cs False = Inr loc' \<and> fs_get t loc' \<noteq> None"
proof (induction t n base cs f rule: namei.induct)
  case (2 t n base c cs f)
  then show ?case by (auto split: option.splits node.splits nat.splits if_splits)
qed simp

lemma lookup_follow_same:
  "lookup_node False p s = Inr (loc, n) \<Longrightarrow> (\<forall>l. n \<noteq> Lnk l) \<Longrightarrow> lookup_node True p s = Inr (loc, n)"
  using namei_follow_same
  by (auto simp: lookup_node_def locate_def split: sum.splits option.splits if_splits)

lemma lookup_nofollow_exists:
  "lookup_node True p s = Inr (loc, n) \<Longrightarrow> \<exists>loc' n'. lookup_node False p s = Inr (loc', n')"
  using namei_nofollow_exists
  by (auto simp: lookup_node_def locate_def split: sum.splits option.splits if_splits) fastforce+

lemma lookup_in_tree: "lookup_node f p s = Inr (loc, n) \<Longrightarrow> fs_get (os_fs s) loc = Some n"
  by (auto simp: lookup_node_def split: sum.splits option.splits)

lemma lookup_root [simp]: "lookup_node f [slash] s = Inr ([], Dir)"
  by (simp add: lookup_node_def locate_def)

lemma quiet_lookup: "quiet s s' \<Longrightarrow> lookup_node f p s' = lookup_node f p s"
  using quiet_fs [of s s'] unfolding lookup_node_def locate_def by (simp cong: sum.case_cong)

end
