(* ===== verification/Types.thy ===== *)
theory Types
  imports Posix
begin

text \<open>
  The data of \<^verbatim>\<open>syseba_internal.h\<close>: the limits, the enumerations and the structures every component
  exchanges. A \<^verbatim>\<open>char\<close> array is a \<^typ>\<open>string\<close> (its size appears where a function writes into it), an
  unsigned counter that the sources let wrap is a \<^typ>\<open>64 word\<close>, \<^verbatim>\<open>int\<close> results are \<^typ>\<open>int\<close> with the
  sources' \<open>0\<close> and \<open>-1\<close>, and \<^verbatim>\<open>syseba_result_t\<close> is the enumeration \<open>result\<close>.
\<close>

section \<open>Limits\<close>

definition SYSEBA_PATH_MAX :: nat where "SYSEBA_PATH_MAX = 4096"
definition SYSEBA_MESSAGE_MAX :: nat where "SYSEBA_MESSAGE_MAX = 2048"
definition SYSEBA_MAX_THREADS :: nat where "SYSEBA_MAX_THREADS = 64"
definition SYSEBA_TOKEN_MAX :: nat where "SYSEBA_TOKEN_MAX = 256"
definition SYSEBA_RECENT_LOGS :: nat where "SYSEBA_RECENT_LOGS = 500"
definition SYSEBA_MAX_JSON_BODY :: nat where "SYSEBA_MAX_JSON_BODY = 64 * 1024"
definition SYSEBA_DEFAULT_RESTORE_PAGE :: nat where "SYSEBA_DEFAULT_RESTORE_PAGE = 100"
definition SYSEBA_MAX_RESTORE_PAGE :: nat where "SYSEBA_MAX_RESTORE_PAGE = 250"
definition SYSEBA_DEFAULT_WEB_PORT :: nat where "SYSEBA_DEFAULT_WEB_PORT = 8765"

lemmas syseba_limits =
  SYSEBA_PATH_MAX_def SYSEBA_MESSAGE_MAX_def SYSEBA_MAX_THREADS_def SYSEBA_TOKEN_MAX_def
  SYSEBA_RECENT_LOGS_def SYSEBA_MAX_JSON_BODY_def SYSEBA_DEFAULT_RESTORE_PAGE_def
  SYSEBA_MAX_RESTORE_PAGE_def SYSEBA_DEFAULT_WEB_PORT_def

text \<open>The Linux branch of the default locations.\<close>

definition SYSEBA_DEFAULT_CONFIG :: string where "SYSEBA_DEFAULT_CONFIG = ''/etc/syseba/syseba.conf''"
definition SYSEBA_LEGACY_CONFIG :: string where "SYSEBA_LEGACY_CONFIG = ''/opt/syseba/syseba.conf''"
definition SYSEBA_DEFAULT_LOCK :: string where "SYSEBA_DEFAULT_LOCK = ''/run/syseba/syseba.lock''"
definition SYSEBA_LEGACY_LOCK :: string where "SYSEBA_LEGACY_LOCK = ''/opt/syseba/syseba.lock''"
definition SYSEBA_DEFAULT_DB :: string where "SYSEBA_DEFAULT_DB = ''/var/lib/syseba/syseba_logs.db''"
definition SYSEBA_LEGACY_DB :: string where "SYSEBA_LEGACY_DB = ''/opt/syseba/syseba_logs.db''"
definition SYSEBA_DEFAULT_TOKEN :: string where "SYSEBA_DEFAULT_TOKEN = ''/etc/syseba/syseba_web.token''"
definition SYSEBA_LEGACY_TOKEN :: string where "SYSEBA_LEGACY_TOKEN = ''/opt/syseba/syseba_web.token''"
definition SYSEBA_DEFAULT_LOG :: string where "SYSEBA_DEFAULT_LOG = ''/var/log/syseba/syseba.log''"
definition SYSEBA_DEFAULT_WEB_HOST :: string where "SYSEBA_DEFAULT_WEB_HOST = ''127.0.0.1''"
definition SYSEBA_SERVICE_WEB_HOST :: string where "SYSEBA_SERVICE_WEB_HOST = ''0.0.0.0''"

section \<open>Enumerations\<close>

datatype result =
    SYSEBA_OK
  | SYSEBA_ERR
  | SYSEBA_ERR_INVALID
  | SYSEBA_ERR_NOT_FOUND
  | SYSEBA_ERR_EXISTS
  | SYSEBA_ERR_PERMISSION
  | SYSEBA_ERR_BUSY
  | SYSEBA_ERR_CANCELLED

definition result_code :: "result \<Rightarrow> int" where
  "result_code r =
     (case r of SYSEBA_OK \<Rightarrow> 0 | SYSEBA_ERR \<Rightarrow> - 1 | SYSEBA_ERR_INVALID \<Rightarrow> - 2
      | SYSEBA_ERR_NOT_FOUND \<Rightarrow> - 3 | SYSEBA_ERR_EXISTS \<Rightarrow> - 4 | SYSEBA_ERR_PERMISSION \<Rightarrow> - 5
      | SYSEBA_ERR_BUSY \<Rightarrow> - 6 | SYSEBA_ERR_CANCELLED \<Rightarrow> - 7)"

datatype event_kind = EVENT_CREATE | EVENT_MODIFY | EVENT_DELETE

datatype restore_strategy = RESTORE_FAIL | RESTORE_RENAME | RESTORE_OVERWRITE

datatype language = LANGUAGE_IT | LANGUAGE_EN

definition syseba_tr :: "language \<Rightarrow> string \<Rightarrow> string \<Rightarrow> string" where
  "syseba_tr l italian english = (if l = LANGUAGE_IT then italian else english)"

section \<open>Structures\<close>

record config =
  cfg_source :: string
  cfg_backup :: string
  cfg_restore :: string
  cfg_log_file :: string
  cfg_config_path :: string
  cfg_threads :: nat

record stats =
  queued_events :: "64 word"
  st_copied :: "64 word"
  st_updated :: "64 word"
  st_deleted :: "64 word"
  st_restored :: "64 word"
  st_skipped :: "64 word"
  st_errors :: "64 word"
  initial_total :: "64 word"
  initial_done :: "64 word"
  initial_copied :: "64 word"
  initial_skipped :: "64 word"
  initial_running :: bool

record event =
  ev_kind :: event_kind
  ev_path :: string
  ev_is_directory :: bool
  ev_initial_sync :: bool
  ev_observed_ns :: "64 word"

record log_record =
  lr_timestamp :: string
  lr_level :: string
  lr_operation :: string
  lr_message :: string
  lr_source_path :: string
  lr_target_path :: string
  lr_additional_info :: string

text \<open>The refresh interval is a \<^verbatim>\<open>double\<close>; its type is a parameter.\<close>

record 'd options =
  opt_command :: "string option"
  opt_config_path :: string
  opt_lock_path :: string
  opt_db_path :: string
  opt_token_path :: string
  opt_web_host :: string
  opt_web_port :: int
  opt_language :: language
  opt_silent :: bool
  opt_web :: bool
  opt_web_only :: bool
  opt_no_web_auth :: bool
  opt_no_initial_sync :: bool
  opt_output_json :: bool
  opt_overwrite :: bool
  opt_rename :: bool
  opt_create_daemon :: bool
  opt_windows_service :: bool
  opt_console_refresh :: 'd
  opt_lines :: nat
  opt_path :: string
  opt_search :: string
  opt_page :: nat
  opt_page_size :: nat
  opt_sort :: string
  opt_direction :: string
  opt_explicit_token :: string

record restore_item =
  ri_name :: string
  ri_path :: string
  ri_mtime :: string
  ri_size :: "64 word"
  ri_is_directory :: bool
  ri_destination_exists :: bool

record restore_listing =
  rl_items :: "restore_item list"
  rl_count :: nat
  rl_total :: nat
  rl_page :: nat
  rl_pages :: nat
  rl_page_size :: nat
  rl_has_previous :: bool
  rl_has_next :: bool
  rl_is_file :: bool
  rl_path :: string

lemma result_code_inj: "result_code a = result_code b \<longleftrightarrow> a = b"
  by (cases a; cases b) (simp_all add: result_code_def)

lemma result_code_ok: "result_code r = 0 \<longleftrightarrow> r = SYSEBA_OK"
  by (cases r) (simp_all add: result_code_def)

end
