(* ===== verification/Queue.thy ===== *)
theory Queue
  imports Types "HOL-Library.Multiset"
begin

text \<open>
  The work queue of \<^verbatim>\<open>queue.c\<close>, which carries events to the copy workers and records to the log
  writer. The queue is the linked list the code builds: nodes in a heap, head and tail pointers,
  the two counters at their 64-bit width, the \<^verbatim>\<open>closed\<close> flag and which of the three synchronisation
  objects exist. Reading a node that is not allocated is the outcome \<open>Undefined\<close>, so the lemmas show
  memory safety too. A region between lock and unlock is one step; a wait takes one entry of a
  script that says what the other threads did meanwhile and what the wait returned, and an
  exhausted script is the outcome \<open>Blocked\<close>.

  The contract is the locale \<open>fifo_queue\<close> over the abstract queue \<open>wq\<close> (a list, a counter of
  unfinished items and the flag); the linked list implements it, and the worker pool at the end is
  a step relation over the linked queue.
\<close>

section \<open>The linked queue\<close>

record 'a queue_node =
  node_data :: 'a
  node_next :: "nat option"

type_synonym 'a node_heap = "(nat \<times> 'a queue_node) list"

record 'a queue =
  q_heap :: "'a node_heap"
  q_head :: "nat option"
  q_tail :: "nat option"
  q_size :: "64 word"
  q_unfinished :: "64 word"
  q_closed :: bool
  q_mutex :: bool
  q_available :: bool
  q_completed :: bool

datatype 'r outcome = Undefined | Blocked | Done 'r

definition zero_queue :: "'a queue" where
  "zero_queue = \<lparr>q_heap = [], q_head = None, q_tail = None, q_size = 0, q_unfinished = 0,
     q_closed = False, q_mutex = False, q_available = False, q_completed = False\<rparr>"

text \<open>The arguments say whether the three initialisations succeed.\<close>

definition queue_init :: "bool \<Rightarrow> bool \<Rightarrow> bool \<Rightarrow> int \<times> 'a queue" where
  "queue_init mutex_ok available_ok completed_ok =
     (let q = zero_queue in
      if \<not> mutex_ok then (- 1, q)
      else let q = q\<lparr>q_mutex := True\<rparr> in
      if \<not> available_ok then (- 1, q\<lparr>q_mutex := False\<rparr>)
      else let q = q\<lparr>q_available := True\<rparr> in
      if \<not> completed_ok then (- 1, q\<lparr>q_available := False, q_mutex := False\<rparr>)
      else (0, q\<lparr>q_completed := True\<rparr>))"

definition queue_close :: "'a queue \<Rightarrow> 'a queue" where
  "queue_close q = q\<lparr>q_closed := True\<rparr>"

text \<open>The loop that frees the nodes: the data in the order it is handed to \<^verbatim>\<open>free_fn\<close> and the heap left.\<close>

function free_nodes :: "'a node_heap \<Rightarrow> nat option \<Rightarrow> 'a list \<Rightarrow> ('a list \<times> 'a node_heap) outcome" where
  "free_nodes h None freed = Done (freed, h)"
| "free_nodes h (Some a) freed =
     (case map_of h a of
        None \<Rightarrow> Undefined
      | Some nd \<Rightarrow> free_nodes (AList.delete a h) (node_next nd) (freed @ [node_data nd]))"
  by pat_completeness auto
termination
  by (relation "measure (\<lambda>(h, p, freed). length h)") (auto simp: alist_delete_shorter)

definition queue_destroy :: "'a queue \<Rightarrow> ('a list \<times> 'a queue) outcome" where
  "queue_destroy q =
     (let q = queue_close q in
      case free_nodes (q_heap q) (q_head q) [] of
        Undefined \<Rightarrow> Undefined
      | Blocked \<Rightarrow> Blocked
      | Done (freed, h) \<Rightarrow>
          Done (freed, q\<lparr>q_heap := h, q_head := None, q_tail := None, q_size := 0, q_unfinished := 0,
            q_completed := False, q_available := False, q_mutex := False\<rparr>))"

text \<open>\<open>alloc\<close> is what \<^verbatim>\<open>calloc\<close> returns: \<open>None\<close> when memory is exhausted.\<close>

definition queue_push :: "nat option \<Rightarrow> 'a \<Rightarrow> 'a queue \<Rightarrow> (int \<times> 'a queue) outcome" where
  "queue_push alloc data q =
     (case alloc of
        None \<Rightarrow> Done (- 1, q)
      | Some a \<Rightarrow>
          if q_closed q then Done (- 1, q)
          else
            let h = AList.update a \<lparr>node_data = data, node_next = None\<rparr> (q_heap q);
                finish = (\<lambda>hd hp. Done (0, q\<lparr>q_heap := hp, q_head := hd, q_tail := Some a,
                            q_size := q_size q + 1, q_unfinished := q_unfinished q + 1\<rparr>))
            in (case q_tail q of
                  None \<Rightarrow> finish (Some a) h
                | Some t \<Rightarrow>
                    (case map_of h t of
                       None \<Rightarrow> Undefined
                     | Some nd \<Rightarrow> finish (q_head q) (AList.update t (nd\<lparr>node_next := Some a\<rparr>) h))))"

text \<open>The part of \<^verbatim>\<open>syseba_queue_pop\<close> after its wait loop.\<close>

definition pop_now :: "'a queue \<Rightarrow> ('a option \<times> 'a queue) outcome" where
  "pop_now q =
     (case q_head q of
        None \<Rightarrow> Done (None, q)
      | Some a \<Rightarrow>
          (case map_of (q_heap q) a of
             None \<Rightarrow> Undefined
           | Some nd \<Rightarrow>
               Done (Some (node_data nd),
                 q\<lparr>q_heap := AList.delete a (q_heap q), q_head := node_next nd,
                   q_tail := (if node_next nd = None then None else q_tail q),
                   q_size := q_size q - 1\<rparr>)))"

record 'a wake =
  wk_result :: int
  wk_env :: "'a queue \<Rightarrow> 'a queue"
  wk_now :: "64 word"

fun queue_pop :: "'a wake list \<Rightarrow> 'a queue \<Rightarrow> ('a option \<times> 'a queue) outcome" where
  "queue_pop ws q =
     (if q_head q = None \<and> \<not> q_closed q
      then (case ws of
              [] \<Rightarrow> Blocked
            | w # ws' \<Rightarrow>
                let q' = wk_env w q in
                if wk_result w \<noteq> 0 then Done (None, q') else queue_pop ws' q')
      else pop_now q)"

declare queue_pop.simps [simp del]

definition queue_task_done :: "'a queue \<Rightarrow> 'a queue" where
  "queue_task_done q =
     (if q_unfinished q > 0 then q\<lparr>q_unfinished := q_unfinished q - 1\<rparr> else q)"

text \<open>The wait of one round of \<^verbatim>\<open>syseba_queue_wait_empty\<close>, in milliseconds.\<close>

definition wait_remaining :: "64 word \<Rightarrow> 64 word \<Rightarrow> 32 word" where
  "wait_remaining deadline now =
     (let r = (ucast ((deadline - now) div 1000000) :: 32 word) in if r = 0 then 1 else r)"

fun wait_empty_loop :: "64 word \<Rightarrow> 'a wake list \<Rightarrow> 'a queue \<Rightarrow> (bool \<times> 'a queue) outcome" where
  "wait_empty_loop deadline ws q =
     (if q_unfinished q > 0 \<and> \<not> q_closed q
      then (case ws of
              [] \<Rightarrow> Blocked
            | w # ws' \<Rightarrow>
                if wk_now w \<ge> deadline then Done (q_unfinished q = 0, q)
                else
                  let q' = wk_env w q in
                  if wk_result w < 0 then Done (q_unfinished q' = 0, q')
                  else wait_empty_loop deadline ws' q')
      else Done (q_unfinished q = 0, q))"

declare wait_empty_loop.simps [simp del]

definition queue_wait_empty ::
  "64 word \<Rightarrow> 32 word \<Rightarrow> 'a wake list \<Rightarrow> 'a queue \<Rightarrow> (bool \<times> 'a queue) outcome" where
  "queue_wait_empty start timeout_ms ws q =
     wait_empty_loop (start + ucast timeout_ms * 1000000) ws q"

definition queue_size :: "'a queue \<Rightarrow> 64 word" where
  "queue_size q = q_size q"

definition queue_is_closed :: "'a queue \<Rightarrow> bool" where
  "queue_is_closed q = q_closed q"

section \<open>The abstract queue\<close>

record 'a wq =
  wq_items :: "'a list"
  wq_unfinished :: nat
  wq_closed :: bool

definition wq_push :: "bool \<Rightarrow> 'a \<Rightarrow> 'a wq \<Rightarrow> int \<times> 'a wq" where
  "wq_push mem data w =
     (if \<not> mem \<or> wq_closed w then (- 1, w)
      else (0, w\<lparr>wq_items := wq_items w @ [data], wq_unfinished := wq_unfinished w + 1\<rparr>))"

definition wq_pop :: "'a wq \<Rightarrow> 'a option \<times> 'a wq" where
  "wq_pop w = (case wq_items w of [] \<Rightarrow> (None, w) | x # xs \<Rightarrow> (Some x, w\<lparr>wq_items := xs\<rparr>))"

definition wq_task_done :: "'a wq \<Rightarrow> 'a wq" where
  "wq_task_done w = w\<lparr>wq_unfinished := wq_unfinished w - 1\<rparr>"

definition wq_close :: "'a wq \<Rightarrow> 'a wq" where
  "wq_close w = w\<lparr>wq_closed := True\<rparr>"

section \<open>The linked list represents the abstract queue\<close>

fun chain :: "'a node_heap \<Rightarrow> nat option \<Rightarrow> nat list \<Rightarrow> bool" where
  "chain h p [] = (p = None)"
| "chain h p (a # as) =
     (p = Some a \<and> (case map_of h a of None \<Rightarrow> False | Some nd \<Rightarrow> chain h (node_next nd) as))"

definition item_at :: "'a node_heap \<Rightarrow> nat \<Rightarrow> 'a" where
  "item_at h a = node_data (the (map_of h a))"

definition queue_repr :: "'a queue \<Rightarrow> nat list \<Rightarrow> bool" where
  "queue_repr q as \<longleftrightarrow>
     chain (q_heap q) (q_head q) as \<and> distinct as \<and> set as = fst ` set (q_heap q) \<and>
     distinct (map fst (q_heap q)) \<and>
     q_tail q = (if as = [] then None else Some (last as)) \<and> q_size q = of_nat (length as)"

definition queue_rel :: "'a queue \<Rightarrow> 'a wq \<Rightarrow> bool" where
  "queue_rel q w \<longleftrightarrow>
     (\<exists>as. queue_repr q as \<and> wq_items w = map (item_at (q_heap q)) as) \<and>
     unat (q_unfinished q) = wq_unfinished w \<and> q_closed q = wq_closed w"

definition fresh_node :: "'a queue \<Rightarrow> nat option \<Rightarrow> bool" where
  "fresh_node q alloc = (case alloc of None \<Rightarrow> True | Some a \<Rightarrow> a \<notin> fst ` set (q_heap q))"

lemma chain_update: "a \<notin> set as \<Longrightarrow> chain (AList.update a nd h) p as = chain h p as"
  by (induction as arbitrary: p) (auto simp: update_conv split: option.splits)

lemma chain_delete: "a \<notin> set as \<Longrightarrow> chain (AList.delete a h) p as = chain h p as"
  by (induction as arbitrary: p) (auto simp: delete_conv split: option.splits)

lemma chain_snoc:
  assumes "chain h p as" "as \<noteq> []" "distinct as" "a \<notin> set as" "map_of h (last as) = Some nd"
  shows "chain (AList.update (last as) (nd\<lparr>node_next := Some a\<rparr>)
           (AList.update a \<lparr>node_data = x, node_next = None\<rparr> h)) p (as @ [a])"
  using assms
proof (induction as arbitrary: p)
  case (Cons b bs)
  show ?case
  proof (cases "bs = []")
    case True
    with Cons.prems show ?thesis by (auto simp: update_conv split: option.splits)
  next
    case False
    with Cons.prems have "b \<noteq> last bs" by auto
    with False Cons show ?thesis by (auto simp: update_conv split: option.splits)
  qed
qed simp

lemma chain_last: "chain h p as \<Longrightarrow> as \<noteq> [] \<Longrightarrow> \<exists>nd. map_of h (last as) = Some nd"
  by (induction as arbitrary: p) (auto split: option.splits)

lemma chain_head: "chain h p as \<Longrightarrow> p = None \<longleftrightarrow> as = []"
  by (cases as) auto

lemma free_nodes_chain:
  "chain h p as \<Longrightarrow> distinct as \<Longrightarrow>
     free_nodes h p freed =
       Done (freed @ map (item_at h) as, filter (\<lambda>(k, v). k \<notin> set as) h)"
proof (induction as arbitrary: h p freed)
  case (Cons a as)
  then obtain nd where p: "p = Some a" and nd: "map_of h a = Some nd" and c: "chain h (node_next nd) as"
    by (auto split: option.splits)
  have items: "map (item_at (AList.delete a h)) as = map (item_at h) as"
    using Cons.prems(2) by (auto simp: item_at_def delete_conv)
  have rest: "filter (\<lambda>(k, v). k \<notin> set as) (AList.delete a h) = filter (\<lambda>(k, v). k \<notin> set (a # as)) h"
    by (auto simp: AList.delete_eq intro: filter_cong)
  have "chain (AList.delete a h) (node_next nd) as"
    using c Cons.prems(2) by (simp add: chain_delete)
  from Cons.IH [OF this] Cons.prems(2) show ?case
    using items rest nd by (simp add: p item_at_def)
qed simp

section \<open>The operations implement the abstract queue\<close>

lemma queue_relI:
  "queue_repr q as \<Longrightarrow> map (item_at (q_heap q)) as = wq_items w \<Longrightarrow>
     unat (q_unfinished q) = wq_unfinished w \<Longrightarrow> q_closed q = wq_closed w \<Longrightarrow> queue_rel q w"
  by (auto simp: queue_rel_def)

lemma queue_init_rel:
  "snd (queue_init m a c) = (q :: 'a queue) \<Longrightarrow>
     queue_rel q \<lparr>wq_items = [], wq_unfinished = 0, wq_closed = False\<rparr>"
  by (cases m; cases a; cases c)
    (auto simp: queue_init_def zero_queue_def queue_rel_def queue_repr_def Let_def)

lemma unat_add_1: "unat (w :: 64 word) + 1 < 2 ^ 64 \<Longrightarrow> unat (w + 1) = unat w + 1"
  by (simp add: unat_word_ariths)

lemma push_repr:
  assumes r: "queue_repr q as" and f: "a \<notin> fst ` set (q_heap q)" and open_q: "\<not> q_closed q"
  shows "\<exists>q'. queue_push (Some a) x q = Done (0, q') \<and> queue_repr q' (as @ [a]) \<and>
    map (item_at (q_heap q')) (as @ [a]) = map (item_at (q_heap q)) as @ [x] \<and>
    q_unfinished q' = q_unfinished q + 1 \<and> \<not> q_closed q'"
proof -
  let ?h = "AList.update a \<lparr>node_data = x, node_next = None\<rparr> (q_heap q)"
  from r f have na: "a \<notin> set as" by (simp add: queue_repr_def)
  show ?thesis
  proof (cases "as = []")
    case True
    with r f open_q show ?thesis
      by (auto simp: queue_repr_def queue_push_def Let_def item_at_def update_conv
          dom_update distinct_update)
  next
    case False
    have "chain (q_heap q) (q_head q) as" using r by (simp add: queue_repr_def)
    from chain_last [OF this False] obtain nd where nd: "map_of (q_heap q) (last as) = Some nd" ..
    let ?h2 = "AList.update (last as) (nd\<lparr>node_next := Some a\<rparr>) ?h"
    have la: "last as \<noteq> a" using False na last_in_set by blast
    have c: "chain ?h2 (q_head q) (as @ [a])"
      using chain_snoc [OF _ False _ na nd] r by (simp add: queue_repr_def)
    have items: "map (item_at ?h2) (as @ [a]) = map (item_at (q_heap q)) as @ [x]"
      using na la nd by (auto simp: item_at_def update_conv)
    have keys: "fst ` set ?h2 = insert a (fst ` set (q_heap q))"
      using nd by (auto simp: dom_update dest: map_of_SomeD intro: rev_image_eqI)
    define q' where "q' = q\<lparr>q_heap := ?h2, q_tail := Some a, q_size := q_size q + 1,
        q_unfinished := q_unfinished q + 1\<rparr>"
    have push: "queue_push (Some a) x q = Done (0, q')"
      using r open_q False nd la by (simp add: queue_repr_def queue_push_def Let_def update_conv q'_def)
    have "queue_repr q' (as @ [a])"
      unfolding queue_repr_def q'_def using r na c keys
      by (simp add: queue_repr_def distinct_update)
    with push items open_q show ?thesis by (auto simp: q'_def)
  qed
qed

lemma queue_push_sim:
  assumes "queue_rel q w" and "fresh_node q alloc" and "wq_unfinished w + 1 < 2 ^ 64"
  shows "\<exists>q'. queue_push alloc x q = Done (fst (wq_push (alloc \<noteq> None) x w), q') \<and>
    queue_rel q' (snd (wq_push (alloc \<noteq> None) x w))"
proof (cases "alloc = None \<or> q_closed q")
  case True
  then show ?thesis
    using assms(1) by (auto simp: queue_push_def wq_push_def queue_rel_def split: option.splits)
next
  case False
  then obtain a where a: "alloc = Some a" and o: "\<not> q_closed q" by auto
  from assms(1) obtain as where as: "queue_repr q as" "wq_items w = map (item_at (q_heap q)) as"
    by (auto simp: queue_rel_def)
  from push_repr [OF as(1) _ o, of a x] assms(2) a obtain q' where
    q': "queue_push (Some a) x q = Done (0, q')" "queue_repr q' (as @ [a])"
      "map (item_at (q_heap q')) (as @ [a]) = map (item_at (q_heap q)) as @ [x]"
      "q_unfinished q' = q_unfinished q + 1" "\<not> q_closed q'"
    by (auto simp: fresh_node_def)
  have "unat (q_unfinished q') = wq_unfinished w + 1"
    using assms(1,3) q'(4) by (simp add: queue_rel_def unat_add_1)
  moreover have "\<not> wq_closed w" using assms(1) o by (simp add: queue_rel_def)
  ultimately show ?thesis
    using q' as(2) a by (auto simp: wq_push_def intro!: queue_relI [OF q'(2)])
qed

lemma queue_pop_sim:
  assumes "queue_rel q w"
  shows "\<exists>q'. pop_now q = Done (fst (wq_pop w), q') \<and> queue_rel q' (snd (wq_pop w))"
proof -
  from assms obtain as where r: "queue_repr q as" and items: "wq_items w = map (item_at (q_heap q)) as"
    by (auto simp: queue_rel_def)
  show ?thesis
  proof (cases as)
    case Nil
    with r items assms show ?thesis
      by (auto simp: pop_now_def wq_pop_def queue_repr_def)
  next
    case (Cons a bs)
    with r obtain nd where h: "q_head q = Some a" "map_of (q_heap q) a = Some nd"
      and c: "chain (q_heap q) (node_next nd) bs"
      by (auto simp: queue_repr_def split: option.splits)
    from Cons r have d: "a \<notin> set bs" "distinct bs" by (auto simp: queue_repr_def)
    define q' where "q' = snd (case pop_now q of Done r \<Rightarrow> r)"
    have pop: "pop_now q = Done (Some (node_data nd), q')"
      using h by (simp add: pop_now_def q'_def)
    have heap: "q_heap q' = AList.delete a (q_heap q)" "q_head q' = node_next nd"
      using h by (simp_all add: pop_now_def q'_def)
    have "queue_repr q' bs"
      using r Cons h c d chain_head [OF c]
      by (auto simp: queue_repr_def q'_def pop_now_def chain_delete fst_set_delete
          distinct_map_fst_delete)
    moreover have "map (item_at (q_heap q')) bs = map (item_at (q_heap q)) bs"
      using d heap by (auto simp: item_at_def delete_conv)
    moreover have "q_unfinished q' = q_unfinished q" "q_closed q' = q_closed q"
      using h by (simp_all add: pop_now_def q'_def)
    moreover have "unat (q_unfinished q) = wq_unfinished w" "q_closed q = wq_closed w"
      using assms by (simp_all add: queue_rel_def)
    moreover have "wq_items w = node_data nd # map (item_at (q_heap q)) bs"
      using items Cons h(2) by (simp add: item_at_def)
    ultimately show ?thesis
      using pop queue_relI [of q' bs "snd (wq_pop w)"] by (simp add: wq_pop_def)
  qed
qed

lemma queue_task_done_sim: "queue_rel q w \<Longrightarrow> queue_rel (queue_task_done q) (wq_task_done w)"
  by (auto simp: queue_rel_def queue_task_done_def wq_task_done_def queue_repr_def unat_sub
      word_le_nat_alt word_less_nat_alt unat_eq_0 word_neq_0_conv)

lemma queue_close_sim: "queue_rel q w \<Longrightarrow> queue_rel (queue_close q) (wq_close w)"
  by (auto simp: queue_rel_def queue_close_def wq_close_def queue_repr_def)

section \<open>The contract of a work queue\<close>

locale fifo_queue =
  fixes rel :: "'q \<Rightarrow> 'a wq \<Rightarrow> bool"
    and fresh :: "'q \<Rightarrow> 'c option \<Rightarrow> bool"
    and push :: "'c option \<Rightarrow> 'a \<Rightarrow> 'q \<Rightarrow> (int \<times> 'q) outcome"
    and pop :: "'q \<Rightarrow> ('a option \<times> 'q) outcome"
    and task_done :: "'q \<Rightarrow> 'q"
    and close :: "'q \<Rightarrow> 'q"
  assumes push_sim: "rel q w \<Longrightarrow> fresh q c \<Longrightarrow> wq_unfinished w + 1 < 2 ^ 64 \<Longrightarrow>
      \<exists>q'. push c x q = Done (fst (wq_push (c \<noteq> None) x w), q') \<and>
           rel q' (snd (wq_push (c \<noteq> None) x w))"
    and pop_sim: "rel q w \<Longrightarrow> \<exists>q'. pop q = Done (fst (wq_pop w), q') \<and> rel q' (snd (wq_pop w))"
    and task_done_sim: "rel q w \<Longrightarrow> rel (task_done q) (wq_task_done w)"
    and close_sim: "rel q w \<Longrightarrow> rel (close q) (wq_close w)"
begin

lemma push_accepted:
  assumes "rel q w" "fresh q c" "wq_unfinished w + 1 < 2 ^ 64" "push c x q = Done (0, q')"
  shows "rel q' (w\<lparr>wq_items := wq_items w @ [x], wq_unfinished := wq_unfinished w + 1\<rparr>)"
  using push_sim [OF assms(1-3), of x] assms(4) by (auto simp: wq_push_def split: if_splits)

lemma push_rejected:
  assumes "rel q w" "fresh q c" "wq_unfinished w + 1 < 2 ^ 64" "push c x q = Done (- 1, q')"
  shows "rel q' w"
  using push_sim [OF assms(1-3), of x] assms(4) by (auto simp: wq_push_def split: if_splits)

lemma pop_taken:
  assumes "rel q w" "pop q = Done (Some x, q')"
  shows "\<exists>xs. wq_items w = x # xs \<and> rel q' (w\<lparr>wq_items := xs\<rparr>)"
  using pop_sim [OF assms(1)] assms(2) by (auto simp: wq_pop_def split: list.splits)

text \<open>Popping until nothing is left returns the items in the order they were pushed.\<close>

primrec drain :: "nat \<Rightarrow> 'q \<Rightarrow> 'a list" where
  "drain 0 q = []"
| "drain (Suc n) q = (case pop q of Done (Some x, q') \<Rightarrow> x # drain n q' | _ \<Rightarrow> [])"

lemma drain_items: "rel q w \<Longrightarrow> length (wq_items w) \<le> n \<Longrightarrow> drain n q = wq_items w"
proof (induction n arbitrary: q w)
  case (Suc n)
  from pop_sim [OF Suc.prems(1)] obtain q' where
    q': "pop q = Done (fst (wq_pop w), q')" "rel q' (snd (wq_pop w))" by blast
  show ?case
  proof (cases "wq_items w")
    case Nil
    with q' show ?thesis by (simp add: wq_pop_def)
  next
    case (Cons x xs)
    with q' have r: "rel q' (w\<lparr>wq_items := xs\<rparr>)" by (simp add: wq_pop_def)
    from Suc.IH [OF this] Suc.prems(2) Cons q' show ?thesis by (simp add: wq_pop_def)
  qed
qed simp

end

interpretation lq: fifo_queue queue_rel fresh_node queue_push pop_now queue_task_done queue_close
  by unfold_locales
    (fact queue_push_sim queue_pop_sim queue_task_done_sim queue_close_sim)+

section \<open>Any single operation\<close>

datatype 'a qop = QPush "nat option" 'a | QPop | QTaskDone | QClose

datatype 'a qout = OutInt int | OutItem "'a option" | OutVoid

definition map_outcome :: "('r \<Rightarrow> 's) \<Rightarrow> ('r \<times> 'q) outcome \<Rightarrow> ('s \<times> 'q) outcome" where
  "map_outcome f r = (case r of Undefined \<Rightarrow> Undefined | Blocked \<Rightarrow> Blocked | Done (x, q) \<Rightarrow> Done (f x, q))"

definition queue_step :: "'a qop \<Rightarrow> 'a queue \<Rightarrow> ('a qout \<times> 'a queue) outcome" where
  "queue_step op q =
     (case op of
        QPush alloc x \<Rightarrow> map_outcome OutInt (queue_push alloc x q)
      | QPop \<Rightarrow> map_outcome OutItem (pop_now q)
      | QTaskDone \<Rightarrow> Done (OutVoid, queue_task_done q)
      | QClose \<Rightarrow> Done (OutVoid, queue_close q))"

definition wq_step :: "'a qop \<Rightarrow> 'a wq \<Rightarrow> 'a qout \<times> 'a wq" where
  "wq_step op w =
     (case op of
        QPush alloc x \<Rightarrow> apfst OutInt (wq_push (alloc \<noteq> None) x w)
      | QPop \<Rightarrow> apfst OutItem (wq_pop w)
      | QTaskDone \<Rightarrow> (OutVoid, wq_task_done w)
      | QClose \<Rightarrow> (OutVoid, wq_close w))"

definition op_admissible :: "'a qop \<Rightarrow> 'a queue \<Rightarrow> 'a wq \<Rightarrow> bool" where
  "op_admissible op q w =
     (case op of QPush alloc x \<Rightarrow> fresh_node q alloc \<and> wq_unfinished w + 1 < 2 ^ 64 | _ \<Rightarrow> True)"

definition empty_wq :: "'a wq" where
  "empty_wq = \<lparr>wq_items = [], wq_unfinished = 0, wq_closed = False\<rparr>"

definition queue_items :: "'a queue \<Rightarrow> 'a list" where
  "queue_items q = (case free_nodes (q_heap q) (q_head q) [] of Done (xs, h) \<Rightarrow> xs | _ \<Rightarrow> [])"

lemma queue_items_rel: "queue_rel q w \<Longrightarrow> queue_items q = wq_items w"
  by (auto simp: queue_rel_def queue_repr_def queue_items_def free_nodes_chain)

text \<open>
  C7: the linked queue refines the abstract FIFO queue. From related states every operation of
  \<^verbatim>\<open>queue.c\<close> (push with or without memory, on an open or closed queue; pop; task done; close)
  touches only allocated nodes, returns what the abstract operation returns and leads to related
  states. \<^verbatim>\<open>calloc\<close> returns memory that is not in use, and fewer than \<open>2 ^ 64\<close> items are unfinished.
\<close>

theorem queue_step_refines:
  assumes "queue_rel q w" and "op_admissible op q w"
  shows "\<exists>q'. queue_step op q = Done (fst (wq_step op w), q') \<and> queue_rel q' (snd (wq_step op w))"
proof (cases op)
  case (QPush alloc x)
  with assms lq.push_sim [of q w alloc x] show ?thesis
    by (auto simp: queue_step_def wq_step_def op_admissible_def map_outcome_def apfst_def map_prod_def
        split: prod.splits)
next
  case QPop
  with lq.pop_sim [OF assms(1)] show ?thesis
    by (auto simp: queue_step_def wq_step_def map_outcome_def apfst_def map_prod_def split: prod.splits)
qed (use assms lq.task_done_sim lq.close_sim in \<open>auto simp: queue_step_def wq_step_def\<close>)

lemma empty_queue_rel: "queue_rel (snd (queue_init True True True)) empty_wq"
  unfolding empty_wq_def by (rule queue_init_rel) simp

theorem queue_step_refines_witness:
  "\<exists>q'. queue_step (QPush (Some 7) ''a'') (snd (queue_init True True True))
          = Done (OutInt 0, q') \<and>
     queue_rel q' \<lparr>wq_items = [''a''], wq_unfinished = 1, wq_closed = False\<rparr>"
  using queue_step_refines [OF empty_queue_rel, of "QPush (Some 7) ''a''"]
  by (simp add: op_admissible_def fresh_node_def queue_init_def zero_queue_def Let_def
      wq_step_def wq_push_def empty_wq_def)

text \<open>
  Destroying a queue hands every item still in it to \<^verbatim>\<open>free_fn\<close> exactly once and in order, frees
  every node (no node stays allocated), leaves the queue closed and empty and releases the mutex
  and both condition variables.
\<close>

theorem queue_destroy_frees:
  assumes "queue_rel q w"
  shows "\<exists>q'. queue_destroy q = Done (wq_items w, q') \<and> q_heap q' = [] \<and> q_closed q' \<and>
    queue_items q' = [] \<and> q_unfinished q' = 0 \<and>
    \<not> q_mutex q' \<and> \<not> q_available q' \<and> \<not> q_completed q'"
proof -
  from assms obtain as where r: "queue_repr q as" and w: "wq_items w = map (item_at (q_heap q)) as"
    by (auto simp: queue_rel_def)
  then have "filter (\<lambda>(k, v). k \<notin> set as) (q_heap q) = []"
    by (force simp: queue_repr_def filter_empty_conv)
  with r w show ?thesis
    by (auto simp: queue_destroy_def Let_def queue_close_def queue_repr_def free_nodes_chain
        queue_items_def)
qed

definition two_item_queue :: "string queue" where
  "two_item_queue = zero_queue\<lparr>
     q_heap := [(1, \<lparr>node_data = ''a'', node_next = Some 2\<rparr>), (2, \<lparr>node_data = ''b'', node_next = None\<rparr>)],
     q_head := Some 1, q_tail := Some 2, q_size := 2, q_unfinished := 2\<rparr>"

lemma two_item_queue_rel:
  "queue_rel two_item_queue \<lparr>wq_items = [''a'', ''b''], wq_unfinished = 2, wq_closed = False\<rparr>"
  by (rule queue_relI [of _ "[1, 2]"])
    (auto simp: two_item_queue_def zero_queue_def queue_repr_def item_at_def)

theorem queue_destroy_frees_witness:
  "\<exists>q'. queue_destroy two_item_queue = Done ([''a'', ''b''], q') \<and> q_heap q' = [] \<and> q_closed q'"
  using queue_destroy_frees [OF two_item_queue_rel] by auto

lemma rel_head: "queue_rel q v \<Longrightarrow> q_head q = None \<longleftrightarrow> wq_items v = []"
  using chain_head [of "q_heap q" "q_head q"] by (auto simp: queue_rel_def queue_repr_def)

lemma rel_closed: "queue_rel q v \<Longrightarrow> q_closed q = wq_closed v"
  by (simp add: queue_rel_def)

lemma pop_now_cases:
  assumes "queue_rel q v"
  shows "pop_now q = Done (None, q) \<and> queue_items q = [] \<or>
    (\<exists>x q'. pop_now q = Done (Some x, q') \<and> queue_items q = x # queue_items q')"
proof (cases "wq_items v")
  case Nil
  with rel_head [OF assms] assms show ?thesis by (simp add: pop_now_def queue_items_rel)
next
  case (Cons x xs)
  with lq.pop_sim [OF assms] queue_items_rel [OF assms] show ?thesis
    by (auto simp: wq_pop_def dest!: queue_items_rel)
qed

definition pop_post :: "'a wake list \<Rightarrow> 'a queue \<Rightarrow> ('a option \<times> 'a queue) outcome \<Rightarrow> bool" where
  "pop_post ws q r =
     (case r of
        Undefined \<Rightarrow> False
      | Blocked \<Rightarrow> queue_items q = [] \<and> \<not> q_closed q
      | Done (Some x, q') \<Rightarrow>
          (\<exists>k \<le> length ws. queue_items (fold wk_env (take k ws) q) = x # queue_items q')
      | Done (None, q') \<Rightarrow>
          (\<exists>w \<in> set ws. wk_result w \<noteq> 0) \<or> q_closed q' \<and> queue_items q' = [])"

lemma pop_post_now: "queue_rel q v \<Longrightarrow> q_head q \<noteq> None \<or> q_closed q \<Longrightarrow> pop_post ws q (pop_now q)"
  using pop_now_cases [of q v] rel_head [of q v] queue_items_rel [of q v]
  by (auto simp: pop_post_def intro!: exI [of _ 0])

lemma pop_post_wait:
  assumes "pop_post ws (wk_env w q) r" and "queue_items q = []" and "\<not> q_closed q"
  shows "pop_post (w # ws) q r"
proof (cases r)
  case (Done p)
  obtain y q' where p: "p = (y, q')" by (cases p)
  show ?thesis
  proof (cases y)
    case None
    with assms(1) Done p show ?thesis by (auto simp: pop_post_def)
  next
    case (Some x)
    with assms(1) Done p obtain k where "k \<le> length ws"
      "queue_items (fold wk_env (take k ws) (wk_env w q)) = x # queue_items q'"
      by (auto simp: pop_post_def)
    with Done p Some show ?thesis by (auto simp: pop_post_def intro!: exI [of _ "Suc k"])
  qed
qed (use assms in \<open>auto simp: pop_post_def\<close>)

text \<open>
  \<^verbatim>\<open>syseba_queue_pop\<close> with its wait loop. Whatever the other threads do during the waits, as long
  as it keeps the queue well formed, pop never touches freed memory; the item it returns is the
  first of the queue as the other threads left it after some of the waits, and the rest stays; it
  returns NULL only when a wait failed or timed out, or when the queue is closed and empty; it waits
  for ever only on an empty open queue that nobody wakes.
\<close>

theorem queue_pop_correct:
  assumes "queue_rel q v"
    and "\<forall>w \<in> set ws. \<forall>q. (\<exists>v. queue_rel q v) \<longrightarrow> (\<exists>v. queue_rel (wk_env w q) v)"
  shows "pop_post ws q (queue_pop ws q)"
  using assms
proof (induction ws arbitrary: q v)
  case Nil
  with pop_post_now [OF Nil.prems(1)] rel_head [OF Nil.prems(1)] queue_items_rel [OF Nil.prems(1)]
  show ?case by (subst queue_pop.simps) (auto simp: pop_post_def)
next
  case (Cons w ws)
  obtain v' where v': "queue_rel (wk_env w q) v'" using Cons.prems by auto
  show ?case
  proof (cases "q_head q = None \<and> \<not> q_closed q")
    case True
    then have e: "queue_items q = []"
      using rel_head [OF Cons.prems(1)] queue_items_rel [OF Cons.prems(1)] by simp
    have "pop_post (w # ws) q (Done (None, wk_env w q))" if "wk_result w \<noteq> 0"
      using that by (simp add: pop_post_def)
    moreover have "pop_post (w # ws) q (queue_pop ws (wk_env w q))"
      using Cons.IH [OF v'] Cons.prems(2) e True by (intro pop_post_wait) auto
    ultimately show ?thesis
      using True by (subst queue_pop.simps) (simp add: Let_def)
  next
    case False
    with pop_post_now [OF Cons.prems(1)] show ?thesis by (subst queue_pop.simps) auto
  qed
qed

theorem queue_pop_correct_witness:
  "pop_post [\<lparr>wk_result = 0, wk_env = queue_close, wk_now = 0\<rparr>] two_item_queue
     (queue_pop [\<lparr>wk_result = 0, wk_env = queue_close, wk_now = 0\<rparr>] two_item_queue)"
  by (rule queue_pop_correct [OF two_item_queue_rel]) (auto dest: lq.close_sim)

section \<open>Waiting for an empty queue\<close>

text \<open>
  Every round of \<^verbatim>\<open>syseba_queue_wait_empty\<close> waits at least one millisecond and never longer than
  the caller asked for: when the clock has not gone back before the start of the call, the 64-bit
  difference to the deadline does not wrap and its conversion to \<^verbatim>\<open>unsigned\<close> loses nothing.
\<close>

theorem wait_remaining_bounds:
  assumes "start \<le> now" and "now < start + ucast timeout_ms * 1000000"
    and "unat start + unat timeout_ms * 1000000 < 2 ^ 64"
  shows "1 \<le> unat (wait_remaining (start + ucast (timeout_ms :: 32 word) * 1000000) now) \<and>
    unat (wait_remaining (start + ucast timeout_ms * 1000000) now) \<le> max 1 (unat timeout_ms)"
proof -
  let ?d = "start + ucast timeout_ms * 1000000 :: 64 word"
  have t: "unat timeout_ms * 1000000 < 2 ^ 64" using assms(3) by simp
  then have "unat (ucast timeout_ms * 1000000 :: 64 word) = unat timeout_ms * 1000000"
    by (simp add: unat_word_ariths)
  then have d: "unat ?d = unat start + unat timeout_ms * 1000000"
    using assms(3) by (simp add: unat_word_ariths)
  have diff: "unat (?d - now) = unat ?d - unat now"
    using assms(2) by (intro unat_diff) (simp add: order_less_imp_le)
  let ?q = "(unat ?d - unat now) div 1000000"
  have q: "?q \<le> unat timeout_ms"
    using assms(1) d by (simp add: word_le_nat_alt div_le_mono le_diff_conv)
  have "unat ((?d - now) div 1000000) = ?q" by (simp add: unat_div diff)
  moreover have "?q < 2 ^ 32" using q unat_32_less [of timeout_ms] by simp
  ultimately have r: "unat (ucast ((?d - now) div 1000000) :: 32 word) = ?q"
    by (simp add: unat_ucast_64_32)
  show ?thesis
  proof (cases "(ucast ((?d - now) div 1000000) :: 32 word) = 0")
    case True
    then show ?thesis by (simp add: wait_remaining_def)
  next
    case False
    then have "0 < unat (ucast ((?d - now) div 1000000) :: 32 word)" by (simp add: unat_gt_0)
    with False r q show ?thesis by (simp add: wait_remaining_def Let_def)
  qed
qed

theorem wait_remaining_bounds_witness:
  "1 \<le> unat (wait_remaining (100 + ucast (2500 :: 32 word) * 1000000) 100) \<and>
   unat (wait_remaining (100 + ucast (2500 :: 32 word) * 1000000) 100) \<le> 2500"
  using wait_remaining_bounds [of 100 100 2500] by simp

section \<open>Producers, workers and the queue\<close>

text \<open>
  The threads around one queue as an interleaving of the critical sections: a producer pushes, a
  worker takes an item, finishes the item it took and reports it done, and some thread closes the
  queue. \<open>pl_accepted\<close>, \<open>pl_taken\<close>, \<open>pl_busy\<close> and \<open>pl_done\<close> record the history.
\<close>

record 'a pool =
  pl_queue :: "'a queue"
  pl_accepted :: "'a list"
  pl_taken :: "'a list"
  pl_busy :: "'a list"
  pl_done :: "'a list"

definition in_memory :: "'a pool \<Rightarrow> bool" where
  "in_memory p \<longleftrightarrow> length (queue_items (pl_queue p)) + length (pl_busy p) + 1 < 2 ^ 64"

inductive worker_step :: "'a pool \<Rightarrow> 'a pool \<Rightarrow> bool" where
  take_item: "queue_pop [] (pl_queue p) = Done (Some x, q') \<Longrightarrow>
    worker_step p (p\<lparr>pl_queue := q', pl_taken := pl_taken p @ [x], pl_busy := pl_busy p @ [x]\<rparr>)"
| finish_item: "x \<in> set (pl_busy p) \<Longrightarrow>
    worker_step p (p\<lparr>pl_queue := queue_task_done (pl_queue p), pl_busy := remove1 x (pl_busy p),
      pl_done := pl_done p @ [x]\<rparr>)"

inductive pool_step :: "'a pool \<Rightarrow> 'a pool \<Rightarrow> bool" where
  submit: "fresh_node (pl_queue p) alloc \<Longrightarrow> in_memory p \<Longrightarrow>
    queue_push alloc x (pl_queue p) = Done (0, q') \<Longrightarrow>
    pool_step p (p\<lparr>pl_queue := q', pl_accepted := pl_accepted p @ [x]\<rparr>)"
| refused: "fresh_node (pl_queue p) alloc \<Longrightarrow> in_memory p \<Longrightarrow>
    queue_push alloc x (pl_queue p) = Done (- 1, q') \<Longrightarrow> pool_step p (p\<lparr>pl_queue := q'\<rparr>)"
| work: "worker_step p p' \<Longrightarrow> pool_step p p'"
| shut: "pool_step p (p\<lparr>pl_queue := queue_close (pl_queue p)\<rparr>)"

definition pool_start :: "'a pool" where
  "pool_start = \<lparr>pl_queue = snd (queue_init True True True), pl_accepted = [], pl_taken = [],
     pl_busy = [], pl_done = []\<rparr>"

definition pool_inv :: "'a pool \<Rightarrow> bool" where
  "pool_inv p \<longleftrightarrow>
     (\<exists>w. queue_rel (pl_queue p) w \<and>
        wq_unfinished w = length (wq_items w) + length (pl_busy p) \<and>
        pl_accepted p = pl_taken p @ wq_items w \<and>
        mset (pl_taken p) = mset (pl_busy p) + mset (pl_done p))"

inductive_cases worker_stepE: "worker_step p p'"
inductive_cases pool_stepE: "pool_step p p'"

lemma pool_start_inv: "pool_inv pool_start"
  using empty_queue_rel by (auto simp: pool_inv_def pool_start_def empty_wq_def)

lemma queue_pop_Nil_Some: "queue_pop [] q = Done (Some x, q') \<Longrightarrow> pop_now q = Done (Some x, q')"
  by (auto simp: queue_pop.simps split: if_splits)

lemma worker_step_inv:
  assumes "worker_step p p'" and "pool_inv p"
  shows "pool_inv p'"
  using assms
proof (cases rule: worker_step.cases)
  case (take_item x q')
  with assms(2) obtain w where w: "queue_rel (pl_queue p) w"
    "wq_unfinished w = length (wq_items w) + length (pl_busy p)"
    "pl_accepted p = pl_taken p @ wq_items w" "mset (pl_taken p) = mset (pl_busy p) + mset (pl_done p)"
    by (auto simp: pool_inv_def)
  from lq.pop_taken [OF w(1) queue_pop_Nil_Some [OF take_item(2)]] obtain xs where
    "wq_items w = x # xs" "queue_rel q' (w\<lparr>wq_items := xs\<rparr>)" by blast
  with w take_item(1) show ?thesis
    by (auto simp: pool_inv_def intro!: exI [of _ "w\<lparr>wq_items := xs\<rparr>"])
next
  case (finish_item x)
  with assms(2) obtain w where w: "queue_rel (pl_queue p) w"
    "wq_unfinished w = length (wq_items w) + length (pl_busy p)"
    "pl_accepted p = pl_taken p @ wq_items w" "mset (pl_taken p) = mset (pl_busy p) + mset (pl_done p)"
    by (auto simp: pool_inv_def)
  from finish_item(2) obtain n where "length (pl_busy p) = Suc n" by (cases "pl_busy p") auto
  moreover have "mset (pl_busy p) = add_mset x (mset (remove1 x (pl_busy p)))"
    using finish_item(2) by simp
  ultimately show ?thesis
    using w lq.task_done_sim [OF w(1)] finish_item
    by (auto simp: pool_inv_def wq_task_done_def length_remove1 intro!: exI [of _ "wq_task_done w"])
qed

lemma pool_step_inv: "pool_step p p' \<Longrightarrow> pool_inv p \<Longrightarrow> pool_inv p'"
proof (induction rule: pool_step.induct)
  case (submit p alloc x q')
  then obtain w where w: "queue_rel (pl_queue p) w" and
    u: "wq_unfinished w = length (wq_items w) + length (pl_busy p)"
    "pl_accepted p = pl_taken p @ wq_items w" "mset (pl_taken p) = mset (pl_busy p) + mset (pl_done p)"
    by (auto simp: pool_inv_def)
  with submit(2) have "wq_unfinished w + 1 < 2 ^ 64"
    by (simp add: in_memory_def queue_items_rel [OF w])
  from lq.push_accepted [OF w submit(1) this submit(3)] u show ?case
    by (auto simp: pool_inv_def intro!: exI)
next
  case (refused p alloc x q')
  then obtain w where w: "queue_rel (pl_queue p) w" and
    u: "wq_unfinished w = length (wq_items w) + length (pl_busy p)"
    "pl_accepted p = pl_taken p @ wq_items w" "mset (pl_taken p) = mset (pl_busy p) + mset (pl_done p)"
    by (auto simp: pool_inv_def)
  with refused(2) have "wq_unfinished w + 1 < 2 ^ 64"
    by (simp add: in_memory_def queue_items_rel [OF w])
  from lq.push_rejected [OF w refused(1) this refused(3)] u show ?case
    by (auto simp: pool_inv_def)
next
  case (work p p')
  then show ?case by (simp add: worker_step_inv)
next
  case (shut p)
  then show ?case
    using lq.close_sim by (fastforce simp: pool_inv_def wq_close_def)
qed

lemma pool_reachable_inv: "pool_step\<^sup>*\<^sup>* pool_start p \<Longrightarrow> pool_inv p"
  by (induction rule: rtranclp_induct) (simp_all add: pool_start_inv pool_step_inv)

text \<open>
  C1: no accepted item is lost, duplicated or overtaken. In every reachable state of producers and
  workers around the queue, the accepted items are the items taken, in the order they were
  accepted, followed by the items still queued; every item taken is either in work or done, once;
  and \<^verbatim>\<open>unfinished\<close> is exactly the number of items queued or in work.
\<close>

theorem pool_conserves_items:
  assumes "pool_step\<^sup>*\<^sup>* pool_start p"
  shows "pl_accepted p = pl_taken p @ queue_items (pl_queue p) \<and>
    mset (pl_taken p) = mset (pl_busy p) + mset (pl_done p) \<and>
    unat (q_unfinished (pl_queue p)) = length (queue_items (pl_queue p)) + length (pl_busy p) \<and>
    queue_size (pl_queue p) = of_nat (length (queue_items (pl_queue p)))"
proof -
  from pool_reachable_inv [OF assms] obtain w where
    w: "queue_rel (pl_queue p) w" "wq_unfinished w = length (wq_items w) + length (pl_busy p)"
      "pl_accepted p = pl_taken p @ wq_items w" "mset (pl_taken p) = mset (pl_busy p) + mset (pl_done p)"
    by (auto simp: pool_inv_def)
  have "queue_size (pl_queue p) = of_nat (length (wq_items w))"
    using w(1) by (auto simp: queue_rel_def queue_repr_def queue_size_def)
  moreover have "unat (q_unfinished (pl_queue p)) = wq_unfinished w"
    using w(1) by (simp add: queue_rel_def)
  ultimately show ?thesis using w queue_items_rel [OF w(1)] by simp
qed

definition one_item_pool :: "string pool" where
  "one_item_pool = pool_start\<lparr>pl_accepted := [''a''], pl_queue := (pl_queue pool_start)\<lparr>
     q_heap := [(1, \<lparr>node_data = ''a'', node_next = None\<rparr>)], q_head := Some 1, q_tail := Some 1,
     q_size := 1, q_unfinished := 1\<rparr>\<rparr>"

lemmas one_item_pool_simps =
  one_item_pool_def pool_start_def queue_init_def zero_queue_def queue_items_def

lemma one_item_pool_reachable: "pool_step\<^sup>*\<^sup>* pool_start one_item_pool"
proof -
  have "queue_push (Some 1) ''a'' (pl_queue pool_start) = Done (0, pl_queue one_item_pool)"
    by (simp add: one_item_pool_simps queue_push_def)
  then have "pool_step pool_start (pool_start\<lparr>pl_queue := pl_queue one_item_pool,
      pl_accepted := pl_accepted pool_start @ [''a'']\<rparr>)"
    by (intro submit [of pool_start "Some 1"])
      (simp_all add: fresh_node_def in_memory_def one_item_pool_simps)
  then show ?thesis by (simp add: one_item_pool_simps)
qed

theorem pool_conserves_items_witness:
  "pl_accepted one_item_pool = [] @ queue_items (pl_queue one_item_pool) \<and>
   unat (q_unfinished (pl_queue one_item_pool)) = 1"
  using pool_conserves_items [OF one_item_pool_reachable] by (simp add: one_item_pool_simps)

lemma unfinished_zero_iff:
  assumes "pool_inv p"
  shows "q_unfinished (pl_queue p) = 0 \<longleftrightarrow> mset (pl_done p) = mset (pl_accepted p)"
proof -
  from assms obtain w where
    w: "queue_rel (pl_queue p) w" "wq_unfinished w = length (wq_items w) + length (pl_busy p)"
      "pl_accepted p = pl_taken p @ wq_items w" "mset (pl_taken p) = mset (pl_busy p) + mset (pl_done p)"
    by (auto simp: pool_inv_def)
  have "q_unfinished (pl_queue p) = 0 \<longleftrightarrow> wq_unfinished w = 0"
    using w(1) by (metis queue_rel_def unat_eq_0)
  also have "\<dots> \<longleftrightarrow> wq_items w = [] \<and> pl_busy p = []" using w(2) by simp
  also have "\<dots> \<longleftrightarrow> mset (pl_done p) = mset (pl_accepted p)"
    using w(3,4) by auto
  finally show ?thesis .
qed

lemma wait_empty_loop_pool:
  assumes "pool_step\<^sup>*\<^sup>* pool_start p"
    and "\<forall>w \<in> set ws. \<forall>p. pool_step\<^sup>*\<^sup>* pool_start p \<longrightarrow>
           (\<exists>p'. pool_step\<^sup>*\<^sup>* p p' \<and> pl_queue p' = wk_env w (pl_queue p))"
    and "wait_empty_loop deadline ws (pl_queue p) = Done (b, q')"
  shows "\<exists>p'. pool_step\<^sup>*\<^sup>* p p' \<and> pl_queue p' = q' \<and> b = (q_unfinished q' = 0) \<and>
    (\<not> b \<longrightarrow> q_closed q' \<or> (\<exists>w \<in> set ws. wk_now w \<ge> deadline \<or> wk_result w < 0))"
  using assms
proof (induction ws arbitrary: p)
  case Nil
  then show ?case
    by (subst (asm) wait_empty_loop.simps) (auto split: if_splits simp: word_neq_0_conv)
next
  case (Cons w ws)
  from Cons.prems(1,2) obtain p1 where p1: "pool_step\<^sup>*\<^sup>* p p1" "pl_queue p1 = wk_env w (pl_queue p)"
    by auto
  have reach: "pool_step\<^sup>*\<^sup>* pool_start p1"
    using Cons.prems(1) p1(1) by (rule rtranclp_trans)
  consider (stop) "\<not> (q_unfinished (pl_queue p) > 0 \<and> \<not> q_closed (pl_queue p))"
    | (late) "q_unfinished (pl_queue p) > 0" "\<not> q_closed (pl_queue p)" "wk_now w \<ge> deadline"
    | (fail) "q_unfinished (pl_queue p) > 0" "\<not> q_closed (pl_queue p)" "\<not> wk_now w \<ge> deadline"
        "wk_result w < 0"
    | (again) "wait_empty_loop deadline ws (pl_queue p1) = Done (b, q')"
    using Cons.prems(3) p1(2)
    by (subst (asm) wait_empty_loop.simps) (auto simp: Let_def split: if_splits)
  then show ?case
  proof cases
    case again
    from Cons.IH [OF reach _ this] Cons.prems(2) obtain p2 where
      "pool_step\<^sup>*\<^sup>* p1 p2" "pl_queue p2 = q'" "b = (q_unfinished q' = 0)"
      "\<not> b \<longrightarrow> q_closed q' \<or> (\<exists>w \<in> set ws. wk_now w \<ge> deadline \<or> wk_result w < 0)"
      by auto
    with rtranclp_trans [OF p1(1)] show ?thesis by (intro exI [of _ p2]) auto
  next
    case fail
    with Cons.prems(3) have "q' = wk_env w (pl_queue p)" "b = (q_unfinished q' = 0)"
      by (auto simp: wait_empty_loop.simps [of deadline "w # ws"] Let_def)
    with fail p1 show ?thesis by (intro exI [of _ p1]) auto
  qed (use Cons.prems(3) in
      \<open>auto simp: wait_empty_loop.simps [of deadline "w # ws"] word_neq_0_conv intro!: exI [of _ p]\<close>)
qed

text \<open>
  \<^verbatim>\<open>syseba_queue_wait_empty\<close> tells the truth. Started in a reachable state of the pool, with any
  interleaving of the other threads' steps during its waits, it answers true exactly when every
  item accepted by then is done; a false answer means that the queue was closed, the deadline
  passed or a wait failed.
\<close>

theorem wait_empty_means_done:
  assumes "pool_step\<^sup>*\<^sup>* pool_start p"
    and "\<forall>w \<in> set ws. \<forall>p. pool_step\<^sup>*\<^sup>* pool_start p \<longrightarrow>
           (\<exists>p'. pool_step\<^sup>*\<^sup>* p p' \<and> pl_queue p' = wk_env w (pl_queue p))"
    and "queue_wait_empty start timeout_ms ws (pl_queue p) = Done (b, q')"
  shows "\<exists>p'. pool_step\<^sup>*\<^sup>* p p' \<and> pl_queue p' = q' \<and>
    b = (mset (pl_done p') = mset (pl_accepted p')) \<and>
    (\<not> b \<longrightarrow> q_closed q' \<or>
      (\<exists>w \<in> set ws. wk_now w \<ge> start + ucast timeout_ms * 1000000 \<or> wk_result w < 0))"
  using wait_empty_loop_pool [OF assms(1,2)] assms(3) pool_reachable_inv unfinished_zero_iff
    rtranclp_trans [OF assms(1)]
  unfolding queue_wait_empty_def by metis

theorem wait_empty_means_done_witness:
  "\<exists>p'. pool_step\<^sup>*\<^sup>* one_item_pool p' \<and> pl_queue p' = queue_close (pl_queue one_item_pool) \<and>
     mset (pl_done p') \<noteq> mset (pl_accepted p')"
proof -
  have "queue_wait_empty 0 1000 [\<lparr>wk_result = 0, wk_env = queue_close, wk_now = 5\<rparr>]
      (pl_queue one_item_pool) = Done (False, queue_close (pl_queue one_item_pool))"
    by (simp add: queue_wait_empty_def wait_empty_loop.simps one_item_pool_simps queue_close_def)
  moreover have "\<exists>p'. pool_step\<^sup>*\<^sup>* p p' \<and> pl_queue p' = queue_close (pl_queue p)" for p :: "string pool"
    by (intro exI [of _ "p\<lparr>pl_queue := queue_close (pl_queue p)\<rparr>"])
      (auto intro: shut r_into_rtranclp [of pool_step])
  ultimately show ?thesis
    using wait_empty_means_done [OF one_item_pool_reachable,
        of "[\<lparr>wk_result = 0, wk_env = queue_close, wk_now = 5\<rparr>]" 0 1000 False] by auto
qed

section \<open>Shutting down\<close>

lemma worker_steps_inv: "worker_step\<^sup>*\<^sup>* p p' \<Longrightarrow> pool_inv p \<Longrightarrow> pool_inv p' \<and> pl_accepted p' = pl_accepted p"
proof (induction rule: rtranclp_induct)
  case (step y z)
  from step(2) have "pl_accepted z = pl_accepted y" by (cases rule: worker_step.cases) simp_all
  with step worker_step_inv show ?case by auto
qed simp

definition pool_work :: "'a pool \<Rightarrow> nat" where
  "pool_work p = 2 * length (queue_items (pl_queue p)) + length (pl_busy p)"

lemma worker_step_work:
  assumes "worker_step p p'" and "pool_inv p"
  shows "pool_work p' < pool_work p"
proof -
  from assms(2) obtain w where w: "queue_rel (pl_queue p) w" by (auto simp: pool_inv_def)
  from assms(1) show ?thesis
  proof (cases rule: worker_step.cases)
    case (take_item x q')
    with pop_now_cases [OF w] queue_pop_Nil_Some [OF take_item(2)] show ?thesis
      by (auto simp: pool_work_def)
  next
    case (finish_item x)
    then have "length (remove1 x (pl_busy p)) < length (pl_busy p)"
      using length_pos_if_in_set [of x "pl_busy p"] by (simp add: length_remove1)
    moreover have "queue_items (queue_task_done (pl_queue p)) = queue_items (pl_queue p)"
      using queue_items_rel [OF w] queue_items_rel [OF lq.task_done_sim [OF w]]
      by (simp add: wq_task_done_def)
    ultimately show ?thesis using finish_item by (simp add: pool_work_def)
  qed
qed

lemma worker_can_step:
  assumes "pool_inv p" and "pool_work p \<noteq> 0"
  shows "\<exists>p'. worker_step p p'"
proof (cases "pl_busy p")
  case Nil
  from assms(1) obtain w where w: "queue_rel (pl_queue p) w" by (auto simp: pool_inv_def)
  from Nil assms(2) have "queue_items (pl_queue p) \<noteq> []" by (simp add: pool_work_def)
  with pop_now_cases [OF w] rel_head [OF w] queue_items_rel [OF w] obtain x q' where
    "queue_pop [] (pl_queue p) = Done (Some x, q')"
    by (auto simp: queue_pop.simps)
  then show ?thesis by (blast intro: take_item)
next
  case (Cons x xs)
  then have "x \<in> set (pl_busy p)" by simp
  from finish_item [OF this] show ?thesis by blast
qed

lemma workers_drain: "pool_inv p \<Longrightarrow> \<exists>p'. worker_step\<^sup>*\<^sup>* p p' \<and> pool_work p' = 0"
proof (induction "pool_work p" arbitrary: p rule: less_induct)
  case less
  show ?case
  proof (cases "pool_work p = 0")
    case False
    from worker_can_step [OF less.prems False] obtain p1 where p1: "worker_step p p1" ..
    with less worker_step_work worker_step_inv show ?thesis
      by (meson converse_rtranclp_into_rtranclp)
  qed auto
qed

lemma worker_steps_bound: "(worker_step ^^ n) p p' \<Longrightarrow> pool_inv p \<Longrightarrow> n + pool_work p' \<le> pool_work p"
proof (induction n arbitrary: p')
  case (Suc n)
  then obtain p1 where p1: "(worker_step ^^ n) p p1" "worker_step p1 p'" by auto
  then have "pool_inv p1" using Suc.prems(2) worker_steps_inv by (meson relpowp_imp_rtranclp)
  with Suc.IH [OF p1(1) Suc.prems(2)] worker_step_work [OF p1(2)] show ?case by simp
qed simp

text \<open>
  C29: the workers always finish what was accepted, before and after the queue is closed. From every
  reachable state some sequence of worker steps alone ends with an empty queue, nothing in work and
  every accepted item done; and no sequence of worker steps is longer than twice the queued items
  plus the items in work, so the workers cannot be kept busy without new items.
\<close>

theorem pool_drains:
  assumes "pool_step\<^sup>*\<^sup>* pool_start p"
  shows "(\<exists>p'. worker_step\<^sup>*\<^sup>* p p' \<and> queue_items (pl_queue p') = [] \<and> pl_busy p' = [] \<and>
            mset (pl_done p') = mset (pl_accepted p)) \<and>
    (\<forall>n p'. (worker_step ^^ n) p p' \<longrightarrow>
       n \<le> 2 * length (queue_items (pl_queue p)) + length (pl_busy p))"
proof -
  have inv: "pool_inv p" by (rule pool_reachable_inv [OF assms])
  from workers_drain [OF inv] obtain p' where p': "worker_step\<^sup>*\<^sup>* p p'" "pool_work p' = 0" by blast
  with worker_steps_inv [OF p'(1) inv] have inv': "pool_inv p'" "pl_accepted p' = pl_accepted p" by auto
  from inv'(1) p'(2) have "mset (pl_done p') = mset (pl_accepted p')"
    by (auto simp: pool_inv_def pool_work_def queue_items_rel)
  with p' inv'(2) worker_steps_bound [OF _ inv] show ?thesis
    by (fastforce simp: pool_work_def)
qed

theorem pool_drains_witness:
  "\<exists>p'. worker_step\<^sup>*\<^sup>* one_item_pool p' \<and> queue_items (pl_queue p') = [] \<and> mset (pl_done p') = {#''a''#}"
  using pool_drains [OF one_item_pool_reachable] by (auto simp: one_item_pool_def)

end
