(* ===== verification/Platform.thy ===== *)
theory Platform
  imports Types
begin

text \<open>
  The parts of \<^verbatim>\<open>platform.c\<close> (Linux branch) that carry logic of their own: canonical paths, parent
  directories, directory creation, the clock and time arithmetic, random bytes and disk usage.
  The lemmas show that \<^verbatim>\<open>syseba_path_real\<close> produces canonical absolute paths within its buffers and
  that \<^verbatim>\<open>syseba_mkdirs\<close> only ever adds directories.
\<close>

section \<open>Paths\<close>

definition backslash :: char where
  "backslash = CHR 0x5C"

definition normalize_separators :: "string \<Rightarrow> string" where
  "normalize_separators p = map (\<lambda>c. if c = backslash then slash else c) p"

text \<open>The token loop of \<^verbatim>\<open>syseba_path_real\<close>: \<open>parts\<close> is the array filled so far.\<close>

fun collect_parts :: "string list \<Rightarrow> string list \<Rightarrow> string list" where
  "collect_parts [] parts = parts"
| "collect_parts (t # ts) parts =
     (if t = ''.'' \<or> t = [] then collect_parts ts parts
      else if t = ''..'' then collect_parts ts (if parts \<noteq> [] then butlast parts else parts)
      else collect_parts ts (parts @ [t]))"

text \<open>The output loop: separators where the output does not end with one, and the size test.\<close>

fun emit_parts :: "nat \<Rightarrow> string list \<Rightarrow> string \<Rightarrow> string option" where
  "emit_parts n [] out = Some out"
| "emit_parts n (w # ws) out =
     (let needs_separator = (out \<noteq> [] \<and> last out \<noteq> slash) in
      if length out + (if needs_separator then 1 else 0) + length w + 1 > n then None
      else emit_parts n ws (out @ (if needs_separator then [slash] else []) @ w))"

definition absolute_path :: "string \<Rightarrow> os \<Rightarrow> string option \<times> os" where
  "absolute_path path s =
     (if path \<noteq> [] \<and> hd path = slash
      then (if fits SYSEBA_PATH_MAX path then Some path else None, s)
      else (case sys_getcwd SYSEBA_PATH_MAX s of
              (Inl e, s1) \<Rightarrow> (None, s1)
            | (Inr cwd, s1) \<Rightarrow>
                (if fits (SYSEBA_PATH_MAX - length cwd) (slash # path)
                 then Some (cwd @ slash # path) else None, s1)))"

definition path_real_text :: "string \<Rightarrow> nat \<Rightarrow> string option" where
  "path_real_text absolute n =
     (let normalized = normalize_separators absolute;
          parts = collect_parts (strtok slash (tl normalized)) []
      in if 1 \<ge> n then None else emit_parts n parts [slash])"

definition syseba_path_real :: "string \<Rightarrow> nat \<Rightarrow> os \<Rightarrow> string option \<times> os" where
  "syseba_path_real path n s =
     (case absolute_path path s of
        (None, s1) \<Rightarrow> (None, s1)
      | (Some absolute, s1) \<Rightarrow> (path_real_text absolute n, s1))"

definition syseba_parent_dir :: "string \<Rightarrow> nat \<Rightarrow> string option" where
  "syseba_parent_dir path n =
     (case strrchr slash path of
        None \<Rightarrow> if fits n ''.'' then Some ''.'' else None
      | Some (front, after) \<Rightarrow>
          if front = [] then (if fits n [slash] then Some [slash] else None)
          else if length front + 1 > n then None
          else Some front)"

section \<open>Creating directories\<close>

text \<open>
  The prefixes \<^verbatim>\<open>syseba_mkdirs\<close> creates: up to every separator after the first character, then the
  whole path. An existing node is not an error.
\<close>

definition mkdir_prefixes :: "string \<Rightarrow> string list" where
  "mkdir_prefixes p = map (\<lambda>i. take i p) (filter (\<lambda>i. p ! i = slash) [1..<length p]) @ [p]"

fun mkdir_each :: "string list \<Rightarrow> os \<Rightarrow> int \<times> os" where
  "mkdir_each [] s = (0, s)"
| "mkdir_each (p # ps) s =
     (case sys_mkdir p s of
        (Inr _, s1) \<Rightarrow> mkdir_each ps s1
      | (Inl e, s1) \<Rightarrow> if e \<noteq> EEXIST then (- 1, s1) else mkdir_each ps s1)"

definition syseba_mkdirs :: "string \<Rightarrow> os \<Rightarrow> int \<times> os" where
  "syseba_mkdirs path s =
     (if path = [] then (0, s)
      else if \<not> fits SYSEBA_PATH_MAX path then (- 1, set_errno ENAMETOOLONG s)
      else mkdir_each (mkdir_prefixes (strip_slashes (normalize_separators path))) s)"

definition syseba_set_private_permissions :: "string \<Rightarrow> os \<Rightarrow> int \<times> os" where
  "syseba_set_private_permissions path s =
     (case sys_chmod path 384 s of (Inl e, s1) \<Rightarrow> (- 1, s1) | (Inr _, s1) \<Rightarrow> (0, s1))"

section \<open>Time\<close>

definition syseba_monotonic_ns :: "os \<Rightarrow> 64 word \<times> os" where
  "syseba_monotonic_ns s =
     (case sys_clock s of
        (None, s1) \<Rightarrow> (0, s1)
      | (Some (sec, nsec), s1) \<Rightarrow> (of_nat sec * 1000000000 + of_nat nsec, s1))"

text \<open>The absolute deadline \<^verbatim>\<open>syseba_cond_timedwait\<close> computes, and its result.\<close>

definition timedwait_deadline :: "nat \<Rightarrow> nat \<Rightarrow> 32 word \<Rightarrow> nat \<times> nat" where
  "timedwait_deadline sec nsec timeout_ms =
     (let sec1 = sec + unat (timeout_ms div 1000);
          nsec1 = nsec + unat (timeout_ms mod 1000) * 1000000
      in if nsec1 \<ge> 1000000000 then (sec1 + 1, nsec1 - 1000000000) else (sec1, nsec1))"

datatype wait_result = WaitOk | WaitTimedOut | WaitError

definition syseba_cond_timedwait :: "(nat \<times> nat) option \<Rightarrow> (nat \<times> nat \<Rightarrow> wait_result) \<Rightarrow> 32 word \<Rightarrow> int" where
  "syseba_cond_timedwait realtime wait timeout_ms =
     (case realtime of
        None \<Rightarrow> - 1
      | Some (sec, nsec) \<Rightarrow>
          (case wait (timedwait_deadline sec nsec timeout_ms) of
             WaitOk \<Rightarrow> 0 | WaitTimedOut \<Rightarrow> 1 | WaitError \<Rightarrow> - 1))"

definition strftime_text :: "char \<Rightarrow> tm \<Rightarrow> string" where
  "strftime_text sep t =
     dec (tm_year t) @ ''-'' @ dec2 (tm_mon t) @ ''-'' @ dec2 (tm_mday t) @ [sep] @
     dec2 (tm_hour t) @ '':'' @ dec2 (tm_min t) @ '':'' @ dec2 (tm_sec t)"

definition syseba_timestamp_now :: "os \<Rightarrow> string" where
  "syseba_timestamp_now s = strftime_text (CHR '' '') (os_localtime s (os_time s))"

definition syseba_iso_from_time :: "int \<Rightarrow> os \<Rightarrow> string" where
  "syseba_iso_from_time value s = strftime_text (CHR ''T'') (os_localtime s value)"

definition syseba_iso_now :: "os \<Rightarrow> string" where
  "syseba_iso_now s = syseba_iso_from_time (os_time s) s"

section \<open>Random bytes and disk usage\<close>

text \<open>
  The read loop of \<^verbatim>\<open>syseba_random_bytes\<close>: each entry of \<open>reads\<close> is what one \<^verbatim>\<open>read\<close> returned, an
  error or at most as many bytes as asked for; \<open>None\<close> means the loop is still interrupted when the
  script ends.
\<close>

fun random_loop :: "nat \<Rightarrow> (errno + string) list \<Rightarrow> string \<Rightarrow> (int \<times> string) option" where
  "random_loop n reads buffer =
     (if length buffer \<ge> n then Some (0, buffer)
      else (case reads of
              [] \<Rightarrow> None
            | Inl e # rs \<Rightarrow> if e = EINTR then random_loop n rs buffer else Some (- 1, buffer)
            | Inr bytes # rs \<Rightarrow>
                let chunk = take (n - length buffer) bytes in
                if chunk = [] then Some (- 1, buffer) else random_loop n rs (buffer @ chunk)))"

declare random_loop.simps [simp del]

definition syseba_random_bytes :: "bool \<Rightarrow> nat \<Rightarrow> (errno + string) list \<Rightarrow> (int \<times> string) option" where
  "syseba_random_bytes opened n reads = (if \<not> opened then Some (- 1, []) else random_loop n reads [])"

record disk_usage =
  du_path :: string
  du_exists :: bool
  du_total :: "64 word"
  du_used :: "64 word"
  du_free_bytes :: "64 word"

text \<open>\<open>statvfs\<close>: blocks, available blocks and fragment size; \<open>None\<close> when the call fails.\<close>

definition syseba_disk_usage :: "string \<Rightarrow> (64 word \<times> 64 word \<times> 64 word) option \<Rightarrow> int \<times> disk_usage" where
  "syseba_disk_usage path statvfs =
     (let u = \<lparr>du_path = cut SYSEBA_PATH_MAX path, du_exists = False, du_total = 0, du_used = 0,
               du_free_bytes = 0\<rparr> in
      case statvfs of
        None \<Rightarrow> (- 1, u)
      | Some (blocks, bavail, frsize) \<Rightarrow>
          let total = blocks * frsize; free_bytes = bavail * frsize in
          (0, u\<lparr>du_exists := True, du_total := total, du_free_bytes := free_bytes,
                du_used := (if total \<ge> free_bytes then total - free_bytes else 0)\<rparr>))"

definition syseba_process_exists :: "int \<Rightarrow> bool \<Rightarrow> bool \<Rightarrow> bool" where
  "syseba_process_exists pid kill_ok errno_is_EPERM = (if pid \<le> 0 then False else kill_ok \<or> errno_is_EPERM)"

section \<open>Canonical paths\<close>

definition real_parts :: "string \<Rightarrow> string list" where
  "real_parts absolute = collect_parts (strtok slash (tl (normalize_separators absolute))) []"

lemma collect_parts_good:
  "\<forall>t \<in> set ts. t \<noteq> [] \<and> slash \<notin> set t \<Longrightarrow> good_path parts \<Longrightarrow> good_path (collect_parts ts parts)"
proof (induction ts arbitrary: parts)
  case (Cons t ts)
  have "good_path (parts @ [t])" if "t \<noteq> ''.''" "t \<noteq> ''..''"
    using that Cons.prems by (simp add: good_comp_def)
  moreover have "good_path (if parts \<noteq> [] then butlast parts else parts)"
    using Cons.prems(2) by (simp add: good_path_butlast)
  ultimately show ?case using Cons by simp
qed simp

lemma collect_parts_subset: "c \<in> set (collect_parts ts parts) \<Longrightarrow> c \<in> set ts \<or> c \<in> set parts"
proof (induction ts arbitrary: parts)
  case (Cons t ts)
  from Cons.prems show ?case
    by (auto split: if_splits dest!: Cons.IH dest: in_set_butlastD)
qed simp

lemma collect_parts_id: "good_path ts \<Longrightarrow> collect_parts ts parts = parts @ ts"
  by (induction ts arbitrary: parts) (auto simp: good_path_def good_comp_def)

lemma collect_parts_length: "length (collect_parts ts parts) \<le> length parts + length ts"
proof (induction ts arbitrary: parts)
  case (Cons t ts)
  from Cons.IH [of parts] Cons.IH [of "butlast parts"] Cons.IH [of "parts @ [t]"] show ?case
    by (auto intro: le_SucI)
qed simp

lemma normalize_no_backslash: "backslash \<notin> set (normalize_separators p)"
  by (auto simp: normalize_separators_def backslash_def)

lemma normalize_id: "backslash \<notin> set p \<Longrightarrow> normalize_separators p = p"
  unfolding normalize_separators_def by (rule map_idI) auto

lemma real_parts_good: "good_path (real_parts absolute)"
  unfolding real_parts_def
  by (rule collect_parts_good) (auto dest: strtok_parts simp: good_path_def)

lemma real_parts_no_backslash: "c \<in> set (real_parts absolute) \<Longrightarrow> backslash \<notin> set c"
proof -
  assume "c \<in> set (real_parts absolute)"
  then have "c \<in> set (strtok slash (tl (normalize_separators absolute)))"
    using collect_parts_subset by (fastforce simp: real_parts_def)
  then have "set c \<subseteq> set (normalize_separators absolute)"
    using strtok_parts list.set_sel(2) by (metis list.sel(2) subset_code(1))
  then show ?thesis using normalize_no_backslash by auto
qed

lemma path_str_Nil [simp]: "path_str [] = [slash]"
  by (simp add: path_str_def)

lemma path_str_length: "length (path_str (cs @ [c])) = (if cs = [] then 1 else length (path_str cs) + 1) + length c"
  by (simp add: path_str_def)

lemma emit_parts_path_str:
  "good_path (cs @ ws) \<Longrightarrow> length (path_str cs) < n \<Longrightarrow>
     emit_parts n ws (path_str cs) = (if length (path_str (cs @ ws)) < n then Some (path_str (cs @ ws)) else None)"
proof (induction ws arbitrary: cs)
  case (Cons w ws)
  have sep: "last (path_str cs) \<noteq> slash \<longleftrightarrow> cs \<noteq> []"
    using Cons.prems(1) last_path_str [of cs] by (auto simp: good_path_def path_str_def)
  let ?out = "path_str cs @ (if cs \<noteq> [] then [slash] else []) @ w"
  have out: "?out = path_str (cs @ [w])" by (simp add: path_str_def)
  have mono: "length (path_str (cs @ [w])) \<le> length (path_str (cs @ w # ws))"
    by (simp add: path_str_def)
  from Cons.IH [of "cs @ [w]"] Cons.prems out mono sep path_str_length [of cs w] show ?case
    by (auto simp: Let_def)
qed simp

lemma path_real_text_eq:
  "path_real_text absolute n =
     (if length (path_str (real_parts absolute)) < n then Some (path_str (real_parts absolute)) else None)"
proof -
  have "path_str (real_parts absolute) \<noteq> []" by simp
  then have "1 \<le> length (path_str (real_parts absolute))" by (cases "path_str (real_parts absolute)") auto
  with emit_parts_path_str [of "[]" "real_parts absolute" n] real_parts_good [of absolute]
  show ?thesis by (auto simp: path_real_text_def real_parts_def Let_def)
qed

lemma path_str_no_backslash:
  "\<forall>c \<in> set cs. backslash \<notin> set c \<Longrightarrow> backslash \<notin> set (path_str cs)"
  by (auto simp: path_str_def backslash_def)

lemma real_parts_canonical:
  "good_path cs \<Longrightarrow> \<forall>c \<in> set cs. backslash \<notin> set c \<Longrightarrow> real_parts (path_str cs) = cs"
proof -
  assume g: "good_path cs" and b: "\<forall>c \<in> set cs. backslash \<notin> set c"
  obtain t where t: "path_str cs = slash # t" using path_str_Cons by blast
  have "strtok slash t = strtok slash (path_str cs)" by (simp add: t strtok_Cons_sep)
  then show ?thesis
    using g strtok_path_str [of cs] normalize_id [OF path_str_no_backslash [OF b]] t
    by (simp add: real_parts_def good_path_def collect_parts_id)
qed

lemma absolute_path_bound: "absolute_path path s = (Some a, s') \<Longrightarrow> length a < SYSEBA_PATH_MAX \<and> quiet s s'"
  using readers_quiet(8) [of s SYSEBA_PATH_MAX]
  by (auto simp: absolute_path_def fits_def split: if_splits prod.splits sum.splits)

context reading
begin

lemma reads_path_real: "R s (snd (syseba_path_real path n s))"
  using reads_calls(3) [of s SYSEBA_PATH_MAX]
  by (auto simp: syseba_path_real_def absolute_path_def split: prod.splits sum.splits option.splits)

end

lemmas path_real_quiet [frame] = quiet.reads_path_real

text \<open>A canonical path as the program produces them: normal components without backslashes.\<close>

definition plain_path :: "cpath \<Rightarrow> bool" where
  "plain_path cs \<longleftrightarrow> good_path cs \<and> (\<forall>c \<in> set cs. backslash \<notin> set c)"

lemma plain_path_good [dest]: "plain_path cs \<Longrightarrow> good_path cs"
  by (simp add: plain_path_def)

lemma plain_path_append [simp]: "plain_path (as @ bs) \<longleftrightarrow> plain_path as \<and> plain_path bs"
  by (auto simp: plain_path_def)

lemma plain_path_real: "plain_path (real_parts p)"
  by (simp add: plain_path_def real_parts_good real_parts_no_backslash)

section \<open>Directory creation\<close>

definition adds_dirs :: "os \<Rightarrow> os \<Rightarrow> bool" where
  "adds_dirs s s' \<longleftrightarrow>
     (\<forall>q n. fs_get (os_fs s) q = Some n \<longrightarrow> fs_get (os_fs s') q = Some n) \<and>
     (\<forall>q. fs_get (os_fs s) q = None \<longrightarrow> fs_get (os_fs s') q = None \<or> fs_get (os_fs s') q = Some Dir)"

lemma adds_dirs_refl [simp]: "adds_dirs s s"
  by (simp add: adds_dirs_def)

lemma adds_dirs_trans: "adds_dirs a b \<Longrightarrow> adds_dirs b c \<Longrightarrow> adds_dirs a c"
  unfolding adds_dirs_def by metis

lemma adds_dirs_quiet: "quiet s s' \<Longrightarrow> adds_dirs s s'"
  using quiet_fs [of s s'] by (simp add: adds_dirs_def)

lemma adds_dirs_put:
  "fs_get (os_fs s) loc = None \<Longrightarrow> adds_dirs s (set_fs (fs_put loc Dir (os_fs s)) s)"
  by (cases "loc = []") (auto simp: adds_dirs_def set_fs_def)

lemma adds_dirs_errno: "adds_dirs s s' \<Longrightarrow> adds_dirs s (set_errno e s')"
  by (simp add: adds_dirs_def set_errno_def)

lemma sys_mkdir_adds: "adds_dirs s (snd (sys_mkdir p s))"
proof -
  obtain ev s1 where t: "tick s = (ev, s1)" by (cases "tick s")
  have "adds_dirs s1 (snd (sys_mkdir p s))"
    using t by (auto simp: sys_mkdir_def syscall_def adds_dirs_put adds_dirs_errno
        split: sysev.splits sum.splits option.splits)
  with quiet_tick [OF t] show ?thesis by (blast intro: adds_dirs_trans adds_dirs_quiet)
qed

lemma mkdir_each_adds: "adds_dirs s (snd (mkdir_each ps s))"
proof (induction ps arbitrary: s)
  case (Cons p ps)
  obtain r s1 where r: "sys_mkdir p s = (r, s1)" by (cases "sys_mkdir p s")
  with sys_mkdir_adds [of s p] Cons.IH [of s1] show ?case
    by (auto intro: adds_dirs_trans split: sum.splits)
qed simp

lemma strip_slashes_id: "p = [] \<or> last p \<noteq> slash \<Longrightarrow> strip_slashes p = p"
  by (cases p) (auto simp: strip_slashes_def rev_dropWhile_rev split: if_splits)

lemma mkdir_one:
  assumes "os_sched s = []" "good_path cs" "cs \<noteq> []" "dir_chain (os_fs s) cs"
    and "fs_get (os_fs s) cs = None \<or> fs_get (os_fs s) cs = Some Dir"
  shows "\<exists>r s1. sys_mkdir (path_str cs) s = (r, s1) \<and> (r = Inr () \<or> r = Inl EEXIST) \<and>
    fs_get (os_fs s1) cs = Some Dir \<and> os_sched s1 = []"
proof -
  have "strip_slashes (path_str cs) = path_str cs"
    using last_path_str [of cs] assms(2,3) by (intro strip_slashes_id) (auto simp: good_path_def)
  with locate_path_str [OF assms(2,4), of False] assms show ?thesis
    by (auto simp: sys_mkdir_def syscall_calm set_fs_def set_errno_def)
qed

lemma mkdir_each_append:
  "mkdir_each (ps @ qs) s =
     (case mkdir_each ps s of (r, s1) \<Rightarrow> if r = 0 then mkdir_each qs s1 else (r, s1))"
  by (induction ps arbitrary: s) (auto split: prod.splits sum.splits)

lemma mkdir_prefixes_snoc:
  assumes "p \<noteq> []" and "slash \<notin> set c"
  shows "mkdir_prefixes (p @ slash # c) = mkdir_prefixes p @ [p @ slash # c]"
proof -
  let ?q = "p @ slash # c"
  have "1 \<le> length p" using assms(1) by (cases p) simp_all
  then have "[1..<length ?q] = [1..<length p] @ length p # [Suc (length p)..<length ?q]"
    using upt_add_eq_append [of 1 "length p" "Suc (length c)"]
      upt_conv_Cons [of "length p" "length p + Suc (length c)"] by simp
  moreover have "filter (\<lambda>i. ?q ! i = slash) [1..<length p] = filter (\<lambda>i. p ! i = slash) [1..<length p]"
    by (rule filter_cong) (auto simp: nth_append)
  moreover have "filter (\<lambda>i. ?q ! i = slash) [Suc (length p)..<length ?q] = []"
    using nth_after_sep [OF assms(2), of p]
    by (intro filter_False ballI) (simp only: set_upt atLeastLessThan_iff Suc_le_eq not_False_eq_True)
  ultimately show ?thesis by (auto simp: mkdir_prefixes_def)
qed

lemma mkdir_prefixes_single: "slash \<notin> set c \<Longrightarrow> mkdir_prefixes (slash # c) = [slash # c]"
proof -
  assume c: "slash \<notin> set c"
  have "(slash # c) ! i \<noteq> slash" if "i \<in> set [1..<length (slash # c)]" for i
    using that nth_after_sep [OF c, of "[]" i]
    by (simp only: set_upt atLeastLessThan_iff One_nat_def Suc_le_eq list.size append_Nil
        not_False_eq_True)
  then have "filter (\<lambda>i. (slash # c) ! i = slash) [1..<length (slash # c)] = []"
    by (intro filter_False ballI) blast
  then show ?thesis by (simp only: mkdir_prefixes_def list.map append_Nil)
qed

lemma mkdir_prefixes_path_str:
  "good_path (cs @ [c]) \<Longrightarrow>
     mkdir_prefixes (path_str (cs @ [c])) =
       (if cs = [] then [] else mkdir_prefixes (path_str cs)) @ [path_str (cs @ [c])]"
  by (auto simp: path_str_snoc mkdir_prefixes_snoc mkdir_prefixes_single good_comp_def
      path_str_def [of "[c]"])

lemma mkdir_each_creates:
  assumes "os_sched s = []" "good_path cs" "cs \<noteq> []"
    and "\<forall>i \<le> length cs. fs_get (os_fs s) (take i cs) = None \<or> fs_get (os_fs s) (take i cs) = Some Dir"
  shows "\<exists>s'. mkdir_each (mkdir_prefixes (path_str cs)) s = (0, s') \<and> os_sched s' = [] \<and>
    (\<forall>i \<le> length cs. fs_get (os_fs s') (take i cs) = Some Dir)"
  using assms(2-4)
proof (induction cs rule: rev_induct)
  case (snoc c cs)
  obtain s1 where s1: "(if cs = [] then (0, s) else mkdir_each (mkdir_prefixes (path_str cs)) s) = (0, s1)"
    "os_sched s1 = []" "\<forall>i \<le> length cs. fs_get (os_fs s1) (take i cs) = Some Dir"
  proof (cases "cs = []")
    case True
    with that assms(1) show ?thesis by simp
  next
    case False
    have "\<forall>i \<le> length cs. fs_get (os_fs s) (take i cs) = None \<or> fs_get (os_fs s) (take i cs) = Some Dir"
      using snoc.prems(3) by (metis le_SucI length_append_singleton take_append_le)
    with snoc.IH False snoc.prems(1) that show ?thesis by auto
  qed
  have mono: "adds_dirs s s1"
    using s1(1) mkdir_each_adds [of s "mkdir_prefixes (path_str cs)"] by (auto split: if_splits)
  have "fs_get (os_fs s) (cs @ [c]) = None \<or> fs_get (os_fs s) (cs @ [c]) = Some Dir"
    using snoc.prems(3) by (auto dest: spec [of _ "Suc (length cs)"])
  with mono have n: "fs_get (os_fs s1) (cs @ [c]) = None \<or> fs_get (os_fs s1) (cs @ [c]) = Some Dir"
    unfolding adds_dirs_def by blast
  have chain: "dir_chain (os_fs s1) (cs @ [c])"
    using s1(3) by (auto simp: dir_chain_def less_Suc_eq_le)
  from mkdir_one [OF s1(2) snoc.prems(1,2) chain n] obtain r s2 where
    s2: "sys_mkdir (path_str (cs @ [c])) s1 = (r, s2)" "r = Inr () \<or> r = Inl EEXIST"
      "fs_get (os_fs s2) (cs @ [c]) = Some Dir" "os_sched s2 = []" by blast
  have "adds_dirs s1 s2" using sys_mkdir_adds [of s1 "path_str (cs @ [c])"] s2(1) by simp
  then have "\<forall>i \<le> length cs. fs_get (os_fs s2) (take i cs) = Some Dir"
    using s1(3) by (auto simp: adds_dirs_def)
  with s2(3) have all: "\<forall>i \<le> length (cs @ [c]). fs_get (os_fs s2) (take i (cs @ [c])) = Some Dir"
    by (auto simp: le_Suc_eq)
  have "mkdir_each (mkdir_prefixes (path_str (cs @ [c]))) s = (0, s2)"
    using s1(1) s2(1,2) mkdir_prefixes_path_str [OF snoc.prems(1)]
    by (auto simp: mkdir_each_append split: if_splits)
  with s2(4) all show ?case by blast
qed simp

section \<open>Properties\<close>

text \<open>
  \<^verbatim>\<open>syseba_path_real\<close> returns canonical paths and stays inside its buffers. Whatever the path,
  the working directory and the outcome of \<^verbatim>\<open>getcwd\<close>: a result is \<open>/\<close> or a \<open>/\<close>-separated absolute
  path without empty, \<^verbatim>\<open>.\<close> or \<^verbatim>\<open>..\<close> components and without backslashes, shorter than the output
  buffer; the token loop never stores more than the 2048 entries of \<^verbatim>\<open>parts\<close>; and the call changes
  no file.
\<close>

theorem path_real_canonical:
  assumes "syseba_path_real path n s = (Some out, s')"
  shows "(\<exists>cs. good_path cs \<and> (\<forall>c \<in> set cs. backslash \<notin> set c) \<and> out = path_str cs) \<and>
    length out < n \<and> quiet s s' \<and>
    (\<exists>absolute. absolute_path path s = (Some absolute, s') \<and>
       (\<forall>k. length (collect_parts (take k (strtok slash (tl (normalize_separators absolute)))) [])
              < SYSEBA_PATH_MAX div 2))"
proof -
  from assms obtain absolute where a: "absolute_path path s = (Some absolute, s')"
    and out: "path_real_text absolute n = Some out"
    by (auto simp: syseba_path_real_def split: prod.splits option.splits)
  let ?ts = "strtok slash (tl (normalize_separators absolute))"
  have len: "length absolute < SYSEBA_PATH_MAX" using absolute_path_bound [OF a] by simp
  have "length ?ts < SYSEBA_PATH_MAX div 2"
    using strtok_length [of slash "tl (normalize_separators absolute)"] len
    by (simp add: normalize_separators_def SYSEBA_PATH_MAX_def)
  then have "length (collect_parts (take k ?ts) []) < SYSEBA_PATH_MAX div 2" for k
    using collect_parts_length [of "take k ?ts" "[]"] by simp
  moreover have "out = path_str (real_parts absolute)" "length out < n"
    using out by (auto simp: path_real_text_eq split: if_splits)
  ultimately show ?thesis
    using a absolute_path_bound [OF a] real_parts_good real_parts_no_backslash by blast
qed

definition quiet_os :: os where
  "quiet_os = \<lparr>os_fs = [], os_cwd = [''srv''], os_errno = None, os_sched = [], os_clock = [], os_pid = 1,
     os_time = 0, os_localtime = (\<lambda>_. \<lparr>tm_year = 1970, tm_mon = 1, tm_mday = 1, tm_hour = 0, tm_min = 0,
     tm_sec = 0\<rparr>), os_dmtime = (\<lambda>_. 0), os_ino = 0\<rparr>"

theorem path_real_canonical_witness:
  "syseba_path_real ''a/./b//../c'' 4096 quiet_os = (Some ''/srv/a/c'', quiet_os) \<and>
   (\<exists>cs. good_path cs \<and> ''/srv/a/c'' = path_str cs)"
proof -
  have "syseba_path_real ''a/./b//../c'' 4096 quiet_os = (Some ''/srv/a/c'', quiet_os)"
    by (simp add: syseba_path_real_def absolute_path_def sys_getcwd_def query_calm quiet_os_def
        path_str_def fits_def SYSEBA_PATH_MAX_def path_real_text_def normalize_separators_def
        backslash_def strtok_def Let_def)
  from this path_real_canonical [OF this] show ?thesis by blast
qed

text \<open>
  Canonicalising is idempotent: a path \<^verbatim>\<open>syseba_path_real\<close> returned is returned unchanged by a
  second call, from any working directory, as long as the buffers hold it.
\<close>

theorem path_real_idempotent:
  assumes "syseba_path_real path n s = (Some out, s')" and "n \<le> SYSEBA_PATH_MAX"
  shows "syseba_path_real out n t = (Some out, t)"
proof -
  from assms(1) obtain absolute where "path_real_text absolute n = Some out"
    by (auto simp: syseba_path_real_def split: prod.splits option.splits)
  then have out: "out = path_str (real_parts absolute)" "length out < n"
    by (auto simp: path_real_text_eq split: if_splits)
  have "real_parts out = real_parts absolute"
    unfolding out(1) by (rule real_parts_canonical) (auto simp: real_parts_good real_parts_no_backslash)
  then have "path_real_text out n = Some out" using out by (simp add: path_real_text_eq)
  moreover have "absolute_path out t = (Some out, t)"
    using out assms(2) by (simp add: absolute_path_def fits_def)
  ultimately show ?thesis by (simp add: syseba_path_real_def)
qed

theorem path_real_idempotent_witness:
  "syseba_path_real ''/srv/x'' 4096 quiet_os = (Some ''/srv/x'', quiet_os)"
proof -
  have "syseba_path_real ''/srv/y/../x'' 4096 quiet_os = (Some ''/srv/x'', quiet_os)"
    by (simp add: syseba_path_real_def absolute_path_def fits_def SYSEBA_PATH_MAX_def
        path_real_text_def normalize_separators_def backslash_def strtok_def Let_def)
  from path_real_idempotent [OF this] show ?thesis by (simp add: SYSEBA_PATH_MAX_def)
qed

text \<open>
  \<^verbatim>\<open>syseba_mkdirs\<close> creates what is missing and nothing else. For any path and any sequence of
  failing calls, every existing node is kept as it is and every new node is a directory; and when
  no call fails and the components of a canonical path are missing or directories, it returns 0 and
  afterwards every ancestor and the path itself are directories.
\<close>

theorem mkdirs_correct:
  "adds_dirs s (snd (syseba_mkdirs path s)) \<and>
   (os_sched s = [] \<longrightarrow> good_path cs \<longrightarrow> (\<forall>c \<in> set cs. backslash \<notin> set c) \<longrightarrow> cs \<noteq> [] \<longrightarrow>
    fits SYSEBA_PATH_MAX (path_str cs) \<longrightarrow>
    (\<forall>i \<le> length cs. fs_get (os_fs s) (take i cs) = None \<or> fs_get (os_fs s) (take i cs) = Some Dir) \<longrightarrow>
    (\<exists>s'. syseba_mkdirs (path_str cs) s = (0, s') \<and>
      (\<forall>i \<le> length cs. fs_get (os_fs s') (take i cs) = Some Dir)))"
proof (intro conjI impI)
  show "adds_dirs s (snd (syseba_mkdirs path s))"
    by (simp add: syseba_mkdirs_def mkdir_each_adds adds_dirs_errno)
next
  assume calm: "os_sched s = []" and good: "good_path cs" and b: "\<forall>c \<in> set cs. backslash \<notin> set c"
    and ne: "cs \<noteq> []" and fit: "fits SYSEBA_PATH_MAX (path_str cs)"
    and dirs: "\<forall>i \<le> length cs. fs_get (os_fs s) (take i cs) = None \<or> fs_get (os_fs s) (take i cs) = Some Dir"
  have "strip_slashes (normalize_separators (path_str cs)) = path_str cs"
    using last_path_str [of cs] good ne
    by (simp add: normalize_id [OF path_str_no_backslash [OF b]] strip_slashes_id good_path_def)
  with mkdir_each_creates [OF calm good ne dirs] fit
  show "\<exists>s'. syseba_mkdirs (path_str cs) s = (0, s') \<and>
      (\<forall>i \<le> length cs. fs_get (os_fs s') (take i cs) = Some Dir)"
    by (auto simp: syseba_mkdirs_def)
qed

theorem mkdirs_correct_witness:
  "\<exists>s'. syseba_mkdirs (path_str [''b'', ''c'']) quiet_os = (0, s') \<and>
     (\<forall>i \<le> length [''b'', ''c'']. fs_get (os_fs s') (take i [''b'', ''c'']) = Some Dir)"
proof -
  have "\<forall>i \<le> length [''b'', ''c'']. fs_get (os_fs quiet_os) (take i [''b'', ''c'']) = None \<or>
      fs_get (os_fs quiet_os) (take i [''b'', ''c'']) = Some Dir"
    by (simp add: quiet_os_def fs_get_def)
  with mkdirs_correct [of quiet_os "[]" "[''b'', ''c'']"] show ?thesis
    by (simp add: quiet_os_def good_comp_def backslash_def path_str_def fits_def SYSEBA_PATH_MAX_def)
qed

lemma parent_dir_path_str:
  assumes "good_path (cs @ [c])" and "length (path_str (cs @ [c])) \<le> n"
  shows "syseba_parent_dir (path_str (cs @ [c])) n = Some (path_str cs)"
proof (cases "cs = []")
  case True
  have "strrchr slash (path_str [c]) = Some ([], c)"
    using assms(1) strrchr_append [of slash c "[]"] True by (simp add: path_str_def good_comp_def)
  with True assms show ?thesis by (cases c) (auto simp: syseba_parent_dir_def fits_def path_str_def good_comp_def)
next
  case False
  have "strrchr slash (path_str (cs @ [c])) = Some (path_str cs, c)"
    using False assms(1) by (simp add: path_str_snoc strrchr_append good_comp_def)
  with assms(2) False show ?thesis by (simp add: syseba_parent_dir_def path_str_snoc)
qed

lemma parent_dir_cases:
  assumes "good_path (cs @ [c])" and "syseba_parent_dir (path_str (cs @ [c])) n = Some p"
  shows "p = path_str cs"
proof (cases "cs = []")
  case True
  have "strrchr slash (path_str [c]) = Some ([], c)"
    using assms(1) strrchr_append [of slash c "[]"] True by (simp add: path_str_def good_comp_def)
  with True assms(2) show ?thesis by (auto simp: syseba_parent_dir_def split: if_splits)
next
  case False
  have "strrchr slash (path_str (cs @ [c])) = Some (path_str cs, c)"
    using False assms(1) by (simp add: path_str_snoc strrchr_append good_comp_def)
  with assms(2) False show ?thesis by (auto simp: syseba_parent_dir_def split: if_splits)
qed

text \<open>
  The deadline of a timed wait is a normalised time exactly \<open>timeout_ms\<close> milliseconds after the
  clock reading.
\<close>

theorem timedwait_deadline_exact:
  assumes "nsec < 1000000000" and "timedwait_deadline sec nsec timeout_ms = (sec', nsec')"
  shows "nsec' < 1000000000 \<and>
    sec' * 1000000000 + nsec' = sec * 1000000000 + nsec + unat timeout_ms * 1000000"
proof -
  have d: "unat (timeout_ms div 1000) = unat timeout_ms div 1000"
    and m: "unat (timeout_ms mod 1000) = unat timeout_ms mod 1000"
    by (simp_all add: unat_div unat_mod)
  define q r where "q = unat timeout_ms div 1000" and "r = unat timeout_ms mod 1000"
  have "unat timeout_ms = q * 1000 + r" "r < 1000" by (simp_all add: q_def r_def)
  with assms d m show ?thesis
    by (auto simp: timedwait_deadline_def Let_def q_def [symmetric] r_def [symmetric] split: if_splits)
qed

theorem timedwait_deadline_exact_witness:
  "timedwait_deadline 5 999000000 1500 = (7, 499000000) \<and>
   7 * 1000000000 + 499000000 = 5 * 1000000000 + 999000000 + unat (1500 :: 32 word) * (1000000 :: nat)"
proof -
  have "timedwait_deadline 5 999000000 1500 = (7, 499000000)"
    by (simp add: timedwait_deadline_def)
  with timedwait_deadline_exact [OF _ this] show ?thesis by simp
qed

definition read_bytes :: "(errno + string) list \<Rightarrow> string" where
  "read_bytes reads = concat (map (\<lambda>r. case r of Inl e \<Rightarrow> [] | Inr bytes \<Rightarrow> bytes) reads)"

lemma random_loop_exact:
  "random_loop n reads buffer = Some (0, out) \<Longrightarrow> length buffer \<le> n \<Longrightarrow>
     length out = n \<and> prefix out (buffer @ read_bytes reads)"
proof (induction reads arbitrary: buffer)
  case Nil
  then show ?case by (auto simp: random_loop.simps split: if_splits)
next
  case (Cons r rs)
  show ?case
  proof (cases "length buffer \<ge> n")
    case True
    with Cons.prems show ?thesis by (auto simp: random_loop.simps)
  next
    case False
    show ?thesis
    proof (cases r)
      case (Inl e)
      with False Cons.prems Cons.IH show ?thesis
        by (auto simp: random_loop.simps [of n "Inl e # rs"] read_bytes_def split: if_splits)
    next
      case (Inr bytes)
      let ?chunk = "take (n - length buffer) bytes"
      from False Inr Cons.prems(1) have next_round: "random_loop n rs (buffer @ ?chunk) = Some (0, out)"
        by (auto simp: random_loop.simps [of n "Inr bytes # rs"] Let_def split: if_splits)
      have IH: "length out = n \<and> prefix out (buffer @ ?chunk @ read_bytes rs)"
        using Cons.IH [OF next_round] Cons.prems(2) by simp
      show ?thesis
      proof (cases "length bytes \<le> n - length buffer")
        case True
        with IH Inr show ?thesis by (simp add: read_bytes_def)
      next
        case full: False
        then have len: "length (buffer @ ?chunk) = n" using Cons.prems(2) by simp
        with next_round have "out = buffer @ ?chunk" by (auto simp: random_loop.simps)
        with len Inr show ?thesis
          by (simp add: read_bytes_def take_is_prefix prefix_prefix)
      qed
    qed
  qed
qed

text \<open>
  \<^verbatim>\<open>syseba_random_bytes\<close> succeeds only with exactly the number of bytes asked for, taken in order
  from what the reads of \<^verbatim>\<open>/dev/urandom\<close> returned, across short reads and interruptions.
\<close>

theorem random_bytes_exact:
  assumes "syseba_random_bytes opened n reads = Some (0, buffer)"
  shows "opened \<and> length buffer = n \<and> prefix buffer (read_bytes reads)"
  using assms random_loop_exact [of n reads "[]" buffer]
  by (auto simp: syseba_random_bytes_def split: if_splits)

theorem random_bytes_exact_witness:
  "syseba_random_bytes True 3 [Inr ''ab'', Inl EINTR, Inr ''cd''] = Some (0, ''abc'') \<and>
   prefix ''abc'' (read_bytes [Inr ''ab'', Inl EINTR, Inr ''cd''])"
proof -
  have "syseba_random_bytes True 3 [Inr ''ab'', Inl EINTR, Inr ''cd''] = Some (0, ''abc'')"
    by (simp add: syseba_random_bytes_def random_loop.simps)
  with random_bytes_exact [OF this] show ?thesis by simp
qed

end
