(* ===== verification/Fs.thy ===== *)
theory Fs
  imports Platform
begin

text \<open>
  The file primitives of \<^verbatim>\<open>fs.c\<close> (Linux branch): existence tests, opening regular files without
  following links, copying one file through a temporary name and replacing the destination
  atomically, with retries. Copying is modelled call by call: every read and write may be short,
  interrupted or fail, and another process may change the source meanwhile.
\<close>

section \<open>Queries\<close>

definition syseba_fs_exists :: "string \<Rightarrow> os \<Rightarrow> bool \<times> os" where
  "syseba_fs_exists path s = (case sys_lstat path s of (r, s1) \<Rightarrow> (\<not> isl r, s1))"

definition syseba_fs_is_directory :: "string \<Rightarrow> os \<Rightarrow> bool \<times> os" where
  "syseba_fs_is_directory path s =
     (case sys_lstat path s of
        (Inl e, s1) \<Rightarrow> (False, s1)
      | (Inr (loc, n), s1) \<Rightarrow> (n = Dir, s1))"

definition syseba_fs_is_regular :: "string \<Rightarrow> os \<Rightarrow> bool \<times> os" where
  "syseba_fs_is_regular path s =
     (case sys_lstat path s of
        (Inl e, s1) \<Rightarrow> (False, s1)
      | (Inr (loc, n), s1) \<Rightarrow> ((case n of Reg f \<Rightarrow> True | _ \<Rightarrow> False), s1))"

text \<open>Size, modification time in nanoseconds and whether it is a directory; links are refused.\<close>

definition syseba_fs_stat :: "string \<Rightarrow> os \<Rightarrow> (64 word \<times> int \<times> bool) option \<times> os" where
  "syseba_fs_stat path s =
     (case sys_lstat path s of
        (Inl e, s1) \<Rightarrow> (None, s1)
      | (Inr (loc, n), s1) \<Rightarrow>
          (case n of
             Lnk l \<Rightarrow> (None, set_errno ELOOP s1)
           | Dir \<Rightarrow> (Some (0, os_dmtime s1 loc, True), s1)
           | Reg f \<Rightarrow> (Some (of_nat (length (f_data f)), f_mtime f, False), s1)
           | Special \<Rightarrow> (Some (0, os_dmtime s1 loc, False), s1)))"

section \<open>Opening\<close>

text \<open>The stream is the location of the open file; the size comes from \<^verbatim>\<open>fstat\<close>.\<close>

definition syseba_open_regular_read :: "string \<Rightarrow> os \<Rightarrow> (cpath \<times> 64 word) option \<times> os" where
  "syseba_open_regular_read path s =
     (case sys_open_read path s of
        (Inl e, s1) \<Rightarrow> (None, s1)
      | (Inr loc, s1) \<Rightarrow>
          (case sys_fstat loc s1 of
             (Inr (Reg f), s2) \<Rightarrow>
               (case sys_fdopen loc s2 of
                  (Inl e, s3) \<Rightarrow> (None, s3)
                | (Inr _, s3) \<Rightarrow> (Some (loc, of_nat (length (f_data f))), s3))
           | (_, s2) \<Rightarrow> (None, set_errno EINVAL s2)))"

definition syseba_open_regular_append :: "string \<Rightarrow> nat \<Rightarrow> os \<Rightarrow> cpath option \<times> os" where
  "syseba_open_regular_append path mode s =
     (case sys_open_append path mode s of
        (Inl e, s1) \<Rightarrow> (None, s1)
      | (Inr loc, s1) \<Rightarrow>
          (case sys_fstat loc s1 of
             (Inr (Reg f), s2) \<Rightarrow>
               (case sys_fdopen loc s2 of
                  (Inl e, s3) \<Rightarrow> (None, s3)
                | (Inr _, s3) \<Rightarrow> (Some loc, s3))
           | (_, s2) \<Rightarrow> (None, set_errno EINVAL s2)))"

definition syseba_open_exclusive_write :: "string \<Rightarrow> nat \<Rightarrow> os \<Rightarrow> cpath option \<times> os" where
  "syseba_open_exclusive_write path mode s =
     (case sys_open_excl path mode s of
        (Inl e, s1) \<Rightarrow> (None, s1)
      | (Inr loc, s1) \<Rightarrow>
          (case sys_fdopen loc s1 of
             (Inl e, s2) \<Rightarrow> (None, snd (sys_unlink path s2))
           | (Inr _, s2) \<Rightarrow> (Some loc, s2)))"

section \<open>Copying one file\<close>

definition prepare_destination :: "string \<Rightarrow> os \<Rightarrow> int \<times> os" where
  "prepare_destination destination s =
     (case syseba_parent_dir destination SYSEBA_PATH_MAX of
        None \<Rightarrow> (- 1, set_errno ENAMETOOLONG s)
      | Some parent \<Rightarrow> syseba_mkdirs parent s)"

definition copy_buffer :: nat where
  "copy_buffer = 1024 * 1024"

lemma tick_shrinks: "tick s = (ev, s1) \<Longrightarrow> os_sched s \<noteq> [] \<Longrightarrow> length (os_sched s1) < length (os_sched s)"
  by (auto simp: tick_def split: list.splits)

lemma sys_write_sched:
  "sys_write loc bytes s = (r, s1) \<Longrightarrow> os_sched s1 = tl (os_sched s)"
  by (auto simp: sys_write_def syscall_def tick_def set_errno_def fd_update_def set_fs_def Let_def
      split: list.splits sysev.splits option.splits)

lemma sys_write_EINTR: "sys_write loc bytes s = (Inl EINTR, s1) \<Longrightarrow> os_sched s \<noteq> []"
  by (auto simp: sys_write_def syscall_def tick_def fd_update_def Let_def
      split: list.splits sysev.splits option.splits)

text \<open>The inner loop: write the chunk, resuming after short and interrupted writes.\<close>

function write_all :: "cpath \<Rightarrow> string \<Rightarrow> 64 word \<Rightarrow> os \<Rightarrow> bool \<times> 64 word \<times> os" where
  "write_all output bytes copied s =
     (if bytes = [] then (True, copied, s)
      else (case sys_write output bytes s of
              (Inl e, s1) \<Rightarrow> if e = EINTR then write_all output bytes copied s1 else (False, copied, s1)
            | (Inr n, s1) \<Rightarrow>
                if n = 0 then (False, copied, s1)
                else write_all output (drop n bytes) (copied + of_nat n) s1))"
  by pat_completeness auto
termination
proof (relation "measures [\<lambda>(output, bytes, copied, s). length bytes,
    \<lambda>(output, bytes, copied, s). length (os_sched s)]", goal_cases)
  case (2 out bytes copied s r s1 e)
  then show ?case
    using sys_write_sched [of out bytes s "Inl e" s1] sys_write_EINTR [of out bytes s s1] by auto
qed auto

declare write_all.simps [simp del]

text \<open>
  The outer loop. Its fuel \<open>n\<close> bounds the number of reads; \<open>copy_fuel\<close> is enough for every
  schedule, because each read takes a schedule entry or, once the schedule is empty, at least one
  byte of a file whose length no longer changes.
\<close>

fun copy_loop :: "nat \<Rightarrow> cpath \<Rightarrow> nat \<Rightarrow> cpath \<Rightarrow> 64 word \<Rightarrow> os \<Rightarrow> (bool \<times> 64 word \<times> os) option" where
  "copy_loop 0 input off output copied s = None"
| "copy_loop (Suc n) input off output copied s =
     (case sys_read input off copy_buffer s of
        (Inl e, s1) \<Rightarrow>
          if e = EINTR then copy_loop n input off output copied s1 else Some (False, copied, s1)
      | (Inr chunk, s1) \<Rightarrow>
          if chunk = [] then Some (True, copied, s1)
          else (case write_all output chunk copied s1 of
                  (False, copied1, s2) \<Rightarrow> Some (False, copied1, s2)
                | (True, copied1, s2) \<Rightarrow> copy_loop n input (off + length chunk) output copied1 s2))"

definition max_source_length :: "cpath \<Rightarrow> os \<Rightarrow> nat" where
  "max_source_length input s =
     fold max (map (\<lambda>ev. case ev of SChange f \<Rightarrow> length (f_data f) | _ \<Rightarrow> 0) (os_sched s))
       (case fd_file input s of None \<Rightarrow> 0 | Some f \<Rightarrow> length (f_data f))"

definition copy_fuel :: "cpath \<Rightarrow> os \<Rightarrow> nat" where
  "copy_fuel input s = length (os_sched s) + max_source_length input s + 2"

text \<open>The metadata compared before and after, and the final calls on the output.\<close>

definition same_inode :: "inode \<Rightarrow> inode \<Rightarrow> bool" where
  "same_inode a b \<longleftrightarrow> f_dev a = f_dev b \<and> f_ino a = f_ino b \<and> length (f_data a) = length (f_data b)"

definition copy_finish :: "inode \<Rightarrow> cpath \<Rightarrow> cpath \<Rightarrow> 64 word \<Rightarrow> os \<Rightarrow> bool \<times> os" where
  "copy_finish source_stat input output copied s =
     (case sys_fstat input s of
        (Inr (Reg final_stat), s1) \<Rightarrow>
          if \<not> same_inode source_stat final_stat \<or> copied \<noteq> of_nat (length (f_data source_stat))
          then (False, set_errno EAGAIN s1)
          else if f_mtime source_stat \<noteq> f_mtime final_stat then (False, set_errno EAGAIN s1)
          else
            let s2 = snd (sys_futimens output (f_atime source_stat) (f_mtime source_stat) s1) in
            (case sys_fchmod output (f_mode source_stat mod 512) s2 of
               (Inl e, s3) \<Rightarrow> (False, s3)
             | (Inr _, s3) \<Rightarrow>
                 (case sys_fsync output s3 of
                    (Inl e, s4) \<Rightarrow> (False, s4)
                  | (Inr _, s4) \<Rightarrow> (True, s4)))
      | (_, s1) \<Rightarrow> (False, set_errno EAGAIN s1))"

text \<open>\<^verbatim>\<open>unlink\<close> that keeps \<^verbatim>\<open>errno\<close>, as the cleanup code does.\<close>

definition unlink_keep_errno :: "string \<Rightarrow> os \<Rightarrow> os" where
  "unlink_keep_errno path s = (snd (sys_unlink path s))\<lparr>os_errno := os_errno s\<rparr>"

definition copy_body :: "string \<Rightarrow> string \<Rightarrow> os \<Rightarrow> bool \<times> os" where
  "copy_body source destination s =
     (case sys_open_read source s of
        (Inl e, s1) \<Rightarrow> (False, s1)
      | (Inr input, s1) \<Rightarrow>
          (case sys_fstat input s1 of
             (Inr (Reg source_stat), s2) \<Rightarrow>
               (case prepare_destination destination s2 of (r, s3) \<Rightarrow>
                  if r \<noteq> 0 then (False, s3)
                  else (case sys_open_excl destination (f_mode source_stat mod 512) s3 of
                          (Inl e, s4) \<Rightarrow> (False, s4)
                        | (Inr output, s4) \<Rightarrow>
                            (case copy_loop (copy_fuel input s4) input 0 output 0 s4 of
                               None \<Rightarrow> (False, s4)
                             | Some (False, copied, s5) \<Rightarrow> (False, s5)
                             | Some (True, copied, s5) \<Rightarrow> copy_finish source_stat input output copied s5)))
           | (_, s2) \<Rightarrow> (False, s2)))"

definition copy_file_once :: "string \<Rightarrow> string \<Rightarrow> os \<Rightarrow> int \<times> os" where
  "copy_file_once source destination s =
     (case copy_body source destination s of
        (True, s1) \<Rightarrow> (0, s1)
      | (False, s1) \<Rightarrow> (- 1, unlink_keep_errno destination s1))"

section \<open>Atomic replacement and retries\<close>

definition sync_parent_directory :: "string \<Rightarrow> os \<Rightarrow> int \<times> os" where
  "sync_parent_directory path s =
     (case syseba_parent_dir path SYSEBA_PATH_MAX of
        None \<Rightarrow> (- 1, set_errno ENAMETOOLONG s)
      | Some parent \<Rightarrow>
          (case sys_open_dir parent s of
             (Inl e, s1) \<Rightarrow> (- 1, s1)
           | (Inr loc, s1) \<Rightarrow>
               (case sys_fsync loc s1 of
                  (Inr _, s2) \<Rightarrow> (0, s2)
                | (Inl e, s2) \<Rightarrow> (if e = EINVAL \<or> e = EROFS then 0 else - 1, s2))))"

definition syseba_atomic_replace :: "string \<Rightarrow> string \<Rightarrow> os \<Rightarrow> int \<times> os" where
  "syseba_atomic_replace temporary destination s =
     (case sys_rename temporary destination s of
        (Inl e, s1) \<Rightarrow> (- 1, s1)
      | (Inr _, s1) \<Rightarrow> sync_parent_directory destination s1)"

definition temporary_name :: "string \<Rightarrow> nat \<Rightarrow> 64 word \<Rightarrow> nat \<Rightarrow> string" where
  "temporary_name destination pid ns attempt =
     destination @ ''.syseba-tmp.'' @ dec pid @ ''.'' @ dec (unat ns) @ ''.'' @ dec attempt"

definition copy_and_replace :: "string \<Rightarrow> string \<Rightarrow> string \<Rightarrow> os \<Rightarrow> int \<times> os" where
  "copy_and_replace source temporary destination s =
     (case copy_file_once source temporary s of (r, s1) \<Rightarrow>
        if r = 0 then syseba_atomic_replace temporary destination s1 else (r, s1))"

text \<open>The attempts still to make, counted down; the waits between them change nothing here.\<close>

fun copy_attempts :: "nat \<Rightarrow> nat \<Rightarrow> string \<Rightarrow> string \<Rightarrow> os \<Rightarrow> int \<times> os" where
  "copy_attempts 0 attempt source destination s = (- 1, s)"
| "copy_attempts (Suc n) attempt source destination s =
     (case syseba_monotonic_ns s of (ns, s1) \<Rightarrow>
        let temporary = temporary_name destination (os_pid s1) ns attempt in
        if \<not> fits SYSEBA_PATH_MAX temporary then (- 1, set_errno ENAMETOOLONG s1)
        else (case syseba_fs_is_regular source s1 of (regular, s2) \<Rightarrow>
          if \<not> regular then (- 1, set_errno ENOENT s2)
          else (case copy_and_replace source temporary destination s2 of (r, s3) \<Rightarrow>
            if r = 0 then (0, s3)
            else copy_attempts n (attempt + 1) source destination (unlink_keep_errno temporary s3))))"

definition syseba_copy_file :: "string \<Rightarrow> string \<Rightarrow> nat \<Rightarrow> os \<Rightarrow> int \<times> os" where
  "syseba_copy_file source destination attempts s =
     (case prepare_destination destination s of (r, s1) \<Rightarrow>
        if r \<noteq> 0 then (- 1, s1)
        else copy_attempts (if attempts = 0 then 1 else attempts) 0 source destination s1)"

section \<open>What a call may change\<close>

text \<open>
  \<open>touches D P s s'\<close>: from \<open>s\<close> to \<open>s'\<close> the working directory, the process and the time stay, the schedule is only used up, and
  outside the locations \<open>P\<close> nothing changes except that missing nodes in \<open>D\<close> may have become directories.
\<close>

definition touches :: "(cpath \<Rightarrow> bool) \<Rightarrow> (cpath \<Rightarrow> bool) \<Rightarrow> os \<Rightarrow> os \<Rightarrow> bool" where
  "touches D P s s' \<longleftrightarrow>
     os_cwd s' = os_cwd s \<and> os_pid s' = os_pid s \<and> os_time s' = os_time s \<and>
     os_localtime s' = os_localtime s \<and> os_dmtime s' = os_dmtime s \<and>
     suffix (os_sched s') (os_sched s) \<and>
     (\<forall>q. P q \<or> fs_get (os_fs s') q = fs_get (os_fs s) q \<or>
          D q \<and> fs_get (os_fs s) q = None \<and> fs_get (os_fs s') q = Some Dir)"

named_theorems touch \<open>what the operations touch\<close>

lemma touches_refl [simp]: "touches D P s s"
  by (simp add: touches_def)

lemma touches_trans [trans]: "touches D P a b \<Longrightarrow> touches D P b c \<Longrightarrow> touches D P a c"
  unfolding touches_def by (auto intro: suffix_order.trans) (metis)+

lemma touches_mono: "touches D P s s' \<Longrightarrow> (\<And>q. P q \<Longrightarrow> Q q) \<Longrightarrow> touches D Q s s'"
  unfolding touches_def by blast

lemma touches_quiet: "quiet s s' \<Longrightarrow> touches D P s s'"
  using quiet_fs [of s s'] quiet_suffix [of s s'] quiet_env [of s s'] by (simp add: touches_def)

lemma touches_above:
  "touches (\<lambda>q. prefix q ds) P s s' \<Longrightarrow> \<not> P (ds @ [d]) \<Longrightarrow> fs_get (os_fs s') (ds @ [d]) = fs_get (os_fs s) (ds @ [d])"
  unfolding touches_def using prefix_length_le [of "ds @ [d]" ds] by auto

lemma touches_errno [simp]:
  "touches D P s (s'\<lparr>os_errno := e\<rparr>) = touches D P s s'" "touches D P s (set_errno e' s') = touches D P s s'"
  "touches D P (set_errno e' s) s' = touches D P s s'"
  by (simp_all add: touches_def set_errno_def)

lemma touches_kept: "touches D P s s' \<Longrightarrow> \<not> P q \<Longrightarrow> fs_get (os_fs s) q = Some n \<Longrightarrow> fs_get (os_fs s') q = Some n"
  unfolding touches_def by (metis option.distinct(1))

definition undisturbed :: "os \<Rightarrow> bool" where
  "undisturbed s \<longleftrightarrow> (\<forall>f. SChange f \<notin> set (os_sched s))"

lemma touches_undisturbed: "touches D P s s' \<Longrightarrow> undisturbed s \<Longrightarrow> undisturbed s'"
  using set_mono_suffix unfolding touches_def undisturbed_def by blast

lemma syscall_touches:
  assumes "\<And>ev s1. tick s = (ev, s1) \<Longrightarrow> touches D P s1 (snd (body ev s1))"
  shows "touches D P s (snd (syscall body s))"
proof -
  obtain ev s1 where t: "tick s = (ev, s1)" by (cases "tick s")
  have "touches D P s s1" by (rule touches_quiet [OF quiet_tick [OF t]])
  moreover have "touches D P s1 (snd (syscall body s))"
    using t assms [OF t] by (auto simp: syscall_def split: sysev.splits prod.splits sum.splits)
  ultimately show ?thesis by (rule touches_trans)
qed

lemma touches_put: "P loc \<Longrightarrow> loc \<noteq> [] \<Longrightarrow> touches D P s (set_fs (fs_put loc n (os_fs s)) s)"
  by (auto simp: touches_def set_fs_def)

lemma fs_get_None_nonroot: "fs_get t loc = None \<Longrightarrow> loc \<noteq> []"
  by auto

lemma touches_put_dir:
  "fs_get (os_fs s) loc = None \<Longrightarrow> D loc \<Longrightarrow> touches D P s (set_fs (fs_put loc Dir (os_fs s)) s)"
  using fs_get_None_nonroot [of "os_fs s" loc] by (auto simp: touches_def set_fs_def)

lemma fd_file_nonroot: "fd_file loc s = Some f \<Longrightarrow> loc \<noteq> []"
  by (auto simp: fd_file_def)

lemma fd_file_get: "fd_file loc s = Some f \<longleftrightarrow> fs_get (os_fs s) loc = Some (Reg f)"
  by (auto simp: fd_file_def split: option.splits node.splits)

lemma fd_update_touches: "touches D (\<lambda>q. q = loc) s (snd (fd_update loc g s))"
  using fd_file_nonroot [of loc s] by (auto simp: fd_update_def touches_put split: option.splits)

lemma snd_result: "snd (case x of (Inl e, s') \<Rightarrow> (Inl e, s') | (Inr y, s') \<Rightarrow> (Inr n, s')) = snd x"
  by (simp split: prod.splits sum.splits)

lemma fd_calls_touch [touch]:
  "touches D (\<lambda>q. q = loc) s (snd (sys_write loc bytes s))"
  "touches D (\<lambda>q. q = loc) s (snd (sys_fchmod loc mode s))"
  "touches D (\<lambda>q. q = loc) s (snd (sys_futimens loc at mt s))"
  unfolding sys_write_def sys_fchmod_def sys_futimens_def Let_def
  by (rule syscall_touches, simp only: snd_result fd_update_touches)+

lemma sys_read_undisturbed:
  assumes "undisturbed s" and "sys_read loc off n s = (r, s1)"
  shows "quiet s s1"
proof -
  obtain ev s' where t: "tick s = (ev, s')" by (cases "tick s")
  then have "\<forall>f. ev \<noteq> SChange f"
    using assms(1) by (auto simp: tick_def undisturbed_def split: list.splits)
  then have "quiet s' s1"
    using assms(2) t
    by (auto simp: sys_read_def syscall_def apply_change_def Let_def split: sysev.splits option.splits)
  with quiet_tick [OF t] show ?thesis by (rule quiet_trans)
qed

section \<open>Paths without symbolic links\<close>

definition no_links :: "fstree \<Rightarrow> cpath \<Rightarrow> bool" where
  "no_links t cs \<longleftrightarrow> (\<forall>i < length cs. \<forall>l. fs_get t (take i cs) \<noteq> Some (Lnk l))"

lemma no_links_snoc: "no_links t (cs @ [c]) \<Longrightarrow> no_links t (cs @ [d])"
  by (auto simp: no_links_def)

lemma no_links_touches:
  assumes "touches D P s s'" and "no_links (os_fs s) cs" and "\<And>q. P q \<Longrightarrow> length cs \<le> length q"
  shows "no_links (os_fs s') cs"
  unfolding no_links_def
proof (intro allI impI)
  fix i l assume i: "i < length cs"
  then have "\<not> P (take i cs)" using assms(3) [of "take i cs"] by auto
  with assms(1) have "fs_get (os_fs s') (take i cs) = fs_get (os_fs s) (take i cs) \<or>
      fs_get (os_fs s') (take i cs) = Some Dir" unfolding touches_def by blast
  with assms(2) i show "fs_get (os_fs s') (take i cs) \<noteq> Some (Lnk l)" by (auto simp: no_links_def)
qed

lemma namei_no_links:
  assumes "good_path cs" and "\<forall>i < length cs. \<forall>l. fs_get t (base @ take i cs) \<noteq> Some (Lnk l)"
    and "namei t n base cs False = Inr loc"
  shows "loc = base @ cs"
  using assms
proof (induction cs arbitrary: base)
  case (Cons c cs)
  have c: "c \<noteq> []" "c \<noteq> ''.''" "c \<noteq> ''..''"
    using Cons.prems(1) by (auto simp: good_comp_def)
  show ?case
  proof (cases "cs = []")
    case True
    with c Cons.prems(3) show ?thesis by (auto split: option.splits node.splits if_splits)
  next
    case False
    have nl: "fs_get t (base @ [c]) \<noteq> Some (Lnk l)" for l
      using Cons.prems(2) False by (auto dest: spec [of _ 1])
    with False c Cons.prems(3) have "namei t n (base @ [c]) cs False = Inr loc"
      by (auto split: option.splits node.splits if_splits)
    moreover have "\<forall>i < length cs. \<forall>l. fs_get t ((base @ [c]) @ take i cs) \<noteq> Some (Lnk l)"
      using Cons.prems(2) by (auto dest: spec [of _ "Suc _"])
    ultimately show ?thesis using Cons.IH [of "base @ [c]"] Cons.prems(1) by simp
  qed
qed simp

lemma locate_no_links:
  assumes "good_path cs" and "no_links (os_fs s) cs" and "locate False (path_str cs) s = Inr loc"
  shows "loc = cs"
proof (cases "cs = []")
  case True
  with assms(3) show ?thesis by (simp add: locate_def)
next
  case False
  then have "split_on slash (path_str cs) = [] # cs"
    using assms(1) by (simp add: path_str_def split_on_concat good_path_def good_comp_def)
  with namei_no_links [of cs "os_fs s" "[]" max_links loc] assms show ?thesis
    by (simp add: locate_def no_links_def)
qed

lemma lookup_no_links:
  assumes "good_path cs" and "no_links (os_fs s) cs" and "lookup_node False (path_str cs) s = Inr (loc, n)"
  shows "loc = cs \<and> fs_get (os_fs s) cs = Some n"
  using assms locate_no_links [OF assms(1,2)] by (auto simp: lookup_node_def split: sum.splits option.splits)

lemma tick_fs: "tick s = (ev, s1) \<Longrightarrow> os_fs s1 = os_fs s \<and> os_cwd s1 = os_cwd s"
  using quiet_fs [OF quiet_tick] by blast

lemma mkdir_touches:
  assumes "good_path cs" and "no_links (os_fs s) cs" and "cs \<noteq> []"
  shows "touches (\<lambda>q. q = cs) P s (snd (sys_mkdir (path_str cs) s))"
  unfolding sys_mkdir_def
proof (rule syscall_touches)
  fix ev s1 assume "tick s = (ev, s1)"
  then have nl: "no_links (os_fs s1) cs" using tick_fs assms(2) by metis
  have strip: "strip_slashes (path_str cs) = path_str cs"
    using last_path_str [of cs] assms(1,3) by (intro strip_slashes_id) (auto simp: good_path_def)
  show "touches (\<lambda>q. q = cs) P s1 (snd (case locate False (strip_slashes (path_str cs)) s1 of
       Inl e \<Rightarrow> (Inl e, s1)
     | Inr loc \<Rightarrow> (case fs_get (os_fs s1) loc of
           Some _ \<Rightarrow> (Inl EEXIST, s1)
         | None \<Rightarrow> (Inr (), set_fs (fs_put loc Dir (os_fs s1)) s1))))"
    using locate_no_links [OF assms(1) nl] strip
    by (cases "locate False (path_str cs) s1") (auto simp: touches_put_dir split: option.splits)
qed

lemma touches_more_dirs: "touches D P s s' \<Longrightarrow> (\<And>q. D q \<Longrightarrow> E q) \<Longrightarrow> touches E P s s'"
  unfolding touches_def by blast

lemma no_links_dirs: "touches D (\<lambda>q. False) s s' \<Longrightarrow> no_links (os_fs s) cs \<Longrightarrow> no_links (os_fs s') cs"
  by (erule no_links_touches) auto

lemma mkdir_each_touches:
  "good_path cs \<Longrightarrow> no_links (os_fs s) cs \<Longrightarrow> cs \<noteq> [] \<Longrightarrow>
     touches (\<lambda>q. prefix q cs) (\<lambda>q. False) s (snd (mkdir_each (mkdir_prefixes (path_str cs)) s))"
proof (induction cs rule: rev_induct)
  case (snoc c cs)
  have nl: "no_links (os_fs s) cs"
    using snoc.prems(2) unfolding no_links_def
    by (metis (no_types, lifting) length_append_singleton less_SucI less_imp_le take_append_le)
  define r where "r = (if cs = [] then (0, s) else mkdir_each (mkdir_prefixes (path_str cs)) s)"
  have t: "touches (\<lambda>q. prefix q (cs @ [c])) (\<lambda>q. False) s (snd r)"
    using snoc.IH [OF _ nl] snoc.prems(1) by (cases "cs = []") (auto simp: r_def intro: touches_more_dirs)
  have "no_links (os_fs (snd r)) (cs @ [c])" by (rule no_links_dirs [OF t snoc.prems(2)])
  from mkdir_touches [OF snoc.prems(1) this, of "\<lambda>q. False"]
  have "touches (\<lambda>q. prefix q (cs @ [c])) (\<lambda>q. False) (snd r) (snd (sys_mkdir (path_str (cs @ [c])) (snd r)))"
    by (auto intro: touches_more_dirs)
  moreover have "mkdir_each (mkdir_prefixes (path_str (cs @ [c]))) s =
      (if fst r = 0 then mkdir_each [path_str (cs @ [c])] (snd r) else r)"
    using mkdir_prefixes_path_str [OF snoc.prems(1)] by (auto simp: r_def mkdir_each_append split: prod.splits)
  ultimately show ?case
    using t by (auto intro: touches_trans split: prod.splits sum.splits)
qed simp

lemma sys_mkdir_root: "quiet s (snd (sys_mkdir [slash] s))"
proof -
  obtain ev s1 where t: "tick s = (ev, s1)" by (cases "tick s")
  have "quiet s1 (snd (sys_mkdir [slash] s))"
    using t by (auto simp: sys_mkdir_def syscall_def strip_slashes_def locate_def split: sysev.splits)
  with quiet_tick [OF t] show ?thesis by (rule quiet_trans)
qed

lemma mkdirs_touches:
  assumes "plain_path cs" and "no_links (os_fs s) cs"
  shows "touches (\<lambda>q. prefix q cs) (\<lambda>q. False) s (snd (syseba_mkdirs (path_str cs) s))"
proof (cases "cs = []")
  case True
  obtain r s1 where m: "sys_mkdir [slash] s = (r, s1)" by (cases "sys_mkdir [slash] s")
  have "quiet s s1" using sys_mkdir_root [of s] m by simp
  with True m show ?thesis
    by (auto simp: syseba_mkdirs_def normalize_separators_def strip_slashes_def mkdir_prefixes_def
        backslash_def intro: touches_quiet split: sum.splits)
next
  case False
  have g: "good_path cs" and b: "\<forall>c \<in> set cs. backslash \<notin> set c" using assms(1) by (auto simp: plain_path_def)
  have "strip_slashes (normalize_separators (path_str cs)) = path_str cs"
    using last_path_str [of cs] g False
    by (simp add: normalize_id [OF path_str_no_backslash [OF b]] strip_slashes_id good_path_def)
  with mkdir_each_touches [OF g assms(2) False] show ?thesis by (simp add: syseba_mkdirs_def)
qed

lemma prepare_touches:
  assumes "plain_path (ds @ [d])" and "no_links (os_fs s) (ds @ [d])"
  shows "touches (\<lambda>q. prefix q ds) (\<lambda>q. False) s (snd (prepare_destination (path_str (ds @ [d])) s))"
proof -
  have "no_links (os_fs s) ds"
    using assms(2) unfolding no_links_def
    by (metis (no_types, lifting) length_append_singleton less_SucI less_imp_le take_append_le)
  then show ?thesis
    using mkdirs_touches [of ds s] assms(1) parent_dir_cases [OF plain_path_good [OF assms(1)]]
    by (auto simp: prepare_destination_def split: option.splits)
qed

lemma unlink_touches:
  assumes "good_path cs" and "no_links (os_fs s) cs" and "cs \<noteq> []"
  shows "touches D (\<lambda>q. q = cs) s (snd (sys_unlink (path_str cs) s))"
  unfolding sys_unlink_def
proof (rule syscall_touches)
  fix ev s1 assume "tick s = (ev, s1)"
  then have "no_links (os_fs s1) cs" using tick_fs assms(2) by metis
  from lookup_no_links [OF assms(1) this] assms(3)
  show "touches D (\<lambda>q. q = cs) s1 (snd (case lookup_node False (path_str cs) s1 of Inl e \<Rightarrow> (Inl e, s1)
      | Inr (loc, Dir) \<Rightarrow> (Inl EISDIR, s1)
      | Inr (loc, _) \<Rightarrow> (Inr (), set_fs (fs_del loc (os_fs s1)) s1)))"
    by (auto split: sum.splits node.splits) (auto simp: touches_def set_fs_def)
qed

lemma unlink_keep_touches:
  "good_path cs \<Longrightarrow> no_links (os_fs s) cs \<Longrightarrow> cs \<noteq> [] \<Longrightarrow>
     touches D (\<lambda>q. q = cs) s (unlink_keep_errno (path_str cs) s)"
  by (simp add: unlink_keep_errno_def unlink_touches)

lemma syscall_Inr:
  "syscall body s = (Inr x, s2) \<longleftrightarrow> (\<exists>ev s1. tick s = (ev, s1) \<and> (\<forall>e. ev \<noteq> SFail e) \<and> body ev s1 = (Inr x, s2))"
  by (auto simp: syscall_def split: sysev.splits prod.splits sum.splits)

lemma query_Inr: "query q s = (Inr x, s1) \<Longrightarrow> q s1 = Inr x \<and> os_fs s1 = os_fs s \<and> os_cwd s1 = os_cwd s"
  unfolding query_def syscall_Inr using tick_fs by blast

lemma open_excl_touches:
  assumes "good_path cs" and "no_links (os_fs s) cs"
  shows "touches D (\<lambda>q. q = cs) s (snd (sys_open_excl (path_str cs) mode s))"
  unfolding sys_open_excl_def
proof (rule syscall_touches)
  fix ev s1 assume "tick s = (ev, s1)"
  then have "no_links (os_fs s1) cs" using tick_fs assms(2) by metis
  note loc = locate_no_links [OF assms(1) this]
  show "touches D (\<lambda>q. q = cs) s1 (snd (case locate False (path_str cs) s1 of Inl e \<Rightarrow> (Inl e, s1)
      | Inr loc \<Rightarrow> (case fs_get (os_fs s1) loc of Some _ \<Rightarrow> (Inl EEXIST, s1)
         | None \<Rightarrow> (Inr loc,
             s1\<lparr>os_fs := fs_put loc (Reg \<lparr>f_data = [], f_mode = mode, f_mtime = os_time s1,
                   f_atime = os_time s1, f_dev = 0, f_ino = os_ino s1\<rparr>) (os_fs s1),
               os_ino := os_ino s1 + 1\<rparr>))))"
  proof (cases "locate False (path_str cs) s1")
    case (Inr l)
    with loc have "l = cs" by simp
    with Inr fs_get_None_nonroot [of "os_fs s1" cs] show ?thesis
      by (auto simp: touches_def split: option.splits)
  qed simp
qed

lemma open_excl_opened:
  assumes "good_path cs" and "no_links (os_fs s) cs" and "sys_open_excl (path_str cs) mode s = (Inr loc, s1)"
  shows "loc = cs \<and> fs_get (os_fs s) cs = None \<and> cs \<noteq> [] \<and>
       (\<exists>g. fs_get (os_fs s1) cs = Some (Reg g) \<and> f_data g = [])"
proof -
  from assms(3) obtain ev s' where t: "tick s = (ev, s')"
    and b: "(case locate False (path_str cs) s' of Inl e \<Rightarrow> (Inl e, s')
      | Inr loc \<Rightarrow> (case fs_get (os_fs s') loc of Some _ \<Rightarrow> (Inl EEXIST, s')
         | None \<Rightarrow> (Inr loc,
             s'\<lparr>os_fs := fs_put loc (Reg \<lparr>f_data = [], f_mode = mode, f_mtime = os_time s',
                   f_atime = os_time s', f_dev = 0, f_ino = os_ino s'\<rparr>) (os_fs s'),
               os_ino := os_ino s' + 1\<rparr>))) = (Inr loc, s1)"
    unfolding sys_open_excl_def syscall_Inr by blast
  have nl: "no_links (os_fs s') cs" using assms(2) tick_fs [OF t] by simp
  from b have "locate False (path_str cs) s' = Inr loc" "fs_get (os_fs s') loc = None"
    and s1: "os_fs s1 = fs_put loc (Reg \<lparr>f_data = [], f_mode = mode, f_mtime = os_time s',
                   f_atime = os_time s', f_dev = 0, f_ino = os_ino s'\<rparr>) (os_fs s')"
    by (auto split: sum.splits option.splits)
  with locate_no_links [OF assms(1) nl] fs_get_None_nonroot [of "os_fs s'" cs] tick_fs [OF t]
  show ?thesis by auto
qed

lemma rename_cases:
  assumes ga: "good_path a" and gb: "good_path b"
    and la: "no_links (os_fs s) a" and lb: "no_links (os_fs s) b" and ne: "a \<noteq> b"
    and r: "sys_rename (path_str a) (path_str b) s = (r, s1)" and t: "tick s = (ev, s')"
  shows "os_fs s1 = os_fs s \<and> touches D (\<lambda>q. False) s s1 \<and> r \<noteq> Inr () \<or>
    a \<noteq> [] \<and> b \<noteq> [] \<and> fs_get (os_fs s) a \<noteq> None \<and> r = Inr () \<and> s1 = set_fs (fs_move a b (os_fs s')) s'"
proof (cases "\<exists>e. ev = SFail e")
  case True
  with r t tick_fs [OF t] touches_quiet [OF quiet_tick [OF t]] show ?thesis
    by (auto simp: sys_rename_def syscall_def)
next
  case False
  define body where "body = (case (lookup_node False (path_str a) s', locate False (path_str b) s') of
     (Inl e, _) \<Rightarrow> (Inl e, s')
   | (_, Inl e) \<Rightarrow> (Inl e, s')
   | (Inr (x, n), Inr y) \<Rightarrow>
       if x = y then (Inr (), s')
       else (case rename_check (os_fs s') (x, n) y of
           Some e \<Rightarrow> (Inl e, s')
         | None \<Rightarrow> (Inr (), set_fs (fs_move x y (os_fs s')) s')))"
  have res: "(r, s1) = (case body of (Inl e, s2) \<Rightarrow> (Inl e, set_errno e s2) | (Inr x, s2) \<Rightarrow> (Inr x, s2))"
    using r t False by (auto simp: sys_rename_def syscall_def body_def split: sysev.splits)
  show ?thesis
  proof (cases "\<exists>n. lookup_node False (path_str a) s' = Inr (a, n) \<and> locate False (path_str b) s' = Inr b \<and>
      rename_check (os_fs s') (a, n) b = None")
    case True
    then obtain n where n: "lookup_node False (path_str a) s' = Inr (a, n)"
      "locate False (path_str b) s' = Inr b" "rename_check (os_fs s') (a, n) b = None" by blast
    then have "body = (Inr (), set_fs (fs_move a b (os_fs s')) s')" using ne by (simp add: body_def)
    moreover have "a \<noteq> []" "b \<noteq> []" using n(3) by (auto simp: rename_check_def split: if_splits)
    moreover have "fs_get (os_fs s) a = Some n"
      using lookup_no_links [OF ga _ n(1)] la tick_fs [OF t] by simp
    ultimately show ?thesis using res by simp
  next
    case False
    have "\<exists>e. body = (Inl e, s')"
      using False ne lookup_no_links [OF ga, of s'] locate_no_links [OF gb, of s'] la lb tick_fs [OF t]
      by (auto simp: body_def split: sum.splits option.splits)
    with res tick_fs [OF t] touches_quiet [OF quiet_tick [OF t]] show ?thesis by auto
  qed
qed

lemma rename_moves:
  assumes ga: "good_path a" and gb: "good_path b"
    and la: "no_links (os_fs s) a" and lb: "no_links (os_fs s) b" and ne: "a \<noteq> b"
    and r: "sys_rename (path_str a) (path_str b) s = (r, s1)"
  shows "touches D (\<lambda>q. prefix a q \<or> prefix b q) s s1 \<and>
    (r = Inr () \<longrightarrow> fs_get (os_fs s1) b = fs_get (os_fs s) a \<and> fs_get (os_fs s) a \<noteq> None) \<and>
    (r \<noteq> Inr () \<longrightarrow> os_fs s1 = os_fs s)"
proof -
  obtain ev s' where t: "tick s = (ev, s')" by (cases "tick s")
  have fs: "os_fs s' = os_fs s" using tick_fs [OF t] by simp
  note q = quiet_tick [OF t]
  from rename_cases [OF assms t, of D] consider (same) "os_fs s1 = os_fs s" "touches D (\<lambda>q. False) s s1" "r \<noteq> Inr ()"
    | (moved) n where "a \<noteq> []" "b \<noteq> []" "fs_get (os_fs s) a = Some n" "r = Inr ()"
        "s1 = set_fs (fs_move a b (os_fs s')) s'" by blast
  then show ?thesis
  proof cases
    case same
    then show ?thesis by (auto intro: touches_mono)
  next
    case (moved n)
    have "touches D (\<lambda>q. prefix a q \<or> prefix b q) s' s1"
      using moved by (auto simp: touches_def fs_get_move)
    then have "touches D (\<lambda>q. prefix a q \<or> prefix b q) s s1"
      using touches_quiet [OF q] touches_trans by blast
    with moved fs show ?thesis by (simp add: fs_get_move)
  qed
qed

section \<open>The copy loops move the data\<close>

lemma fd_file_quiet: "quiet s s' \<Longrightarrow> fd_file loc s' = fd_file loc s"
  using quiet_fs [of s s'] by (simp add: fd_file_def)

lemma fd_file_touches: "touches D P s s' \<Longrightarrow> \<not> P loc \<Longrightarrow> fd_file loc s = Some f \<Longrightarrow> fd_file loc s' = Some f"
  using touches_kept by (simp add: fd_file_get)

lemma sys_write_data:
  assumes "fd_file loc s = Some g" and "sys_write loc bytes s = (r, s1)"
  shows "\<exists>g1. fd_file loc s1 = Some g1 \<and>
    f_data g1 = f_data g @ (case r of Inr n \<Rightarrow> take n bytes | Inl e \<Rightarrow> [])"
proof -
  obtain ev s' where t: "tick s = (ev, s')" by (cases "tick s")
  have g: "fd_file loc s' = Some g" using assms(1) fd_file_quiet [OF quiet_tick [OF t]] by simp
  have loc: "loc \<noteq> []" by (rule fd_file_nonroot [OF assms(1)])
  show ?thesis
  proof (cases "\<exists>e. ev = SFail e")
    case True
    with assms(2) t g show ?thesis by (auto simp: sys_write_def syscall_def fd_file_def)
  next
    case False
    let ?n = "write_count ev (length bytes)"
    let ?s1 = "set_fs (fs_put loc (Reg (g\<lparr>f_data := f_data g @ take ?n bytes\<rparr>)) (os_fs s')) s'"
    from False assms(2) t g have "r = Inr ?n \<and> s1 = ?s1"
      by (auto simp: sys_write_def syscall_def fd_update_def Let_def split: sysev.splits)
    with loc show ?thesis by (simp add: fd_file_get)
  qed
qed

lemma write_all_data:
  "fd_file out s = Some g \<Longrightarrow> write_all out bytes c s = (ok, c', s') \<Longrightarrow>
     touches D (\<lambda>q. q = out) s s' \<and>
     (\<exists>g'. fd_file out s' = Some g' \<and> (ok \<longrightarrow> f_data g' = f_data g @ bytes))"
proof (induction out bytes c s arbitrary: g rule: write_all.induct)
  case (1 out bytes c s)
  show ?case
  proof (cases "bytes = []")
    case True
    with "1.prems" show ?thesis by (auto simp: write_all.simps)
  next
    case False
    obtain r s1 where w: "sys_write out bytes s = (r, s1)" by (cases "sys_write out bytes s")
    from sys_write_data [OF "1.prems"(1) w] obtain g1 where g1: "fd_file out s1 = Some g1"
      "f_data g1 = f_data g @ (case r of Inr n \<Rightarrow> take n bytes | Inl e \<Rightarrow> [])" by blast
    have t: "touches D (\<lambda>q. q = out) s s1" using fd_calls_touch(1) [of _ out s bytes] w by simp
    show ?thesis
    proof (cases r)
      case (Inl e)
      show ?thesis
      proof (cases "e = EINTR")
        case True
        with "1.IH"(1) [OF False, of _ s1 e g1] "1.prems"(2) w Inl g1 False
        have "touches D (\<lambda>q. q = out) s1 s' \<and> (\<exists>g'. fd_file out s' = Some g' \<and> (ok \<longrightarrow> f_data g' = f_data g1 @ bytes))"
          by (simp add: write_all.simps [of out bytes c s])
        with t g1 Inl show ?thesis by (auto intro: touches_trans)
      next
        case ne: False
        with "1.prems"(2) w Inl False g1 t show ?thesis by (auto simp: write_all.simps [of out bytes])
      qed
    next
      case (Inr n)
      show ?thesis
      proof (cases "n = 0")
        case True
        with "1.prems"(2) w Inr False g1 t show ?thesis by (auto simp: write_all.simps [of out bytes])
      next
        case pos: False
        with "1.IH"(2) [OF False, of _ s1 n g1] "1.prems"(2) w Inr g1 False
        have "touches D (\<lambda>q. q = out) s1 s' \<and>
            (\<exists>g'. fd_file out s' = Some g' \<and> (ok \<longrightarrow> f_data g' = f_data g1 @ drop n bytes))"
          by (simp add: write_all.simps [of out bytes c s])
        with t g1 Inr show ?thesis by (auto intro: touches_trans)
      qed
    qed
  qed
qed

lemma sys_read_data:
  assumes "undisturbed s" and "fd_file input s = Some f" and "sys_read input off n s = (Inr chunk, s1)" and "0 < n"
  shows "\<exists>k > 0. chunk = take k (drop off (f_data f))"
proof -
  obtain ev s' where t: "tick s = (ev, s')" by (cases "tick s")
  have f: "fd_file input s' = Some f" using assms(2) fd_file_quiet [OF quiet_tick [OF t]] by simp
  have "\<forall>h. ev \<noteq> SChange h"
    using assms(1) t by (auto simp: tick_def undisturbed_def split: list.splits)
  with assms(3) t f have "chunk = take (read_count ev n) (drop off (f_data f))"
    by (auto simp: sys_read_def syscall_def apply_change_def Let_def split: sysev.splits)
  moreover have "0 < read_count ev n" using assms(4) by (auto simp: read_count_def less_max_iff_disj split: sysev.splits)
  ultimately show ?thesis by blast
qed

lemma copy_loop_data:
  assumes "input \<noteq> out" "undisturbed s" "fd_file input s = Some f" "fd_file out s = Some g"
    and "f_data g = take off (f_data f)" and "copy_loop n input off out c s = Some (ok, c', s')"
  shows "touches D (\<lambda>q. q = out) s s' \<and> (\<exists>g'. fd_file out s' = Some g' \<and> (ok \<longrightarrow> f_data g' = f_data f))"
  using assms
proof (induction n arbitrary: off c s g)
  case (Suc n)
  obtain r s1 where rd: "sys_read input off copy_buffer s = (r, s1)" by (cases "sys_read input off copy_buffer s")
  have q: "quiet s s1" by (rule sys_read_undisturbed [OF Suc.prems(2) rd])
  have u1: "undisturbed s1" by (rule touches_undisturbed [OF touches_quiet [OF q] Suc.prems(2)])
  have f1: "fd_file input s1 = Some f" "fd_file out s1 = Some g"
    using Suc.prems(3,4) fd_file_quiet [OF q] by simp_all
  note t1 = touches_quiet [OF q, of D "\<lambda>q. q = out"]
  show ?case
  proof (cases r)
    case (Inl e)
    show ?thesis
    proof (cases "e = EINTR")
      case True
      with Suc.IH [OF Suc.prems(1) u1 f1 Suc.prems(5)] Suc.prems(6) rd Inl t1 show ?thesis
        by (auto intro: touches_trans)
    next
      case False
      with Suc.prems(6) rd Inl t1 f1 show ?thesis by auto
    qed
  next
    case (Inr chunk)
    from sys_read_data [OF Suc.prems(2,3) rd [unfolded Inr]] obtain k where
      k: "0 < k" "chunk = take k (drop off (f_data f))" by (auto simp: copy_buffer_def)
    show ?thesis
    proof (cases "chunk = []")
      case True
      with k have "f_data g = f_data f" using Suc.prems(5) by auto
      with True Suc.prems(6) rd Inr t1 f1 show ?thesis by auto
    next
      case False
      obtain ok1 c1 s2 where w: "write_all out chunk c s1 = (ok1, c1, s2)" by (cases "write_all out chunk c s1")
      from write_all_data [OF f1(2) w] obtain g2 where t2: "touches D (\<lambda>q. q = out) s1 s2"
        and g2: "fd_file out s2 = Some g2" "ok1 \<longrightarrow> f_data g2 = f_data g @ chunk" by blast
      show ?thesis
      proof (cases ok1)
        case True
        have u2: "undisturbed s2" by (rule touches_undisturbed [OF t2 u1])
        have f2: "fd_file input s2 = Some f" using fd_file_touches [OF t2 Suc.prems(1) f1(1)] .
        have "take (length chunk) (drop off (f_data f)) = chunk" unfolding k(2) by (simp add: min_def)
        then have "f_data g2 = take (off + length chunk) (f_data f)"
          using g2(2) True Suc.prems(5) by (simp add: take_add)
        from Suc.IH [OF Suc.prems(1) u2 f2 g2(1) this] Suc.prems(6) rd Inr False w True t1 t2
        show ?thesis by (auto intro: touches_trans)
      next
        case nok: False
        with Suc.prems(6) rd Inr False w t1 t2 g2 show ?thesis by (auto intro: touches_trans)
      qed
    qed
  qed
qed simp

section \<open>One copy\<close>

lemma fd_update_call:
  assumes "fd_file loc s = Some g" and "syscall (\<lambda>_. fd_update loc h) s = (r, s1)"
  shows "fd_file loc s1 = Some (if r = Inr () then h g else g)"
proof -
  obtain ev s' where t: "tick s = (ev, s')" by (cases "tick s")
  have g: "fd_file loc s' = Some g" using assms(1) fd_file_quiet [OF quiet_tick [OF t]] by simp
  show ?thesis
    using assms(2) t g fd_file_nonroot [OF assms(1)]
    by (auto simp: syscall_def fd_update_def fd_file_def split: sysev.splits)
qed

lemma copy_finish_spec:
  assumes "fd_file out s = Some g" and "copy_finish st input out c s = (ok, s')"
  shows "touches D (\<lambda>q. q = out) s s' \<and>
    (ok \<longrightarrow> (\<exists>g'. fd_file out s' = Some g' \<and> f_data g' = f_data g \<and> f_mode g' = f_mode st mod 512))"
proof -
  obtain r s1 where fs: "sys_fstat input s = (r, s1)" by (cases "sys_fstat input s")
  have q1: "quiet s s1" using readers_quiet(5) [of s input] fs by simp
  obtain r2 s2 where ut: "sys_futimens out (f_atime st) (f_mtime st) s1 = (r2, s2)"
    by (cases "sys_futimens out (f_atime st) (f_mtime st) s1")
  obtain r3 s3 where cm: "sys_fchmod out (f_mode st mod 512) s2 = (r3, s3)"
    by (cases "sys_fchmod out (f_mode st mod 512) s2")
  obtain r4 s4 where sy: "sys_fsync out s3 = (r4, s4)" by (cases "sys_fsync out s3")
  have q4: "quiet s3 s4" using readers_quiet(6) [of s3 out] sy by simp
  have t1: "touches D (\<lambda>q. q = out) s s1" by (rule touches_quiet [OF q1])
  have t2: "touches D (\<lambda>q. q = out) s s2"
    using touches_trans [OF t1] fd_calls_touch(3) [of _ out s1] ut by (metis snd_conv)
  have t3: "touches D (\<lambda>q. q = out) s s3"
    using touches_trans [OF t2] fd_calls_touch(2) [of _ out s2] cm by (metis snd_conv)
  have t4: "touches D (\<lambda>q. q = out) s s4" using touches_trans [OF t3] touches_quiet [OF q4] by blast
  have g1: "fd_file out s1 = Some g" using assms(1) fd_file_quiet [OF q1] by simp
  obtain g2 where g2: "fd_file out s2 = Some g2" "f_data g2 = f_data g"
    using fd_update_call [OF g1 ut [unfolded sys_futimens_def]] by (auto split: if_splits)
  have g3: "r3 = Inr () \<Longrightarrow> fd_file out s3 = Some (g2\<lparr>f_mode := f_mode st mod 512\<rparr>)"
    using fd_update_call [OF g2(1) cm [unfolded sys_fchmod_def]] by simp
  have "(ok, s') \<in> {(False, set_errno EAGAIN s1), (False, s3), (False, s4)} \<or>
      (ok, s') = (True, s4) \<and> r3 = Inr ()"
    using assms(2) fs ut cm sy by (auto simp: copy_finish_def Let_def split: sum.splits node.splits if_splits)
  then show ?thesis
    using t1 t3 t4 g3 g2(2) fd_file_quiet [OF q4] by auto
qed

lemma open_read_loc:
  assumes "good_path cs" "no_links (os_fs s) cs" "fs_get (os_fs s) cs = Some n"
    and "sys_open_read (path_str cs) s = (Inr loc, s1)"
  shows "loc = cs"
proof -
  from query_Inr [OF assms(4) [unfolded sys_open_read_def]]
  have "\<exists>m. lookup_node False (path_str cs) s1 = Inr (loc, m)" and "os_fs s1 = os_fs s"
    by (auto split: sum.splits node.splits)
  then obtain m where "lookup_node False (path_str cs) s1 = Inr (loc, m)" and fs: "os_fs s1 = os_fs s"
    by blast
  from lookup_no_links [OF assms(1) _ this(1)] assms(2) fs show ?thesis by simp
qed

lemma fstat_node: "sys_fstat loc s = (Inr n, s1) \<Longrightarrow> fs_get (os_fs s) loc = Some n"
  unfolding sys_fstat_def by (drule query_Inr) (auto split: option.splits)

text \<open>The second half of a copy: from two open files to the checked result.\<close>

lemma copy_transfer_spec:
  assumes "input \<noteq> out" "undisturbed s" "fd_file input s = Some f" "fd_file out s = Some g" "f_data g = []"
    and run: "(case copy_loop (copy_fuel input s) input 0 out 0 s of
        None \<Rightarrow> (False, s) | Some (False, copied, s5) \<Rightarrow> (False, s5) | Some (True, copied, s5) \<Rightarrow> copy_finish f input out copied s5) = (ok, s')"
  shows "touches D (\<lambda>q. q = out) s s' \<and>
    (ok \<longrightarrow> (\<exists>g. fs_get (os_fs s') out = Some (Reg g) \<and> f_data g = f_data f \<and> f_mode g = f_mode f mod 512))"
proof (cases "copy_loop (copy_fuel input s) input 0 out 0 s")
  case None
  with run show ?thesis by simp
next
  case (Some p)
  obtain ok5 c5 s5 where p: "p = (ok5, c5, s5)" by (cases p)
  from copy_loop_data [OF assms(1-4), of 0 _ 0 ok5 c5 s5 D] assms(5) Some p obtain g5 where
    t5: "touches D (\<lambda>q. q = out) s s5" and g5: "fd_file out s5 = Some g5" "ok5 \<longrightarrow> f_data g5 = f_data f" by auto
  show ?thesis
  proof (cases ok5)
    case True
    with run Some p have "copy_finish f input out c5 s5 = (ok, s')" by simp
    from copy_finish_spec [OF g5(1) this] True g5(2) touches_trans [OF t5] show ?thesis by (auto simp: fd_file_get)
  next
    case False
    with run Some p t5 show ?thesis by simp
  qed
qed

lemma copy_body_spec:
  assumes src: "good_path ss" "no_links (os_fs s) ss" "fs_get (os_fs s) ss = Some (Reg f)"
    and cs: "cs = ds @ [d]" and plain: "plain_path cs" and dst: "no_links (os_fs s) cs" and u: "undisturbed s"
    and c: "copy_body (path_str ss) (path_str cs) s = (ok, s')"
  shows "touches (\<lambda>q. prefix q ds) (\<lambda>q. q = cs) s s' \<and>
    (ok \<longrightarrow> (\<exists>g. fs_get (os_fs s') cs = Some (Reg g) \<and> f_data g = f_data f \<and> f_mode g = f_mode f mod 512))"
proof -
  have good: "good_path cs" using plain by blast
  obtain r1 s1 where op: "sys_open_read (path_str ss) s = (r1, s1)" by (cases "sys_open_read (path_str ss) s")
  obtain r2 s2 where st: "sys_fstat ss s1 = (r2, s2)" by (cases "sys_fstat ss s1")
  obtain r3 s3 where pr: "prepare_destination (path_str cs) s2 = (r3, s3)"
    by (cases "prepare_destination (path_str cs) s2")
  obtain r4 s4 where ex: "sys_open_excl (path_str cs) (f_mode f mod 512) s3 = (r4, s4)"
    by (cases "sys_open_excl (path_str cs) (f_mode f mod 512) s3")
  have q1: "quiet s s1" using readers_quiet(4) [of s "path_str ss"] op by simp
  have q2: "quiet s s2" using quiet_trans [OF q1] readers_quiet(5) [of s1 ss] st by simp
  have t3: "touches (\<lambda>q. prefix q ds) (\<lambda>q. False) s s3"
    using touches_trans [OF touches_quiet [OF q2]] prepare_touches [of ds d s2] pr plain dst quiet_fs [OF q2] cs
    by (metis snd_conv)
  have nl3: "no_links (os_fs s3) cs" by (rule no_links_touches [OF t3 dst]) simp
  have f3: "fs_get (os_fs s3) ss = Some (Reg f)" by (rule touches_kept [OF t3 _ src(3)]) simp
  have t34: "touches (\<lambda>q. prefix q ds) (\<lambda>q. q = cs) s3 s4"
    using open_excl_touches [OF good nl3, of _ "f_mode f mod 512"] ex by simp
  have t4: "touches (\<lambda>q. prefix q ds) (\<lambda>q. q = cs) s s4"
    using touches_trans [OF touches_mono [OF t3] t34] by simp
  have reg: "r2 = Inr n \<Longrightarrow> n = Reg f" for n
    using fstat_node [of ss s1 n s2] st src(3) quiet_fs [OF q1] by simp
  show ?thesis
  proof (cases "\<exists>l. r1 = Inr l \<and> r2 = Inr (Reg f) \<and> r3 = 0 \<and> (\<exists>l4. r4 = Inr l4)")
    case all: True
    then obtain l4 where l4: "r4 = Inr l4" by blast
    from all open_read_loc [OF src, of _ s1] op have r1: "r1 = Inr ss" by auto
    from open_excl_opened [OF good nl3 ex [unfolded l4]] obtain g where
      out: "l4 = cs" "fs_get (os_fs s3) cs = None" "fs_get (os_fs s4) cs = Some (Reg g)" "f_data g = []" by blast
    have ne: "ss \<noteq> cs" using f3 out(2) by auto
    have in4: "fd_file ss s4 = Some f"
      using touches_kept [OF t34 _ f3] ne by (simp add: fd_file_get)
    have out4: "fd_file cs s4 = Some g" using out(3) by (simp add: fd_file_get)
    have u4: "undisturbed s4" by (rule touches_undisturbed [OF t4 u])
    from c op st pr ex all r1 out(1) l4 have "(case copy_loop (copy_fuel ss s4) ss 0 cs 0 s4 of
        None \<Rightarrow> (False, s4) | Some (False, copied, s5) \<Rightarrow> (False, s5) | Some (True, copied, s5) \<Rightarrow> copy_finish f ss cs copied s5) = (ok, s')"
      by (simp add: copy_body_def)
    from copy_transfer_spec [OF ne u4 in4 out4 out(4) this] touches_trans [OF t4] show ?thesis by blast
  next
    case False
    have "ok = False \<and> s' \<in> {s1, s2, s3, s4}"
      using False c op st pr ex reg open_read_loc [OF src, of _ s1]
      by (auto simp: copy_body_def split: sum.splits node.splits if_splits)
    with touches_quiet [OF q1] touches_quiet [OF q2] touches_mono [OF t3] t4 show ?thesis by auto
  qed
qed

section \<open>The fuel of the copy loop is enough\<close>

lemma fold_max_le: "fold max xs a \<le> (m :: nat) \<longleftrightarrow> a \<le> m \<and> (\<forall>x \<in> set xs. x \<le> m)"
  by (induction xs arbitrary: a) auto

lemma max_source_length_le:
  "max_source_length input s \<le> m \<longleftrightarrow>
     (\<forall>f. fd_file input s = Some f \<longrightarrow> length (f_data f) \<le> m) \<and>
     (\<forall>f. SChange f \<in> set (os_sched s) \<longrightarrow> length (f_data f) \<le> m)"
  unfolding max_source_length_def fold_max_le
  by (fastforce split: option.splits sysev.splits)

lemma max_source_length_mono:
  assumes "suffix (os_sched s') (os_sched s)"
    and "fd_file input s' = fd_file input s \<or> (\<exists>f. fd_file input s' = Some f \<and> SChange f \<in> set (os_sched s))"
  shows "max_source_length input s' \<le> max_source_length input s"
  using assms set_mono_suffix [OF assms(1)] max_source_length_le [of input s "max_source_length input s"]
  unfolding max_source_length_le [of input s'] by auto

lemma sys_read_step:
  assumes "sys_read input off n s = (r, s1)"
  shows "os_sched s1 = tl (os_sched s) \<and> max_source_length input s1 \<le> max_source_length input s \<and>
    (\<forall>chunk. r = Inr chunk \<longrightarrow> chunk \<noteq> [] \<longrightarrow> off < max_source_length input s1) \<and>
    (os_sched s = [] \<longrightarrow> r \<noteq> Inl EINTR)"
proof -
  obtain ev s' where t: "tick s = (ev, s')" by (cases "tick s")
  have sch: "os_sched s' = tl (os_sched s)" using t by (auto simp: tick_def split: list.splits)
  have ev: "ev \<noteq> SOk \<Longrightarrow> ev \<in> set (os_sched s)" using t by (auto simp: tick_def split: list.splits)
  have file1: "fd_file input s' = fd_file input s" by (rule fd_file_quiet [OF quiet_tick [OF t]])
  have s1: "os_sched s1 = os_sched s'"
    using assms t by (auto simp: sys_read_def syscall_def apply_change_def fd_update_def Let_def
        split: sysev.splits option.splits)
  have file2: "fd_file input s1 = fd_file input s \<or> (\<exists>f. fd_file input s1 = Some f \<and> SChange f \<in> set (os_sched s))"
  proof (cases ev)
    case (SChange f)
    with assms t file1 ev fd_file_nonroot [of input s'] show ?thesis
      by (cases "fd_file input s'")
        (auto simp: sys_read_def syscall_def apply_change_def fd_update_def Let_def fd_file_def
          split: option.splits node.splits)
  qed (use assms t file1 in \<open>auto simp: sys_read_def syscall_def apply_change_def Let_def fd_file_def
      split: option.splits node.splits\<close>)
  have "off < max_source_length input s1" if "r = Inr chunk" "chunk \<noteq> []" for chunk
  proof -
    from that assms t obtain f where "fd_file input s1 = Some f" "drop off (f_data f) \<noteq> []"
      by (auto simp: sys_read_def syscall_def Let_def split: sysev.splits option.splits)
    then show ?thesis
      using max_source_length_le [of input s1 "max_source_length input s1"] by force
  qed
  moreover have "r \<noteq> Inl EINTR" if "os_sched s = []"
    using assms t that by (auto simp: tick_def sys_read_def syscall_def apply_change_def Let_def
        split: option.splits)
  moreover have "suffix (os_sched s1) (os_sched s)" using s1 sch by (simp add: suffix_tl)
  ultimately show ?thesis
    using s1 sch max_source_length_mono [OF _ file2] by auto
qed

lemma write_all_frame:
  "touches D (\<lambda>q. q = out) s (snd (snd (write_all out bytes c s)))"
proof (induction out bytes c s rule: write_all.induct)
  case (1 out bytes c s)
  obtain r s1 where w: "sys_write out bytes s = (r, s1)" by (cases "sys_write out bytes s")
  have "touches D (\<lambda>q. q = out) s s1" using fd_calls_touch(1) [of _ out s bytes] w by simp
  with "1.IH" w show ?case
    by (subst write_all.simps) (auto split: sum.splits intro: touches_trans)
qed

lemma max_source_length_touches:
  assumes "touches D (\<lambda>q. q = out) s s'" and "input \<noteq> out"
  shows "max_source_length input s' \<le> max_source_length input s"
proof -
  have "fs_get (os_fs s') input = fs_get (os_fs s) input \<or> fs_get (os_fs s') input = Some Dir"
    using assms unfolding touches_def by blast
  then have "fd_file input s' = fd_file input s \<or> fd_file input s' = None" by (auto simp: fd_file_def)
  moreover have "suffix (os_sched s') (os_sched s)" using assms(1) by (simp add: touches_def)
  ultimately show ?thesis
    using set_mono_suffix [of "os_sched s'" "os_sched s"]
      max_source_length_le [of input s "max_source_length input s"]
    unfolding max_source_length_le [of input s'] by auto
qed

lemma copy_loop_returns:
  assumes "input \<noteq> out"
    and "length (os_sched s) + (max_source_length input s - (if os_sched s = [] then off else 0)) < n"
  shows "copy_loop n input off out c s \<noteq> None"
  using assms(2)
proof (induction n arbitrary: off c s)
  case (Suc n)
  obtain r s1 where rd: "sys_read input off copy_buffer s = (r, s1)" by (cases "sys_read input off copy_buffer s")
  note step = sys_read_step [OF rd]
  have enough: "length (os_sched s2) + (max_source_length input s2 - (if os_sched s2 = [] then off' else 0)) < n"
    if "suffix (os_sched s2) (os_sched s1)" "max_source_length input s2 \<le> max_source_length input s1"
      "os_sched s \<noteq> [] \<or> off < off' \<and> off < max_source_length input s1" for s2 off'
  proof (cases "os_sched s = []")
    case True
    with step that(1) have "os_sched s2 = []" by simp
    with True that(2,3) step Suc.prems show ?thesis by auto
  next
    case False
    then have "length (os_sched s2) < length (os_sched s)"
      using suffix_length_le [OF that(1)] step by (cases "os_sched s") auto
    moreover have "max_source_length input s2 \<le> max_source_length input s" using that(2) step by simp
    ultimately have "length (os_sched s2) + max_source_length input s2 < n"
      using False Suc.prems by simp
    then show ?thesis by (simp split: if_splits)
  qed
  show ?case
  proof (cases r)
    case (Inl e)
    with rd Suc.IH [OF enough [of s1 off]] step show ?thesis by (auto split: if_splits)
  next
    case (Inr chunk)
    obtain ok1 c1 s2 where w: "write_all out chunk c s1 = (ok1, c1, s2)" by (cases "write_all out chunk c s1")
    have t: "touches D (\<lambda>q. q = out) s1 s2" using write_all_frame [of _ out s1 chunk c] w by simp
    have "copy_loop n input (off + length chunk) out c1 s2 \<noteq> None" if "chunk \<noteq> []"
      using that Inr step t max_source_length_touches [OF t assms(1)]
      by (intro Suc.IH enough) (auto simp: touches_def)
    with rd Inr w show ?thesis by (auto split: bool.splits)
  qed
qed simp

text \<open>
  C39: copying one file always ends. The read and write loops of \<^verbatim>\<open>syseba_copy_file_once_posix\<close> stop
  under every sequence of short, interrupted and failing calls and of changes to the source by other
  processes, as long as the output is not the input (which \<^verbatim>\<open>O_EXCL\<close> ensures): the fuel of the model's
  loop is never used up.
\<close>

theorem copy_loop_terminates:
  assumes "input \<noteq> out"
  shows "\<exists>ok c' s'. copy_loop (copy_fuel input s) input 0 out c s = Some (ok, c', s')"
  using copy_loop_returns [OF assms, of s 0 "copy_fuel input s" c] by (auto simp: copy_fuel_def)

theorem copy_loop_terminates_witness:
  "\<exists>ok c' s'. copy_loop (copy_fuel [''a''] quiet_os) [''a''] 0 [''b''] 0 quiet_os = Some (ok, c', s')"
  using copy_loop_terminates [of "[''a'']" "[''b'']" quiet_os 0] by simp

section \<open>Copying through a temporary file\<close>

definition is_copy :: "inode \<Rightarrow> node option \<Rightarrow> bool" where
  "is_copy f n \<longleftrightarrow> (\<exists>g. n = Some (Reg g) \<and> f_data g = f_data f \<and> f_mode g = f_mode f mod 512)"

lemma sync_parent_quiet [frame]: "quiet s (snd (sync_parent_directory p s))"
proof (cases "syseba_parent_dir p SYSEBA_PATH_MAX")
  case (Some parent)
  obtain r s1 where d: "sys_open_dir parent s = (r, s1)" by (cases "sys_open_dir parent s")
  have q1: "quiet s s1" using readers_quiet(10) [of s parent] d by simp
  show ?thesis
  proof (cases r)
    case (Inr loc)
    obtain r2 s2 where y: "sys_fsync loc s1 = (r2, s2)" by (cases "sys_fsync loc s1")
    have "quiet s1 s2" using readers_quiet(6) [of s1 loc] y by simp
    with q1 Some d Inr y show ?thesis
      by (auto simp: sync_parent_directory_def split: sum.splits intro: quiet_trans)
  qed (use Some d q1 in \<open>simp add: sync_parent_directory_def\<close>)
qed (simp add: sync_parent_directory_def)

context reading
begin

lemma reads_is_regular: "R s (snd (syseba_fs_is_regular p s))"
  using reads_calls(1) [of s p] by (auto simp: syseba_fs_is_regular_def split: prod.splits sum.splits)

lemma reads_is_directory: "R s (snd (syseba_fs_is_directory p s))"
  using reads_calls(1) [of s p] by (auto simp: syseba_fs_is_directory_def split: prod.splits sum.splits)

lemma reads_exists: "R s (snd (syseba_fs_exists p s))"
  using reads_calls(1) [of s p] by (auto simp: syseba_fs_exists_def split: prod.splits)

lemma reads_stat: "R s (snd (syseba_fs_stat p s))"
proof -
  obtain r s1 where 1: "sys_lstat p s = (r, s1)" by (cases "sys_lstat p s")
  have "R s s1" using reads_calls(1) [of s p] 1 by simp
  with 1 show ?thesis
    by (auto simp: syseba_fs_stat_def split: sum.splits node.splits intro: R_trans [OF _ R_errno])
qed

end

lemmas is_regular_quiet [frame] = quiet.reads_is_regular
lemmas is_directory_quiet [frame] = quiet.reads_is_directory
lemmas exists_quiet [frame] = quiet.reads_exists
lemmas stat_quiet [frame] = quiet.reads_stat

lemma monotonic_quiet [frame]: "quiet s (snd (syseba_monotonic_ns s))"
  using clock_quiet [of s] by (auto simp: syseba_monotonic_ns_def split: prod.splits option.splits)

lemma copy_once_spec:
  assumes src: "good_path ss" "no_links (os_fs s) ss" "fs_get (os_fs s) ss = Some (Reg f)"
    and cs: "cs = ds @ [d]" and plain: "plain_path cs" and dst: "no_links (os_fs s) cs" and u: "undisturbed s"
    and c: "copy_file_once (path_str ss) (path_str cs) s = (r, s')"
  shows "touches (\<lambda>q. prefix q ds) (\<lambda>q. q = cs) s s' \<and> (r = 0 \<longrightarrow> is_copy f (fs_get (os_fs s') cs))"
proof -
  obtain ok s1 where b: "copy_body (path_str ss) (path_str cs) s = (ok, s1)"
    by (cases "copy_body (path_str ss) (path_str cs) s")
  from copy_body_spec [OF src cs plain dst u b] have t: "touches (\<lambda>q. prefix q ds) (\<lambda>q. q = cs) s s1"
    and ok: "ok \<longrightarrow> is_copy f (fs_get (os_fs s1) cs)" by (auto simp: is_copy_def)
  have "no_links (os_fs s1) cs" by (rule no_links_touches [OF t dst]) simp
  from unlink_keep_touches [OF plain_path_good [OF plain] this] t c b ok cs show ?thesis
    by (auto simp: copy_file_once_def intro: touches_trans split: if_splits bool.splits)
qed

lemma copy_and_replace_spec:
  assumes src: "good_path ss" "no_links (os_fs s) ss" "fs_get (os_fs s) ss = Some (Reg f)"
    and tmp: "plain_path (ds @ [t])" and dst: "plain_path (ds @ [d])" "no_links (os_fs s) (ds @ [d])"
    and ne: "t \<noteq> d" and u: "undisturbed s"
    and c: "copy_and_replace (path_str ss) (path_str (ds @ [t])) (path_str (ds @ [d])) s = (r, s')"
  shows "touches (\<lambda>q. prefix q ds) (\<lambda>q. prefix (ds @ [t]) q \<or> prefix (ds @ [d]) q) s s' \<and>
    (r = 0 \<longrightarrow> is_copy f (fs_get (os_fs s') (ds @ [d]))) \<and>
    (fs_get (os_fs s') (ds @ [d]) = fs_get (os_fs s) (ds @ [d]) \<or>
     is_copy f (fs_get (os_fs s') (ds @ [d])))"
proof -
  let ?T = "ds @ [t]" and ?D = "ds @ [d]"
  let ?P = "\<lambda>q. prefix ?T q \<or> prefix ?D q"
  have nlt: "no_links (os_fs s) ?T" by (rule no_links_snoc [OF dst(2)])
  obtain r1 s1 where once: "copy_file_once (path_str ss) (path_str ?T) s = (r1, s1)"
    by (cases "copy_file_once (path_str ss) (path_str ?T) s")
  from copy_once_spec [OF src refl tmp nlt u once] have
    t1: "touches (\<lambda>q. prefix q ds) (\<lambda>q. q = ?T) s s1" and ok1: "r1 = 0 \<longrightarrow> is_copy f (fs_get (os_fs s1) ?T)" by auto
  have P1: "touches (\<lambda>q. prefix q ds) ?P s s1" by (rule touches_mono [OF t1]) simp
  have D1: "fs_get (os_fs s1) ?D = fs_get (os_fs s) ?D" using touches_above [OF t1] ne by simp
  show ?thesis
  proof (cases "r1 = 0")
    case False
    with c once P1 D1 show ?thesis by (auto simp: copy_and_replace_def)
  next
    case True
    have nl1: "no_links (os_fs s1) ?T" "no_links (os_fs s1) ?D"
      by (rule no_links_touches [OF t1 nlt], simp, rule no_links_touches [OF t1 dst(2)], simp)
    obtain r2 s2 where mv: "sys_rename (path_str ?T) (path_str ?D) s1 = (r2, s2)"
      by (cases "sys_rename (path_str ?T) (path_str ?D) s1")
    from rename_moves [OF plain_path_good [OF tmp] plain_path_good [OF dst(1)] nl1 _ mv] ne have
      P2: "touches (\<lambda>q. prefix q ds) ?P s1 s2" and ok2: "r2 = Inr () \<longrightarrow> fs_get (os_fs s2) ?D = fs_get (os_fs s1) ?T"
      and same: "r2 \<noteq> Inr () \<longrightarrow> os_fs s2 = os_fs s1" by auto
    obtain r3 s3 where sy: "sync_parent_directory (path_str ?D) s2 = (r3, s3)"
      by (cases "sync_parent_directory (path_str ?D) s2")
    have q3: "quiet s2 s3" using sync_parent_quiet [of s2 "path_str ?D"] sy by simp
    have "(r, s') = (if r2 = Inr () then (r3, s3) else (- 1, s2))"
      using c once True mv sy
      by (cases r2) (auto simp: copy_and_replace_def syseba_atomic_replace_def)
    moreover have "touches (\<lambda>q. prefix q ds) ?P s s2" using touches_trans [OF P1 P2] .
    moreover have "touches (\<lambda>q. prefix q ds) ?P s s3" using touches_trans [OF \<open>touches (\<lambda>q. prefix q ds) ?P s s2\<close> touches_quiet [OF q3]] .
    ultimately show ?thesis
      using ok1 ok2 same D1 True quiet_fs [OF q3] by (auto split: if_splits)
  qed
qed

section \<open>Copying with retries\<close>

text \<open>The locations a copy to \<open>ds @ [d]\<close> may write: the destination, its temporary names, and below.\<close>

definition copy_area :: "cpath \<Rightarrow> string \<Rightarrow> cpath \<Rightarrow> bool" where
  "copy_area ds d q \<longleftrightarrow> prefix (ds @ [d]) q \<or> (\<exists>x. prefix (ds @ [d @ ''.syseba-tmp.'' @ x]) q)"

lemma copy_area_length: "copy_area ds d q \<Longrightarrow> length ds < length q"
  by (auto simp: copy_area_def dest: prefix_length_le)

lemma copy_area_up: "copy_area ds d p \<Longrightarrow> prefix p q \<Longrightarrow> copy_area ds d q"
  unfolding copy_area_def by (meson prefix_order.trans)

lemma no_links_avoid:
  assumes "touches D P s s'" and "no_links (os_fs s) cs" and "\<And>i. \<not> P (take i cs)"
  shows "no_links (os_fs s') cs"
  using assms unfolding no_links_def touches_def by (metis node.distinct(7) option.inject)

lemma temp_component:
  assumes "plain_path (ds @ [d])"
  shows "\<exists>x. temporary_name (path_str (ds @ [d])) pid ns a = path_str (ds @ [d @ ''.syseba-tmp.'' @ x]) \<and>
    plain_path (ds @ [d @ ''.syseba-tmp.'' @ x])"
proof (intro exI conjI)
  let ?x = "dec pid @ ''.'' @ dec (unat ns) @ ''.'' @ dec a"
  show "temporary_name (path_str (ds @ [d])) pid ns a = path_str (ds @ [d @ ''.syseba-tmp.'' @ ?x])"
    by (simp add: temporary_name_def path_str_def)
  have dg: "slash \<notin> set (dec n)" "backslash \<notin> set (dec n)" for n
    using dec_digits [of n] by (auto simp: c_isdigit_def uchar_def backslash_def)
  have "good_comp (d @ ''.syseba-tmp.'' @ ?x)"
    using assms dg by (auto simp: plain_path_def good_comp_def Cons_eq_append_conv append_eq_Cons_conv)
  then show "plain_path (ds @ [d @ ''.syseba-tmp.'' @ ?x])"
    using assms dg by (auto simp: plain_path_def) (auto simp: backslash_def)
qed

text \<open>One attempt: the copy to a temporary name, and the temporary file removed again when the attempt fails.\<close>

lemma copy_attempt_spec:
  fixes ds d x
  defines "D \<equiv> ds @ [d]" and "T \<equiv> ds @ [d @ ''.syseba-tmp.'' @ x]"
  assumes src: "good_path ss" "no_links (os_fs s) ss" "fs_get (os_fs s) ss = Some (Reg f)"
    and dst: "plain_path D" "no_links (os_fs s) D" "plain_path T" and u: "undisturbed s" and q: "quiet s s2"
    and c: "copy_and_replace (path_str ss) (path_str T) (path_str D) s2 = (r3, s3)"
  shows "touches (\<lambda>q. prefix q ds) (copy_area ds d) s s3" "r3 = 0 \<longrightarrow> is_copy f (fs_get (os_fs s3) D)"
    "fs_get (os_fs s3) D = fs_get (os_fs s) D \<or> is_copy f (fs_get (os_fs s3) D)"
    "touches (\<lambda>q. prefix q ds) (copy_area ds d) s (unlink_keep_errno (path_str T) s3)"
    "fs_get (os_fs (unlink_keep_errno (path_str T) s3)) D = fs_get (os_fs s3) D"
proof -
  have fs2: "os_fs s2 = os_fs s" using quiet_fs [OF q] by simp
  have u2: "undisturbed s2" by (rule touches_undisturbed [OF touches_quiet [OF q] u])
  from copy_and_replace_spec [OF _ _ _ dst(3) [unfolded T_def] dst(1) [unfolded D_def] _ _ u2 c [unfolded T_def D_def], of f] src dst(2) fs2
  have t3: "touches (\<lambda>q. prefix q ds) (\<lambda>q. prefix T q \<or> prefix D q) s2 s3"
    and "r3 = 0 \<longrightarrow> is_copy f (fs_get (os_fs s3) D)"
    and "fs_get (os_fs s3) D = fs_get (os_fs s) D \<or> is_copy f (fs_get (os_fs s3) D)" unfolding D_def T_def by auto
  then show "r3 = 0 \<longrightarrow> is_copy f (fs_get (os_fs s3) D)"
    "fs_get (os_fs s3) D = fs_get (os_fs s) D \<or> is_copy f (fs_get (os_fs s3) D)" by simp_all
  show T3: "touches (\<lambda>q. prefix q ds) (copy_area ds d) s s3"
    by (rule touches_trans [OF touches_quiet [OF q] touches_mono [OF t3]]) (auto simp: copy_area_def D_def T_def)
  have "no_links (os_fs s3) T" unfolding T_def
    by (rule no_links_touches [OF T3 no_links_snoc [OF dst(2) [unfolded D_def]]]) (auto dest: copy_area_length)
  then have t4: "touches (\<lambda>q. prefix q ds) (\<lambda>q. q = T) s3 (unlink_keep_errno (path_str T) s3)"
    using unlink_keep_touches [OF plain_path_good [OF dst(3)]] unfolding T_def by simp
  show "touches (\<lambda>q. prefix q ds) (copy_area ds d) s (unlink_keep_errno (path_str T) s3)"
    by (rule touches_trans [OF T3 touches_mono [OF t4]]) (auto simp: copy_area_def T_def)
  show "fs_get (os_fs (unlink_keep_errno (path_str T) s3)) D = fs_get (os_fs s3) D"
    unfolding D_def by (rule touches_above [OF t4]) (simp add: T_def)
qed

lemma copy_attempts_spec:
  assumes src: "good_path ss" "no_links (os_fs s) ss" "fs_get (os_fs s) ss = Some (Reg f)"
    and area: "\<not> copy_area ds d ss"
    and dst: "plain_path (ds @ [d])" "no_links (os_fs s) (ds @ [d])" and u: "undisturbed s"
    and c: "copy_attempts n a (path_str ss) (path_str (ds @ [d])) s = (r, s')"
  shows "touches (\<lambda>q. prefix q ds) (copy_area ds d) s s' \<and>
    (r = 0 \<longrightarrow> is_copy f (fs_get (os_fs s') (ds @ [d]))) \<and>
    (fs_get (os_fs s') (ds @ [d]) = fs_get (os_fs s) (ds @ [d]) \<or>
     is_copy f (fs_get (os_fs s') (ds @ [d])))"
  using src dst(2) u c
proof (induction n arbitrary: a s)
  case 0
  then show ?case by simp
next
  case (Suc n)
  let ?D = "ds @ [d]" and ?touch = "touches (\<lambda>q. prefix q ds) (copy_area ds d)"
  obtain ns s1 where m: "syseba_monotonic_ns s = (ns, s1)" by (cases "syseba_monotonic_ns s")
  obtain reg s2 where g: "syseba_fs_is_regular (path_str ss) s1 = (reg, s2)"
    by (cases "syseba_fs_is_regular (path_str ss) s1")
  have q2: "quiet s s2"
    using quiet_trans [of s s1 s2] monotonic_quiet [of s] is_regular_quiet [of s1 "path_str ss"] m g by simp
  have q1: "quiet s s1" using monotonic_quiet [of s] m by simp
  obtain x where x: "temporary_name (path_str ?D) (os_pid s1) ns a = path_str (ds @ [d @ ''.syseba-tmp.'' @ x])"
    and plain: "plain_path (ds @ [d @ ''.syseba-tmp.'' @ x])"
    using temp_component [OF dst(1)] by blast
  let ?T = "ds @ [d @ ''.syseba-tmp.'' @ x]"
  obtain r3 s3 where cr: "copy_and_replace (path_str ss) (path_str ?T) (path_str ?D) s2 = (r3, s3)"
    by (cases "copy_and_replace (path_str ss) (path_str ?T) (path_str ?D) s2")
  let ?s4 = "unlink_keep_errno (path_str ?T) s3"
  note attempt = copy_attempt_spec [OF Suc.prems(1-3) dst(1) Suc.prems(4) plain Suc.prems(5) q2 cr]
  note T3 = attempt(1) and r3 = attempt(2) and d3 = attempt(3) and T4 = attempt(4) and d4 = attempt(5)
  have avoid: "\<not> copy_area ds d (take i ss)" for i
    using area copy_area_up [OF _ take_is_prefix] by blast
  have nl4: "no_links (os_fs ?s4) ss" by (rule no_links_avoid [OF T4 Suc.prems(2) avoid])
  have nlD: "no_links (os_fs ?s4) ?D"
    by (rule no_links_touches [OF T4 Suc.prems(4)]) (simp add: Suc_le_eq copy_area_length)
  have f4: "fs_get (os_fs ?s4) ss = Some (Reg f)" by (rule touches_kept [OF T4 area Suc.prems(3)])
  note IH = Suc.IH [OF Suc.prems(1) nl4 f4 nlD touches_undisturbed [OF T4 Suc.prems(5)]]
  show ?case
  proof (cases "fits SYSEBA_PATH_MAX (path_str ?T) \<and> reg \<and> r3 \<noteq> 0")
    case True
    with Suc.prems(6) m g x cr have "copy_attempts n (a + 1) (path_str ss) (path_str ?D) ?s4 = (r, s')"
      by (simp add: Let_def)
    from IH [OF this] d4 d3 touches_trans [OF T4] show ?thesis by auto
  next
    case False
    with Suc.prems(6) m g x cr have "(r, s') = (0, s3) \<and> r3 = 0 \<or>
        r = - 1 \<and> (s' = set_errno ENAMETOOLONG s1 \<or> s' = set_errno ENOENT s2)"
      by (auto simp: Let_def split: if_splits)
    with T3 r3 d3 touches_quiet [OF q1] touches_quiet [OF q2] quiet_fs [OF q2] quiet_fs [OF q1] show ?thesis by auto
  qed
qed

lemma copy_file_spec:
  assumes "good_path ss" "no_links (os_fs s) ss" "fs_get (os_fs s) ss = Some (Reg f)"
    and "\<not> copy_area ds d ss"
    and "plain_path (ds @ [d])" "no_links (os_fs s) (ds @ [d])" and "undisturbed s"
    and "syseba_copy_file (path_str ss) (path_str (ds @ [d])) attempts s = (r, s')"
  shows "touches (\<lambda>q. prefix q ds) (copy_area ds d) s s' \<and>
    (r = 0 \<longrightarrow> is_copy f (fs_get (os_fs s') (ds @ [d]))) \<and>
    (fs_get (os_fs s') (ds @ [d]) = fs_get (os_fs s) (ds @ [d]) \<or>
     is_copy f (fs_get (os_fs s') (ds @ [d])))"
proof -
  let ?D = "ds @ [d]"
  obtain r1 s1 where p: "prepare_destination (path_str ?D) s = (r1, s1)"
    by (cases "prepare_destination (path_str ?D) s")
  have t1: "touches (\<lambda>q. prefix q ds) (\<lambda>q. False) s s1"
    using prepare_touches [OF assms(5,6)] p by simp
  have T1: "touches (\<lambda>q. prefix q ds) (copy_area ds d) s s1" by (rule touches_mono [OF t1]) simp
  have d1: "fs_get (os_fs s1) ?D = fs_get (os_fs s) ?D" by (rule touches_above [OF t1]) simp
  show ?thesis
  proof (cases "r1 = 0")
    case False
    with assms(8) p T1 d1 show ?thesis by (simp add: syseba_copy_file_def)
  next
    case True
    with assms(8) p have "copy_attempts (if attempts = 0 then 1 else attempts) 0 (path_str ss) (path_str ?D) s1 = (r, s')"
      by (simp add: syseba_copy_file_def)
    from copy_attempts_spec [OF assms(1) no_links_dirs [OF t1 assms(2)] touches_kept [OF t1 _ assms(3)]
        assms(4,5) no_links_dirs [OF t1 assms(6)] touches_undisturbed [OF t1 assms(7)] this]
    show ?thesis using T1 d1 by (auto intro: touches_trans)
  qed
qed


section \<open>An undisturbed copy succeeds\<close>

lemma write_all_calm:
  assumes "os_sched s = []" and "fd_file out s = Some g"
  shows "fst (write_all out bytes c s) \<and> fst (snd (write_all out bytes c s)) = c + of_nat (length bytes)"
proof (cases "bytes = []")
  case True
  then show ?thesis by (simp add: write_all.simps)
next
  case False
  have "sys_write out bytes s =
      (Inr (length bytes), set_fs (fs_put out (Reg (g\<lparr>f_data := f_data g @ bytes\<rparr>)) (os_fs s)) s)"
    using assms by (simp add: sys_write_def syscall_calm write_count_def fd_update_def)
  with False show ?thesis by (simp add: write_all.simps [of out bytes] write_all.simps [of out "[]"])
qed

lemma sys_read_calm:
  "os_sched s = [] \<Longrightarrow> fd_file input s = Some f \<Longrightarrow>
     sys_read input off n s = (Inr (take n (drop off (f_data f))), s)"
  by (simp add: sys_read_def syscall_calm apply_change_def read_count_def)

lemma copy_loop_calm:
  assumes "input \<noteq> out" "os_sched s = []" "fd_file input s = Some f" "fd_file out s = Some g"
    and "off \<le> length (f_data f)" and "length (f_data f) - off < n"
  shows "\<exists>s'. copy_loop n input off out (of_nat off) s = Some (True, of_nat (length (f_data f)), s')"
  using assms(2-6)
proof (induction n arbitrary: off s g)
  case (Suc n)
  let ?chunk = "take copy_buffer (drop off (f_data f))"
  have rd: "sys_read input off copy_buffer s = (Inr ?chunk, s)" by (rule sys_read_calm [OF Suc.prems(1,2)])
  show ?case
  proof (cases "?chunk = []")
    case True
    then have "off = length (f_data f)" using Suc.prems(4) by (auto simp: copy_buffer_def)
    with True rd show ?thesis by simp
  next
    case False
    obtain ok c1 s2 where w: "write_all out ?chunk (of_nat off) s = (ok, c1, s2)"
      by (cases "write_all out ?chunk (of_nat off) s")
    have ok: "ok" "c1 = of_nat (off + length ?chunk)"
      using write_all_calm [OF Suc.prems(1,3), of ?chunk "of_nat off"] w by simp_all
    from write_all_data [OF Suc.prems(3) w, of "\<lambda>_. False"] obtain g2 where
      t: "touches (\<lambda>_. False) (\<lambda>q. q = out) s s2" and g2: "fd_file out s2 = Some g2" by blast
    have "os_sched s2 = []" using t Suc.prems(1) by (simp add: touches_def)
    moreover have "fd_file input s2 = Some f" by (rule fd_file_touches [OF t assms(1) Suc.prems(2)])
    moreover have "0 < length ?chunk" using False by blast
    ultimately have "\<exists>s'. copy_loop n input (off + length ?chunk) out (of_nat (off + length ?chunk)) s2
        = Some (True, of_nat (length (f_data f)), s')"
      using g2 Suc.prems(4,5) by (intro Suc.IH) auto
    with rd False w ok show ?thesis by simp
  qed
qed simp

lemma copy_finish_calm:
  assumes "input \<noteq> out" "os_sched s = []" "fd_file input s = Some f" "fd_file out s = Some g"
  shows "\<exists>s'. copy_finish f input out (of_nat (length (f_data f))) s = (True, s') \<and>
    fd_file out s' = Some (g\<lparr>f_atime := f_atime f, f_mtime := f_mtime f, f_mode := f_mode f mod 512\<rparr>)"
proof -
  let ?g1 = "g\<lparr>f_atime := f_atime f, f_mtime := f_mtime f\<rparr>"
  have out: "out \<noteq> []" by (rule fd_file_nonroot [OF assms(4)])
  have st: "sys_fstat input s = (Inr (Reg f), s)"
    using assms(2,3) by (simp add: sys_fstat_def query_calm fd_file_get)
  define s1 where "s1 = set_fs (fs_put out (Reg ?g1) (os_fs s)) s"
  have ut: "sys_futimens out (f_atime f) (f_mtime f) s = (Inr (), s1)"
    using assms(2,4) by (simp add: sys_futimens_def syscall_calm fd_update_def s1_def)
  have "fd_file out s1 = Some ?g1" "os_sched s1 = []"
    using out assms(2) by (simp_all add: s1_def fd_file_get)
  then have cm: "sys_fchmod out (f_mode f mod 512) s1 =
      (Inr (), set_fs (fs_put out (Reg (?g1\<lparr>f_mode := f_mode f mod 512\<rparr>)) (os_fs s1)) s1)"
    by (simp add: sys_fchmod_def syscall_calm fd_update_def)
  show ?thesis
    using st ut cm out assms(2)
    by (simp add: copy_finish_def same_inode_def Let_def sys_fsync_def query_calm s1_def fd_file_get)
qed

lemma dir_chain_kept:
  assumes "touches D P s s'" and "dir_chain (os_fs s) cs" and "\<And>i. i < length cs \<Longrightarrow> \<not> P (take i cs)"
  shows "dir_chain (os_fs s') cs"
  unfolding dir_chain_def using assms touches_kept by (metis dir_chain_def)

lemma dir_chain_no_links: "dir_chain t cs \<Longrightarrow> no_links t cs"
  by (auto simp: dir_chain_def no_links_def)

lemma prepare_calm:
  assumes "os_sched s = []" "plain_path (ds @ [d])" "length (path_str (ds @ [d])) \<le> SYSEBA_PATH_MAX"
    and "\<forall>i \<le> length ds. fs_get (os_fs s) (take i ds) = None \<or> fs_get (os_fs s) (take i ds) = Some Dir"
  shows "\<exists>s'. prepare_destination (path_str (ds @ [d])) s = (0, s') \<and> os_sched s' = [] \<and>
    dir_chain (os_fs s') (ds @ [d])"
proof -
  have par: "syseba_parent_dir (path_str (ds @ [d])) SYSEBA_PATH_MAX = Some (path_str ds)"
    using parent_dir_path_str [OF plain_path_good [OF assms(2)] assms(3)] .
  show ?thesis
  proof (cases "ds = []")
    case True
    have "sys_mkdir [slash] s = (Inl EEXIST, set_errno EEXIST s)"
      using assms(1) by (simp add: sys_mkdir_def syscall_calm strip_slashes_def locate_def)
    with True par assms(1) show ?thesis
      by (simp add: prepare_destination_def syseba_mkdirs_def fits_def syseba_limits
          normalize_separators_def strip_slashes_def mkdir_prefixes_def backslash_def dir_chain_def)
  next
    case False
    have g: "good_path ds" and b: "\<forall>c \<in> set ds. backslash \<notin> set c"
      using assms(2) by (auto simp: plain_path_def)
    have "strip_slashes (normalize_separators (path_str ds)) = path_str ds"
      using last_path_str [of ds] g False
      by (simp add: normalize_id [OF path_str_no_backslash [OF b]] strip_slashes_id good_path_def)
    moreover have "fits SYSEBA_PATH_MAX (path_str ds)"
      using assms(3) False by (simp add: fits_def path_str_snoc)
    moreover from mkdir_each_creates [OF assms(1) g False assms(4)] obtain s' where
      "mkdir_each (mkdir_prefixes (path_str ds)) s = (0, s')" "os_sched s' = []"
      "\<forall>i \<le> length ds. fs_get (os_fs s') (take i ds) = Some Dir" by blast
    moreover from this(3) have "dir_chain (os_fs s') (ds @ [d])"
      by (auto simp: dir_chain_def less_Suc_eq_le)
    ultimately show ?thesis using par by (simp add: prepare_destination_def syseba_mkdirs_def)
  qed
qed

definition full_copy :: "inode \<Rightarrow> node option \<Rightarrow> bool" where
  "full_copy f n \<longleftrightarrow> (\<exists>g. n = Some (Reg g) \<and> f_data g = f_data f \<and> f_mode g = f_mode f mod 512 \<and>
     f_mtime g = f_mtime f)"

lemma lookup_chain:
  "good_path cs \<Longrightarrow> dir_chain (os_fs s) cs \<Longrightarrow> fs_get (os_fs s) cs = Some n \<Longrightarrow>
     lookup_node False (path_str cs) s = Inr (cs, n)"
  by (simp add: lookup_node_def locate_path_str)

lemma copy_once_calm:
  assumes calm: "os_sched s = []"
    and src: "good_path ss" "dir_chain (os_fs s) ss" "fs_get (os_fs s) ss = Some (Reg f)"
    and tmp: "plain_path (ds @ [t])" "dir_chain (os_fs s) (ds @ [t])" "fs_get (os_fs s) (ds @ [t]) = None"
      "length (path_str (ds @ [t])) \<le> SYSEBA_PATH_MAX"
  shows "\<exists>s'. copy_file_once (path_str ss) (path_str (ds @ [t])) s = (0, s') \<and> os_sched s' = [] \<and>
    full_copy f (fs_get (os_fs s') (ds @ [t]))"
proof -
  let ?T = "ds @ [t]"
  have op: "sys_open_read (path_str ss) s = (Inr ss, s)"
    using calm lookup_chain [OF src] by (simp add: sys_open_read_def query_calm)
  have st: "sys_fstat ss s = (Inr (Reg f), s)" using calm src(3) by (simp add: sys_fstat_def query_calm)
  have nl: "no_links (os_fs s) ?T" by (rule dir_chain_no_links [OF tmp(2)])
  have "fs_get (os_fs s) (take i ds) = Some Dir" if "i \<le> length ds" for i
    using tmp(2) that unfolding dir_chain_def by (auto dest: spec [of _ i])
  with prepare_calm [OF calm tmp(1,4)] obtain s3 where
    pr: "prepare_destination (path_str ?T) s = (0, s3)" and s3: "os_sched s3 = []" "dir_chain (os_fs s3) ?T"
    by blast
  have t3: "touches (\<lambda>q. prefix q ds) (\<lambda>q. False) s s3" using prepare_touches [OF tmp(1) nl] pr by simp
  have T3: "fs_get (os_fs s3) ?T = None" using touches_above [OF t3, of t] tmp(3) by simp
  have f3: "fs_get (os_fs s3) ss = Some (Reg f)" by (rule touches_kept [OF t3 _ src(3)]) simp
  have loc: "locate False (path_str ?T) s3 = Inr ?T"
    using locate_path_str [OF plain_path_good [OF tmp(1)] s3(2), of False] by simp
  obtain s4 where ex: "sys_open_excl (path_str ?T) (f_mode f mod 512) s3 = (Inr ?T, s4)" and s4: "os_sched s4 = []"
    using loc T3 s3(1) by (simp add: sys_open_excl_def syscall_calm)
  from open_excl_opened [OF plain_path_good [OF tmp(1)] dir_chain_no_links [OF s3(2)] ex] obtain g where
    g: "fd_file ?T s4 = Some g" "f_data g = []" by (auto simp: fd_file_get)
  have ne: "ss \<noteq> ?T" using f3 T3 by auto
  have t4: "touches (\<lambda>_. False) (\<lambda>q. q = ?T) s3 s4"
    using open_excl_touches [OF plain_path_good [OF tmp(1)] dir_chain_no_links [OF s3(2)], of _ "f_mode f mod 512"] ex
    by simp
  have in4: "fd_file ss s4 = Some f" using fd_file_touches [OF t4 ne] f3 by (simp add: fd_file_get)
  from copy_loop_calm [OF ne s4 in4 g(1), of 0 "copy_fuel ss s4"] obtain s5 where
    lp: "copy_loop (copy_fuel ss s4) ss 0 ?T 0 s4 = Some (True, of_nat (length (f_data f)), s5)"
    using in4 by (auto simp: copy_fuel_def max_source_length_def s4)
  have u4: "undisturbed s4" using s4 by (simp add: undisturbed_def)
  from copy_loop_data [OF ne u4 in4 g(1) _ lp, of "\<lambda>_. False"] g(2) obtain g5 where
    t5: "touches (\<lambda>_. False) (\<lambda>q. q = ?T) s4 s5" and g5: "fd_file ?T s5 = Some g5" "f_data g5 = f_data f" by auto
  have s5: "os_sched s5 = []" using t5 s4 by (simp add: touches_def)
  from copy_finish_calm [OF ne s5 fd_file_touches [OF t5 ne in4] g5(1)] obtain s6 where
    fin: "copy_finish f ss ?T (of_nat (length (f_data f))) s5 = (True, s6)"
    and g6: "fd_file ?T s6 = Some (g5\<lparr>f_atime := f_atime f, f_mtime := f_mtime f, f_mode := f_mode f mod 512\<rparr>)"
    by blast
  have "os_sched s6 = []" using copy_finish_spec [OF g5(1) fin, of "\<lambda>_. False"] s5 by (simp add: touches_def)
  with op st pr ex lp fin g6 g5(2) show ?thesis
    by (simp add: copy_file_once_def copy_body_def full_copy_def fd_file_get)
qed

lemma rename_calm:
  assumes "os_sched s = []" "good_path a" "good_path b" "dir_chain (os_fs s) a" "dir_chain (os_fs s) b"
    and "fs_get (os_fs s) a = Some (Reg g)" "fs_get (os_fs s) b \<noteq> Some Dir" "a \<noteq> b" "\<not> strict_prefix a b"
  shows "sys_rename (path_str a) (path_str b) s = (Inr (), set_fs (fs_move a b (os_fs s)) s) \<and> a \<noteq> [] \<and> b \<noteq> []"
proof -
  have ne: "a \<noteq> []" "b \<noteq> []" using assms(6,7) by auto
  have "rename_check (os_fs s) (a, Reg g) b = None"
    using assms(7,9) ne by (auto simp: rename_check_def split: option.splits node.splits)
  moreover have "lookup_node False (path_str a) s = Inr (a, Reg g)" by (rule lookup_chain [OF assms(2,4,6)])
  moreover have "locate False (path_str b) s = Inr b" using locate_path_str [OF assms(3,5), of False] by simp
  ultimately show ?thesis using assms(1,8) ne by (simp add: sys_rename_def syscall_calm)
qed

lemma sync_parent_calm:
  assumes "os_sched s = []" "good_path (ds @ [d])" "dir_chain (os_fs s) (ds @ [d])"
    and "length (path_str (ds @ [d])) \<le> SYSEBA_PATH_MAX"
  shows "fst (sync_parent_directory (path_str (ds @ [d])) s) = 0"
proof -
  have ds: "dir_chain (os_fs s) ds" "fs_get (os_fs s) ds = Some Dir"
    using assms(3) by (auto simp: dir_chain_snoc)
  have "lookup_node True (path_str ds) s = Inr (ds, Dir)"
    using locate_path_str [OF _ ds(1), of True] assms(2) ds(2) by (simp add: lookup_node_def)
  then have "sys_open_dir (path_str ds) s = (Inr ds, s)" using assms(1) by (simp add: sys_open_dir_def query_calm)
  with parent_dir_path_str [OF assms(2,4)] assms(1) show ?thesis
    by (simp add: sync_parent_directory_def sys_fsync_def query_calm)
qed

lemma not_prefix_take: "\<not> prefix (ds @ [d]) (take i ds)"
  by (auto dest!: prefix_length_le)

lemma copy_and_replace_calm:
  assumes calm: "os_sched s = []"
    and src: "good_path ss" "dir_chain (os_fs s) ss" "fs_get (os_fs s) ss = Some (Reg f)"
    and tmp: "plain_path (ds @ [t])" "fs_get (os_fs s) (ds @ [t]) = None"
      "length (path_str (ds @ [t])) \<le> SYSEBA_PATH_MAX"
    and dst: "plain_path (ds @ [d])" "dir_chain (os_fs s) (ds @ [d])" "fs_get (os_fs s) (ds @ [d]) \<noteq> Some Dir"
      "length (path_str (ds @ [d])) \<le> SYSEBA_PATH_MAX" and ne: "t \<noteq> d"
  shows "\<exists>s'. copy_and_replace (path_str ss) (path_str (ds @ [t])) (path_str (ds @ [d])) s = (0, s') \<and>
    full_copy f (fs_get (os_fs s') (ds @ [d]))"
proof -
  let ?T = "ds @ [t]" and ?D = "ds @ [d]"
  have dcT: "dir_chain (os_fs s) ?T" using dst(2) by (simp add: dir_chain_snoc)
  have u: "undisturbed s" using calm by (simp add: undisturbed_def)
  from copy_once_calm [OF calm src tmp(1) dcT tmp(2,3)] obtain s1 where
    once: "copy_file_once (path_str ss) (path_str ?T) s = (0, s1)" and s1: "os_sched s1 = []"
    and full: "full_copy f (fs_get (os_fs s1) ?T)" by blast
  have t1: "touches (\<lambda>q. prefix q ds) (\<lambda>q. q = ?T) s s1"
    using copy_once_spec [OF src(1) dir_chain_no_links [OF src(2)] src(3) refl tmp(1) dir_chain_no_links [OF dcT] u once]
    by simp
  have take_ne: "take i ?D \<noteq> ?T" "take i ?T \<noteq> ?T" if "i < length ?D" for i
    using that by (auto dest!: arg_cong [of _ _ length])
  have dc1: "dir_chain (os_fs s1) ?D" "dir_chain (os_fs s1) ?T"
    by (rule dir_chain_kept [OF t1 dst(2)], use take_ne in simp)
       (rule dir_chain_kept [OF t1 dcT], use take_ne in simp)
  have D1: "fs_get (os_fs s1) ?D \<noteq> Some Dir" using touches_above [OF t1, of d] ne dst(3) by simp
  obtain g where g: "fs_get (os_fs s1) ?T = Some (Reg g)" using full by (auto simp: full_copy_def)
  have nsp: "\<not> strict_prefix ?T ?D" by (auto simp: strict_prefix_def dest: prefix_length_le)
  let ?s2 = "set_fs (fs_move ?T ?D (os_fs s1)) s1"
  have mv: "sys_rename (path_str ?T) (path_str ?D) s1 = (Inr (), ?s2)"
    using rename_calm [OF s1 plain_path_good [OF tmp(1)] plain_path_good [OF dst(1)] dc1(2,1) g D1 _ nsp] ne by simp
  have D2: "fs_get (os_fs ?s2) ?D = fs_get (os_fs s1) ?T" by (simp add: fs_get_move)
  have "dir_chain (os_fs ?s2) ?D"
    using dc1(1) unfolding dir_chain_def
    by (auto simp: fs_get_move less_Suc_eq_le not_prefix_take)
  then have sy: "fst (sync_parent_directory (path_str ?D) ?s2) = 0"
    using sync_parent_calm [of ?s2 ds d] s1 plain_path_good [OF dst(1)] dst(4) by simp
  obtain s3 where s3: "sync_parent_directory (path_str ?D) ?s2 = (0, s3)"
    using sy by (cases "sync_parent_directory (path_str ?D) ?s2") auto
  have "os_fs s3 = os_fs ?s2" using sync_parent_quiet [of ?s2 "path_str ?D"] s3 quiet_fs by fastforce
  with once mv s3 D2 full show ?thesis
    by (simp add: copy_and_replace_def syseba_atomic_replace_def)
qed

lemma copy_file_calm:
  assumes "os_sched s = []"
    and "good_path ss" "dir_chain (os_fs s) ss" "fs_get (os_fs s) ss = Some (Reg f)"
    and "plain_path (ds @ [d])" "fs_get (os_fs s) (ds @ [d]) \<noteq> Some Dir"
    and "\<forall>i \<le> length ds. fs_get (os_fs s) (take i ds) = None \<or> fs_get (os_fs s) (take i ds) = Some Dir"
    and "\<forall>x. fs_get (os_fs s) (ds @ [d @ ''.syseba-tmp.'' @ x]) = None"
    and "\<forall>ns. fits SYSEBA_PATH_MAX (temporary_name (path_str (ds @ [d])) (os_pid s) ns 0)"
  shows "\<exists>s'. syseba_copy_file (path_str ss) (path_str (ds @ [d])) attempts s = (0, s') \<and>
    full_copy f (fs_get (os_fs s') (ds @ [d]))"
proof -
  let ?D = "ds @ [d]"
  have len: "length (path_str ?D) \<le> SYSEBA_PATH_MAX"
    using assms(9) by (auto simp: fits_def temporary_name_def dest: spec [of _ 0])
  from prepare_calm [OF assms(1,5) len assms(7)] obtain s1 where
    pr: "prepare_destination (path_str ?D) s = (0, s1)" and s1: "os_sched s1 = []" "dir_chain (os_fs s1) ?D" by blast
  have nl: "no_links (os_fs s) ?D"
    using assms(7) unfolding no_links_def by (auto simp: less_Suc_eq_le)
  have t1: "touches (\<lambda>q. prefix q ds) (\<lambda>q. False) s s1" using prepare_touches [OF assms(5) nl] pr by simp
  obtain ns s2 where m: "syseba_monotonic_ns s1 = (ns, s2)" by (cases "syseba_monotonic_ns s1")
  have q: "quiet s1 s2" using monotonic_quiet [of s1] m by simp
  have pid: "os_pid s2 = os_pid s" using quiet_env [OF q] t1 by (simp add: touches_def)
  have fs2: "os_fs s2 = os_fs s1" "os_sched s2 = []" using quiet_fs [OF q] quiet_sched [OF q s1(1)] by auto
  obtain x where x: "temporary_name (path_str ?D) (os_pid s) ns 0 = path_str (ds @ [d @ ''.syseba-tmp.'' @ x])"
    and plain: "plain_path (ds @ [d @ ''.syseba-tmp.'' @ x])" using temp_component [OF assms(5)] by blast
  have f2: "fs_get (os_fs s2) ss = Some (Reg f)" using touches_kept [OF t1 _ assms(4)] fs2 by simp
  have dc2: "dir_chain (os_fs s2) ss" using dir_chain_kept [OF t1 assms(3)] fs2 by simp
  have reg: "syseba_fs_is_regular (path_str ss) s2 = (True, s2)"
    using fs2 lookup_chain [OF assms(2) dc2 f2]
    by (simp add: syseba_fs_is_regular_def sys_lstat_def query_calm)
  have fit: "fits SYSEBA_PATH_MAX (path_str (ds @ [d @ ''.syseba-tmp.'' @ x]))" using assms(9) x by metis
  have "\<exists>s'. copy_and_replace (path_str ss) (path_str (ds @ [d @ ''.syseba-tmp.'' @ x])) (path_str ?D) s2 = (0, s') \<and>
      full_copy f (fs_get (os_fs s') ?D)"
    using fs2 s1(2) touches_above [OF t1] assms(6,8) fit len
    by (intro copy_and_replace_calm [OF fs2(2) assms(2) dc2 f2 plain _ _ assms(5)]) (auto simp: fits_def)
  then obtain s' where "copy_and_replace (path_str ss) (path_str (ds @ [d @ ''.syseba-tmp.'' @ x])) (path_str ?D) s2 = (0, s')"
    "full_copy f (fs_get (os_fs s') ?D)" by blast
  moreover obtain n where "(if attempts = 0 then 1 else attempts) = Suc n"
    by (cases attempts) auto
  ultimately show ?thesis
    using pr m pid x fit reg by (simp add: syseba_copy_file_def)
qed

text \<open>
  C27: when no call fails, the copy happens. For a regular source and a destination whose parents
  are missing or directories, that is not itself a directory and whose temporary names are free and
  fit the path buffer, \<^verbatim>\<open>syseba_copy_file\<close> returns 0 at the first attempt and the destination is a
  regular file with the data, the permission bits and the modification time of the source.
\<close>

theorem copy_file_succeeds:
  assumes "os_sched s = []"
    and "good_path ss" "dir_chain (os_fs s) ss" "fs_get (os_fs s) ss = Some (Reg f)"
    and "plain_path (ds @ [d])" "fs_get (os_fs s) (ds @ [d]) \<noteq> Some Dir"
    and "\<forall>i \<le> length ds. fs_get (os_fs s) (take i ds) = None \<or> fs_get (os_fs s) (take i ds) = Some Dir"
    and "\<forall>x. fs_get (os_fs s) (ds @ [d @ ''.syseba-tmp.'' @ x]) = None"
    and "\<forall>ns. fits SYSEBA_PATH_MAX (temporary_name (path_str (ds @ [d])) (os_pid s) ns 0)"
  shows "\<exists>s'. syseba_copy_file (path_str ss) (path_str (ds @ [d])) attempts s = (0, s') \<and>
    full_copy f (fs_get (os_fs s') (ds @ [d]))"
  by (rule copy_file_calm [OF assms])

definition demo_file :: inode where
  "demo_file = \<lparr>f_data = ''hello'', f_mode = 420, f_mtime = 7, f_atime = 8, f_dev = 0, f_ino = 1\<rparr>"

definition demo_os :: os where
  "demo_os = quiet_os\<lparr>os_fs := [([''src''], Dir), ([''src'', ''a''], Reg demo_file), ([''bak''], Dir)]\<rparr>"

lemma demo_os_facts:
  "good_path [''src'', ''a'']" "dir_chain (os_fs demo_os) [''src'', ''a'']"
  "fs_get (os_fs demo_os) [''src'', ''a''] = Some (Reg demo_file)"
  "plain_path ([''bak'', ''x''] @ [''a''])" "\<not> copy_area [''bak'', ''x''] ''a'' [''src'', ''a'']"
  "no_links (os_fs demo_os) ([''bak'', ''x''] @ [''a''])"
  by (auto simp: good_comp_def demo_os_def quiet_os_def dir_chain_def fs_get_def plain_path_def backslash_def
      copy_area_def no_links_def less_Suc_eq numeral_2_eq_2 numeral_3_eq_3)

theorem copy_file_succeeds_witness:
  "\<exists>s'. syseba_copy_file (path_str [''src'', ''a'']) (path_str ([''bak'', ''x''] @ [''a''])) 4 demo_os = (0, s') \<and>
     full_copy demo_file (fs_get (os_fs s') ([''bak'', ''x''] @ [''a'']))"
proof (rule copy_file_succeeds [OF _ demo_os_facts(1-4)])
  show "\<forall>i \<le> length [''bak'', ''x'']. fs_get (os_fs demo_os) (take i [''bak'', ''x'']) = None \<or>
      fs_get (os_fs demo_os) (take i [''bak'', ''x'']) = Some Dir"
    by (auto simp: demo_os_def quiet_os_def fs_get_def le_Suc_eq)
  show "\<forall>ns. fits SYSEBA_PATH_MAX (temporary_name (path_str ([''bak'', ''x''] @ [''a''])) (os_pid demo_os) ns 0)"
  proof
    fix ns :: "64 word"
    show "fits SYSEBA_PATH_MAX (temporary_name (path_str ([''bak'', ''x''] @ [''a''])) (os_pid demo_os) ns 0)"
      using dec_word_length [of ns] dec_length [of 1 0] dec_length [of 0 0]
      by (simp add: fits_def temporary_name_def path_str_def demo_os_def quiet_os_def SYSEBA_PATH_MAX_def)
  qed
qed (auto simp: demo_os_def quiet_os_def fs_get_def)


end
