(* ===== verification/Config.thy ===== *)
theory Config
  imports Fs
begin

text \<open>
  \<^verbatim>\<open>config.c\<close> (Linux branch): the containment test on resolved paths that guards every path the
  program takes from outside (\<^verbatim>\<open>syseba_path_is_within\<close>, \<^verbatim>\<open>syseba_safe_join\<close>, \<^verbatim>\<open>syseba_relative_path\<close>),
  the parser of the configuration file, validation, normalisation and saving. Results carry the
  code's \<^verbatim>\<open>syseba_result_t\<close>; the wording of the error messages is left out. The assignments to
  \<^verbatim>\<open>errno\<close> around \<^verbatim>\<open>strtoul\<close> are not tracked: nothing reads \<^verbatim>\<open>errno\<close> after them.
\<close>

section \<open>Containment\<close>

text \<open>The loop of \<^verbatim>\<open>syseba_path_resolve_links\<close>: the nearest ancestor that exists.\<close>

function probe_existing :: "string \<Rightarrow> os \<Rightarrow> string option \<times> os" where
  "probe_existing probe s =
     (case syseba_fs_exists probe s of
        (True, s1) \<Rightarrow> (Some probe, s1)
      | (False, s1) \<Rightarrow>
          (case syseba_parent_dir probe SYSEBA_PATH_MAX of
             None \<Rightarrow> (None, s1)
           | Some parent \<Rightarrow> if parent = probe then (None, s1) else probe_existing parent s1))"
  by pat_completeness auto
termination
  by (relation "measure (\<lambda>(probe, s). if slash \<in> set probe then length probe + 2
        else if probe = ''.'' then 0 else 1)")
    (auto simp: syseba_parent_dir_def strrchr_Some Cons_eq_append_conv split: option.splits if_splits)

declare probe_existing.simps [simp del]

definition path_resolve_links :: "string \<Rightarrow> nat \<Rightarrow> os \<Rightarrow> string option \<times> os" where
  "path_resolve_links path n s =
     (case syseba_path_real path SYSEBA_PATH_MAX s of
        (None, s1) \<Rightarrow> (None, s1)
      | (Some normalized, s1) \<Rightarrow>
          (case probe_existing normalized s1 of
             (None, s2) \<Rightarrow> (None, s2)
           | (Some probe, s2) \<Rightarrow>
               (case sys_realpath probe s2 of
                  (Inl e, s3) \<Rightarrow> (None, s3)
                | (Inr resolved, s3) \<Rightarrow>
                    let combined = resolved @ drop (length probe) normalized in
                    if \<not> fits n combined then (None, s3) else syseba_path_real combined n s3)))"

definition syseba_path_is_within :: "string \<Rightarrow> string \<Rightarrow> os \<Rightarrow> bool \<times> os" where
  "syseba_path_is_within base candidate s =
     (case path_resolve_links base SYSEBA_PATH_MAX s of
        (None, s1) \<Rightarrow> (False, s1)
      | (Some normalized_base, s1) \<Rightarrow>
          (case path_resolve_links candidate SYSEBA_PATH_MAX s1 of
             (None, s2) \<Rightarrow> (False, s2)
           | (Some normalized_candidate, s2) \<Rightarrow> (str_within normalized_base normalized_candidate, s2)))"

definition is_separator :: "char \<Rightarrow> bool" where
  "is_separator c \<longleftrightarrow> c = slash \<or> c = backslash"

text \<open>\<open>None\<close> is \<^verbatim>\<open>SYSEBA_ERR_INVALID\<close>.\<close>

definition syseba_safe_join :: "string \<Rightarrow> string \<Rightarrow> nat \<Rightarrow> os \<Rightarrow> string option \<times> os" where
  "syseba_safe_join base relative n s =
     (let combined = base @ slash # dropWhile is_separator relative in
      if \<not> fits SYSEBA_PATH_MAX combined then (None, s)
      else (case syseba_path_real combined n s of
              (None, s1) \<Rightarrow> (None, s1)
            | (Some out, s1) \<Rightarrow>
                (case syseba_path_is_within base out s1 of
                   (True, s2) \<Rightarrow> (Some out, s2)
                 | (False, s2) \<Rightarrow> (None, s2))))"

definition syseba_relative_path :: "string \<Rightarrow> string \<Rightarrow> nat \<Rightarrow> os \<Rightarrow> string option \<times> os" where
  "syseba_relative_path base path n s =
     (case syseba_path_real base SYSEBA_PATH_MAX s of
        (None, s1) \<Rightarrow> (None, s1)
      | (Some normalized_base, s1) \<Rightarrow>
          (case syseba_path_real path SYSEBA_PATH_MAX s1 of
             (None, s2) \<Rightarrow> (None, s2)
           | (Some normalized_path, s2) \<Rightarrow>
               (case syseba_path_is_within normalized_base normalized_path s2 of
                  (False, s3) \<Rightarrow> (None, s3)
                | (True, s3) \<Rightarrow>
                    let relative = dropWhile is_separator (drop (length normalized_base) normalized_path) in
                    if \<not> fits n relative then (None, s3)
                    else (Some (normalize_separators relative), s3))))"

section \<open>Finding the configuration file\<close>

definition config_candidate :: "string \<Rightarrow> nat \<Rightarrow> os \<Rightarrow> string option \<times> os" where
  "config_candidate path n s =
     (if path = [] then (None, s)
      else (case sys_access path s of
              (Inl e, s1) \<Rightarrow> (None, s1)
            | (Inr _, s1) \<Rightarrow> syseba_path_real path n s1))"

fun first_candidate :: "string list \<Rightarrow> nat \<Rightarrow> os \<Rightarrow> string option \<times> os" where
  "first_candidate [] n s = (None, set_errno ENOENT s)"
| "first_candidate (p # ps) n s =
     (case config_candidate p n s of
        (Some out, s1) \<Rightarrow> (Some out, s1)
      | (None, s1) \<Rightarrow> first_candidate ps n s1)"

text \<open>\<open>environment\<close> is the value of \<^verbatim>\<open>SYSEBA_CONFIG\<close>, empty when unset.\<close>

definition syseba_config_find :: "string \<Rightarrow> string \<Rightarrow> nat \<Rightarrow> os \<Rightarrow> string option \<times> os" where
  "syseba_config_find requested environment n s =
     (if requested \<noteq> [] then config_candidate requested n s
      else first_candidate [environment, SYSEBA_DEFAULT_CONFIG, SYSEBA_LEGACY_CONFIG, ''syseba.conf''] n s)"

definition resolve_config_path :: "string \<Rightarrow> string \<Rightarrow> nat \<Rightarrow> os \<Rightarrow> string option \<times> os" where
  "resolve_config_path base value n s =
     (if value \<noteq> [] \<and> hd value = slash then syseba_path_real value n s
      else let combined = base @ slash # value in
        if \<not> fits SYSEBA_PATH_MAX combined then (None, set_errno ENAMETOOLONG s)
        else syseba_path_real combined n s)"

section \<open>Parsing\<close>

definition newline :: char where
  "newline = CHR 0x0A"

text \<open>\<^verbatim>\<open>fgets\<close> with a buffer of \<open>n\<close> bytes: the line read and what is left.\<close>

definition fgets :: "nat \<Rightarrow> string \<Rightarrow> string \<times> string" where
  "fgets n text =
     (let k = length (takeWhile (\<lambda>c. c \<noteq> newline) text) + 1; m = min (n - 1) k
      in (take m text, drop m text))"

text \<open>The C string in a buffer ends at the first NUL.\<close>

definition c_string :: "string \<Rightarrow> string" where
  "c_string buffer = takeWhile (\<lambda>c. c \<noteq> CHR 0x00) buffer"

definition syseba_trim :: "string \<Rightarrow> string" where
  "syseba_trim value = c_trim value"

record parse_state =
  ps_source :: string
  ps_backup :: string
  ps_restore :: string
  ps_log_file :: string
  ps_threads :: nat
  ps_line_number :: nat
  ps_settings :: bool
  ps_found_settings :: bool

definition parse_start :: parse_state where
  "parse_start = \<lparr>ps_source = ''/dati'', ps_backup = ''/backup'', ps_restore = ''/restore'',
     ps_log_file = SYSEBA_DEFAULT_LOG, ps_threads = 4, ps_line_number = 0, ps_settings = False,
     ps_found_settings = False\<rparr>"

definition parse_threads :: "string \<Rightarrow> nat option" where
  "parse_threads value =
     (case c_strtoul value of
        None \<Rightarrow> None
      | Some (parsed, rest, range_error) \<Rightarrow>
          if range_error \<or> syseba_trim rest \<noteq> [] \<or> parsed < 1 \<or> parsed > SYSEBA_MAX_THREADS then None
          else Some parsed)"

definition config_set :: "string \<Rightarrow> string \<Rightarrow> parse_state \<Rightarrow> parse_state option" where
  "config_set key value st =
     (if strcasecmp_eq key ''source'' then
        (if fits SYSEBA_PATH_MAX value then Some (st\<lparr>ps_source := value\<rparr>) else None)
      else if strcasecmp_eq key ''backup'' then
        (if fits SYSEBA_PATH_MAX value then Some (st\<lparr>ps_backup := value\<rparr>) else None)
      else if strcasecmp_eq key ''restore'' then
        (if fits SYSEBA_PATH_MAX value then Some (st\<lparr>ps_restore := value\<rparr>) else None)
      else if strcasecmp_eq key ''log'' then
        (if fits SYSEBA_PATH_MAX value then Some (st\<lparr>ps_log_file := value\<rparr>) else None)
      else if strcasecmp_eq key ''threads'' then
        (case parse_threads value of None \<Rightarrow> None | Some t \<Rightarrow> Some (st\<lparr>ps_threads := t\<rparr>))
      else Some st)"

definition utf8_bom :: string where
  "utf8_bom = [CHR 0xEF, CHR 0xBB, CHR 0xBF]"

text \<open>One line, after the line counter has been advanced; \<open>None\<close> is \<^verbatim>\<open>SYSEBA_ERR_INVALID\<close>.\<close>

definition config_line :: "string \<Rightarrow> parse_state \<Rightarrow> parse_state option" where
  "config_line line st =
     (let line = (if ps_line_number st = 1 \<and> take 3 line = utf8_bom then drop 3 line else line);
          trimmed = syseba_trim line
      in if trimmed = [] \<or> hd trimmed = CHR ''#'' \<or> hd trimmed = CHR '';'' then Some st
         else if hd trimmed = CHR ''['' then
           (if CHR '']'' \<notin> set trimmed then None
            else let settings = strcasecmp_eq (tl (takeWhile (\<lambda>c. c \<noteq> CHR '']'') trimmed)) ''SETTINGS''
              in Some (st\<lparr>ps_settings := settings, ps_found_settings := ps_found_settings st \<or> settings\<rparr>))
         else if \<not> ps_settings st then Some st
         else if CHR ''='' \<notin> set trimmed then None
         else config_set (syseba_trim (takeWhile (\<lambda>c. c \<noteq> CHR ''='') trimmed))
                (syseba_trim (tl (dropWhile (\<lambda>c. c \<noteq> CHR ''='') trimmed))) st)"

definition line_buffer :: nat where
  "line_buffer = SYSEBA_PATH_MAX + 128"

lemma fgets_shorter: "(a, b) = fgets line_buffer txt \<Longrightarrow> txt \<noteq> [] \<Longrightarrow> length b < length txt"
  by (cases "txt") (auto simp: fgets_def Let_def line_buffer_def syseba_limits)

function config_lines :: "string \<Rightarrow> parse_state \<Rightarrow> parse_state option" where
  "config_lines text st =
     (if text = [] then Some st
      else let (raw, rest) = fgets line_buffer text; line = c_string raw;
               st = st\<lparr>ps_line_number := ps_line_number st + 1\<rparr>
        in if newline \<notin> set line \<and> length line = line_buffer - 1 \<and> rest \<noteq> [] then None
           else (case config_line line st of None \<Rightarrow> None | Some st' \<Rightarrow> config_lines rest st'))"
  by pat_completeness auto
termination
  by (relation "measure (\<lambda>(text, st). length text)") (auto dest: fgets_shorter)

declare config_lines.simps [simp del]

section \<open>Loading, validating, saving\<close>

text \<open>The six containment tests, evaluated from the left until one holds.\<close>

fun any_within :: "(string \<times> string) list \<Rightarrow> os \<Rightarrow> bool \<times> os" where
  "any_within [] s = (False, s)"
| "any_within ((base, candidate) # ps) s =
     (case syseba_path_is_within base candidate s of
        (True, s1) \<Rightarrow> (True, s1)
      | (False, s1) \<Rightarrow> any_within ps s1)"

definition has_line_break :: "string \<Rightarrow> bool" where
  "has_line_break v \<longleftrightarrow> CHR 0x0D \<in> set v \<or> CHR 0x0A \<in> set v"

definition syseba_config_validate :: "config \<Rightarrow> os \<Rightarrow> result \<times> os" where
  "syseba_config_validate c s =
     (if has_line_break (cfg_source c) \<or> has_line_break (cfg_backup c) \<or> has_line_break (cfg_restore c) \<or>
         has_line_break (cfg_log_file c) \<or> has_line_break (cfg_config_path c)
      then (SYSEBA_ERR_INVALID, s)
      else (case syseba_fs_is_directory (cfg_source c) s of
              (False, s1) \<Rightarrow> (SYSEBA_ERR_NOT_FOUND, s1)
            | (True, s1) \<Rightarrow>
                if cfg_source c = cfg_backup c \<or> cfg_source c = cfg_restore c \<or> cfg_backup c = cfg_restore c
                then (SYSEBA_ERR_INVALID, s1)
                else (case any_within [(cfg_source c, cfg_backup c), (cfg_backup c, cfg_source c),
                                       (cfg_source c, cfg_restore c), (cfg_restore c, cfg_source c),
                                       (cfg_backup c, cfg_restore c), (cfg_restore c, cfg_backup c)] s1 of
                        (True, s2) \<Rightarrow> (SYSEBA_ERR_INVALID, s2)
                      | (False, s2) \<Rightarrow>
                          (case syseba_path_is_within (cfg_source c) (cfg_log_file c) s2 of
                             (True, s3) \<Rightarrow> (SYSEBA_ERR_INVALID, s3)
                           | (False, s3) \<Rightarrow>
                               if cfg_threads c < 1 \<or> cfg_threads c > SYSEBA_MAX_THREADS
                               then (SYSEBA_ERR_INVALID, s3) else (SYSEBA_OK, s3)))))"

text \<open>Resolving several values one after the other, stopping at the first failure.\<close>

fun resolve_all :: "string \<Rightarrow> string list \<Rightarrow> os \<Rightarrow> string list option \<times> os" where
  "resolve_all base [] s = (Some [], s)"
| "resolve_all base (v # vs) s =
     (case resolve_config_path base v SYSEBA_PATH_MAX s of
        (None, s1) \<Rightarrow> (None, s1)
      | (Some r, s1) \<Rightarrow>
          (case resolve_all base vs s1 of
             (None, s2) \<Rightarrow> (None, s2)
           | (Some rs, s2) \<Rightarrow> (Some (r # rs), s2)))"

definition config_of :: "string list \<Rightarrow> string \<Rightarrow> nat \<Rightarrow> config" where
  "config_of rs path threads =
     \<lparr>cfg_source = rs ! 0, cfg_backup = rs ! 1, cfg_restore = rs ! 2, cfg_log_file = rs ! 3,
      cfg_config_path = path, cfg_threads = threads\<rparr>"

definition config_finish :: "string \<Rightarrow> string \<Rightarrow> parse_state \<Rightarrow> os \<Rightarrow> (result + config) \<times> os" where
  "config_finish path base st s =
     (if \<not> ps_found_settings st then (Inl SYSEBA_ERR_INVALID, s)
      else if ps_source st = [] \<or> ps_backup st = [] \<or> ps_restore st = [] \<or> ps_log_file st = []
      then (Inl SYSEBA_ERR_INVALID, s)
      else (case resolve_all base [ps_source st, ps_backup st, ps_restore st, ps_log_file st] s of
              (None, s1) \<Rightarrow> (Inl SYSEBA_ERR_INVALID, s1)
            | (Some rs, s1) \<Rightarrow>
                let c = config_of rs path (ps_threads st) in
                (case syseba_config_validate c s1 of
                   (SYSEBA_OK, s2) \<Rightarrow> (Inr c, s2)
                 | (e, s2) \<Rightarrow> (Inl e, s2))))"

text \<open>After a read error only the complete lines read before it have been parsed.\<close>

definition complete_lines :: "string \<Rightarrow> string" where
  "complete_lines text = rev (dropWhile (\<lambda>c. c \<noteq> newline) (rev text))"

definition syseba_config_load :: "string \<Rightarrow> os \<Rightarrow> (result + config) \<times> os" where
  "syseba_config_load path s =
     (case syseba_path_real path SYSEBA_PATH_MAX s of
        (None, s1) \<Rightarrow> (Inl SYSEBA_ERR_INVALID, s1)
      | (Some config_path, s1) \<Rightarrow>
          (case syseba_parent_dir config_path SYSEBA_PATH_MAX of
             None \<Rightarrow> (Inl SYSEBA_ERR_INVALID, s1)
           | Some base \<Rightarrow>
               (case syseba_open_regular_read config_path s1 of
                  (None, s2) \<Rightarrow> (Inl SYSEBA_ERR_NOT_FOUND, s2)
                | (Some (loc, n), s2) \<Rightarrow>
                    (case stdio_read loc s2 of
                       ((text, failed), s3) \<Rightarrow>
                         (case config_lines (if failed then complete_lines text else text) parse_start of
                            None \<Rightarrow> (Inl SYSEBA_ERR_INVALID, s3)
                          | Some st \<Rightarrow>
                              if failed then (Inl SYSEBA_ERR, s3)
                              else config_finish config_path base st s3)))))"

definition syseba_config_normalize :: "config \<Rightarrow> os \<Rightarrow> (result + config) \<times> os" where
  "syseba_config_normalize c s =
     (if cfg_config_path c = [] \<or> has_line_break (cfg_config_path c) \<or> has_line_break (cfg_source c) \<or>
         has_line_break (cfg_backup c) \<or> has_line_break (cfg_restore c) \<or> has_line_break (cfg_log_file c)
      then (Inl SYSEBA_ERR_INVALID, s)
      else (case syseba_path_real (cfg_config_path c) SYSEBA_PATH_MAX s of
              (None, s1) \<Rightarrow> (Inl SYSEBA_ERR_INVALID, s1)
            | (Some config_path, s1) \<Rightarrow>
                (case syseba_parent_dir config_path SYSEBA_PATH_MAX of
                   None \<Rightarrow> (Inl SYSEBA_ERR_INVALID, s1)
                 | Some base \<Rightarrow>
                     (case resolve_all base [cfg_source c, cfg_backup c, cfg_restore c, cfg_log_file c] s1 of
                        (None, s2) \<Rightarrow> (Inl SYSEBA_ERR_INVALID, s2)
                      | (Some rs, s2) \<Rightarrow>
                          let c' = config_of rs config_path (cfg_threads c) in
                          (case syseba_config_validate c' s2 of
                             (SYSEBA_OK, s3) \<Rightarrow> (Inr c', s3)
                           | (e, s3) \<Rightarrow> (Inl e, s3))))))"

definition config_text :: "config \<Rightarrow> string" where
  "config_text c =
     ''# SySeBa configuration'' @ [newline] @ ''[SETTINGS]'' @ [newline] @
     ''source = '' @ cfg_source c @ [newline] @ ''backup = '' @ cfg_backup c @ [newline] @
     ''restore = '' @ cfg_restore c @ [newline] @ ''log = '' @ cfg_log_file c @ [newline] @
     ''threads = '' @ dec (cfg_threads c) @ [newline]"

text \<open>Writing the text, flushing, syncing and closing the stream; every step's failure counts.\<close>

definition write_config :: "cpath \<Rightarrow> string \<Rightarrow> os \<Rightarrow> bool \<times> os" where
  "write_config loc text s =
     (case stdio_write loc text s of (ok, s1) \<Rightarrow>
        let (ok2, s2) = (if ok then (case sys_fsync loc s1 of (r, s2) \<Rightarrow> (\<not> isl r, s2)) else (False, s1))
        in (case sys_fclose loc s2 of (r, s3) \<Rightarrow> (ok2 \<and> \<not> isl r, s3)))"

definition syseba_config_save :: "config \<Rightarrow> os \<Rightarrow> result \<times> os" where
  "syseba_config_save c s =
     (case syseba_config_normalize c s of
        (Inl e, s1) \<Rightarrow> (e, s1)
      | (Inr normalized, s1) \<Rightarrow>
          (case syseba_parent_dir (cfg_config_path normalized) SYSEBA_PATH_MAX of
             None \<Rightarrow> (SYSEBA_ERR, s1)
           | Some parent \<Rightarrow>
               (case syseba_mkdirs parent s1 of (r, s2) \<Rightarrow>
                  if r \<noteq> 0 then (SYSEBA_ERR, s2)
                  else (case syseba_monotonic_ns s2 of (ns, s3) \<Rightarrow>
                    let temporary = cfg_config_path normalized @ ''.tmp.'' @ dec (unat ns) in
                    if \<not> fits SYSEBA_PATH_MAX temporary then (SYSEBA_ERR, s3)
                    else (case syseba_open_exclusive_write temporary 416 s3 of
                            (None, s4) \<Rightarrow> (SYSEBA_ERR_PERMISSION, s4)
                          | (Some loc, s4) \<Rightarrow>
                              (case write_config loc (config_text normalized) s4 of
                                 (False, s5) \<Rightarrow> (SYSEBA_ERR, snd (sys_unlink temporary s5))
                               | (True, s5) \<Rightarrow>
                                   let s6 = snd (sys_chmod temporary 416 s5) in
                                   (case syseba_atomic_replace temporary (cfg_config_path normalized) s6 of (r, s7) \<Rightarrow>
                                      if r \<noteq> 0 then (SYSEBA_ERR, snd (sys_unlink temporary s7))
                                      else (SYSEBA_OK, s7))))))))"

section \<open>Resolution reads only\<close>

context reading
begin

lemma reads_probe: "R s (snd (probe_existing p s))"
proof (induction p s rule: probe_existing.induct)
  case (1 p s)
  obtain b s1 where e: "syseba_fs_exists p s = (b, s1)" by (cases "syseba_fs_exists p s")
  have "R s s1" using reads_exists [of s p] e by simp
  with 1 e show ?case
    by (subst probe_existing.simps) (auto split: bool.splits option.splits intro: R_trans)
qed

lemma reads_resolve: "R s (snd (path_resolve_links p n s))"
proof -
  obtain r1 s1 where r1: "syseba_path_real p SYSEBA_PATH_MAX s = (r1, s1)" by (cases "syseba_path_real p SYSEBA_PATH_MAX s")
  have q1: "R s s1" using reads_path_real [of s p SYSEBA_PATH_MAX] r1 by simp
  show ?thesis
  proof (cases r1)
    case (Some x)
    obtain r2 s2 where r2: "probe_existing x s1 = (r2, s2)" by (cases "probe_existing x s1")
    have q2: "R s s2" using R_trans [OF q1] reads_probe [of s1 x] r2 by simp
    show ?thesis
    proof (cases r2)
      case (Some y)
      obtain r3 s3 where r3: "sys_realpath y s2 = (r3, s3)" by (cases "sys_realpath y s2")
      have q3: "R s s3" using R_trans [OF q2] reads_calls(2) [of s2 y] r3 by simp
      then have "R s (snd (syseba_path_real z n s3))" for z
        by (rule R_trans) (rule reads_path_real)
      with r1 r2 r3 \<open>r1 = Some x\<close> Some q3 show ?thesis
        by (auto simp: path_resolve_links_def Let_def split: sum.splits)
    qed (use r1 r2 Some q2 in \<open>simp add: path_resolve_links_def\<close>)
  qed (use r1 q1 in \<open>simp add: path_resolve_links_def\<close>)
qed

lemma reads_within: "R s (snd (syseba_path_is_within b c s))"
proof -
  obtain r1 s1 where r1: "path_resolve_links b SYSEBA_PATH_MAX s = (r1, s1)" by (cases "path_resolve_links b SYSEBA_PATH_MAX s")
  have q1: "R s s1" using reads_resolve [of s b SYSEBA_PATH_MAX] r1 by simp
  have "R s (snd (path_resolve_links c SYSEBA_PATH_MAX s1))"
    by (rule R_trans [OF q1 reads_resolve])
  with r1 q1 show ?thesis
    by (auto simp: syseba_path_is_within_def split: option.splits prod.splits)
qed

lemma reads_safe_join: "R s (snd (syseba_safe_join b r n s))"
proof -
  let ?c = "b @ slash # dropWhile is_separator r"
  obtain r1 s1 where r1: "syseba_path_real ?c n s = (r1, s1)" by (cases "syseba_path_real ?c n s")
  have q1: "R s s1" using reads_path_real [of s ?c n] r1 by simp
  have "R s (snd (syseba_path_is_within b x s1))" for x by (rule R_trans [OF q1 reads_within])
  with r1 q1 show ?thesis
    by (auto simp: syseba_safe_join_def Let_def split: option.splits prod.splits bool.splits) (metis snd_conv)+
qed

lemma reads_relative: "R s (snd (syseba_relative_path b p n s))"
proof -
  obtain r1 s1 where r1: "syseba_path_real b SYSEBA_PATH_MAX s = (r1, s1)" by (cases "syseba_path_real b SYSEBA_PATH_MAX s")
  obtain r2 s2 where r2: "syseba_path_real p SYSEBA_PATH_MAX s1 = (r2, s2)" by (cases "syseba_path_real p SYSEBA_PATH_MAX s1")
  have q1: "R s s1" using reads_path_real [of s b SYSEBA_PATH_MAX] r1 by simp
  have q2: "R s s2" using R_trans [OF q1] reads_path_real [of s1 p SYSEBA_PATH_MAX] r2 by simp
  have "R s (snd (syseba_path_is_within x y s2))" for x y by (rule R_trans [OF q2 reads_within])
  with r1 q1 r2 q2 show ?thesis
    by (auto simp: syseba_relative_path_def Let_def split: option.splits prod.splits bool.splits) (metis snd_conv)+
qed

end

lemmas probe_quiet [frame] = quiet.reads_probe
lemmas resolve_quiet [frame] = quiet.reads_resolve
lemmas within_quiet [frame] = quiet.reads_within
lemmas safe_join_quiet [frame] = quiet.reads_safe_join
lemmas relative_quiet [frame] = quiet.reads_relative

text \<open>Loading the configuration only reads: the frame of every step is carried to its continuation.\<close>

lemma quiet_case:
  assumes "quiet s (snd m)" and "\<And>x s1. m = (x, s1) \<Longrightarrow> quiet s1 (snd (k x s1))"
  shows "quiet s (snd (case m of (x, s1) \<Rightarrow> k x s1))"
  using assms by (cases m) (auto intro: quiet_trans)

lemma stdio_read_quiet [frame]: "quiet s (snd (stdio_read loc s))"
proof -
  obtain ev s1 where t: "tick s = (ev, s1)" by (cases "tick s")
  have "quiet s1 (snd (stdio_read loc s))"
    using t by (auto simp: stdio_read_def split: sysev.splits option.splits)
  with quiet_tick [OF t] show ?thesis by (rule quiet_trans)
qed

lemma open_regular_read_quiet [frame]: "quiet s (snd (syseba_open_regular_read path s))"
  unfolding syseba_open_regular_read_def
  by (auto simp: frame intro!: quiet_case split: sum.splits option.splits node.splits)

lemma resolve_config_path_quiet [frame]: "quiet s (snd (resolve_config_path base v n s))"
  by (simp add: resolve_config_path_def Let_def frame)

lemma resolve_all_quiet [frame]: "quiet s (snd (resolve_all base vs s))"
  by (induction vs arbitrary: s)
     (auto simp: frame intro!: quiet_case split: option.splits)

lemma any_within_quiet [frame]: "quiet s (snd (any_within ps s))"
  by (induction ps s rule: any_within.induct)
     (auto simp: frame intro!: quiet_case split: bool.splits)

lemma config_validate_quiet [frame]: "quiet s (snd (syseba_config_validate c s))"
  unfolding syseba_config_validate_def
  by (auto simp: frame intro!: quiet_case split: bool.splits simp del: any_within.simps)

lemma config_finish_quiet [frame]: "quiet s (snd (config_finish path base st s))"
  unfolding config_finish_def Let_def
  by (auto simp: frame intro!: quiet_case split: option.splits result.splits simp del: resolve_all.simps)

lemma config_load_quiet [frame]: "quiet s (snd (syseba_config_load path s))"
  unfolding syseba_config_load_def
  by (auto simp: frame intro!: quiet_case split: option.splits)

section \<open>What resolution computes\<close>

text \<open>The facts hold for undisturbed runs on a tree whose names contain no separator of either kind.\<close>

definition plain_names :: "fstree \<Rightarrow> bool" where
  "plain_names t \<longleftrightarrow> (\<forall>k n. fs_get t k = Some n \<longrightarrow> plain_path k)"

definition path_fits :: "cpath \<Rightarrow> bool" where
  "path_fits cs \<longleftrightarrow> fits SYSEBA_PATH_MAX (path_str cs)"

lemma path_fits_take: "path_fits cs \<Longrightarrow> path_fits (take k cs)"
proof -
  have "length (path_str (take k cs)) \<le> length (path_str cs)"
  proof (cases "take k cs = []")
    case True
    then show ?thesis using path_str_Cons [of cs] by (auto simp: path_str_def)
  next
    case False
    have "path_str cs = path_str (take k cs) @ concat (map (Cons slash) (drop k cs))"
      using False by (auto simp: path_str_def simp flip: map_append concat_append)
    then show ?thesis by simp
  qed
  then show "path_fits cs \<Longrightarrow> path_fits (take k cs)" by (simp add: path_fits_def fits_def)
qed

lemma path_real_plain:
  "plain_path cs \<Longrightarrow> path_fits cs \<Longrightarrow> length (path_str cs) < n \<Longrightarrow> syseba_path_real (path_str cs) n s = (Some (path_str cs), s)"
  by (simp add: syseba_path_real_def absolute_path_def path_fits_def path_real_text_eq
      real_parts_canonical plain_path_def)

lemma fs_exists_calm:
  "os_sched s = [] \<Longrightarrow> \<exists>s1. syseba_fs_exists p s = (\<not> isl (lookup_node False p s), s1) \<and> quiet s s1"
  using exists_quiet [of s p]
  by (auto simp: syseba_fs_exists_def sys_lstat_def query_calm split: sum.splits)

lemma probe_calm:
  "os_sched s = [] \<Longrightarrow> plain_path cs \<Longrightarrow> path_fits cs \<Longrightarrow>
     \<exists>k s'. k \<le> length cs \<and> probe_existing (path_str cs) s = (Some (path_str (take k cs)), s') \<and> quiet s s' \<and>
       (\<exists>loc n. lookup_node False (path_str (take k cs)) s = Inr (loc, n)) \<and>
       (\<forall>j. k < j \<and> j \<le> length cs \<longrightarrow> isl (lookup_node False (path_str (take j cs)) s))"
proof (induction cs arbitrary: s rule: rev_induct)
  case Nil
  from fs_exists_calm [OF Nil(1), of "[slash]"] obtain s1 where
    "syseba_fs_exists [slash] s = (True, s1)" "quiet s s1" by auto
  then show ?case by (subst probe_existing.simps) auto
next
  case (snoc c cs)
  from fs_exists_calm [OF snoc.prems(1), of "path_str (cs @ [c])"] obtain s1 where
    s1: "syseba_fs_exists (path_str (cs @ [c])) s = (\<not> isl (lookup_node False (path_str (cs @ [c])) s), s1)"
    "quiet s s1" by blast
  show ?case
  proof (cases "isl (lookup_node False (path_str (cs @ [c])) s)")
    case False
    then obtain p where "lookup_node False (path_str (cs @ [c])) s = Inr p"
      by (cases "lookup_node False (path_str (cs @ [c])) s") auto
    with False s1 show ?thesis
      by (intro exI [of _ "length (cs @ [c])"] exI [of _ s1])
        (cases p, auto simp: probe_existing.simps [of "path_str (cs @ [c])"])
  next
    case True
    have g: "good_path (cs @ [c])" using snoc.prems(2) by blast
    have "syseba_parent_dir (path_str (cs @ [c])) SYSEBA_PATH_MAX = Some (path_str cs)"
      using parent_dir_path_str [OF g] snoc.prems(3) by (simp add: path_fits_def fits_def)
    moreover have "path_str cs \<noteq> path_str (cs @ [c])"
      using path_str_inj [of cs "cs @ [c]"] g by (auto simp: good_path_def)
    ultimately have step: "probe_existing (path_str (cs @ [c])) s = probe_existing (path_str cs) s1"
      using s1(1) True by (subst probe_existing.simps) simp
    have "path_fits cs" using path_fits_take [OF snoc.prems(3), of "length cs"] by simp
    with snoc.IH [of s1] quiet_sched [OF s1(2) snoc.prems(1)] snoc.prems(2) obtain k s' where
      k: "k \<le> length cs" "probe_existing (path_str cs) s1 = (Some (path_str (take k cs)), s')" "quiet s1 s'"
        "\<exists>loc n. lookup_node False (path_str (take k cs)) s = Inr (loc, n)"
        "\<forall>j. k < j \<and> j \<le> length cs \<longrightarrow> isl (lookup_node False (path_str (take j cs)) s)"
      using quiet_lookup [OF s1(2)] by auto
    with step True s1(2) show ?thesis
      by (intro exI [of _ k] exI [of _ s']) (auto simp: le_Suc_eq intro: quiet_trans)
  qed
qed

lemma strtok_path_append:
  assumes "good_path loc" and "good_path rest" and "rest \<noteq> []"
  shows "strtok slash (path_str loc @ concat (map (Cons slash) rest)) = loc @ rest"
proof -
  obtain t where t: "concat (map (Cons slash) rest) = slash # t" using assms(3) by (cases rest) auto
  have "strtok slash (slash # t) = rest"
    using strtok_path_str [of rest] assms(2,3) t by (simp add: good_path_def path_str_def)
  then show ?thesis
    using strtok_path_str [of loc] assms(1) by (simp add: t strtok_append good_path_def strtok_Cons_sep)
qed

text \<open>What is left of a canonical path after a prefix of its components.\<close>

lemma drop_path_str:
  "drop (length (path_str (take k cs))) (path_str cs) =
     (if take k cs = [] then tl (path_str cs) else concat (map (Cons slash) (drop k cs)))"
proof (cases "take k cs = []")
  case True
  then show ?thesis by (cases "path_str cs") auto
next
  case False
  then have "path_str cs = path_str (take k cs) @ concat (map (Cons slash) (drop k cs))"
    by (auto simp: path_str_def simp flip: map_append concat_append)
  with False show ?thesis by simp
qed

lemma real_parts_rejoin:
  assumes "plain_path loc" and "plain_path cs" and "k \<le> length cs" and "take k cs = [] \<Longrightarrow> loc = []"
  shows "real_parts (path_str loc @ drop (length (path_str (take k cs))) (path_str cs)) = loc @ drop k cs"
proof (cases "take k cs = []")
  case True
  then have "loc = []" and "cs = [] \<or> k = 0" using assms(4) by auto
  moreover have "[slash] @ tl (path_str cs) = path_str cs" using path_str_Cons [of cs] by auto
  ultimately show ?thesis
    using real_parts_canonical [of cs] assms(2) by (auto simp: plain_path_def drop_Suc)
next
  case False
  show ?thesis
  proof (cases "drop k cs = []")
    case True
    with False assms(1) show ?thesis by (simp add: drop_path_str real_parts_canonical plain_path_def)
  next
    case ne: False
    let ?p = "path_str loc @ concat (map (Cons slash) (drop k cs))"
    have plain: "plain_path (drop k cs)"
      using assms(2) by (auto simp: plain_path_def good_path_def dest: in_set_dropD)
    have "backslash \<notin> set ?p"
      using assms(1) plain path_str_no_backslash [of loc]
      by (auto simp: plain_path_def) (auto simp: backslash_def)
    then have "normalize_separators ?p = ?p" by (rule normalize_id)
    moreover obtain t where t: "path_str loc = slash # t" using path_str_Cons by blast
    moreover have "strtok slash (tl ?p) = strtok slash ?p" using t by (simp add: strtok_Cons_sep)
    ultimately have "real_parts ?p = collect_parts (loc @ drop k cs) []"
      using strtok_path_append [of loc "drop k cs"] assms(1) plain ne by (simp add: real_parts_def plain_path_good)
    then show ?thesis
      using False assms(1) plain by (simp add: drop_path_str collect_parts_id plain_path_def)
  qed
qed

lemma resolve_calm:
  assumes calm: "os_sched s = []" and cs: "plain_path cs" "path_fits cs" and names: "plain_names (os_fs s)"
    and r: "path_resolve_links (path_str cs) SYSEBA_PATH_MAX s = (Some out, s')"
  shows "\<exists>k loc nd. k \<le> length cs \<and> lookup_node True (path_str (take k cs)) s = Inr (loc, nd) \<and>
    plain_path loc \<and> out = path_str (loc @ drop k cs) \<and>
    (\<forall>j. k < j \<and> j \<le> length cs \<longrightarrow> isl (lookup_node False (path_str (take j cs)) s))"
proof -
  have pr: "syseba_path_real (path_str cs) SYSEBA_PATH_MAX s = (Some (path_str cs), s)"
    using path_real_plain cs by (simp add: path_fits_def fits_def)
  from probe_calm [OF calm cs] obtain k s2 where k: "k \<le> length cs"
    "probe_existing (path_str cs) s = (Some (path_str (take k cs)), s2)" "quiet s s2"
    "\<forall>j. k < j \<and> j \<le> length cs \<longrightarrow> isl (lookup_node False (path_str (take j cs)) s)" by blast
  have calm2: "os_sched s2 = []" by (rule quiet_sched [OF k(3) calm])
  from r pr k(2) calm2 obtain loc nd where
    loc: "lookup_node True (path_str (take k cs)) s2 = Inr (loc, nd)" and
    out: "fst (syseba_path_real (path_str loc @ drop (length (path_str (take k cs))) (path_str cs)) SYSEBA_PATH_MAX s2) = Some out"
    by (auto simp: path_resolve_links_def sys_realpath_def query_calm Let_def split: sum.splits if_splits)
  have loc': "lookup_node True (path_str (take k cs)) s = Inr (loc, nd)" using loc quiet_lookup [OF k(3)] by simp
  have plain: "plain_path loc" using lookup_in_tree [OF loc'] names by (auto simp: plain_names_def)
  have root: "take k cs = [] \<Longrightarrow> loc = []" using loc' by (simp add: path_str_def)
  have "out = path_str (loc @ drop k cs)"
    using out real_parts_rejoin [OF plain cs(1) k(1) root] path_str_Cons [of loc]
    by (auto simp: syseba_path_real_def absolute_path_def path_real_text_eq split: if_splits)
  with k loc' plain show ?thesis by blast
qed

section \<open>Containment\<close>

lemma resolve_dir:
  assumes "os_sched s = []" "plain_path bs" "path_fits bs" "plain_names (os_fs s)"
    and "dir_chain (os_fs s) bs" "fs_get (os_fs s) bs = Some Dir"
    and "path_resolve_links (path_str bs) SYSEBA_PATH_MAX s = (Some out, s')"
  shows "out = path_str bs"
proof -
  from resolve_calm [OF assms(1-4,7)] obtain k loc nd where
    k: "k \<le> length bs" "lookup_node True (path_str (take k bs)) s = Inr (loc, nd)" "out = path_str (loc @ drop k bs)"
      "\<forall>j. k < j \<and> j \<le> length bs \<longrightarrow> isl (lookup_node False (path_str (take j bs)) s)" by blast
  have "lookup_node False (path_str bs) s = Inr (bs, Dir)"
    using lookup_chain [OF plain_path_good [OF assms(2)] assms(5,6)] .
  with k(1,4) have kl: "k = length bs" by (metis isl_def le_neq_implies_less order_refl sum.disc(2) take_all)
  have "lookup_node True (path_str bs) s = Inr (bs, Dir)"
    using lookup_follow_same [of "path_str bs" s bs Dir] \<open>lookup_node False (path_str bs) s = _\<close> by simp
  with k kl show ?thesis by simp
qed

lemma within_calm:
  assumes calm: "os_sched s = []" and names: "plain_names (os_fs s)"
    and base: "plain_path bs" "path_fits bs" "dir_chain (os_fs s) bs" "fs_get (os_fs s) bs = Some Dir"
    and cand: "plain_path cs" "path_fits cs"
    and w: "syseba_path_is_within (path_str bs) (path_str cs) s = (True, s')"
  shows "\<exists>k loc nd. k \<le> length cs \<and> lookup_node True (path_str (take k cs)) s = Inr (loc, nd) \<and>
    prefix bs (loc @ drop k cs) \<and>
    (\<forall>j. k < j \<and> j \<le> length cs \<longrightarrow> isl (lookup_node False (path_str (take j cs)) s))"
proof -
  obtain r1 s1 where r1: "path_resolve_links (path_str bs) SYSEBA_PATH_MAX s = (r1, s1)"
    by (cases "path_resolve_links (path_str bs) SYSEBA_PATH_MAX s")
  obtain r2 s2 where r2: "path_resolve_links (path_str cs) SYSEBA_PATH_MAX s1 = (r2, s2)"
    by (cases "path_resolve_links (path_str cs) SYSEBA_PATH_MAX s1")
  have q1: "quiet s s1" using resolve_quiet [of s "path_str bs" SYSEBA_PATH_MAX] r1 by simp
  from w r1 r2 obtain nb nc where nb: "r1 = Some nb" "r2 = Some nc" "str_within nb nc"
    by (auto simp: syseba_path_is_within_def split: option.splits)
  have b: "nb = path_str bs" using resolve_dir [OF calm base(1,2) names base(3,4)] r1 nb(1) by blast
  have names1: "plain_names (os_fs s1)" using names quiet_fs [OF q1] by simp
  from resolve_calm [OF quiet_sched [OF q1 calm] cand names1] r2 nb(2) obtain k loc nd where
    k: "k \<le> length cs" "lookup_node True (path_str (take k cs)) s = Inr (loc, nd)" "plain_path loc"
      "nc = path_str (loc @ drop k cs)"
      "\<forall>j. k < j \<and> j \<le> length cs \<longrightarrow> isl (lookup_node False (path_str (take j cs)) s)"
    unfolding quiet_lookup [OF q1] by blast
  have "good_path (loc @ drop k cs)"
    using k(3) cand(1) by (auto simp: plain_path_def good_path_def dest: in_set_dropD)
  then have "prefix bs (loc @ drop k cs)"
    using str_within_path_str [of bs "loc @ drop k cs"] nb(3) b k(4) base(1)
    by (auto simp: good_path_def plain_path_def)
  with k show ?thesis by blast
qed

text \<open>
  C6: a path accepted by \<^verbatim>\<open>syseba_safe_join\<close> cannot leave its base directory. For any relative path
  from outside, with any separators, \<^verbatim>\<open>..\<close> components and symbolic links on the way: the result is
  canonical; if it exists, the node reached by following every link lies in the base; and if it does
  not exist yet, the place where it would come to lie does.
\<close>

theorem safe_join_contained:
  assumes "os_sched s = []" and "plain_names (os_fs s)"
    and "plain_path bs" "path_fits bs" "dir_chain (os_fs s) bs" "fs_get (os_fs s) bs = Some Dir"
    and "syseba_safe_join (path_str bs) relative SYSEBA_PATH_MAX s = (Some out, s')"
  shows "\<exists>cs. plain_path cs \<and> out = path_str cs \<and>
    (\<forall>loc nd. lookup_node True out s = Inr (loc, nd) \<longrightarrow> prefix bs loc) \<and>
    (\<exists>k loc nd. k \<le> length cs \<and> lookup_node True (path_str (take k cs)) s = Inr (loc, nd) \<and>
       prefix bs (loc @ drop k cs) \<and>
       (\<forall>j. k < j \<and> j \<le> length cs \<longrightarrow> isl (lookup_node False (path_str (take j cs)) s)))"
proof -
  let ?c = "path_str bs @ slash # dropWhile is_separator relative"
  obtain r1 s1 where r1: "syseba_path_real ?c SYSEBA_PATH_MAX s = (r1, s1)" by (cases "syseba_path_real ?c SYSEBA_PATH_MAX s")
  have q1: "quiet s s1" using path_real_quiet [of s ?c SYSEBA_PATH_MAX] r1 by simp
  from assms(7) r1 obtain s2 where out: "r1 = Some out" and
    w: "syseba_path_is_within (path_str bs) out s1 = (True, s2)"
    by (auto simp: syseba_safe_join_def Let_def split: if_splits option.splits prod.splits bool.splits)
  from r1 out obtain a where "path_real_text a SYSEBA_PATH_MAX = Some out"
    by (auto simp: syseba_path_real_def split: prod.splits option.splits)
  then have cs: "out = path_str (real_parts a)" "length out < SYSEBA_PATH_MAX"
    by (auto simp: path_real_text_eq split: if_splits)
  let ?cs = "real_parts a"
  have fits: "path_fits ?cs" using cs by (simp add: path_fits_def fits_def)
  from within_calm [OF quiet_sched [OF q1 assms(1)] _ assms(3,4) _ _ plain_path_real fits] w cs(1) assms(2,5,6) quiet_fs [OF q1]
  obtain k loc nd where k: "k \<le> length ?cs" "lookup_node True (path_str (take k ?cs)) s = Inr (loc, nd)"
    "prefix bs (loc @ drop k ?cs)"
    "\<forall>j. k < j \<and> j \<le> length ?cs \<longrightarrow> isl (lookup_node False (path_str (take j ?cs)) s)"
    unfolding quiet_lookup [OF q1] by metis
  have "prefix bs l" if l: "lookup_node True out s = Inr (l, m)" for l m
  proof -
    from lookup_nofollow_exists [OF l] have "\<not> isl (lookup_node False (path_str (take (length ?cs) ?cs)) s)"
      using cs(1) by auto
    with k(1,4) have "k = length ?cs" by (metis le_neq_implies_less order_refl)
    with k l cs(1) show ?thesis by simp
  qed
  with k cs(1) plain_path_real show ?thesis by blast
qed

section \<open>Paths without links are compared component by component\<close>

definition link_free :: "fstree \<Rightarrow> cpath \<Rightarrow> bool" where
  "link_free t cs \<longleftrightarrow> (\<forall>i \<le> length cs. \<forall>l. fs_get t (take i cs) \<noteq> Some (Lnk l))"

lemma link_free_no_links: "link_free t cs \<Longrightarrow> no_links t (take k cs)"
  by (auto simp: link_free_def no_links_def min_def)

lemma resolve_link_free:
  assumes calm: "os_sched s = []" and cs: "plain_path cs" "path_fits cs" "link_free (os_fs s) cs"
  shows "\<exists>s'. path_resolve_links (path_str cs) SYSEBA_PATH_MAX s = (Some (path_str cs), s') \<and> quiet s s'"
proof -
  have pr: "syseba_path_real (path_str cs) SYSEBA_PATH_MAX t = (Some (path_str cs), t)" for t
    using path_real_plain cs(1,2) by (simp add: path_fits_def fits_def)
  from probe_calm [OF calm cs(1,2)] obtain k s2 loc n where k: "k \<le> length cs"
    "probe_existing (path_str cs) s = (Some (path_str (take k cs)), s2)" "quiet s s2"
    "lookup_node False (path_str (take k cs)) s = Inr (loc, n)" by blast
  have "good_path (take k cs)" using cs(1) by (simp add: plain_path_def good_path_take)
  from lookup_no_links [OF this link_free_no_links [OF cs(3)] k(4)]
  have loc: "loc = take k cs" "fs_get (os_fs s) (take k cs) = Some n" by auto
  have "\<forall>l. n \<noteq> Lnk l" using cs(3) k(1) loc(2) by (auto simp: link_free_def)
  from lookup_follow_same [OF k(4) this] have
    rp: "sys_realpath (path_str (take k cs)) s2 = (Inr (path_str (take k cs)), s2)"
    using quiet_sched [OF k(3) calm] quiet_lookup [OF k(3)] loc(1) path_fits_take [OF cs(2), of k]
    by (simp add: sys_realpath_def query_calm path_fits_def fits_def syseba_limits)
  have "path_str (take k cs) @ drop (length (path_str (take k cs))) (path_str cs) = path_str cs"
  proof (cases "take k cs = []")
    case True
    then show ?thesis using path_str_Cons [of cs] by (auto simp: drop_path_str)
  next
    case False
    then have "path_str cs = path_str (take k cs) @ concat (map (Cons slash) (drop k cs))"
      by (auto simp: path_str_def simp flip: map_append concat_append)
    with False show ?thesis by (simp add: drop_path_str)
  qed
  with pr k(2,3) rp cs(2) show ?thesis by (simp add: path_resolve_links_def path_fits_def)
qed

lemma within_link_free:
  assumes "os_sched s = []" "plain_path as" "path_fits as" "link_free (os_fs s) as"
    and "plain_path bs" "path_fits bs" "link_free (os_fs s) bs"
  shows "\<exists>s'. syseba_path_is_within (path_str as) (path_str bs) s = (prefix as bs, s') \<and> quiet s s'"
proof -
  from resolve_link_free [OF assms(1-4)] obtain s1 where
    s1: "path_resolve_links (path_str as) SYSEBA_PATH_MAX s = (Some (path_str as), s1)" "quiet s s1" by blast
  from resolve_link_free [OF quiet_sched [OF s1(2) assms(1)] assms(5,6)] assms(7) quiet_fs [OF s1(2)]
  obtain s2 where s2: "path_resolve_links (path_str bs) SYSEBA_PATH_MAX s1 = (Some (path_str bs), s2)" "quiet s1 s2"
    by auto
  have "str_within (path_str as) (path_str bs) = prefix as bs"
    using str_within_path_str assms(2,5) by (auto simp: plain_path_def good_path_def)
  with s1 s2 show ?thesis by (auto simp: syseba_path_is_within_def intro: quiet_trans)
qed

text \<open>The relative path text of a list of components.\<close>

definition rel_str :: "string list \<Rightarrow> string" where
  "rel_str rs = (if rs = [] then [] else tl (path_str rs))"

lemma rel_str_Cons: "good_path rs \<Longrightarrow> rs \<noteq> [] \<Longrightarrow> rel_str rs \<noteq> [] \<and> hd (rel_str rs) = hd (hd rs)"
  by (cases rs) (auto simp: rel_str_def path_str_def good_comp_def)

lemma rel_str_no_sep:
  assumes "plain_path rs"
  shows "dropWhile is_separator (rel_str rs) = rel_str rs"
proof (cases "rs = []")
  case True
  then show ?thesis by (simp add: rel_str_def)
next
  case False
  then obtain c cs where rs: "rs = c # cs" by (cases rs) auto
  with assms have "c \<noteq> []" "slash \<notin> set c" "backslash \<notin> set c"
    by (auto simp: plain_path_def good_comp_def)
  then have "\<not> is_separator (hd c)" by (cases c) (auto simp: is_separator_def)
  with rel_str_Cons [of rs] False rs assms show ?thesis
    by (cases "rel_str rs") (auto simp: plain_path_def)
qed

lemma rel_str_chars: "set (rel_str rs) \<subseteq> insert slash (set (concat rs))"
  by (cases rs) (auto simp: rel_str_def path_str_def)

lemma path_str_rel: "path_str (bs @ rs) = (if rs = [] then path_str bs
    else if bs = [] then slash # rel_str rs else path_str bs @ slash # rel_str rs)"
  by (cases rs) (auto simp: path_str_def rel_str_def)

lemma relative_path_mirror:
  assumes "os_sched s = []" "plain_path (bs @ rs)" "path_fits bs" "path_fits (bs @ rs)"
    and "link_free (os_fs s) bs" "link_free (os_fs s) (bs @ rs)" and "fits n (rel_str rs)"
  shows "\<exists>s'. syseba_relative_path (path_str bs) (path_str (bs @ rs)) n s = (Some (rel_str rs), s') \<and> quiet s s'"
proof -
  have pb: "plain_path bs" "plain_path rs" using assms(2) by simp_all
  have r: "syseba_path_real (path_str xs) SYSEBA_PATH_MAX t = (Some (path_str xs), t)"
    if "plain_path xs" "path_fits xs" for xs t
    using path_real_plain that by (simp add: path_fits_def fits_def)
  from within_link_free [OF assms(1) pb(1) assms(3,5,2,4,6)] obtain s' where
    w: "syseba_path_is_within (path_str bs) (path_str (bs @ rs)) s = (True, s')" "quiet s s'" by auto
  have "dropWhile is_separator (drop (length (path_str bs)) (path_str (bs @ rs))) = rel_str rs"
    using rel_str_no_sep [OF pb(2)] by (auto simp: path_str_rel is_separator_def rel_str_def)
  moreover have "normalize_separators (rel_str rs) = rel_str rs"
    using rel_str_chars [of rs] pb(2) by (intro normalize_id) (auto simp: plain_path_def backslash_def)
  ultimately show ?thesis
    using r [OF pb(1) assms(3)] r [OF assms(2,4)] w assms(7)
    by (auto simp: syseba_relative_path_def Let_def)
qed

lemma real_parts_join:
  assumes "plain_path (bs @ rs)"
  shows "real_parts (path_str bs @ slash # rel_str rs) = bs @ rs"
proof -
  have pb: "plain_path bs" "plain_path rs" using assms by simp_all
  let ?c = "path_str bs @ slash # rel_str rs"
  have nb: "backslash \<notin> set ?c"
    using pb rel_str_chars [of rs] path_str_no_backslash [of bs] by (auto simp: plain_path_def backslash_def)
  have "strtok slash ?c = bs @ rs"
    using strtok_path_str [of bs] strtok_path_str [of rs] pb path_str_Cons [of rs]
    by (auto simp: strtok_append plain_path_def good_path_def rel_str_def strtok_Cons_sep)
  moreover obtain t where "path_str bs = slash # t" using path_str_Cons by blast
  ultimately show ?thesis
    using normalize_id [OF nb] assms
    by (auto simp: real_parts_def strtok_Cons_sep collect_parts_id plain_path_def)
qed

lemma safe_join_mirror:
  assumes "os_sched s = []" "plain_path (bs @ rs)" "path_fits bs" "path_fits (bs @ rs)"
    and "link_free (os_fs s) bs" "link_free (os_fs s) (bs @ rs)"
    and "length (path_str bs) + 1 + length (rel_str rs) < SYSEBA_PATH_MAX"
  shows "\<exists>s'. syseba_safe_join (path_str bs) (rel_str rs) SYSEBA_PATH_MAX s = (Some (path_str (bs @ rs)), s') \<and> quiet s s'"
proof -
  have pb: "plain_path bs" "plain_path rs" using assms(2) by simp_all
  let ?c = "path_str bs @ slash # rel_str rs"
  obtain t where "path_str bs = slash # t" using path_str_Cons by blast
  have "real_parts ?c = bs @ rs" by (rule real_parts_join [OF assms(2)])
  then have pr: "syseba_path_real ?c SYSEBA_PATH_MAX s = (Some (path_str (bs @ rs)), s)"
    using assms(4,7) \<open>path_str bs = slash # t\<close>
    by (simp add: syseba_path_real_def absolute_path_def fits_def path_real_text_eq path_fits_def)
  from within_link_free [OF assms(1) pb(1) assms(3,5,2,4,6)] obtain s' where
    "syseba_path_is_within (path_str bs) (path_str (bs @ rs)) s = (True, s')" "quiet s s'" by auto
  with pr assms(7) rel_str_no_sep [OF pb(2)] show ?thesis
    by (auto simp: syseba_safe_join_def fits_def)
qed

text \<open>
  A source path is mirrored to the same place in the backup. On link-free trees, the relative
  path of \<open>source/r\<close> joined to the backup directory is \<open>backup/r\<close>, component for component, so that
  distinct source paths have distinct backup paths.
\<close>

theorem mirror_path:
  assumes "os_sched s = []"
    and "plain_path (src @ rs)" "path_fits src" "path_fits (src @ rs)"
    and "link_free (os_fs s) src" "link_free (os_fs s) (src @ rs)"
    and "plain_path (bak @ rs)" "path_fits bak" "path_fits (bak @ rs)"
    and "link_free (os_fs s) bak" "link_free (os_fs s) (bak @ rs)"
    and "length (path_str bak) + 1 + length (rel_str rs) < SYSEBA_PATH_MAX"
  shows "\<exists>s1 s2. syseba_relative_path (path_str src) (path_str (src @ rs)) SYSEBA_PATH_MAX s = (Some (rel_str rs), s1) \<and>
    syseba_safe_join (path_str bak) (rel_str rs) SYSEBA_PATH_MAX s1 = (Some (path_str (bak @ rs)), s2) \<and> quiet s s2"
proof -
  have "fits SYSEBA_PATH_MAX (rel_str rs)" using assms(12) by (simp add: fits_def)
  from relative_path_mirror [OF assms(1-6) this] obtain s1 where
    s1: "syseba_relative_path (path_str src) (path_str (src @ rs)) SYSEBA_PATH_MAX s = (Some (rel_str rs), s1)"
    "quiet s s1" by blast
  from safe_join_mirror [OF quiet_sched [OF s1(2) assms(1)] assms(7-9) _ _ assms(12)] assms(10,11) quiet_fs [OF s1(2)]
  obtain s2 where "syseba_safe_join (path_str bak) (rel_str rs) SYSEBA_PATH_MAX s1 = (Some (path_str (bak @ rs)), s2)"
    "quiet s1 s2" by auto
  with s1 show ?thesis by (blast intro: quiet_trans)
qed

lemmas demo_eval =
  demo_os_def quiet_os_def fs_get_def plain_path_def good_path_def good_comp_def backslash_def path_fits_def
  fits_def path_str_def syseba_limits link_free_def dir_chain_def rel_str_def

theorem mirror_path_witness:
  "\<exists>s1 s2. syseba_relative_path (path_str [''src'']) (path_str ([''src''] @ [''a''])) SYSEBA_PATH_MAX demo_os
       = (Some (rel_str [''a'']), s1) \<and>
     syseba_safe_join (path_str [''bak'']) (rel_str [''a'']) SYSEBA_PATH_MAX s1 = (Some (path_str ([''bak''] @ [''a''])), s2) \<and>
     quiet demo_os s2"
  by (rule mirror_path) (auto simp: demo_eval le_Suc_eq)

theorem safe_join_contained_witness:
  "\<exists>out s'. syseba_safe_join (path_str [''src'']) ''a'' SYSEBA_PATH_MAX demo_os = (Some out, s') \<and>
     (\<forall>loc nd. lookup_node True out demo_os = Inr (loc, nd) \<longrightarrow> prefix [''src''] loc)"
proof -
  have "rel_str [''a''] = ''a''" by (simp add: rel_str_def path_str_def)
  moreover have "\<exists>s'. syseba_safe_join (path_str [''src'']) (rel_str [''a'']) SYSEBA_PATH_MAX demo_os
      = (Some (path_str ([''src''] @ [''a''])), s') \<and> quiet demo_os s'"
    by (rule safe_join_mirror) (auto simp: demo_eval le_Suc_eq)
  ultimately obtain s' where j: "syseba_safe_join (path_str [''src'']) ''a'' SYSEBA_PATH_MAX demo_os
      = (Some (path_str ([''src''] @ [''a''])), s')" by auto
  have names: "plain_names (os_fs demo_os)"
    by (auto simp: plain_names_def demo_eval split: if_splits)
  from safe_join_contained [OF _ names _ _ _ _ j] have
    "\<forall>loc nd. lookup_node True (path_str ([''src''] @ [''a''])) demo_os = Inr (loc, nd) \<longrightarrow> prefix [''src''] loc"
    by (auto simp: demo_eval)
  with j show ?thesis by blast
qed

section \<open>Saving and loading\<close>

lemma fgets_line:
  assumes "newline \<notin> set l" and "length l + 1 < n"
  shows "fgets n (l @ newline # rest) = (l @ [newline], rest)"
proof -
  have "takeWhile (\<lambda>c. c \<noteq> newline) (l @ newline # rest) = l"
    using assms(1) by (auto simp: takeWhile_append)
  then show ?thesis using assms(2) by (simp add: fgets_def Let_def)
qed

lemma config_lines_step:
  assumes "newline \<notin> set l" and "CHR 0x00 \<notin> set l" and "length l + 1 < line_buffer"
  shows "config_lines (l @ newline # rest) st =
    (case config_line (l @ [newline]) (st\<lparr>ps_line_number := ps_line_number st + 1\<rparr>) of
       None \<Rightarrow> None | Some st' \<Rightarrow> config_lines rest st')"
proof -
  have "c_string (l @ [newline]) = l @ [newline]"
    using assms(2) by (auto simp: c_string_def newline_def takeWhile_append)
  with fgets_line [OF assms(1,3), of rest] show ?thesis by (subst config_lines.simps) simp
qed

lemma trim_newline: "trimmed v \<Longrightarrow> syseba_trim (v @ [newline]) = v"
  by (simp add: syseba_trim_def c_trim_append_space c_trim_id newline_def c_isspace_def uchar_def)

lemma trim_space: "trimmed v \<Longrightarrow> syseba_trim (CHR '' '' # v) = v"
  by (simp add: syseba_trim_def c_trim_Cons_space c_trim_id c_isspace_def uchar_def)

lemma trim_space_end: "trimmed v \<Longrightarrow> syseba_trim (v @ '' '') = v"
  by (simp add: syseba_trim_def c_trim_append_space c_trim_id c_isspace_def uchar_def)

lemma trim_spaces: "\<forall>c \<in> set ws. c_isspace c \<Longrightarrow> syseba_trim (v @ ws) = syseba_trim v"
  by (induction ws rule: rev_induct) (simp_all add: syseba_trim_def c_trim_append_space flip: append_assoc)

lemma setting_line:
  assumes key: "key \<noteq> []" "trimmed key" "CHR ''='' \<notin> set key" "hd key \<notin> {CHR ''#'', CHR '';'', CHR ''[''}"
    and v: "v \<noteq> []" "trimmed v" and ws: "\<forall>c \<in> set ws. c_isspace c"
    and st: "ps_settings st" "ps_line_number st \<noteq> 1"
  shows "config_line (key @ '' = '' @ v @ ws @ [newline]) st = config_set key v st"
proof -
  let ?t = "key @ '' = '' @ v"
  have "trimmed ?t" using key(1,2) v by (auto simp: trimmed_def)
  moreover have "\<forall>c \<in> set (ws @ [newline]). c_isspace c"
    using ws by (auto simp: newline_def c_isspace_def uchar_def)
  from trim_spaces [OF this, of ?t] have "syseba_trim (key @ '' = '' @ v @ ws @ [newline]) = syseba_trim ?t"
    by simp
  ultimately have trim: "syseba_trim (key @ '' = '' @ v @ ws @ [newline]) = ?t"
    by (simp add: syseba_trim_def c_trim_id)
  have "takeWhile (\<lambda>c. c \<noteq> CHR ''='') ?t = key @ '' ''"
    using key(3) by (auto simp: takeWhile_append)
  moreover have "dropWhile (\<lambda>c. c \<noteq> CHR ''='') ?t = CHR ''='' # CHR '' '' # v"
    using key(3) by (auto simp: dropWhile_append)
  ultimately show ?thesis
    using st trim key trim_space [OF v(2)] trim_space_end [OF key(2)]
    by (simp add: config_line_def Let_def)
qed

lemma trimmed_digits: "trimmed (dec n)"
  using dec_digits [of n] dec_hd [of n] last_in_set [OF dec_nonempty [of n]]
  by (auto simp: trimmed_def dest: isdigit_not_space)

lemma parse_threads_dec: "1 \<le> n \<Longrightarrow> n \<le> SYSEBA_MAX_THREADS \<Longrightarrow> parse_threads (dec n) = Some n"
  using c_strtoul_dec [of n "[]"]
  by (simp add: parse_threads_def syseba_trim_def c_trim_def syseba_limits ULONG_MAX_def)

lemma config_set_keys:
  "fits SYSEBA_PATH_MAX v \<Longrightarrow> config_set ''source'' v st = Some (st\<lparr>ps_source := v\<rparr>)"
  "fits SYSEBA_PATH_MAX v \<Longrightarrow> config_set ''backup'' v st = Some (st\<lparr>ps_backup := v\<rparr>)"
  "fits SYSEBA_PATH_MAX v \<Longrightarrow> config_set ''restore'' v st = Some (st\<lparr>ps_restore := v\<rparr>)"
  "fits SYSEBA_PATH_MAX v \<Longrightarrow> config_set ''log'' v st = Some (st\<lparr>ps_log_file := v\<rparr>)"
  "parse_threads v = Some t \<Longrightarrow> config_set ''threads'' v st = Some (st\<lparr>ps_threads := t\<rparr>)"
  by (simp_all add: config_set_def cstr)

definition storable :: "string \<Rightarrow> bool" where
  "storable v \<longleftrightarrow> v \<noteq> [] \<and> newline \<notin> set v \<and> CHR 0x00 \<notin> set v \<and> fits SYSEBA_PATH_MAX v"

lemma config_line_stored:
  assumes "key \<in> {''source'', ''backup'', ''restore'', ''log'', ''threads''}"
    and "storable (v @ ws)" "v \<noteq> []" "trimmed v" "\<forall>c \<in> set ws. c_isspace c" "ps_settings st" "0 < ps_line_number st"
  shows "config_lines (key @ '' = '' @ v @ ws @ newline # rest) st =
    (case config_set key v (st\<lparr>ps_line_number := ps_line_number st + 1\<rparr>) of
       None \<Rightarrow> None | Some st' \<Rightarrow> config_lines rest st')"
proof -
  let ?l = "key @ '' = '' @ v @ ws"
  have "newline \<notin> set ?l" "CHR 0x00 \<notin> set ?l" "length ?l + 1 < line_buffer"
    using assms(1,2) by (auto simp: storable_def newline_def line_buffer_def syseba_limits fits_def)
  from config_lines_step [OF this, of rest st] setting_line [of key v ws "st\<lparr>ps_line_number := ps_line_number st + 1\<rparr>"]
    assms show ?thesis
    by (auto simp: trimmed_def c_isspace_def uchar_def)
qed

lemma config_preamble:
  "config_lines (''# SySeBa configuration'' @ [newline] @ ''[SETTINGS]'' @ [newline] @ rest) parse_start =
     config_lines rest (parse_start\<lparr>ps_line_number := 2, ps_settings := True, ps_found_settings := True\<rparr>)"
proof -
  have "config_lines (''# SySeBa configuration'' @ newline # ''[SETTINGS]'' @ newline # rest) parse_start =
      config_lines (''[SETTINGS]'' @ newline # rest) (parse_start\<lparr>ps_line_number := 1\<rparr>)"
    by (subst config_lines_step)
      (simp_all add: newline_def line_buffer_def syseba_limits config_line_def utf8_bom_def syseba_trim_def
        c_trim_def c_isspace_def uchar_def parse_start_def)
  also have "\<dots> = config_lines rest (parse_start\<lparr>ps_line_number := 2, ps_settings := True, ps_found_settings := True\<rparr>)"
    by (subst config_lines_step)
      (simp_all add: newline_def line_buffer_def syseba_limits config_line_def utf8_bom_def syseba_trim_def
        c_trim_def cstr parse_start_def numeral_2_eq_2)
  finally show ?thesis by simp
qed

lemma stored_lines:
  assumes "ps_settings st" "0 < ps_line_number st"
  shows "storable (v @ ws) \<Longrightarrow> v \<noteq> [] \<Longrightarrow> trimmed v \<Longrightarrow> \<forall>c \<in> set ws. c_isspace c \<Longrightarrow>
      config_lines (''source = '' @ (v @ ws) @ [newline] @ rest) st =
      config_lines rest (st\<lparr>ps_line_number := ps_line_number st + 1, ps_source := v\<rparr>)"
    and "storable v \<Longrightarrow> trimmed v \<Longrightarrow> config_lines (''backup = '' @ v @ [newline] @ rest) st =
      config_lines rest (st\<lparr>ps_line_number := ps_line_number st + 1, ps_backup := v\<rparr>)"
    and "storable v \<Longrightarrow> trimmed v \<Longrightarrow> config_lines (''restore = '' @ v @ [newline] @ rest) st =
      config_lines rest (st\<lparr>ps_line_number := ps_line_number st + 1, ps_restore := v\<rparr>)"
    and "storable v \<Longrightarrow> trimmed v \<Longrightarrow> config_lines (''log = '' @ v @ [newline] @ rest) st =
      config_lines rest (st\<lparr>ps_line_number := ps_line_number st + 1, ps_log_file := v\<rparr>)"
    and "storable v \<Longrightarrow> trimmed v \<Longrightarrow> parse_threads v = Some t \<Longrightarrow>
      config_lines (''threads = '' @ v @ [newline] @ rest) st =
      config_lines rest (st\<lparr>ps_line_number := ps_line_number st + 1, ps_threads := t\<rparr>)"
  using config_line_stored [of "''source''" v ws st rest] config_line_stored [of "''backup''" v "[]" st rest]
    config_line_stored [of "''restore''" v "[]" st rest] config_line_stored [of "''log''" v "[]" st rest]
    config_line_stored [of "''threads''" v "[]" st rest] assms
  by (auto simp: storable_def fits_def config_set_keys)

text \<open>The paths of a configuration and its thread count survive the file; \<open>ws\<close> is lost after the source.\<close>

lemma config_text_parsed:
  assumes src: "cfg_source c = v @ ws" "storable (v @ ws)" "v \<noteq> []" "trimmed v" "\<forall>x \<in> set ws. c_isspace x"
    and "\<forall>v \<in> {cfg_backup c, cfg_restore c, cfg_log_file c}. storable v \<and> trimmed v"
    and "1 \<le> cfg_threads c" "cfg_threads c \<le> SYSEBA_MAX_THREADS"
  shows "config_lines (config_text c) parse_start =
    Some \<lparr>ps_source = v, ps_backup = cfg_backup c, ps_restore = cfg_restore c,
      ps_log_file = cfg_log_file c, ps_threads = cfg_threads c, ps_line_number = 7, ps_settings = True,
      ps_found_settings = True\<rparr>"
proof -
  let ?d = "dec (cfg_threads c)" and ?st = "parse_start\<lparr>ps_line_number := 2, ps_settings := True, ps_found_settings := True\<rparr>"
  let ?log = "''log = '' @ cfg_log_file c @ [newline] @ ''threads = '' @ ?d @ [newline]"
  have "length ?d \<le> 2"
    using dec_length [of "cfg_threads c" 1] assms(8) by (simp add: syseba_limits)
  then have d: "storable ?d"
    using dec_digits [of "cfg_threads c"]
    by (auto simp: storable_def newline_def fits_def syseba_limits c_isdigit_def uchar_def)
  have "config_lines (config_text c) parse_start =
      config_lines (''source = '' @ (v @ ws) @ [newline] @ ''backup = '' @ cfg_backup c @ [newline] @
        ''restore = '' @ cfg_restore c @ [newline] @ ?log) ?st"
    unfolding config_text_def config_preamble src(1) ..
  also have "\<dots> = config_lines (''backup = '' @ cfg_backup c @ [newline] @ ''restore = '' @ cfg_restore c @ [newline] @ ?log)
      (?st\<lparr>ps_line_number := 3, ps_source := v\<rparr>)"
    using src by (subst stored_lines(1)) (simp_all add: parse_start_def)
  also have "\<dots> = config_lines (''restore = '' @ cfg_restore c @ [newline] @ ?log)
      (?st\<lparr>ps_line_number := 4, ps_source := v, ps_backup := cfg_backup c\<rparr>)"
    using assms(6) by (subst stored_lines(2)) (simp_all add: parse_start_def)
  also have "\<dots> = config_lines ?log
      (?st\<lparr>ps_line_number := 5, ps_source := v, ps_backup := cfg_backup c, ps_restore := cfg_restore c\<rparr>)"
    using assms(6) by (subst stored_lines(3)) (simp_all add: parse_start_def)
  also have "\<dots> = config_lines (''threads = '' @ ?d @ [newline] @ [])
      (?st\<lparr>ps_line_number := 6, ps_source := v, ps_backup := cfg_backup c, ps_restore := cfg_restore c,
        ps_log_file := cfg_log_file c\<rparr>)"
    using assms(6) by (subst stored_lines(4)) (simp_all add: parse_start_def)
  also have "\<dots> = config_lines [] (?st\<lparr>ps_line_number := 7, ps_source := v, ps_backup := cfg_backup c,
        ps_restore := cfg_restore c, ps_log_file := cfg_log_file c, ps_threads := cfg_threads c\<rparr>)"
    using d trimmed_digits parse_threads_dec [OF assms(7,8)] by (subst stored_lines(5)) (simp_all add: parse_start_def)
  finally show ?thesis by (simp add: config_lines.simps parse_start_def)
qed


definition demo_config :: config where
  "demo_config = \<lparr>cfg_source = ''/src'', cfg_backup = ''/bak'', cfg_restore = ''/res'',
     cfg_log_file = ''/var/log/s.log'', cfg_config_path = ''/etc/s.conf'', cfg_threads = 12\<rparr>"


text \<open>
  Trailing white space of a path does not survive the file: a source directory whose name ends
  with white space is accepted and saved, and the next load reads a different, shorter path.
\<close>

theorem config_trailing_space_lost:
  assumes "cfg_source c = v @ ws" "ws \<noteq> []" "\<forall>x \<in> set ws. c_isspace x" "v \<noteq> []" "trimmed v" "storable (cfg_source c)"
    and "\<forall>v \<in> {cfg_backup c, cfg_restore c, cfg_log_file c}. storable v \<and> trimmed v"
    and "1 \<le> cfg_threads c" "cfg_threads c \<le> SYSEBA_MAX_THREADS"
  shows "\<exists>st. config_lines (config_text c) parse_start = Some st \<and> ps_source st = v \<and> ps_source st \<noteq> cfg_source c"
  using config_text_parsed [OF assms(1) _ assms(4,5,3,7-9)] assms(1,2,6) by auto

theorem config_trailing_space_lost_witness:
  "\<exists>st. config_lines (config_text (demo_config\<lparr>cfg_source := ''/src'' @ '' ''\<rparr>)) parse_start = Some st \<and>
     ps_source st = ''/src''"
  using config_trailing_space_lost [of "demo_config\<lparr>cfg_source := ''/src'' @ '' ''\<rparr>" "''/src''" "'' ''"]
  by (auto simp: demo_config_def storable_def newline_def fits_def syseba_limits trimmed_def c_isspace_def uchar_def)

section \<open>Validation\<close>

definition usable_path :: "os \<Rightarrow> cpath \<Rightarrow> bool" where
  "usable_path s cs \<longleftrightarrow> plain_path cs \<and> path_fits cs \<and> link_free (os_fs s) cs"

lemma usable_quiet: "quiet s s' \<Longrightarrow> usable_path s' cs = usable_path s cs"
  using quiet_fs [of s s'] by (simp add: usable_path_def)

lemma any_within_link_free:
  assumes "os_sched s = []" and "\<forall>(a, b) \<in> set ps. usable_path s a \<and> usable_path s b"
  shows "\<exists>s'. any_within (map (\<lambda>(a, b). (path_str a, path_str b)) ps) s = ((\<exists>(a, b) \<in> set ps. prefix a b), s') \<and> quiet s s'"
  using assms
proof (induction ps arbitrary: s)
  case (Cons p ps)
  obtain a b where p: "p = (a, b)" by (cases p)
  have ab: "usable_path s a" "usable_path s b" using Cons.prems(2) p by simp_all
  from within_link_free [OF Cons.prems(1)] ab obtain s1 where
    s1: "syseba_path_is_within (path_str a) (path_str b) s = (prefix a b, s1)" "quiet s s1"
    unfolding usable_path_def by blast
  have "\<forall>(a, b) \<in> set ps. usable_path s1 a \<and> usable_path s1 b"
    using Cons.prems(2) by (simp add: usable_quiet [OF s1(2)])
  from Cons.IH [OF quiet_sched [OF s1(2) Cons.prems(1)] this]
  obtain s2 where "any_within (map (\<lambda>(a, b). (path_str a, path_str b)) ps) s1 = ((\<exists>(a, b) \<in> set ps. prefix a b), s2)"
    "quiet s1 s2" by blast
  with s1 p show ?case by (auto intro: quiet_trans split: bool.splits)
qed auto

lemma is_directory_calm:
  assumes "os_sched s = []" "good_path cs" "no_links (os_fs s) cs"
  shows "\<exists>s1. syseba_fs_is_directory (path_str cs) s = (lookup_node False (path_str cs) s = Inr (cs, Dir), s1) \<and> quiet s s1"
proof -
  have q: "quiet s (snd (syseba_fs_is_directory (path_str cs) s))" by (rule is_directory_quiet)
  show ?thesis
  proof (cases "lookup_node False (path_str cs) s")
    case (Inr p)
    obtain loc n where "p = (loc, n)" by (cases p)
    with Inr lookup_no_links [OF assms(2,3)] q assms(1) show ?thesis
      by (auto simp: syseba_fs_is_directory_def sys_lstat_def query_calm)
  qed (use q assms(1) in \<open>auto simp: syseba_fs_is_directory_def sys_lstat_def query_calm\<close>)
qed



section \<open>Well-formed configurations\<close>

text \<open>
  The type invariant of \<^verbatim>\<open>syseba_config_t\<close>: canonical absolute paths that fit their buffers and have no line
  break, three different directories, and a number of threads in range.
\<close>

definition wf_path :: "string \<Rightarrow> bool" where
  "wf_path v \<longleftrightarrow> (\<exists>cs. good_path cs \<and> v = path_str cs) \<and> fits SYSEBA_PATH_MAX v \<and> \<not> has_line_break v"

definition wf_config :: "config \<Rightarrow> bool" where
  "wf_config c \<longleftrightarrow>
     wf_path (cfg_source c) \<and> wf_path (cfg_backup c) \<and> wf_path (cfg_restore c) \<and> wf_path (cfg_log_file c) \<and>
     wf_path (cfg_config_path c) \<and> distinct [cfg_source c, cfg_backup c, cfg_restore c] \<and>
     1 \<le> cfg_threads c \<and> cfg_threads c \<le> SYSEBA_MAX_THREADS"

lemma path_real_shape:
  assumes "syseba_path_real path n s = (Some out, s')"
  shows "(\<exists>cs. good_path cs \<and> out = path_str cs) \<and> fits n out"
proof -
  from assms obtain absolute where "path_real_text absolute n = Some out"
    by (auto simp: syseba_path_real_def split: prod.splits option.splits)
  then show ?thesis using real_parts_good by (auto simp: path_real_text_eq fits_def split: if_splits)
qed

lemma resolve_all_shape:
  assumes "resolve_all base vs s = (Some rs, s')"
  shows "length rs = length vs \<and> (\<forall>r \<in> set rs. (\<exists>cs. good_path cs \<and> r = path_str cs) \<and> fits SYSEBA_PATH_MAX r)"
  using assms
proof (induction vs arbitrary: rs s)
  case (Cons v vs)
  from Cons.prems obtain r s1 rs' where r: "resolve_config_path base v SYSEBA_PATH_MAX s = (Some r, s1)"
    and rs: "resolve_all base vs s1 = (Some rs', s')" "rs = r # rs'"
    by (auto split: prod.splits option.splits)
  have "(\<exists>cs. good_path cs \<and> r = path_str cs) \<and> fits SYSEBA_PATH_MAX r"
    using r path_real_shape by (auto simp: resolve_config_path_def Let_def split: if_splits)
  with Cons.IH [OF rs(1)] rs(2) show ?case by simp
qed simp

lemma config_of_threads [simp]: "cfg_threads (config_of rs path n) = n"
  by (simp add: config_of_def)

lemma validate_wf:
  assumes "resolve_all base [v0, v1, v2, v3] s = (Some rs, s1)" "syseba_path_real path SYSEBA_PATH_MAX s0 = (Some cp, s2)"
    and "syseba_config_validate (config_of rs cp n) s3 = (SYSEBA_OK, s4)"
  shows "wf_config (config_of rs cp n)"
proof -
  from resolve_all_shape [OF assms(1)] obtain a b c d where rs: "rs = [a, b, c, d]"
    and sh: "\<forall>r \<in> {a, b, c, d}. (\<exists>cs. good_path cs \<and> r = path_str cs) \<and> fits SYSEBA_PATH_MAX r"
    by (auto simp: length_Suc_conv)
  from assms(3) have "\<not> has_line_break a" "\<not> has_line_break b" "\<not> has_line_break c" "\<not> has_line_break d"
    "\<not> has_line_break cp" "a \<noteq> b" "a \<noteq> c" "b \<noteq> c" "1 \<le> n" "n \<le> SYSEBA_MAX_THREADS"
    by (auto simp: syseba_config_validate_def config_of_def rs simp del: any_within.simps split: if_splits prod.splits bool.splits)
  with sh path_real_shape [OF assms(2)] show ?thesis by (simp add: wf_config_def wf_path_def config_of_def rs)
qed

text \<open>
  C33: only well-formed configurations get into the program. Whatever the file or the request holds and
  whatever calls fail, a configuration that \<^verbatim>\<open>syseba_config_load\<close> returns, and one that
  \<^verbatim>\<open>syseba_config_normalize\<close> returns for the Web UI, has canonical absolute paths that fit their
  buffers, without line breaks, three different directories and a number of threads between 1 and 64;
  otherwise the result is an error code.
\<close>

theorem config_results_wellformed:
  "(case fst (syseba_config_load path s) of Inl e \<Rightarrow> e \<noteq> SYSEBA_OK | Inr c \<Rightarrow> wf_config c) \<and>
   (case fst (syseba_config_normalize d t) of Inl e \<Rightarrow> e \<noteq> SYSEBA_OK | Inr c \<Rightarrow> wf_config c \<and> cfg_threads c = cfg_threads d)"
proof
  have fin: "case fst (config_finish cp base st s1) of Inl e \<Rightarrow> e \<noteq> SYSEBA_OK | Inr c \<Rightarrow> wf_config c"
    if "syseba_path_real path SYSEBA_PATH_MAX s = (Some cp, s0)" for cp base st s1 s0
    using that by (auto simp: config_finish_def Let_def validate_wf simp del: resolve_all.simps split: prod.splits option.splits result.splits)
  show "case fst (syseba_config_load path s) of Inl e \<Rightarrow> e \<noteq> SYSEBA_OK | Inr c \<Rightarrow> wf_config c"
    using fin by (auto simp: syseba_config_load_def split: prod.splits option.splits)
  show "case fst (syseba_config_normalize d t) of Inl e \<Rightarrow> e \<noteq> SYSEBA_OK | Inr c \<Rightarrow> wf_config c \<and> cfg_threads c = cfg_threads d"
    by (auto simp: syseba_config_normalize_def Let_def validate_wf simp del: resolve_all.simps
        split: prod.splits option.splits result.splits)
qed

end
