(* ===== verification/Tree.thy ===== *)
theory Tree
  imports Config
begin

text \<open>
  The operations of \<^verbatim>\<open>fs.c\<close> on whole trees: walking a directory with a callback, copying, removing
  and moving trees, and choosing unused names for restored files. The walk is the code's recursion
  over \<^verbatim>\<open>readdir\<close> and \<^verbatim>\<open>lstat\<close>, with its use of \<^verbatim>\<open>errno\<close>: cleared once when a directory is opened and
  tested when the listing ends. It terminates because every level makes the path longer and paths
  must fit their buffer. The contract between the walk and a callback is the locale \<open>walk_client\<close>.
\<close>

section \<open>Walking\<close>

definition clear_errno :: "os \<Rightarrow> os" where
  "clear_errno s = s\<lparr>os_errno := None\<rparr>"

type_synonym 'c callback = "string \<Rightarrow> bool \<Rightarrow> 'c \<Rightarrow> os \<Rightarrow> int \<times> 'c \<times> os"

text \<open>
  The loop over the entries of the directory \<open>root\<close>; \<open>broken\<close> is the error at which \<^verbatim>\<open>readdir\<close> stops
  early. The recursive call of \<^verbatim>\<open>syseba_walk_internal\<close> for a subdirectory is the inner
  \<open>sys_readdir\<close> with its own loop.
\<close>

function walk_entries :: "'c callback \<Rightarrow> string \<Rightarrow> errno option \<Rightarrow> string list \<Rightarrow> 'c \<Rightarrow> os \<Rightarrow> int \<times> 'c \<times> os" where
  "walk_entries cb root broken [] c s =
     (let s' = (case broken of None \<Rightarrow> s | Some e \<Rightarrow> set_errno e s)
      in (if os_errno s' \<noteq> None then - 1 else 0, c, s'))"
| "walk_entries cb root broken (name # names) c s =
     (if name = ''.'' \<or> name = ''..'' then walk_entries cb root broken names c s
      else let path = root @ slash # name in
        if \<not> fits SYSEBA_PATH_MAX path then (- 1, c, set_errno ENAMETOOLONG s)
        else (case sys_lstat path s of
                (Inl e, s1) \<Rightarrow>
                  if e = ENOENT then walk_entries cb root broken names c s1 else (- 1, c, s1)
              | (Inr (loc, node), s1) \<Rightarrow>
                  if node \<noteq> Dir \<and> \<not> (case node of Reg f \<Rightarrow> True | _ \<Rightarrow> False)
                  then walk_entries cb root broken names c s1
                  else (case cb path (node = Dir) c s1 of (r, c1, s2) \<Rightarrow>
                    if r \<noteq> 0 then (- 1, c1, s2)
                    else if node \<noteq> Dir then walk_entries cb root broken names c1 s2
                    else (case sys_readdir path s2 of
                            (Inl e, s3) \<Rightarrow> (- 1, c1, s3)
                          | (Inr (names2, broken2), s3) \<Rightarrow>
                              (case walk_entries cb path broken2 names2 c1 (clear_errno s3) of (r2, c2, s4) \<Rightarrow>
                                 if r2 \<noteq> 0 then (- 1, c2, s4)
                                 else walk_entries cb root broken names c2 s4)))))"
  by pat_completeness auto
termination
  by (relation "measures [\<lambda>(cb, root, broken, names, c, s). SYSEBA_PATH_MAX - length root,
        \<lambda>(cb, root, broken, names, c, s). length names]") (auto simp: fits_def)

declare walk_entries.simps(2) [simp del]

definition walk_internal :: "'c callback \<Rightarrow> string \<Rightarrow> 'c \<Rightarrow> os \<Rightarrow> int \<times> 'c \<times> os" where
  "walk_internal cb root c s =
     (case sys_readdir root s of
        (Inl e, s1) \<Rightarrow> (- 1, c, s1)
      | (Inr (names, broken), s1) \<Rightarrow> walk_entries cb root broken names c (clear_errno s1))"

definition syseba_walk_files :: "'c callback \<Rightarrow> string \<Rightarrow> 'c \<Rightarrow> os \<Rightarrow> int \<times> 'c \<times> os" where
  "syseba_walk_files cb root c s =
     (case syseba_fs_is_directory root s of
        (False, s1) \<Rightarrow> (- 1, c, set_errno ENOTDIR s1)
      | (True, s1) \<Rightarrow> walk_internal cb root c s1)"

section \<open>Copying, removing and moving trees\<close>

definition copy_tree_entry :: "string \<Rightarrow> string \<Rightarrow> bool \<Rightarrow> unit callback" where
  "copy_tree_entry source destination overwrite path directory c s =
     (case syseba_relative_path source path SYSEBA_PATH_MAX s of
        (None, s1) \<Rightarrow> (- 1, c, set_errno EINVAL s1)
      | (Some relative, s1) \<Rightarrow>
          (case syseba_safe_join destination relative SYSEBA_PATH_MAX s1 of
             (None, s2) \<Rightarrow> (- 1, c, set_errno EINVAL s2)
           | (Some target, s2) \<Rightarrow>
               if directory then (case syseba_mkdirs target s2 of (r, s3) \<Rightarrow> (r, c, s3))
               else (case (if overwrite then (False, s2) else syseba_fs_exists target s2) of
                       (True, s3) \<Rightarrow> (- 1, c, set_errno EEXIST s3)
                     | (False, s3) \<Rightarrow> (case syseba_copy_file path target 4 s3 of (r, s4) \<Rightarrow> (r, c, s4)))))"

definition syseba_copy_tree :: "string \<Rightarrow> string \<Rightarrow> bool \<Rightarrow> os \<Rightarrow> int \<times> os" where
  "syseba_copy_tree source destination overwrite s =
     (case syseba_fs_is_directory source s of
        (False, s1) \<Rightarrow> (- 1, set_errno ENOTDIR s1)
      | (True, s1) \<Rightarrow>
          (case syseba_fs_exists destination s1 of (present, s2) \<Rightarrow>
             (case (if present then syseba_fs_is_directory destination s2 else (True, s2)) of
                (False, s3) \<Rightarrow> (- 1, set_errno EEXIST s3)
              | (True, s3) \<Rightarrow>
                  (case syseba_mkdirs destination s3 of (r, s4) \<Rightarrow>
                     if r \<noteq> 0 then (- 1, s4)
                     else (case syseba_walk_files (copy_tree_entry source destination overwrite) source () s4 of
                             (r2, _, s5) \<Rightarrow> (r2, s5))))))"

text \<open>
  Collecting the paths to remove, in the order of the walk. Each call may fail when memory runs out;
  \<open>memory\<close> says for which number of collected paths it still suffices.
\<close>

definition remove_collect :: "(nat \<Rightarrow> bool) \<Rightarrow> (string \<times> bool) list callback" where
  "remove_collect memory path directory c s =
     (if memory (length c) then (0, c @ [(path, directory)], s) else (- 1, c, set_errno ENOMEM s))"

fun remove_items :: "(string \<times> bool) list \<Rightarrow> os \<Rightarrow> int \<times> os" where
  "remove_items [] s = (0, s)"
| "remove_items ((path, directory) # items) s =
     (case (if directory then sys_rmdir path s else sys_unlink path s) of
        (Inl e, s1) \<Rightarrow> (- 1, s1)
      | (Inr _, s1) \<Rightarrow> remove_items items s1)"

definition syseba_remove_path :: "(nat \<Rightarrow> bool) \<Rightarrow> string \<Rightarrow> os \<Rightarrow> int \<times> os" where
  "syseba_remove_path memory path s =
     (case syseba_fs_exists path s of
        (False, s1) \<Rightarrow> (0, s1)
      | (True, s1) \<Rightarrow>
          (case syseba_fs_is_directory path s1 of
             (False, s2) \<Rightarrow> (case sys_unlink path s2 of (Inl e, s3) \<Rightarrow> (- 1, s3) | (Inr _, s3) \<Rightarrow> (0, s3))
           | (True, s2) \<Rightarrow>
               (case syseba_walk_files (remove_collect memory) path [] s2 of (r, items, s3) \<Rightarrow>
                  if r \<noteq> 0 then (r, s3)
                  else (case remove_items (rev items) s3 of (r2, s4) \<Rightarrow>
                    if r2 \<noteq> 0 then (r2, s4)
                    else (case sys_rmdir path s4 of (Inl e, s5) \<Rightarrow> (- 1, s5) | (Inr _, s5) \<Rightarrow> (0, s5))))))"

definition syseba_move_path :: "(nat \<Rightarrow> bool) \<Rightarrow> string \<Rightarrow> string \<Rightarrow> os \<Rightarrow> int \<times> os" where
  "syseba_move_path memory source destination s =
     (case prepare_destination destination s of (r, s1) \<Rightarrow>
        if r \<noteq> 0 then (- 1, s1)
        else (case sys_rename source destination s1 of
                (Inr _, s2) \<Rightarrow> (0, s2)
              | (Inl e, s2) \<Rightarrow>
                  if e \<noteq> EXDEV then (- 1, s2)
                  else (case syseba_fs_is_directory source s2 of (directory, s3) \<Rightarrow>
                    (case (if directory then syseba_copy_tree source destination True s3
                           else syseba_copy_file source destination 4 s3) of (r2, s4) \<Rightarrow>
                       if r2 \<noteq> 0 then (- 1, s4) else syseba_remove_path memory source s4))))"

section \<open>Unused names\<close>

definition compact_stamp :: "os \<Rightarrow> string" where
  "compact_stamp s =
     (let t = os_localtime s (os_time s) in
      dec (tm_year t) @ dec2 (tm_mon t) @ dec2 (tm_mday t) @ ''-'' @
      dec2 (tm_hour t) @ dec2 (tm_min t) @ dec2 (tm_sec t))"

text \<open>
  The search loop of both functions: \<open>candidate k\<close> is the name tried at counter \<open>k\<close>, \<open>left\<close> the
  number of tries left (100000 in all).
\<close>

fun unique_loop :: "(nat \<Rightarrow> string) \<Rightarrow> nat \<Rightarrow> nat \<Rightarrow> nat \<Rightarrow> os \<Rightarrow> string option \<times> os" where
  "unique_loop candidate n 0 counter s = (None, set_errno EEXIST s)"
| "unique_loop candidate n (Suc left) counter s =
     (if \<not> fits n (candidate counter) then (None, s)
      else (case syseba_fs_exists (candidate counter) s of
              (False, s1) \<Rightarrow> (Some (candidate counter), s1)
            | (True, s1) \<Rightarrow> unique_loop candidate n left (counter + 1) s1))"

definition unique_tries :: nat where
  "unique_tries = 100000"

definition restore_candidate :: "string \<Rightarrow> string \<Rightarrow> nat \<Rightarrow> string" where
  "restore_candidate path stamp counter =
     path @ ''.'' @ stamp @ (if counter = 0 then [] else ''.'' @ dec counter)"

definition syseba_unique_restore_path :: "string \<Rightarrow> nat \<Rightarrow> os \<Rightarrow> string option \<times> os" where
  "syseba_unique_restore_path path n s =
     (case syseba_fs_exists path s of
        (False, s1) \<Rightarrow> (if fits n path then Some path else None, s1)
      | (True, s1) \<Rightarrow> unique_loop (restore_candidate path (compact_stamp s1)) n unique_tries 0 s1)"

definition base_name :: "string \<Rightarrow> string" where
  "base_name path = (case strrchr slash path of None \<Rightarrow> path | Some (front, name) \<Rightarrow> name)"

text \<open>Stem and extension of a name: at the last dot, unless it is the first character.\<close>

definition split_name :: "string \<Rightarrow> string \<times> string" where
  "split_name name =
     (case strrchr (CHR ''.'') name of
        None \<Rightarrow> (name, [])
      | Some (front, rest) \<Rightarrow> if front = [] then (name, []) else (front, CHR ''.'' # rest))"

definition restored_candidate :: "string \<Rightarrow> string \<Rightarrow> string \<Rightarrow> string \<Rightarrow> nat \<Rightarrow> string" where
  "restored_candidate parent stem extension stamp counter =
     parent @ slash # stem @ ''.restored-'' @ stamp @ (if counter = 0 then [] else ''-'' @ dec counter) @ extension"

definition syseba_unique_restored_path :: "string \<Rightarrow> nat \<Rightarrow> os \<Rightarrow> string option \<times> os" where
  "syseba_unique_restored_path path n s =
     (case syseba_fs_exists path s of
        (False, s1) \<Rightarrow> (if fits n path then Some path else None, s1)
      | (True, s1) \<Rightarrow>
          (case syseba_parent_dir path SYSEBA_PATH_MAX of
             None \<Rightarrow> (None, s1)
           | Some parent \<Rightarrow>
               (case split_name (base_name path) of (stem, extension) \<Rightarrow>
                  if length stem + 1 > SYSEBA_PATH_MAX \<or> \<not> fits SYSEBA_PATH_MAX extension then (None, s1)
                  else unique_loop (restored_candidate parent stem extension (compact_stamp s1)) n unique_tries 0 s1)))"

section \<open>The nodes a walk visits\<close>

text \<open>
  The directories and regular files below \<open>d\<close> down to depth \<open>n\<close>, parents first, in listing order.
\<close>

fun tree_nodes :: "nat \<Rightarrow> fstree \<Rightarrow> cpath \<Rightarrow> (cpath \<times> bool) list" where
  "tree_nodes 0 t d = []"
| "tree_nodes (Suc n) t d =
     concat (map (\<lambda>c. case fs_get t (d @ [c]) of
         Some Dir \<Rightarrow> (d @ [c], True) # tree_nodes n t (d @ [c])
       | Some (Reg f) \<Rightarrow> [(d @ [c], False)]
       | _ \<Rightarrow> []) (children t d))"

definition shown :: "(cpath \<times> bool) list \<Rightarrow> (string \<times> bool) list" where
  "shown ks = map (\<lambda>(k, b). (path_str k, b)) ks"

definition node_visit :: "nat \<Rightarrow> fstree \<Rightarrow> cpath \<Rightarrow> (cpath \<times> bool) list" where
  "node_visit n t k =
     (case fs_get t k of
        Some Dir \<Rightarrow> (k, True) # tree_nodes n t k
      | Some (Reg f) \<Rightarrow> [(k, False)]
      | _ \<Rightarrow> [])"

lemma tree_nodes_Suc: "tree_nodes (Suc n) t d = concat (map (\<lambda>c. node_visit n t (d @ [c])) (children t d))"
  by (simp add: node_visit_def)

declare tree_nodes.simps(2) [simp del]

text \<open>A node of the kind that is visited, and a chain of directories on the way to it.\<close>

definition visited :: "fstree \<Rightarrow> cpath \<Rightarrow> bool \<Rightarrow> bool" where
  "visited t k b \<longleftrightarrow> (if b then fs_get t k = Some Dir else \<exists>f. fs_get t k = Some (Reg f))"

definition way_down :: "fstree \<Rightarrow> cpath \<Rightarrow> cpath \<Rightarrow> bool" where
  "way_down t d rs \<longleftrightarrow> (\<forall>i. 0 < i \<and> i < length rs \<longrightarrow> fs_get t (d @ take i rs) = Some Dir)"

lemma way_down_Cons: "way_down t d (c # rs) \<longleftrightarrow> rs = [] \<or> fs_get t (d @ [c]) = Some Dir \<and> way_down t (d @ [c]) rs"
proof -
  have "way_down t d (c # rs) \<longleftrightarrow> (\<forall>i < length rs. fs_get t (d @ c # take i rs) = Some Dir)"
    unfolding way_down_def by (auto simp: take_Cons dest: spec [of _ "Suc _"] split: nat.splits)
  also have "\<dots> \<longleftrightarrow> rs = [] \<or> fs_get t (d @ [c]) = Some Dir \<and> way_down t (d @ [c]) rs"
    unfolding way_down_def by (cases rs) (auto, metis append_Nil2 gr0I take0)
  finally show ?thesis .
qed

lemma node_visit_iff: "(k, b) \<in> set (node_visit n t x) \<longleftrightarrow> k = x \<and> visited t k b \<or> fs_get t x = Some Dir \<and> (k, b) \<in> set (tree_nodes n t x)"
  by (cases "fs_get t x"; cases "the (fs_get t x)") (auto simp: node_visit_def visited_def)

lemma tree_nodes_way: "(k, b) \<in> set (tree_nodes n t d) \<longleftrightarrow> (\<exists>rs. k = d @ rs \<and> rs \<noteq> [] \<and> length rs \<le> n \<and> way_down t d rs \<and> visited t k b)"
proof (induction n arbitrary: d)
  case (Suc n)
  have "(k, b) \<in> set (tree_nodes (Suc n) t d) \<longleftrightarrow> (\<exists>c. fs_get t (d @ [c]) \<noteq> None \<and>
      (k = d @ [c] \<and> visited t k b \<or> fs_get t (d @ [c]) = Some Dir \<and> (k, b) \<in> set (tree_nodes n t (d @ [c]))))"
    by (auto simp: tree_nodes_Suc node_visit_iff children_iff)
  also have "\<dots> \<longleftrightarrow> (\<exists>c rs. k = d @ c # rs \<and> length rs \<le> n \<and> way_down t d (c # rs) \<and> visited t k b)"
    unfolding Suc.IH way_down_Cons by (fastforce simp: visited_def split: if_splits)
  also have "\<dots> \<longleftrightarrow> (\<exists>rs. k = d @ rs \<and> rs \<noteq> [] \<and> length rs \<le> Suc n \<and> way_down t d rs \<and> visited t k b)"
    by (auto simp: neq_Nil_conv)
  finally show ?case .
qed simp

lemma tree_nodes_iff:
  "(k, b) \<in> set (tree_nodes n t d) \<longleftrightarrow>
     (\<exists>rs. k = d @ rs \<and> rs \<noteq> [] \<and> length rs \<le> n \<and>
        (\<forall>i. 0 < i \<and> i < length rs \<longrightarrow> fs_get t (d @ take i rs) = Some Dir) \<and>
        (if b then fs_get t k = Some Dir else \<exists>f. fs_get t k = Some (Reg f)))"
  by (simp only: tree_nodes_way way_down_def visited_def)

section \<open>The contract of a callback, and the walk it gets\<close>

text \<open>
  A client of the walk: on the paths \<open>acc\<close> it accepts, its callback notes the entry, returns 0,
  changes nothing in the file system and leaves \<^verbatim>\<open>errno\<close> alone.
\<close>

locale walk_client =
  fixes cb :: "'c callback"
    and seen :: "'c \<Rightarrow> 'v"
    and note_entry :: "'v \<Rightarrow> string \<times> bool \<Rightarrow> 'v"
    and ok :: "'c \<Rightarrow> bool"
    and acc :: "os \<Rightarrow> string \<Rightarrow> bool"
  assumes call: "ok c \<Longrightarrow> os_sched s = [] \<Longrightarrow> acc s p \<Longrightarrow>
      \<exists>c' s'. cb p directory c s = (0, c', s') \<and> ok c' \<and> seen c' = note_entry (seen c) (p, directory) \<and>
        quiet s s' \<and> os_errno s' = os_errno s"
    and acc_quiet: "quiet s s' \<Longrightarrow> acc s p \<Longrightarrow> acc s' p"

definition walkable :: "fstree \<Rightarrow> cpath \<Rightarrow> bool" where
  "walkable t d \<longleftrightarrow> dir_chain t d \<and> fs_get t d = Some Dir \<and> good_path d \<and>
     (\<forall>rs n. fs_get t (d @ rs) = Some n \<longrightarrow> good_path rs \<and> path_fits (d @ rs))"

text \<open>The nodes a walk hands to its callback: directories and regular files.\<close>

definition walked :: "node \<Rightarrow> bool" where
  "walked n \<longleftrightarrow> n = Dir \<or> (\<exists>f. n = Reg f)"

lemma walked_simps [simp]: "walked Dir" "walked (Reg f)" "\<not> walked (Lnk l)" "\<not> walked Special"
  by (simp_all add: walked_def)

lemma walkable_child:
  assumes "walkable t d" "fs_get t (d @ [c]) = Some Dir"
  shows "walkable t (d @ [c])"
proof -
  have "good_path (c # rs) \<and> path_fits (d @ c # rs)" if "fs_get t (d @ c # rs) = Some n" for rs n
    using assms(1) that unfolding walkable_def by blast
  then show ?thesis using assms unfolding walkable_def by (auto simp: dir_chain_snoc)
qed

lemma walkable_lookup:
  assumes "walkable (os_fs s) d" "fs_get (os_fs s) (d @ rs) = Some n" "dir_chain (os_fs s) (d @ rs)"
    and "follow \<longrightarrow> (\<forall>l. n \<noteq> Lnk l)"
  shows "lookup_node follow (path_str (d @ rs)) s = Inr (d @ rs, n)"
proof -
  have "good_path (d @ rs)" using assms(1,2) unfolding walkable_def by simp
  from locate_path_str [OF this assms(3)] assms(2,4) show ?thesis by (simp add: lookup_node_def)
qed

lemma node_dir_iff: "node \<noteq> Dir \<and> \<not> (case node of Reg f \<Rightarrow> True | _ \<Rightarrow> False) \<longleftrightarrow> node = Special \<or> (\<exists>l. node = Lnk l)"
  by (cases node) auto

lemma clear_errno_quiet: "quiet s (clear_errno s)" "os_errno (clear_errno s) = None"
  by (simp_all add: quiet_def clear_errno_def)

lemma readdir_walkable:
  assumes "os_sched s = []" "walkable (os_fs s) d"
  shows "sys_readdir (path_str d) s = (Inr (''.'' # ''..'' # children (os_fs s) d, None), s)"
proof -
  from walkable_lookup [OF assms(2), of "[]" Dir True] assms(2) have "lookup_node True (path_str d) s = Inr (d, Dir)"
    by (simp add: walkable_def)
  then show ?thesis by (simp add: sys_readdir_def syscall_calm assms(1))
qed

lemma path_str_below: "d \<noteq> [] \<Longrightarrow> path_str d @ slash # c = path_str (d @ [c])"
  by (simp add: path_str_def)

context walk_client
begin

lemma walk_step:
  assumes d: "d \<noteq> []" "walkable t d" "fs_get t (d @ [x]) = Some node" and s: "os_sched s = []" "os_fs s = t"
  shows "walk_entries cb (path_str d) None (x # xs) c s =
    (if node \<noteq> Dir \<and> \<not> (case node of Reg f \<Rightarrow> True | _ \<Rightarrow> False) then walk_entries cb (path_str d) None xs c s
     else (case cb (path_str (d @ [x])) (node = Dir) c s of (r, c1, s2) \<Rightarrow>
        if r \<noteq> 0 then (- 1, c1, s2)
        else if node \<noteq> Dir then walk_entries cb (path_str d) None xs c1 s2
        else (case sys_readdir (path_str (d @ [x])) s2 of
                (Inl e, s3) \<Rightarrow> (- 1, c1, s3)
              | (Inr (names2, broken2), s3) \<Rightarrow>
                  (case walk_entries cb (path_str (d @ [x])) broken2 names2 c1 (clear_errno s3) of (r2, c2, s4) \<Rightarrow>
                     if r2 \<noteq> 0 then (- 1, c2, s4) else walk_entries cb (path_str d) None xs c2 s4))))"
proof -
  from d have x: "good_comp x" "path_fits (d @ [x])" unfolding walkable_def by fastforce+
  have chain: "dir_chain t (d @ [x])" using d(2) by (simp add: walkable_def dir_chain_snoc)
  have "sys_lstat (path_str (d @ [x])) s = (Inr (d @ [x], node), s)"
    using walkable_lookup [of s d "[x]" node False] d(2,3) chain s by (simp add: sys_lstat_def query_calm)
  with x show ?thesis by (subst walk_entries.simps) (simp add: path_str_below [OF d(1)] Let_def path_fits_def good_comp_def)
qed

lemma walk_entry:
  assumes ind: "\<And>c s. ok c \<Longrightarrow> os_sched s = [] \<Longrightarrow> os_errno s = None \<Longrightarrow> os_fs s = t \<Longrightarrow> fs_get t (d @ [x]) = Some Dir \<Longrightarrow>
      \<forall>rs n. fs_get t (d @ x # rs) = Some n \<and> walked n \<longrightarrow> acc s (path_str (d @ x # rs)) \<Longrightarrow>
      \<exists>c' s'. walk_entries cb (path_str (d @ [x])) None (''.'' # ''..'' # children t (d @ [x])) c s = (0, c', s') \<and> ok c' \<and>
        seen c' = foldl note_entry (seen c) (shown (tree_nodes n t (d @ [x]))) \<and> quiet s s' \<and> os_errno s' = None"
    and d: "d \<noteq> []" "walkable t d" "x \<in> set (children t d)"
    and s: "ok c" "os_sched s = []" "os_errno s = None" "os_fs s = t"
      "\<forall>rs n. fs_get t (d @ rs) = Some n \<and> walked n \<longrightarrow> acc s (path_str (d @ rs))"
  shows "\<exists>c' s'. walk_entries cb (path_str d) None (x # xs) c s = walk_entries cb (path_str d) None xs c' s' \<and> ok c' \<and>
        seen c' = foldl note_entry (seen c) (shown (node_visit n t (d @ [x]))) \<and> quiet s s' \<and> os_errno s' = None"
proof -
  obtain node where node: "fs_get t (d @ [x]) = Some node" using d(3) by (auto simp: children_iff)
  note step = walk_step [OF d(1,2) node s(2,4)]
  consider (other) "node = Special \<or> (\<exists>l. node = Lnk l)" | (reg) f where "node = Reg f" | (dir) "node = Dir"
    by (cases node) auto
  then show ?thesis
  proof cases
    case other
    with step node show ?thesis
      by (intro exI [of _ c] exI [of _ s]) (auto simp: node_dir_iff node_visit_def shown_def s)
  next
    case reg
    then have acc_x: "acc s (path_str (d @ [x]))" using s(5) node by simp
    from call [OF s(1,2) acc_x, of False] obtain c' s' where
      "cb (path_str (d @ [x])) False c s = (0, c', s')" "ok c'" "seen c' = note_entry (seen c) (path_str (d @ [x]), False)"
      "quiet s s'" "os_errno s' = os_errno s" by blast
    with step reg node s(3) show ?thesis
      by (intro exI [of _ c'] exI [of _ s']) (simp add: node_visit_def shown_def)
  next
    case dir
    then have acc_x: "acc s (path_str (d @ [x]))" using s(5) node by simp
    from call [OF s(1,2) acc_x, of True] obtain c1 s1 where
      c1: "cb (path_str (d @ [x])) True c s = (0, c1, s1)" "ok c1" "seen c1 = note_entry (seen c) (path_str (d @ [x]), True)"
      "quiet s s1" "os_errno s1 = os_errno s" by blast
    have s1: "os_sched s1 = []" "os_fs s1 = t" using quiet_sched [OF c1(4) s(2)] quiet_fs [OF c1(4)] s(4) by auto
    have wk: "walkable t (d @ [x])" using walkable_child [OF d(2)] node dir by simp
    have rd: "sys_readdir (path_str (d @ [x])) s1 = (Inr (''.'' # ''..'' # children t (d @ [x]), None), s1)"
      using readdir_walkable [OF s1(1)] s1(2) wk by simp
    have q2: "quiet s (clear_errno s1)" using c1(4) clear_errno_quiet(1) by (rule quiet_trans)
    have "\<forall>rs n. fs_get t (d @ x # rs) = Some n \<and> walked n \<longrightarrow> acc (clear_errno s1) (path_str (d @ x # rs))"
      using s(5) acc_quiet [OF q2] by blast
    with ind [OF c1(2), of "clear_errno s1"] node dir quiet_sched [OF q2 s(2)] quiet_fs [OF q2] s(4) clear_errno_quiet(2)
    obtain c' s' where c': "walk_entries cb (path_str (d @ [x])) None (''.'' # ''..'' # children t (d @ [x])) c1 (clear_errno s1) = (0, c', s')"
      "ok c'" "seen c' = foldl note_entry (seen c1) (shown (tree_nodes n t (d @ [x])))" "quiet (clear_errno s1) s'" "os_errno s' = None" by auto
    from step dir c1 rd c' node quiet_trans [OF q2 c'(4)] show ?thesis
      by (intro exI [of _ c'] exI [of _ s']) (simp add: node_visit_def shown_def)
  qed
qed

lemma walk_names:
  assumes ind: "\<And>x c s. x \<in> set (children t d) \<Longrightarrow> ok c \<Longrightarrow> os_sched s = [] \<Longrightarrow> os_errno s = None \<Longrightarrow> os_fs s = t \<Longrightarrow>
      fs_get t (d @ [x]) = Some Dir \<Longrightarrow> \<forall>rs n. fs_get t (d @ x # rs) = Some n \<and> walked n \<longrightarrow> acc s (path_str (d @ x # rs)) \<Longrightarrow>
      \<exists>c' s'. walk_entries cb (path_str (d @ [x])) None (''.'' # ''..'' # children t (d @ [x])) c s = (0, c', s') \<and> ok c' \<and>
        seen c' = foldl note_entry (seen c) (shown (tree_nodes n t (d @ [x]))) \<and> quiet s s' \<and> os_errno s' = None"
    and d: "d \<noteq> []" "walkable t d"
  shows "set xs \<subseteq> set (children t d) \<Longrightarrow> ok c \<Longrightarrow> os_sched s = [] \<Longrightarrow> os_errno s = None \<Longrightarrow> os_fs s = t \<Longrightarrow>
      \<forall>rs n. fs_get t (d @ rs) = Some n \<and> walked n \<longrightarrow> acc s (path_str (d @ rs)) \<Longrightarrow>
      \<exists>c' s'. walk_entries cb (path_str d) None xs c s = (0, c', s') \<and> ok c' \<and>
        seen c' = foldl note_entry (seen c) (shown (concat (map (\<lambda>x. node_visit n t (d @ [x])) xs))) \<and> quiet s s' \<and> os_errno s' = None"
proof (induction xs arbitrary: c s)
  case Nil
  then show ?case by (simp add: shown_def)
next
  case (Cons x xs)
  from Cons.prems(1) have x: "x \<in> set (children t d)" by simp
  from walk_entry [OF ind [OF x] d x Cons.prems(2-6), where xs = xs] obtain c1 s1 where
    c1: "walk_entries cb (path_str d) None (x # xs) c s = walk_entries cb (path_str d) None xs c1 s1" "ok c1"
    "seen c1 = foldl note_entry (seen c) (shown (node_visit n t (d @ [x])))" "quiet s s1" "os_errno s1 = None" by blast
  have "\<forall>rs n. fs_get t (d @ rs) = Some n \<and> walked n \<longrightarrow> acc s1 (path_str (d @ rs))"
    using Cons.prems(6) acc_quiet [OF c1(4)] by blast
  with Cons.IH [of c1 s1] Cons.prems c1(2,5) quiet_sched [OF c1(4)] quiet_fs [OF c1(4)] obtain c2 s2 where
    "walk_entries cb (path_str d) None xs c1 s1 = (0, c2, s2)" "ok c2"
    "seen c2 = foldl note_entry (seen c1) (shown (concat (map (\<lambda>x. node_visit n t (d @ [x])) xs)))" "quiet s1 s2" "os_errno s2 = None" by auto
  with c1 quiet_trans [OF c1(4)] show ?case by (auto simp: shown_def)
qed

lemma walk_tree:
  "\<lbrakk>d \<noteq> []; walkable t d; SYSEBA_PATH_MAX \<le> length (path_str d) + n; ok c; os_sched s = []; os_errno s = None; os_fs s = t;
     \<forall>rs n. fs_get t (d @ rs) = Some n \<and> walked n \<longrightarrow> acc s (path_str (d @ rs))\<rbrakk> \<Longrightarrow>
      \<exists>c' s'. walk_entries cb (path_str d) None (''.'' # ''..'' # children t d) c s = (0, c', s') \<and> ok c' \<and>
        seen c' = foldl note_entry (seen c) (shown (tree_nodes n t d)) \<and> quiet s s' \<and> os_errno s' = None"
proof (induction n arbitrary: d c s)
  case 0
  then have "path_fits d" unfolding walkable_def by (metis append_Nil2)
  with 0 show ?case by (simp add: path_fits_def fits_def)
next
  case (Suc n)
  have dots: "walk_entries cb (path_str d) None (''.'' # ''..'' # children t d) c s =
      walk_entries cb (path_str d) None (children t d) c s" by (simp add: walk_entries.simps(2))
  show ?case unfolding dots tree_nodes_Suc
  proof (rule walk_names)
    fix x c s
    assume x: "ok c" "os_sched s = []" "os_errno s = None" "os_fs s = t" "fs_get t (d @ [x]) = Some Dir"
      "\<forall>rs n. fs_get t (d @ x # rs) = Some n \<and> walked n \<longrightarrow> acc s (path_str (d @ x # rs))"
    have "SYSEBA_PATH_MAX \<le> length (path_str (d @ [x])) + n"
      using Suc.prems(1,3) by (simp flip: path_str_below)
    then show "\<exists>c' s'. walk_entries cb (path_str (d @ [x])) None (''.'' # ''..'' # children t (d @ [x])) c s = (0, c', s') \<and> ok c' \<and>
        seen c' = foldl note_entry (seen c) (shown (tree_nodes n t (d @ [x]))) \<and> quiet s s' \<and> os_errno s' = None"
      using x by (intro Suc.IH walkable_child [OF Suc.prems(2)]) simp_all
  qed (use Suc.prems in \<open>simp_all\<close>)
qed

lemma walk_complete:
  assumes "d \<noteq> []" "walkable (os_fs s) d" "ok c" "os_sched s = []"
    and "\<forall>rs n. fs_get (os_fs s) (d @ rs) = Some n \<and> walked n \<longrightarrow> acc s (path_str (d @ rs))"
  shows "\<exists>c' s'. syseba_walk_files cb (path_str d) c s = (0, c', s') \<and> ok c' \<and>
      seen c' = foldl note_entry (seen c) (shown (tree_nodes SYSEBA_PATH_MAX (os_fs s) d)) \<and> quiet s s' \<and> os_errno s' = None"
proof -
  have d: "lookup_node False (path_str d) s = Inr (d, Dir)"
    using walkable_lookup [OF assms(2), of "[]"] assms(2) by (simp add: walkable_def)
  from is_directory_calm [OF assms(4), of d] assms(2) d obtain s1 where
    s1: "syseba_fs_is_directory (path_str d) s = (True, s1)" "quiet s s1"
    by (auto simp: walkable_def dir_chain_no_links)
  have q: "quiet s (clear_errno s1)" using s1(2) clear_errno_quiet(1) by (rule quiet_trans)
  have rd: "sys_readdir (path_str d) s1 = (Inr (''.'' # ''..'' # children (os_fs s) d, None), s1)"
    using readdir_walkable [OF quiet_sched [OF s1(2) assms(4)], of d] quiet_fs [OF s1(2)] assms(2) by simp
  have "\<forall>rs n. fs_get (os_fs s) (d @ rs) = Some n \<and> walked n \<longrightarrow> acc (clear_errno s1) (path_str (d @ rs))"
    using assms(5) acc_quiet [OF q] by blast
  with walk_tree [OF assms(1,2) _ assms(3) quiet_sched [OF q assms(4)] clear_errno_quiet(2), of SYSEBA_PATH_MAX] quiet_fs [OF q]
  obtain c' s' where "walk_entries cb (path_str d) None (''.'' # ''..'' # children (os_fs s) d) c (clear_errno s1) = (0, c', s')"
    "ok c'" "seen c' = foldl note_entry (seen c) (shown (tree_nodes SYSEBA_PATH_MAX (os_fs s) d))" "quiet (clear_errno s1) s'" "os_errno s' = None"
    by auto
  with s1 rd quiet_trans [OF q] show ?thesis by (auto simp: syseba_walk_files_def walk_internal_def)
qed

end

interpretation rc: walk_client "remove_collect (\<lambda>_. True)" "\<lambda>c. c" "\<lambda>c x. c @ [x]" "\<lambda>_. True" "\<lambda>_ _. True"
  by unfold_locales (auto simp: remove_collect_def)

lemma foldl_collect: "foldl (\<lambda>c x. c @ [x]) xs ys = xs @ ys"
  by (induction ys arbitrary: xs) simp_all

text \<open>What a complete walk of \<open>d\<close> visits: the directories and regular files reached through directories.\<close>

lemma components_length: "good_path rs \<Longrightarrow> d \<noteq> [] \<Longrightarrow> length rs + length (path_str d) \<le> length (path_str (d @ rs))"
proof (induction rs rule: rev_induct)
  case (snoc x rs)
  then show ?case by (simp add: path_str_below flip: append_assoc) (simp add: path_str_def)
qed simp

lemma tree_nodes_walkable:
  assumes "walkable t d" "d \<noteq> []"
  shows "(k, b) \<in> set (tree_nodes SYSEBA_PATH_MAX t d) \<longleftrightarrow>
     strict_prefix d k \<and> (\<forall>i. length d < i \<and> i < length k \<longrightarrow> fs_get t (take i k) = Some Dir) \<and>
     (if b then fs_get t k = Some Dir else \<exists>f. fs_get t k = Some (Reg f))"
    (is "?l \<longleftrightarrow> ?r")
proof
  assume ?l
  then obtain rs where rs: "k = d @ rs" "rs \<noteq> []" "\<forall>i. 0 < i \<and> i < length rs \<longrightarrow> fs_get t (d @ take i rs) = Some Dir"
    "if b then fs_get t k = Some Dir else \<exists>f. fs_get t k = Some (Reg f)" unfolding tree_nodes_iff by blast
  have "fs_get t (take i k) = Some Dir" if "length d < i \<and> i < length k" for i
    using rs(1,3) that by (auto dest: spec [of _ "i - length d"])
  with rs show ?r by (auto simp: strict_prefix_def)
next
  assume r: ?r
  then obtain rs where rs: "k = d @ rs" "rs \<noteq> []" by (auto simp: strict_prefix_def prefix_def)
  from r obtain n where "fs_get t (d @ rs) = Some n" using rs(1) by (auto split: if_splits)
  with assms(1) have "good_path rs" "path_fits (d @ rs)" unfolding walkable_def by blast+
  with components_length [of rs d] assms(2) have "length rs \<le> SYSEBA_PATH_MAX" by (simp add: path_fits_def fits_def)
  moreover have "\<forall>i. 0 < i \<and> i < length rs \<longrightarrow> fs_get t (d @ take i rs) = Some Dir"
  proof (intro allI impI)
    fix i assume "0 < i \<and> i < length rs"
    then show "fs_get t (d @ take i rs) = Some Dir" using r rs(1) by (auto dest: spec [of _ "length d + i"])
  qed
  ultimately show ?l unfolding tree_nodes_iff using r rs by blast
qed

section \<open>Removing a tree\<close>

definition sound_tree :: "fstree \<Rightarrow> bool" where
  "sound_tree t \<longleftrightarrow> distinct (map fst t) \<and> (\<forall>k c n. fs_get t (k @ [c]) = Some n \<longrightarrow> fs_get t k = Some Dir)"

definition files_only :: "fstree \<Rightarrow> cpath \<Rightarrow> bool" where
  "files_only t d \<longleftrightarrow> (\<forall>rs n. fs_get t (d @ rs) = Some n \<longrightarrow> n = Dir \<or> (\<exists>f. n = Reg f))"

lemma children_distinct: "distinct (map fst t) \<Longrightarrow> distinct (children t d)"
proof -
  have "inj_on last {k. k \<noteq> [] \<and> butlast k = d}" by (auto simp: inj_on_def) (metis append_butlast_last_id)
  then have "inj_on last (set (filter (\<lambda>k. k \<noteq> [] \<and> butlast k = d) (map fst t)))" by (rule inj_on_subset) auto
  then show "distinct (map fst t) \<Longrightarrow> distinct (children t d)"
    unfolding children_def distinct_map [of last] by (blast intro: distinct_filter)
qed

lemma sound_ancestors: "sound_tree t \<Longrightarrow> fs_get t (k @ rs) = Some n \<Longrightarrow> rs \<noteq> [] \<Longrightarrow> fs_get t k = Some Dir"
proof (induction rs arbitrary: n rule: rev_induct)
  case (snoc x rs)
  then have "fs_get t (k @ rs) = Some Dir" unfolding sound_tree_def by (metis append_assoc)
  with snoc show ?case by (cases "rs = []") auto
qed simp

lemma sound_chain: "sound_tree t \<Longrightarrow> fs_get t k = Some n \<Longrightarrow> dir_chain t k"
  unfolding dir_chain_def
proof (intro allI impI)
  fix i assume "sound_tree t" "fs_get t k = Some n" "i < length k"
  then show "fs_get t (take i k) = Some Dir" using sound_ancestors [of t "take i k" "drop i k" n] by simp
qed

lemma node_visit_below: "(k, b) \<in> set (node_visit n t x) \<Longrightarrow> prefix x k"
  by (cases "fs_get t x"; cases "the (fs_get t x)") (auto simp: node_visit_def tree_nodes_iff)

text \<open>The walk lists every directory once and before what is below it.\<close>

definition parents_first :: "(cpath \<times> bool) list \<Rightarrow> bool" where
  "parents_first ks \<longleftrightarrow> sorted_wrt (\<lambda>a b. \<not> prefix (fst b) (fst a)) ks"

lemma parents_first_concat:
  assumes "distinct xs" "\<And>x. x \<in> set xs \<Longrightarrow> parents_first (f x)" "\<And>x k. x \<in> set xs \<Longrightarrow> k \<in> set (f x) \<Longrightarrow> prefix (d @ [x]) (fst k)"
  shows "parents_first (concat (map f xs))"
  using assms
proof (induction xs)
  case (Cons x xs)
  have "\<not> prefix (fst b) (fst a)" if a: "a \<in> set (f x)" and y: "y \<in> set xs" "b \<in> set (f y)" for a b y
  proof
    assume p: "prefix (fst b) (fst a)"
    have "prefix (d @ [x]) (fst a)" "prefix (d @ [y]) (fst b)" using Cons.prems(3) a y by auto
    with p have "prefix (d @ [x]) (fst a)" "prefix (d @ [y]) (fst a)" by (auto intro: prefix_order.trans)
    then have "x = y" by (auto simp: prefix_def)
    with y Cons.prems(1) show False by auto
  qed
  with Cons show ?case by (auto simp: parents_first_def sorted_wrt_append)
qed (simp add: parents_first_def)

lemma tree_nodes_below: "(k, b) \<in> set (tree_nodes n t d) \<Longrightarrow> strict_prefix d k"
  by (auto simp: tree_nodes_iff strict_prefix_def)

lemma tree_nodes_parents_first: "distinct (map fst t) \<Longrightarrow> parents_first (tree_nodes n t d)"
proof (induction n arbitrary: d)
  case (Suc n)
  have "parents_first (node_visit n t x)" for x
  proof -
    have "\<not> prefix (fst k) x" if "k \<in> set (tree_nodes n t x)" for k
      using that tree_nodes_below [of "fst k" "snd k" n t x] by (simp add: prefix_order.less_le_not_le)
    with Suc show ?thesis
      by (cases "fs_get t x"; cases "the (fs_get t x)") (auto simp: node_visit_def parents_first_def)
  qed
  then show ?case unfolding tree_nodes_Suc
    by (intro parents_first_concat [where d = d] children_distinct Suc.prems) (metis node_visit_below prod.collapse)+
qed (simp add: parents_first_def)

text \<open>Items that may be removed one after the other: nothing is left below a directory when its turn comes.\<close>

definition removable :: "fstree \<Rightarrow> (cpath \<times> bool) list \<Rightarrow> bool" where
  "removable t R \<longleftrightarrow> parents_first (rev R) \<and>
     (\<forall>x \<in> set R. fst x \<noteq> [] \<and> good_path (fst x) \<and> dir_chain t (fst x) \<and>
        (if snd x then fs_get t (fst x) = Some Dir else \<exists>f. fs_get t (fst x) = Some (Reg f)) \<and>
        (\<forall>c. fs_get t (fst x @ [c]) \<noteq> None \<longrightarrow> fst x @ [c] \<in> fst ` set R))"

lemma removable_first:
  assumes "removable t ((k, b) # R)"
  shows "children t k = []" and "k \<notin> fst ` set R" and "removable (fs_del k t) R"
proof -
  have first: "\<not> prefix k (fst x)" if "x \<in> set R" for x
    using assms that by (auto simp: removable_def parents_first_def sorted_wrt_append)
  have "fs_get t (k @ [c]) = None" for c
    using assms first by (force simp: removable_def)
  then show "children t k = []" by (metis children_iff list.set_intros(1) neq_Nil_conv)
  show k: "k \<notin> fst ` set R" using first by auto
  have "dir_chain (fs_del k t) (fst x)" if "x \<in> set R" for x
  proof -
    have "dir_chain t (fst x)" "k \<noteq> []" using assms that by (auto simp: removable_def)
    moreover have "take i (fst x) \<noteq> k" for i using first [OF that] take_is_prefix by metis
    ultimately show ?thesis by (simp add: dir_chain_def)
  qed
  moreover have "fst x @ [c] \<in> fst ` set R" if "x \<in> set R" "fs_get (fs_del k t) (fst x @ [c]) \<noteq> None" for x c
  proof -
    have "k \<noteq> []" "fs_get t (fst x @ [c]) \<noteq> None \<longrightarrow> fst x @ [c] \<in> insert k (fst ` set R)"
      using assms that(1) by (auto simp: removable_def)
    with that(2) show ?thesis by (auto split: if_splits)
  qed
  moreover have "fst x \<noteq> k" if "x \<in> set R" for x using k that by auto
  moreover have "k \<noteq> []" using assms by (simp add: removable_def)
  ultimately show "removable (fs_del k t) R"
    using assms unfolding removable_def by (simp add: parents_first_def sorted_wrt_append)
qed

lemma remove_items_all:
  "removable (os_fs s) R \<Longrightarrow> os_sched s = [] \<Longrightarrow>
     \<exists>s'. remove_items (shown R) s = (0, s') \<and> os_sched s' = [] \<and>
       (\<forall>q. fs_get (os_fs s') q = (if q \<in> fst ` set R then None else fs_get (os_fs s) q))"
proof (induction R arbitrary: s)
  case (Cons x R)
  obtain k b where x: "x = (k, b)" by (cases x)
  note rem = removable_first [OF Cons.prems(1) [unfolded x]]
  have k: "k \<noteq> []" "good_path k" "dir_chain (os_fs s) k"
    "if b then fs_get (os_fs s) k = Some Dir else \<exists>f. fs_get (os_fs s) k = Some (Reg f)"
    using Cons.prems(1) by (auto simp: removable_def x)
  let ?s = "set_fs (fs_del k (os_fs s)) s"
  have "(if b then sys_rmdir (path_str k) s else sys_unlink (path_str k) s) = (Inr (), ?s)"
    using k lookup_chain [OF k(2,3)] rem(1) Cons.prems(2)
    by (auto simp: sys_rmdir_def sys_unlink_def syscall_calm split: if_splits)
  moreover obtain s' where "remove_items (shown R) ?s = (0, s')" "os_sched s' = []"
    "\<forall>q. fs_get (os_fs s') q = (if q \<in> fst ` set R then None else fs_get (os_fs ?s) q)"
    using Cons.IH [of ?s] rem(3) Cons.prems(2) by auto
  ultimately show ?case using k(1) by (auto simp: shown_def x)
qed (simp add: shown_def)

lemma tree_nodes_removable:
  assumes "sound_tree t" "walkable t d" "d \<noteq> []" "files_only t d"
  shows "removable t (rev (tree_nodes SYSEBA_PATH_MAX t d))"
    and "fs_get t (d @ [c]) \<noteq> None \<Longrightarrow> d @ [c] \<in> fst ` set (tree_nodes SYSEBA_PATH_MAX t d)"
    and "q \<in> fst ` set (tree_nodes SYSEBA_PATH_MAX t d) \<longleftrightarrow> strict_prefix d q \<and> fs_get t q \<noteq> None"
proof -
  have mem: "(\<exists>b. (q, b) \<in> set (tree_nodes SYSEBA_PATH_MAX t d)) \<longleftrightarrow> strict_prefix d q \<and> fs_get t q \<noteq> None" for q
  proof
    assume "strict_prefix d q \<and> fs_get t q \<noteq> None"
    then obtain rs n where q: "q = d @ rs" "rs \<noteq> []" "fs_get t (d @ rs) = Some n" by (auto simp: strict_prefix_def prefix_def)
    have "fs_get t (take i q) = Some Dir" if "length d < i \<and> i < length q" for i
      by (rule sound_ancestors [OF assms(1), of "take i q" "drop i q" n]) (use q that in auto)
    moreover from assms(4) q(3) have "n = Dir \<or> (\<exists>f. n = Reg f)" by (auto simp: files_only_def)
    ultimately show "\<exists>b. (q, b) \<in> set (tree_nodes SYSEBA_PATH_MAX t d)"
      unfolding tree_nodes_walkable [OF assms(2,3)] using q by (intro exI [of _ "n = Dir"]) (auto simp: strict_prefix_def)
  qed (auto simp: tree_nodes_walkable [OF assms(2,3)] split: if_splits)
  show q: "q \<in> fst ` set (tree_nodes SYSEBA_PATH_MAX t d) \<longleftrightarrow> strict_prefix d q \<and> fs_get t q \<noteq> None" for q
    using mem [of q] by force
  then show "fs_get t (d @ [c]) \<noteq> None \<Longrightarrow> d @ [c] \<in> fst ` set (tree_nodes SYSEBA_PATH_MAX t d)"
    by (simp add: strict_prefix_def)
  have "k \<noteq> [] \<and> good_path k \<and> dir_chain t k \<and> (if b then fs_get t k = Some Dir else \<exists>f. fs_get t k = Some (Reg f)) \<and>
      (\<forall>c. fs_get t (k @ [c]) \<noteq> None \<longrightarrow> k @ [c] \<in> fst ` set (tree_nodes SYSEBA_PATH_MAX t d))"
    if k: "(k, b) \<in> set (tree_nodes SYSEBA_PATH_MAX t d)" for k b
  proof -
    from k have dk: "strict_prefix d k" "fs_get t k \<noteq> None" "if b then fs_get t k = Some Dir else \<exists>f. fs_get t k = Some (Reg f)"
      using mem [of k] unfolding tree_nodes_walkable [OF assms(2,3)] by blast+
    then obtain rs n where rs: "k = d @ rs" "fs_get t (d @ rs) = Some n" by (auto simp: strict_prefix_def prefix_def)
    have "good_path k" using assms(2) rs unfolding walkable_def by simp
    moreover have "dir_chain t k" using sound_chain [OF assms(1)] rs by simp
    moreover have "strict_prefix d (k @ [c])" for c using dk(1)
      by (auto simp: strict_prefix_def prefix_def)
    ultimately show ?thesis using dk q by auto
  qed
  then show "removable t (rev (tree_nodes SYSEBA_PATH_MAX t d))"
    using tree_nodes_parents_first assms(1) by (auto simp: removable_def sound_tree_def)
qed

lemma exists_chain:
  assumes "os_sched s = []" "good_path k" "dir_chain (os_fs s) k" "fs_get (os_fs s) k = Some n"
  shows "syseba_fs_exists (path_str k) s = (True, s)"
    and "n = Dir \<Longrightarrow> syseba_fs_is_directory (path_str k) s = (True, s)"
  using lookup_chain [OF assms(2-4)] assms(1)
  by (simp_all add: syseba_fs_exists_def syseba_fs_is_directory_def sys_lstat_def query_calm)

text \<open>
  C31: removing a directory of regular files and directories succeeds when no call fails, removes
  everything below it together with the directory, and touches no other node.
\<close>

theorem remove_path_removes_tree:
  assumes "os_sched s = []" "sound_tree (os_fs s)" "walkable (os_fs s) d" "d \<noteq> []" "files_only (os_fs s) d"
  shows "\<exists>s'. syseba_remove_path (\<lambda>_. True) (path_str d) s = (0, s') \<and>
    (\<forall>q. fs_get (os_fs s') q = (if prefix d q then None else fs_get (os_fs s) q))"
proof -
  let ?L = "tree_nodes SYSEBA_PATH_MAX (os_fs s) d"
  have d: "good_path d" "dir_chain (os_fs s) d" "fs_get (os_fs s) d = Some Dir" using assms(3) by (auto simp: walkable_def)
  from rc.walk_complete [OF assms(4,3) _ assms(1), of "[]"] obtain s1 where
    s1: "syseba_walk_files (remove_collect (\<lambda>_. True)) (path_str d) [] s = (0, shown ?L, s1)" "quiet s s1"
    by (auto simp: foldl_collect)
  note rem = tree_nodes_removable [OF assms(2,3,4,5)]
  from remove_items_all [of s1 "rev ?L"] rem(1) quiet_fs [OF s1(2)] quiet_sched [OF s1(2) assms(1)] obtain s2 where
    s2: "remove_items (rev (shown ?L)) s1 = (0, s2)" "os_sched s2 = []"
    "\<And>q. fs_get (os_fs s2) q = (if q \<in> fst ` set ?L then None else fs_get (os_fs s) q)"
    by (auto simp: shown_def rev_map)
  have d2: "fs_get (os_fs s2) d = Some Dir" "dir_chain (os_fs s2) d"
    using d s2(3) rem(3) prefix_length_less by (fastforce simp: dir_chain_def)+
  have "c \<notin> set (children (os_fs s2) d)" for c using rem(2) [of c] unfolding children_iff s2(3) by presburger
  then have "children (os_fs s2) d = []" by (metis list.set_intros(1) neq_Nil_conv)
  then have "sys_rmdir (path_str d) s2 = (Inr (), set_fs (fs_del d (os_fs s2)) s2)"
    using lookup_chain [OF d(1) d2(2,1)] s2(2) assms(4) by (simp add: sys_rmdir_def syscall_calm)
  moreover have "fs_get (fs_del d (os_fs s2)) q = (if prefix d q then None else fs_get (os_fs s) q)" for q
    using assms(4) s2(3) [of q] rem(3) [of q] by (auto simp: strict_prefix_def)
  ultimately show ?thesis
    using exists_chain [OF assms(1) d] s1(1) s2(1) by (simp add: syseba_remove_path_def)
qed

theorem remove_path_removes_tree_witness:
  "\<exists>s'. syseba_remove_path (\<lambda>_. True) (path_str [''src'']) demo_os = (0, s') \<and>
     (\<forall>q. fs_get (os_fs s') q = (if prefix [''src''] q then None else fs_get (os_fs demo_os) q))"
proof (rule remove_path_removes_tree)
  show "sound_tree (os_fs demo_os)" by (auto simp: sound_tree_def demo_eval append_eq_Cons_conv split: if_splits)
  show "walkable (os_fs demo_os) [''src'']" by (auto simp: walkable_def demo_eval split: if_splits)
  show "files_only (os_fs demo_os) [''src'']" by (auto simp: files_only_def demo_eval split: if_splits)
qed (simp_all add: demo_os_def quiet_os_def)

section \<open>A walk whose callback leaves errno set\<close>

text \<open>
  The error of the last callback leaks into the walk: a directory with one regular file is
  reported as unreadable when the callback succeeds but some call inside it has set \<^verbatim>\<open>errno\<close> (for
  example by probing a destination that does not exist yet, as the tree copy does), although the
  callback has done its work.
\<close>

theorem walk_reports_stale_errno:
  assumes "os_sched s = []" "d \<noteq> []" "walkable (os_fs s) d" "children (os_fs s) d = [x]"
    and "fs_get (os_fs s) (d @ [x]) = Some (Reg f)"
    and "\<And>s1. quiet s s1 \<Longrightarrow> \<exists>s2. cb (path_str (d @ [x])) False c s1 = (0, c', s2) \<and> os_errno s2 \<noteq> None"
  shows "\<exists>s'. syseba_walk_files cb (path_str d) c s = (- 1, c', s')"
proof -
  have d: "good_path d" "dir_chain (os_fs s) d" "fs_get (os_fs s) d = Some Dir" using assms(3) by (auto simp: walkable_def)
  have x: "good_comp x" "path_fits (d @ [x])" using assms(3,5) unfolding walkable_def by fastforce+
  let ?s = "clear_errno s"
  obtain s2 where cb: "cb (path_str (d @ [x])) False c ?s = (0, c', s2)" "os_errno s2 \<noteq> None"
    using assms(6) clear_errno_quiet(1) by blast
  have "lookup_node False (path_str (d @ [x])) ?s = Inr (d @ [x], Reg f)"
    using lookup_chain [of "d @ [x]" ?s] assms(5) d x(1) by (simp add: dir_chain_snoc clear_errno_def)
  then have "sys_lstat (path_str (d @ [x])) ?s = (Inr (d @ [x], Reg f), ?s)"
    using assms(1) by (simp add: sys_lstat_def query_calm clear_errno_def)
  with x cb have "walk_entries cb (path_str d) None [''.'', ''..'', x] c ?s = (- 1, c', s2)"
    by (simp add: walk_entries.simps path_str_below assms(2) path_fits_def good_comp_def)
  then show ?thesis
    using exists_chain(2) [OF assms(1) d refl] readdir_walkable [OF assms(1,3)] assms(4)
    by (simp add: syseba_walk_files_def walk_internal_def)
qed

theorem walk_reports_stale_errno_witness:
  "\<exists>s'. syseba_walk_files (\<lambda>path directory c s. (0, c @ [path], snd (syseba_fs_exists ''/missing'' s))) (path_str [''src'']) [] demo_os
     = (- 1, [path_str [''src'', ''a'']], s')"
proof (rule walk_reports_stale_errno [where x = "''a''" and f = demo_file])
  show "walkable (os_fs demo_os) [''src'']" by (auto simp: walkable_def demo_eval split: if_splits)
  fix s1 assume q: "quiet demo_os s1"
  then have "os_sched s1 = []" by (rule quiet_sched) (simp add: demo_os_def quiet_os_def)
  moreover have "lookup_node False ''/missing'' s1 = Inl ENOENT"
    by (subst quiet_lookup [OF q]) code_simp
  ultimately show "\<exists>s2. (0, [] @ [path_str ([''src''] @ [''a''])], snd (syseba_fs_exists ''/missing'' s1)) =
      (0, [path_str [''src'', ''a'']], s2) \<and> os_errno s2 \<noteq> None"
    by (simp add: syseba_fs_exists_def sys_lstat_def query_calm)
qed (simp_all add: demo_os_def quiet_os_def children_def fs_get_def)

section \<open>Unused names are unused\<close>

lemma exists_calm: "os_sched s = [] \<Longrightarrow> fst (syseba_fs_exists p s) = (\<not> isl (lookup_node False p s))"
  by (auto simp: syseba_fs_exists_def sys_lstat_def query_calm split: sum.splits)

text \<open>\<open>taken s p\<close>: something already has the name \<open>p\<close>.\<close>

definition taken :: "os \<Rightarrow> string \<Rightarrow> bool" where
  "taken s p \<longleftrightarrow> \<not> isl (lookup_node False p s)"

lemma taken_quiet: "quiet s s' \<Longrightarrow> taken s' p = taken s p"
  by (simp add: taken_def quiet_lookup)

lemma unique_loop_first:
  assumes "os_sched s = []"
  shows "(case unique_loop candidate n left counter s of
      (Some out, s') \<Rightarrow> quiet s s' \<and> (\<exists>k. counter \<le> k \<and> k < counter + left \<and> out = candidate k \<and> fits n out \<and> \<not> taken s out \<and>
          (\<forall>j. counter \<le> j \<and> j < k \<longrightarrow> taken s (candidate j)))
    | (None, s') \<Rightarrow> quiet s s' \<and> ((\<exists>k. counter \<le> k \<and> k < counter + left \<and> \<not> fits n (candidate k)) \<or>
          (\<forall>j. counter \<le> j \<and> j < counter + left \<longrightarrow> taken s (candidate j))))"
  using assms
proof (induction left arbitrary: counter s)
  case (Suc left)
  obtain b s1 where e: "syseba_fs_exists (candidate counter) s = (b, s1)" by (cases "syseba_fs_exists (candidate counter) s")
  have q: "quiet s s1" using exists_quiet [of s "candidate counter"] e by simp
  have b: "b = taken s (candidate counter)" using exists_calm [OF Suc.prems, of "candidate counter"] e by (simp add: taken_def)
  show ?case
  proof (cases "fits n (candidate counter) \<and> b")
    case False
    then show ?thesis using e q b by (auto intro: exI [of _ counter] split: bool.splits)
  next
    case True
    have step: "unique_loop candidate n (Suc left) counter s = unique_loop candidate n left (counter + 1) s1"
      using True e by simp
    have j: "(\<forall>j. counter \<le> j \<and> j < m \<longrightarrow> taken s (candidate j)) \<longleftrightarrow>
        (\<forall>j. counter + 1 \<le> j \<and> j < m \<longrightarrow> taken s (candidate j))" for m
      using True b by (metis Suc_eq_plus1 Suc_le_eq le_neq_implies_less less_imp_le)
    obtain r s2 where r: "unique_loop candidate n left (counter + 1) s1 = (r, s2)" by (cases "unique_loop candidate n left (counter + 1) s1")
    from Suc.IH [OF quiet_sched [OF q Suc.prems], of "counter + 1"] show ?thesis
      unfolding step r j using q r
      by (cases r) (auto simp: taken_quiet [OF q] Suc_le_eq intro: quiet_trans [OF q] less_imp_le)
  qed
qed auto

lemma unique_loop_quiet: "quiet s (snd (unique_loop candidate n left counter s))"
proof (induction left arbitrary: counter s)
  case (Suc left)
  obtain b s1 where e: "syseba_fs_exists (candidate counter) s = (b, s1)" by (cases "syseba_fs_exists (candidate counter) s")
  have "quiet s s1" using exists_quiet [of s "candidate counter"] e by simp
  with quiet_trans [OF this Suc.IH] e show ?case by (cases b) simp_all
qed simp

lemma unique_quiet [frame]: "quiet s (snd (syseba_unique_restore_path path n s))"
proof -
  obtain b s1 where e: "syseba_fs_exists path s = (b, s1)" by (cases "syseba_fs_exists path s")
  have "quiet s s1" using exists_quiet [of s path] e by simp
  with quiet_trans [OF this unique_loop_quiet] e show ?thesis
    by (cases b) (simp_all add: syseba_unique_restore_path_def)
qed

lemma unique_loop_same:
  "quiet s t \<Longrightarrow> os_sched s = [] \<Longrightarrow> fst (unique_loop candidate n left counter t) = fst (unique_loop candidate n left counter s)"
proof (induction left arbitrary: counter s t)
  case (Suc left)
  obtain b s1 where e: "syseba_fs_exists (candidate counter) s = (b, s1)" by (cases "syseba_fs_exists (candidate counter) s")
  obtain c t1 where f: "syseba_fs_exists (candidate counter) t = (c, t1)" by (cases "syseba_fs_exists (candidate counter) t")
  have calm: "os_sched t = []" by (rule quiet_sched [OF Suc.prems])
  have bc: "c = b"
    using exists_calm [OF Suc.prems(2), of "candidate counter"] exists_calm [OF calm, of "candidate counter"] e f
      quiet_lookup [OF Suc.prems(1)] by simp
  have q: "quiet s s1" "quiet t t1" using exists_quiet [of s "candidate counter"] exists_quiet [of t "candidate counter"] e f by simp_all
  have "fst (unique_loop candidate n left (counter + 1) t1) = fst (unique_loop candidate n left (counter + 1) s)"
    using Suc.IH [OF quiet_trans [OF Suc.prems(1) q(2)] Suc.prems(2)] .
  also have "\<dots> = fst (unique_loop candidate n left (counter + 1) s1)"
    using Suc.IH [OF q(1) Suc.prems(2)] by simp
  finally show ?case using e f bc by (cases b) simp_all
qed simp

lemma unique_same:
  assumes "quiet s t" "os_sched s = []"
  shows "fst (syseba_unique_restore_path path n t) = fst (syseba_unique_restore_path path n s)"
proof -
  obtain b s1 where e: "syseba_fs_exists path s = (b, s1)" by (cases "syseba_fs_exists path s")
  obtain c t1 where f: "syseba_fs_exists path t = (c, t1)" by (cases "syseba_fs_exists path t")
  have calm: "os_sched t = []" by (rule quiet_sched [OF assms])
  have bc: "c = b"
    using exists_calm [OF assms(2), of path] exists_calm [OF calm, of path] e f quiet_lookup [OF assms(1)] by simp
  have q: "quiet s s1" "quiet t t1" using exists_quiet [of s path] exists_quiet [of t path] e f by simp_all
  have st: "compact_stamp t1 = compact_stamp s" "compact_stamp s1 = compact_stamp s"
    using quiet_env [OF quiet_trans [OF assms(1) q(2)]] quiet_env [OF q(1)] by (simp_all add: compact_stamp_def)
  have "fst (unique_loop g n k i t1) = fst (unique_loop g n k i s1)" for g k i
    using unique_loop_same [OF quiet_trans [OF assms(1) q(2)] assms(2)] unique_loop_same [OF q(1) assms(2)] by metis
  with e f bc st show ?thesis by (cases b) (simp_all add: syseba_unique_restore_path_def)
qed

lemma unique_first:
  assumes "os_sched s = []" "syseba_unique_restore_path path n s = (Some out, s')"
  shows "\<not> taken s out \<and> fits n out \<and> (out = path \<or> (\<exists>k. out = restore_candidate path (compact_stamp s) k))"
proof -
  obtain b s1 where e: "syseba_fs_exists path s = (b, s1)" by (cases "syseba_fs_exists path s")
  have q: "quiet s s1" using exists_quiet [of s path] e by simp
  have b: "b = taken s path" using exists_calm [OF assms(1), of path] e by (simp add: taken_def)
  have stamp: "compact_stamp s1 = compact_stamp s" using quiet_env [OF q] by (simp add: compact_stamp_def)
  show ?thesis
  proof (cases b)
    case False
    then show ?thesis using assms(2) e b by (auto simp: syseba_unique_restore_path_def split: if_splits)
  next
    case True
    then have "unique_loop (restore_candidate path (compact_stamp s)) n unique_tries 0 s1 = (Some out, s')"
      using assms(2) e stamp by (simp add: syseba_unique_restore_path_def)
    with unique_loop_first [OF quiet_sched [OF q assms(1)], where counter = 0 and left = unique_tries
        and candidate = "restore_candidate path (compact_stamp s)" and n = n]
    show ?thesis by (auto simp: taken_quiet [OF q])
  qed
qed

text \<open>
  A restored file never takes a name in use. When no call fails, the name chosen for a path is the
  path itself when nothing has it, and otherwise the first of the 100000 numbered candidates that
  nothing has; no name is returned only when all of them are in use or one does not fit its buffer.
\<close>

theorem unique_restore_path_fresh:
  assumes "os_sched s = []" "syseba_unique_restore_path path n s = (r, s')"
  shows "case r of
      Some out \<Rightarrow> \<not> taken s out \<and> fits n out \<and>
        (out = path \<or> taken s path \<and> (\<exists>k < unique_tries. out = restore_candidate path (compact_stamp s) k \<and>
           (\<forall>j < k. taken s (restore_candidate path (compact_stamp s) j))))
    | None \<Rightarrow> \<not> fits n path \<or> (\<exists>k < unique_tries. \<not> fits n (restore_candidate path (compact_stamp s) k)) \<or>
        (\<forall>j < unique_tries. taken s (restore_candidate path (compact_stamp s) j))"
proof -
  obtain b s1 where e: "syseba_fs_exists path s = (b, s1)" by (cases "syseba_fs_exists path s")
  have q: "quiet s s1" using exists_quiet [of s path] e by simp
  have b: "b = taken s path" using exists_calm [OF assms(1), of path] e by (simp add: taken_def)
  have stamp: "compact_stamp s1 = compact_stamp s" using quiet_env [OF q] by (simp add: compact_stamp_def)
  show ?thesis
  proof (cases b)
    case False
    then show ?thesis using assms(2) e b by (auto simp: syseba_unique_restore_path_def split: if_splits)
  next
    case True
    then have "unique_loop (restore_candidate path (compact_stamp s)) n unique_tries 0 s1 = (r, s')"
      using assms(2) e stamp by (simp add: syseba_unique_restore_path_def)
    with unique_loop_first [OF quiet_sched [OF q assms(1)], where counter = 0 and left = unique_tries
        and candidate = "restore_candidate path (compact_stamp s)" and n = n]
    show ?thesis using True b by (cases r) (auto simp: taken_quiet [OF q])
  qed
qed

theorem unique_restore_path_fresh_witness:
  "\<not> taken demo_os (the (fst (syseba_unique_restore_path ''/src/a'' 4096 demo_os)))"
proof -
  let ?c = "restore_candidate ''/src/a'' (compact_stamp demo_os) 0"
  have calm: "os_sched demo_os = []" by (simp add: demo_os_def quiet_os_def)
  have a: "syseba_fs_exists ''/src/a'' demo_os = (True, demo_os)"
    using exists_chain(1) [OF calm demo_os_facts(1-3)] by (simp add: path_str_def)
  have c: "\<not> fst (syseba_fs_exists ?c demo_os)" "fits 4096 ?c" by code_simp+
  have "\<exists>s'. unique_loop (restore_candidate ''/src/a'' (compact_stamp demo_os)) 4096 (Suc m) 0 demo_os = (Some ?c, s')" for m
    using c by (cases "syseba_fs_exists ?c demo_os") simp
  from this [of 99999] obtain s' where "syseba_unique_restore_path ''/src/a'' 4096 demo_os = (Some ?c, s')"
    using a by (auto simp: syseba_unique_restore_path_def unique_tries_def)
  from unique_restore_path_fresh [OF calm this] this show ?thesis by simp
qed

section \<open>Moving a node\<close>

lemma move_path_calm:
  assumes "os_sched s = []" "plain_path (ds @ [d])" "length (path_str (ds @ [d])) \<le> SYSEBA_PATH_MAX"
    and "\<forall>i \<le> length ds. fs_get (os_fs s) (take i ds) = None \<or> fs_get (os_fs s) (take i ds) = Some Dir"
    and src: "good_path ss" "dir_chain (os_fs s) ss" "fs_get (os_fs s) ss = Some n" "\<not> prefix ss (ds @ [d])"
    and dst: "fs_get (os_fs s) (ds @ [d]) = None"
  shows "\<exists>s'. syseba_move_path memory (path_str ss) (path_str (ds @ [d])) s = (0, s') \<and> os_sched s' = [] \<and>
    (\<forall>rs. fs_get (os_fs s') (ds @ d # rs) = fs_get (os_fs s) (ss @ rs)) \<and>
    (\<forall>rs. fs_get (os_fs s') (ss @ rs) = None) \<and>
    (\<forall>q m. \<not> prefix ss q \<and> \<not> prefix (ds @ [d]) q \<and> fs_get (os_fs s) q = Some m \<longrightarrow> fs_get (os_fs s') q = Some m)"
proof -
  let ?D = "ds @ [d]"
  from prepare_calm [OF assms(1-4)] obtain s1 where
    s1: "prepare_destination (path_str ?D) s = (0, s1)" "os_sched s1 = []" "dir_chain (os_fs s1) ?D" by blast
  have nl: "no_links (os_fs s) ?D" using assms(4) unfolding no_links_def by (auto simp: less_Suc_eq_le)
  have t1: "touches (\<lambda>q. prefix q ds) (\<lambda>q. False) s s1" using prepare_touches [OF assms(2) nl] s1(1) by simp
  have D1: "fs_get (os_fs s1) ?D = None" using touches_above [OF t1] dst by simp
  have ss1: "fs_get (os_fs s1) ss = Some n" by (rule touches_kept [OF t1 _ src(3)]) simp
  have ch1: "dir_chain (os_fs s1) ss" by (rule dir_chain_kept [OF t1 src(2)]) simp
  have ne: "ss \<noteq> []" using src(4) by auto
  have nD: "\<not> prefix ?D ss"
  proof
    assume "prefix ?D ss"
    moreover have "ss \<noteq> ?D" using src(4) by auto
    ultimately have "\<exists>i < length ss. take i ss = ?D" by (metis append_eq_conv_conj prefix_def prefix_length_less strict_prefix_def)
    with src(2) dst show False by (auto simp: dir_chain_def)
  qed
  have "rename_check (os_fs s1) (ss, n) ?D = None" using ne D1 src(4) by (auto simp: rename_check_def strict_prefix_def)
  then have mv: "sys_rename (path_str ss) (path_str ?D) s1 = (Inr (), set_fs (fs_move ss ?D (os_fs s1)) s1)"
    using lookup_chain [OF src(1) ch1 ss1] locate_path_str [OF plain_path_good [OF assms(2)] s1(3), of False] s1(2) src(4)
    by (auto simp: sys_rename_def syscall_calm)
  have below: "fs_get (os_fs s1) (ss @ rs) = fs_get (os_fs s) (ss @ rs)" for rs
  proof -
    have "\<not> prefix (ss @ rs) ds" using src(4) by (auto simp: prefix_def)
    with t1 show ?thesis by (auto simp: touches_def)
  qed
  have "\<not> prefix ?D (ss @ rs)" for rs
    using nD src(4) by (metis prefix_same_cases prefixI)
  then show ?thesis
    using s1(1,2) mv ne below touches_kept [OF t1]
    by (auto simp: syseba_move_path_def fs_get_move)
qed

end
