(* ===== verification/Log.thy ===== *)
theory Log
  imports Queue Tree
begin

text \<open>
  The application state \<^verbatim>\<open>syseba_app_t\<close> and the logging of \<^verbatim>\<open>log.c\<close>: the ring of recent lines, emitting a
  record, the writer thread and reading the last lines of the log file.

  The two queues of the state are abstract queues \<open>wq\<close>; the interpretation \<open>lq\<close> shows that
  the linked queue of \<^verbatim>\<open>queue.c\<close> implements their operations. \<open>app_memory\<close> is a script of the results of
  the allocations still to come (an exhausted script means they succeed), \<open>app_stderr\<close> the lines
  written to the error stream (without the text of \<^verbatim>\<open>strerror\<close>). The mutex regions of the code are the steps of the model.
\<close>

section \<open>The application state\<close>

record app =
  app_config :: config
  app_language :: language
  app_lock_path :: string
  app_db_path :: string
  app_web_host :: string
  app_web_port :: int
  app_web_token :: string
  app_web_token_source :: string
  app_web_auth_enabled :: bool
  app_web_enabled :: bool
  app_web_only :: bool
  app_no_initial_sync :: bool
  app_silent :: bool
  app_running :: bool
  app_restart_required :: bool
  app_stop_requested :: bool
  app_started_ns :: "64 word"
  app_started_at :: string
  app_last_event_at :: string
  app_initial_state :: string
  app_initial_started_at :: string
  app_initial_completed_at :: string
  app_initial_error :: string
  app_stats :: stats
  app_event_queue :: "event wq"
  app_log_queue :: "log_record wq"
  app_workers :: "nat option" \<comment> \<open>the array of worker threads and \<^verbatim>\<open>worker_count\<close>\<close>
  app_log_thread_started :: bool
  app_initial_thread_started :: bool
  app_watcher_thread_started :: bool
  app_lock_file :: "cpath option"
  app_web_context :: bool
  app_recent_logs :: "string option list"
  app_recent_capacity :: nat
  app_recent_count :: nat
  app_recent_next :: nat
  app_memory :: "bool list"
  app_stderr :: "string list"

text \<open>The state after \<^verbatim>\<open>memset(app, 0, sizeof(*app))\<close>.\<close>

definition zero_config :: config where
  "zero_config = \<lparr>cfg_source = [], cfg_backup = [], cfg_restore = [], cfg_log_file = [], cfg_config_path = [], cfg_threads = 0\<rparr>"

definition zero_stats :: stats where
  "zero_stats = \<lparr>queued_events = 0, st_copied = 0, st_updated = 0, st_deleted = 0, st_restored = 0, st_skipped = 0,
     st_errors = 0, initial_total = 0, initial_done = 0, initial_copied = 0, initial_skipped = 0, initial_running = False\<rparr>"

definition zero_app :: app where
  "zero_app = \<lparr>app_config = zero_config, app_language = LANGUAGE_IT, app_lock_path = [], app_db_path = [], app_web_host = [],
     app_web_port = 0, app_web_token = [], app_web_token_source = [], app_web_auth_enabled = False, app_web_enabled = False,
     app_web_only = False, app_no_initial_sync = False, app_silent = False, app_running = False, app_restart_required = False,
     app_stop_requested = False, app_started_ns = 0, app_started_at = [], app_last_event_at = [], app_initial_state = [],
     app_initial_started_at = [], app_initial_completed_at = [], app_initial_error = [], app_stats = zero_stats,
     app_event_queue = empty_wq, app_log_queue = empty_wq, app_workers = None, app_log_thread_started = False,
     app_initial_thread_started = False, app_watcher_thread_started = False, app_lock_file = None, app_web_context = False,
     app_recent_logs = [], app_recent_capacity = 0, app_recent_count = 0, app_recent_next = 0, app_memory = [], app_stderr = []\<rparr>"

definition syseba_app_is_stopping :: "app \<Rightarrow> bool" where
  "syseba_app_is_stopping a = app_stop_requested a"

definition syseba_app_set_stopping :: "app \<Rightarrow> app" where
  "syseba_app_set_stopping a = a\<lparr>app_stop_requested := True\<rparr>"

definition allocate :: "app \<Rightarrow> bool \<times> app" where
  "allocate a = (case app_memory a of [] \<Rightarrow> (True, a) | b # bs \<Rightarrow> (b, a\<lparr>app_memory := bs\<rparr>))"

definition on_stderr :: "string \<Rightarrow> app \<Rightarrow> app" where
  "on_stderr line a = a\<lparr>app_stderr := app_stderr a @ [line]\<rparr>"

section \<open>The ring of recent lines\<close>

definition recent_add :: "string \<Rightarrow> os \<Rightarrow> app \<Rightarrow> app" where
  "recent_add line s a =
     (case allocate a of (copy, a1) \<Rightarrow>
        if \<not> copy \<or> app_recent_capacity a1 = 0 then a1
        else a1\<lparr>app_recent_logs := (app_recent_logs a1)[app_recent_next a1 := Some line],
                app_recent_next := (app_recent_next a1 + 1) mod app_recent_capacity a1,
                app_recent_count := (if app_recent_count a1 < app_recent_capacity a1
                                     then app_recent_count a1 + 1 else app_recent_count a1),
                app_last_event_at := syseba_iso_now s\<rparr>)"

text \<open>The loop over the ring in \<^verbatim>\<open>syseba_app_status_json\<close>: the last \<open>n\<close> lines, oldest first.\<close>

definition recent_view :: "nat \<Rightarrow> app \<Rightarrow> string list" where
  "recent_view n a =
     (let first = (app_recent_next a + app_recent_capacity a - app_recent_count a) mod app_recent_capacity a;
          start = (if app_recent_count a > n then app_recent_count a - n else 0)
      in concat (map (\<lambda>index. case app_recent_logs a ! ((first + index) mod app_recent_capacity a) of
             None \<Rightarrow> [] | Some line \<Rightarrow> [line]) [start ..< app_recent_count a]))"

section \<open>Emitting a record\<close>

definition log_line :: "log_record \<Rightarrow> string" where
  "log_line r = cut (SYSEBA_MESSAGE_MAX + 64) (lr_timestamp r @ '' ['' @ lr_level r @ ''] '' @ lr_message r)"

text \<open>\<open>message\<close> is the formatted text; the null checks of the arguments are on the caller's side.\<close>

definition make_record :: "string \<Rightarrow> string \<Rightarrow> string \<Rightarrow> string \<Rightarrow> string \<Rightarrow> string \<Rightarrow> os \<Rightarrow> log_record" where
  "make_record level operation source target additional message s =
     \<lparr>lr_timestamp = syseba_timestamp_now s, lr_level = cut 16 level, lr_operation = cut 32 operation,
      lr_message = cut SYSEBA_MESSAGE_MAX message, lr_source_path = cut SYSEBA_PATH_MAX source,
      lr_target_path = cut SYSEBA_PATH_MAX target, lr_additional_info = cut SYSEBA_MESSAGE_MAX additional\<rparr>"

definition count_error :: "app \<Rightarrow> app" where
  "count_error a = a\<lparr>app_stats := (app_stats a)\<lparr>st_errors := st_errors (app_stats a) + 1\<rparr>\<rparr>"

definition syseba_log_emit ::
  "string \<Rightarrow> string \<Rightarrow> string \<Rightarrow> string \<Rightarrow> string \<Rightarrow> string \<Rightarrow> os \<Rightarrow> app \<Rightarrow> app" where
  "syseba_log_emit level operation source target additional message s a =
     (case allocate a of
        (False, a1) \<Rightarrow> a1
      | (True, a1) \<Rightarrow>
          let r = make_record level operation source target additional message s;
              a2 = recent_add (log_line r) s a1;
              a3 = (if lr_level r = ''ERROR'' then count_error a2 else a2)
          in (case allocate a3 of (node, a4) \<Rightarrow>
               (case wq_push node r (app_log_queue a4) of (result, q) \<Rightarrow>
                  if result \<noteq> 0 then on_stderr (log_line r) (a4\<lparr>app_log_queue := q\<rparr>)
                  else a4\<lparr>app_log_queue := q\<rparr>)))"

section \<open>The writer thread\<close>

text \<open>
  The log file and the database handle of the writer thread. The database is the code of
  \<^verbatim>\<open>database.c\<close> over SQLite; \<open>db_write\<close> is one call of \<^verbatim>\<open>syseba_database_write\<close> on its state.
\<close>

record 'db writer =
  wr_file :: "cpath option"
  wr_database :: "'db option"
  wr_database_error_reported :: bool

definition log_writer_open :: "(string \<Rightarrow> string + 'db) \<Rightarrow> app \<Rightarrow> os \<Rightarrow> 'db writer \<times> app \<times> os" where
  "log_writer_open db_open a s =
     (case syseba_open_regular_append (cfg_log_file (app_config a)) 416 s of (opened, s1) \<Rightarrow>
        let a1 = (if opened = None
                  then on_stderr (''SySeBa: unable to open log file '' @ cfg_log_file (app_config a)) a else a)
        in (case db_open (app_db_path a1) of
              Inr db \<Rightarrow> (\<lparr>wr_file = opened, wr_database = Some db, wr_database_error_reported = False\<rparr>, a1, s1)
            | Inl message \<Rightarrow>
                (\<lparr>wr_file = opened, wr_database = None, wr_database_error_reported = True\<rparr>,
                 on_stderr (''SySeBa: SQLite logging unavailable; file logging continues: '' @ message) a1, s1)))"

definition log_write_file :: "log_record \<Rightarrow> 'db writer \<Rightarrow> app \<Rightarrow> os \<Rightarrow> 'db writer \<times> app \<times> os" where
  "log_write_file r w a s =
     (case wr_file w of
        None \<Rightarrow> (w, a, s)
      | Some loc \<Rightarrow>
          (case stdio_write loc (log_line r @ [newline]) s of
             (True, s1) \<Rightarrow> (w, a, s1)
           | (False, s1) \<Rightarrow>
               (w\<lparr>wr_file := None\<rparr>,
                on_stderr (''SySeBa: unable to write log file '' @ cfg_log_file (app_config a)) a,
                snd (sys_fclose loc s1))))"

definition log_write_database :: "('db \<Rightarrow> log_record \<Rightarrow> int \<times> 'db) \<Rightarrow> log_record \<Rightarrow> 'db writer \<Rightarrow> app \<Rightarrow> 'db writer \<times> app" where
  "log_write_database db_write r w a =
     (case wr_database w of
        None \<Rightarrow> (w, a)
      | Some db \<Rightarrow>
          (case db_write db r of (result, db1) \<Rightarrow>
             let w1 = w\<lparr>wr_database := Some db1\<rparr> in
             if result \<noteq> 0 \<and> \<not> wr_database_error_reported w1
             then (w1\<lparr>wr_database_error_reported := True\<rparr>,
                   on_stderr ''SySeBa: unable to write an event to SQLite; file logging continues'' a)
             else (w1, a)))"

text \<open>
  The loop of the writer. Each round is one return of \<^verbatim>\<open>syseba_queue_pop\<close>; the first argument lists
  what the other threads do to the state before each round. The loop ends when the queue is closed
  and empty; \<open>None\<close> means it still waits when the script ends.
\<close>

fun log_writer_loop ::
  "('db \<Rightarrow> log_record \<Rightarrow> int \<times> 'db) \<Rightarrow> (app \<Rightarrow> app) list \<Rightarrow> 'db writer \<Rightarrow> app \<Rightarrow> os \<Rightarrow> ('db writer \<times> app \<times> os) option" where
  "log_writer_loop db_write [] w a s = None"
| "log_writer_loop db_write (env # envs) w a s =
     (let a1 = env a in
      case wq_pop (app_log_queue a1) of
        (None, q) \<Rightarrow>
          if wq_closed (app_log_queue a1) then Some (w, a1, s)
          else log_writer_loop db_write envs w a1 s
      | (Some r, q) \<Rightarrow>
          (case log_write_file r w (a1\<lparr>app_log_queue := q\<rparr>) s of (w1, a2, s1) \<Rightarrow>
             (case log_write_database db_write r w1 a2 of (w2, a3) \<Rightarrow>
                log_writer_loop db_write envs w2
                  (a3\<lparr>app_log_queue := wq_task_done (app_log_queue a3)\<rparr>) s1)))"

definition log_writer_main ::
  "(string \<Rightarrow> string + 'db) \<Rightarrow> ('db \<Rightarrow> log_record \<Rightarrow> int \<times> 'db) \<Rightarrow> (app \<Rightarrow> app) list \<Rightarrow> app \<Rightarrow> os \<Rightarrow>
     ('db writer \<times> app \<times> os) option" where
  "log_writer_main db_open db_write envs a s =
     (case log_writer_open db_open a s of (w, a1, s1) \<Rightarrow>
        (case log_writer_loop db_write envs w a1 s1 of
           None \<Rightarrow> None
         | Some (w2, a2, s2) \<Rightarrow>
             Some (w2, a2, (case wr_file w2 of None \<Rightarrow> s2 | Some loc \<Rightarrow> snd (sys_fclose loc s2)))))"

text \<open>\<open>thread_ok\<close> is the result of creating the thread.\<close>

definition syseba_log_start :: "bool \<Rightarrow> app \<Rightarrow> os \<Rightarrow> int \<times> app \<times> os" where
  "syseba_log_start thread_ok a s =
     (case syseba_parent_dir (cfg_log_file (app_config a)) SYSEBA_PATH_MAX of
        None \<Rightarrow> (- 1, a, s)
      | Some parent \<Rightarrow>
          (case syseba_mkdirs parent s of (r, s1) \<Rightarrow>
             if r \<noteq> 0 \<or> \<not> thread_ok then (- 1, a, s1)
             else (0, a\<lparr>app_log_thread_started := True\<rparr>, s1)))"

text \<open>
  Stopping waits for the queue to empty, closes it and joins the thread; \<open>drain\<close> is what the writer
  does to the state during the wait and the join.
\<close>

definition syseba_log_stop :: "(app \<Rightarrow> app) \<Rightarrow> (app \<Rightarrow> app) \<Rightarrow> app \<Rightarrow> app" where
  "syseba_log_stop drain join a =
     (if \<not> app_log_thread_started a then a
      else let a1 = drain a;
               a2 = join (a1\<lparr>app_log_queue := wq_close (app_log_queue a1)\<rparr>)
           in a2\<lparr>app_log_thread_started := False\<rparr>)"

section \<open>The last lines of a file\<close>

definition tail_chunk :: nat where
  "tail_chunk = 8192"

definition fread_at :: "cpath \<Rightarrow> nat \<Rightarrow> nat \<Rightarrow> os \<Rightarrow> string option \<times> os" where
  "fread_at loc off n s =
     (case tick s of
        (SFail e, s1) \<Rightarrow> (None, set_errno e s1)
      | (ev, s1) \<Rightarrow>
          let s2 = apply_change ev loc s1 in
          (case fd_file loc s2 of
             None \<Rightarrow> (None, s2)
           | Some f \<Rightarrow>
               let d = take n (drop off (f_data f)) in (if length d = n then Some d else None, s2)))"

text \<open>
  The scan of one buffer from its end; the result is the index after the newline that exceeds the
  wanted number of lines, if it is in this buffer, and the count so far.
\<close>

fun scan_chunk :: "nat \<Rightarrow> string \<Rightarrow> 32 word \<Rightarrow> 32 word \<Rightarrow> nat option \<times> 32 word" where
  "scan_chunk 0 buffer newline_count lines = (None, newline_count)"
| "scan_chunk (Suc index) buffer newline_count lines =
     (if buffer ! index = newline
      then if newline_count + 1 > lines then (Some (index + 1), newline_count + 1)
           else scan_chunk index buffer (newline_count + 1) lines
      else scan_chunk index buffer newline_count lines)"

function tail_start :: "cpath \<Rightarrow> 32 word \<Rightarrow> nat \<Rightarrow> 32 word \<Rightarrow> os \<Rightarrow> nat option \<times> os" where
  "tail_start loc lines position newline_count s =
     (if position = 0 \<or> newline_count > lines then (Some position, s)
      else let chunk = (if position > tail_chunk then tail_chunk else position);
               position1 = position - chunk
        in (case fread_at loc position1 chunk s of
              (None, s1) \<Rightarrow> (None, s1)
            | (Some buffer, s1) \<Rightarrow>
                (case scan_chunk chunk buffer newline_count lines of
                   (Some off, found) \<Rightarrow> (Some (position1 + off), s1)
                 | (None, found) \<Rightarrow> tail_start loc lines position1 found s1)))"
  by pat_completeness auto
termination
  by (relation "measure (\<lambda>(loc, lines, position, newline_count, s). position)") (auto simp: tail_chunk_def)

declare tail_start.simps [simp del]

definition strip_line_end :: "string \<Rightarrow> string" where
  "strip_line_end line = rev (dropWhile (\<lambda>c. uchar c = 13 \<or> c = newline) (rev line))"

text \<open>The split of the data into its non-empty lines; \<open>memory k\<close> says whether storing line \<open>k\<close> succeeds.\<close>

function tail_lines :: "(nat \<Rightarrow> bool) \<Rightarrow> string \<Rightarrow> string list \<Rightarrow> string list option" where
  "tail_lines memory data result =
     (if data = [] then Some result
      else let line = takeWhile (\<lambda>c. c \<noteq> newline) data;
               rest = drop (length line + 1) data
        in if line = [] then tail_lines memory rest result
           else if memory (length result) then tail_lines memory rest (result @ [strip_line_end line])
           else None)"
  by pat_completeness auto
termination
  by (relation "measure (\<lambda>(memory, data, result). length data)") auto

declare tail_lines.simps [simp del]

text \<open>The result is the array with its count; every failure is the empty array, as in the code.\<close>

definition syseba_log_tail :: "bool \<Rightarrow> (nat \<Rightarrow> bool) \<Rightarrow> string \<Rightarrow> 32 word \<Rightarrow> os \<Rightarrow> string list \<times> os" where
  "syseba_log_tail data_memory memory path lines s =
     (case syseba_open_regular_read path s of
        (None, s1) \<Rightarrow> ([], s1)
      | (Some (loc, sz), s1) \<Rightarrow>
          (case sys_fstat loc s1 of
             (Inr (Reg f), s2) \<Rightarrow>
               (case tail_start loc lines (length (f_data f)) 0 s2 of
                  (None, s3) \<Rightarrow> ([], s3)
                | (Some position, s3) \<Rightarrow>
                    if \<not> data_memory then ([], s3)
                    else (case fread_at loc position (length (f_data f) - position) s3 of
                            (None, s4) \<Rightarrow> ([], s4)
                          | (Some data, s4) \<Rightarrow>
                              (case tail_lines memory data [] of None \<Rightarrow> ([], s4) | Some ls \<Rightarrow> (ls, s4))))
           | (_, s2) \<Rightarrow> ([], s2)))"

section \<open>The ring holds the last lines\<close>

definition ring_inv :: "app \<Rightarrow> string list \<Rightarrow> bool" where
  "ring_inv a xs \<longleftrightarrow>
     0 < app_recent_capacity a \<and> length (app_recent_logs a) = app_recent_capacity a \<and>
     app_recent_count a = min (length xs) (app_recent_capacity a) \<and>
     app_recent_next a = length xs mod app_recent_capacity a \<and>
     (\<forall>j < length xs. length xs \<le> j + app_recent_capacity a \<longrightarrow>
        app_recent_logs a ! (j mod app_recent_capacity a) = Some (xs ! j))"

lemma mod_distinct: "j < L \<Longrightarrow> L < j + (c :: nat) \<Longrightarrow> j mod c \<noteq> L mod c"
  by (metis add_diff_cancel_left' dvd_imp_le leD less_imp_le_nat mod_eq_dvd_iff_nat nat_less_le zero_less_diff diff_less_mono
      less_diff_conv2 add.commute)

lemma allocate_ok: "app_memory a = [] \<Longrightarrow> allocate a = (True, a)"
  by (simp add: allocate_def)

lemma ring_add:
  assumes "ring_inv a xs" "app_memory a = []"
  shows "ring_inv (recent_add line s a) (xs @ [line])" "app_memory (recent_add line s a) = []"
proof -
  let ?c = "app_recent_capacity a"
  have c: "0 < ?c" "length (app_recent_logs a) = ?c" using assms(1) by (auto simp: ring_inv_def)
  have "(app_recent_logs a)[length xs mod ?c := Some line] ! (j mod ?c) = Some ((xs @ [line]) ! j)"
    if j: "j < Suc (length xs)" "Suc (length xs) \<le> j + ?c" for j
  proof (cases "j = length xs")
    case True
    with c show ?thesis by simp
  next
    case False
    with j mod_distinct [of j "length xs" ?c] have "j mod ?c \<noteq> length xs mod ?c" by simp
    with False j assms(1) show ?thesis by (simp add: ring_inv_def nth_append)
  qed
  with assms c show "ring_inv (recent_add line s a) (xs @ [line])"
    by (auto simp: ring_inv_def recent_add_def allocate_ok mod_Suc_eq)
  show "app_memory (recent_add line s a) = []" using assms(2) by (simp add: recent_add_def allocate_ok)
qed

lemma ring_slot:
  assumes "ring_inv a xs" "i < app_recent_count a"
  shows "((app_recent_next a + app_recent_capacity a - app_recent_count a) mod app_recent_capacity a + i) mod app_recent_capacity a =
    (length xs - app_recent_count a + i) mod app_recent_capacity a"
proof (cases "length xs < app_recent_capacity a")
  case True
  with assms(1) show ?thesis by (simp add: ring_inv_def min_def)
next
  case False
  with assms(1) have "app_recent_count a = app_recent_capacity a" "app_recent_next a = length xs mod app_recent_capacity a"
    by (auto simp: ring_inv_def min_def)
  moreover from False have "length xs mod app_recent_capacity a = (length xs - app_recent_capacity a) mod app_recent_capacity a"
    by (metis le_mod_geq not_less)
  ultimately show ?thesis by (simp add: mod_add_left_eq)
qed

lemma ring_view:
  assumes "ring_inv a xs"
  shows "recent_view n a = drop (length xs - min n (app_recent_count a)) xs"
proof -
  let ?k = "app_recent_count a" and ?L = "length xs"
  define start where "start = (if ?k > n then ?k - n else 0)"
  have k: "?k \<le> ?L" "?L - ?k + ?k \<le> ?L" using assms by (auto simp: ring_inv_def)
  have slot: "app_recent_logs a ! (((app_recent_next a + app_recent_capacity a - ?k) mod app_recent_capacity a + i) mod app_recent_capacity a)
      = Some (xs ! (?L - ?k + i))" if "i < ?k" for i
    unfolding ring_slot [OF assms that] using assms that k by (auto simp: ring_inv_def)
  have "recent_view n a = map (\<lambda>i. xs ! (?L - ?k + i)) [start ..< ?k]"
    unfolding recent_view_def Let_def start_def [symmetric]
    by (subst concat_map_singleton [symmetric], intro arg_cong [of _ _ concat] map_cong refl) (simp add: slot)
  also have "\<dots> = drop (?L - ?k + start) xs"
    using k by (intro nth_equalityI) (auto simp: start_def)
  also have "?L - ?k + start = ?L - min n ?k" using k(1) by (auto simp: start_def)
  finally show ?thesis .
qed

text \<open>
  The dashboard and the status show the most recent log lines. Starting from the empty ring, after
  any sequence of additions the view of \<open>n\<close> lines is exactly the last \<open>n\<close> lines added (never more than
  the capacity), oldest first, however often the ring has wrapped.
\<close>

theorem recent_ring_view:
  assumes "app_recent_capacity a = c" "0 < c" "app_recent_logs a = replicate c None"
    and "app_recent_count a = 0" "app_recent_next a = 0" "app_memory a = []"
  shows "recent_view n (fold (\<lambda>(line, s). recent_add line s) ls a) =
    drop (length ls - min n (min (length ls) c)) (map fst ls)"
proof -
  have "ring_inv (fold (\<lambda>(line, s). recent_add line s) ls a) (map fst ls) \<and>
      app_memory (fold (\<lambda>(line, s). recent_add line s) ls a) = [] \<and>
      app_recent_capacity (fold (\<lambda>(line, s). recent_add line s) ls a) = c"
  proof (induction ls rule: rev_induct)
    case Nil
    with assms show ?case by (simp add: ring_inv_def)
  next
    case (snoc x ls)
    let ?f = "fold (\<lambda>(line, s). recent_add line s) ls a"
    obtain line s where x: "x = (line, s)" by (cases x)
    have "app_recent_capacity (recent_add line s ?f) = app_recent_capacity ?f"
      by (simp add: recent_add_def allocate_def split: list.split)
    with snoc ring_add [of ?f "map fst ls" line s] show ?case by (simp add: x)
  qed
  then have inv: "ring_inv (fold (\<lambda>(line, s). recent_add line s) ls a) (map fst ls)"
    and "app_recent_count (fold (\<lambda>(line, s). recent_add line s) ls a) = min (length ls) c" by (auto simp: ring_inv_def)
  with ring_view [OF inv] show ?thesis by simp
qed

theorem recent_ring_view_witness:
  "recent_view 2 (fold (\<lambda>(line, s). recent_add line s) [(''a'', demo_os), (''b'', demo_os), (''c'', demo_os), (''d'', demo_os)]
     (zero_app\<lparr>app_recent_capacity := 3, app_recent_logs := replicate 3 None\<rparr>)) = [''c'', ''d'']"
  using recent_ring_view [of "zero_app\<lparr>app_recent_capacity := 3, app_recent_logs := replicate 3 None\<rparr>" 3 2
      "[(''a'', demo_os), (''b'', demo_os), (''c'', demo_os), (''d'', demo_os)]"]
  by (simp add: zero_app_def)

section \<open>The tail of the log file\<close>

definition newlines :: "string \<Rightarrow> nat" where
  "newlines d = length (filter (\<lambda>c. c = newline) d)"

lemma newlines_simps [simp]: "newlines [] = 0" "newlines (c # d) = (if c = newline then 1 else 0) + newlines d"
  "newlines (d @ e) = newlines d + newlines e"
  by (simp_all add: newlines_def)

text \<open>Where the last \<open>n\<close> newline-terminated lines and what follows them start.\<close>

definition tail_position :: "string \<Rightarrow> nat \<Rightarrow> nat \<Rightarrow> bool" where
  "tail_position data n p \<longleftrightarrow> p \<le> length data \<and> newlines (drop p data) \<le> n \<and>
     (0 < p \<longrightarrow> data ! (p - 1) = newline \<and> newlines (drop p data) = n)"

lemma unat_Suc_max: "lines \<noteq> - 1 \<Longrightarrow> w \<le> lines \<Longrightarrow> unat (w + 1 :: 32 word) = unat w + 1"
proof -
  assume "lines \<noteq> - 1" "w \<le> lines"
  then have "w \<noteq> - 1" by (metis word_order.extremum_unique)
  then have "1 + w \<noteq> 0" by (metis add.commute add_eq_0_iff2)
  then show ?thesis by (simp add: unatSuc add.commute)
qed

lemma drop_nth_newlines:
  "i < length d \<Longrightarrow> newlines (drop i d) = (if d ! i = newline then 1 else 0) + newlines (drop (Suc i) d)"
  by (simp flip: Cons_nth_drop_Suc)

text \<open>
  The scan of a buffer that is the part of \<open>data\<close> from \<open>p\<close> on: it looks at the positions below
  \<open>p + index\<close>, with the newlines after them counted.
\<close>

lemma scan_chunk_spec:
  assumes "lines \<noteq> - 1"
  shows "index \<le> length buffer \<Longrightarrow> p + length buffer \<le> length data \<Longrightarrow> buffer = take (length buffer) (drop p data) \<Longrightarrow>
    unat k = newlines (drop (p + index) data) \<Longrightarrow> k \<le> lines \<Longrightarrow>
    (case scan_chunk index buffer k lines of
       (Some off, k') \<Rightarrow> tail_position data (unat lines) (p + off)
     | (None, k') \<Rightarrow> unat k' = newlines (drop p data) \<and> k' \<le> lines)"
proof (induction index arbitrary: k)
  case (Suc i)
  have at: "buffer ! i = data ! (p + i)"
    by (subst Suc.prems(3)) (use Suc.prems(1,2) in simp)
  have dr: "newlines (drop (p + i) data) = (if data ! (p + i) = newline then 1 else 0) + newlines (drop (p + Suc i) data)"
    using drop_nth_newlines [of "p + i" data] Suc.prems(1,2) by simp
  have up: "unat (k + 1) = unat k + 1" by (rule unat_Suc_max [OF assms Suc.prems(5)])
  show ?case
  proof (cases "buffer ! i = newline")
    case True
    show ?thesis
    proof (cases "k + 1 > lines")
      case gt: True
      then have "unat lines < unat k + 1" using up by (simp add: word_less_nat_alt)
      with Suc.prems(5) have "unat k = unat lines" by (simp add: word_le_nat_alt)
      with True gt Suc.prems at show ?thesis by (simp add: tail_position_def)
    next
      case False
      then have "k + 1 \<le> lines" by simp
      with True False Suc.IH [of "k + 1"] Suc.prems at dr up show ?thesis by simp
    qed
  next
    case False
    with Suc.IH [of k] Suc.prems at dr show ?thesis by simp
  qed
qed simp

lemma fread_calm:
  "os_sched s = [] \<Longrightarrow> fd_file loc s = Some f \<Longrightarrow> off + n \<le> length (f_data f) \<Longrightarrow>
     fread_at loc off n s = (Some (take n (drop off (f_data f))), s)"
  by (simp add: fread_at_def tick_calm apply_change_def Let_def)

lemma tail_start_spec:
  assumes "lines \<noteq> - 1" "os_sched s = []" "fd_file loc s = Some f" "data = f_data f"
  shows "position \<le> length data \<Longrightarrow> unat k = newlines (drop position data) \<Longrightarrow> k \<le> lines \<Longrightarrow>
    \<exists>p. tail_start loc lines position k s = (Some p, s) \<and> tail_position data (unat lines) p"
proof (induction position arbitrary: k rule: less_induct)
  case (less position)
  show ?case
  proof (cases "position = 0")
    case True
    then show ?thesis using less.prems by (subst tail_start.simps) (auto simp: tail_position_def word_le_nat_alt)
  next
    case False
    define chunk where "chunk = (if position > tail_chunk then tail_chunk else position)"
    let ?p = "position - chunk"
    have c: "0 < chunk" "chunk \<le> position" using False by (auto simp: chunk_def tail_chunk_def)
    define buffer where "buffer = take chunk (drop ?p data)"
    have len: "length buffer = chunk" using c less.prems(1) by (simp add: buffer_def)
    have rd: "fread_at loc ?p chunk s = (Some buffer, s)"
      using fread_calm [OF assms(2,3), of ?p chunk] c less.prems(1) assms(4) by (simp add: buffer_def)
    have step: "tail_start loc lines position k s = (case scan_chunk chunk buffer k lines of
        (Some off, found) \<Rightarrow> (Some (?p + off), s) | (None, found) \<Rightarrow> tail_start loc lines ?p found s)"
      using False leD [OF less.prems(3)] by (subst tail_start.simps) (simp add: Let_def rd flip: chunk_def)
    have scan: "case scan_chunk chunk buffer k lines of
        (Some off, k') \<Rightarrow> tail_position data (unat lines) (?p + off)
      | (None, k') \<Rightarrow> unat k' = newlines (drop ?p data) \<and> k' \<le> lines"
      using scan_chunk_spec [OF assms(1), of chunk buffer ?p data k] len c less.prems by (simp add: buffer_def)
    obtain r k' where r: "scan_chunk chunk buffer k lines = (r, k')" by (cases "scan_chunk chunk buffer k lines")
    show ?thesis
    proof (cases r)
      case None
      with scan r have "unat k' = newlines (drop ?p data)" "k' \<le> lines" by auto
      with less.IH [of ?p k'] less.prems(1) c step r None show ?thesis by simp
    next
      case (Some off)
      with scan r step show ?thesis by simp
    qed
  qed
qed

lemma tail_lines_words:
  "tail_lines (\<lambda>_. True) data result = Some (result @ map strip_line_end (strtok newline data))"
proof (induction "length data" arbitrary: data result rule: less_induct)
  case less
  show ?case
  proof (cases "data = []")
    case True
    then show ?thesis by (simp add: tail_lines.simps strtok_def)
  next
    case False
    define line where "line = takeWhile (\<lambda>c. c \<noteq> newline) data"
    have nl: "newline \<notin> set line" by (auto simp: line_def dest: set_takeWhileD)
    have words: "strtok newline data = (if line = [] then [] else [line]) @ strtok newline (drop (length line + 1) data)"
    proof (cases "dropWhile (\<lambda>c. c \<noteq> newline) data")
      case Nil
      then have "data = line" by (metis append_Nil2 line_def takeWhile_dropWhile_id)
      with nl False show ?thesis by (auto simp: strtok_def split_on_word)
    next
      case (Cons c rest)
      then have c: "c = newline" using hd_dropWhile [of "\<lambda>c. c \<noteq> newline" data] by auto
      with Cons have d: "data = line @ newline # rest" by (metis line_def takeWhile_dropWhile_id)
      with nl have "strtok newline data = (if line = [] then [] else [line]) @ strtok newline rest"
        by (auto simp: strtok_def split_on_append_sep)
      with d show ?thesis by simp
    qed
    have "length (drop (length line + 1) data) < length data" using False by simp
    note IH = less [OF this]
    have "tail_lines (\<lambda>_. True) data result =
        tail_lines (\<lambda>_. True) (drop (length line + 1) data) (result @ (if line = [] then [] else [strip_line_end line]))"
      using False by (subst tail_lines.simps) (simp add: Let_def flip: line_def)
    then show ?thesis unfolding IH words by simp
  qed
qed


definition tail_demo :: os where
  "tail_demo = quiet_os\<lparr>os_fs := [([''l''], Reg (demo_file\<lparr>f_data := ''x'' @ newline # ''y''\<rparr>))]\<rparr>"


section \<open>The writer writes everything\<close>

lemma stdio_write_calm:
  assumes "os_sched s = []" "fd_file loc s = Some f"
  shows "\<exists>s'. stdio_write loc bytes s = (True, s') \<and> os_sched s' = [] \<and>
    fd_file loc s' = Some (f\<lparr>f_data := f_data f @ bytes\<rparr>)"
proof -
  have "loc \<noteq> []" using assms(2) by (auto simp: fd_file_def)
  with assms show ?thesis
    by (simp add: stdio_write_def tick_calm write_count_def fd_update_def fd_file_def set_fs_def)
qed

lemma on_stderr_queue [simp]: "app_log_queue (on_stderr l a) = app_log_queue a"
  by (simp add: on_stderr_def)

lemma log_write_database_keeps:
  "log_write_database db_write r w a = (w', a') \<Longrightarrow> wr_file w' = wr_file w \<and> app_log_queue a' = app_log_queue a"
  by (auto simp: log_write_database_def Let_def split: option.splits prod.splits if_splits)

text \<open>
  The log writer loses nothing on shutdown. Once the queue is closed, the loop of the writer ends
  after one round per queued record and one more, the log file has grown by exactly the lines of the
  records in queue order, the queue is empty and every record counts as done, whatever the database
  does.
\<close>

theorem log_writer_drains:
  assumes "os_sched s = []" "wr_file w = Some loc" "fd_file loc s = Some f"
    and "wq_closed (app_log_queue a)" "wq_items (app_log_queue a) = rs" "length rs \<le> wq_unfinished (app_log_queue a)"
  shows "\<exists>w' a' s'. log_writer_loop db_write (replicate (length rs + 1) (\<lambda>x. x)) w a s = Some (w', a', s') \<and>
    fd_file loc s' = Some (f\<lparr>f_data := f_data f @ concat (map (\<lambda>r. log_line r @ [newline]) rs)\<rparr>) \<and>
    wq_items (app_log_queue a') = [] \<and>
    wq_unfinished (app_log_queue a') = wq_unfinished (app_log_queue a) - length rs"
  using assms
proof (induction rs arbitrary: w a s f)
  case Nil
  then show ?case by (auto simp: wq_pop_def)
next
  case (Cons r rs)
  let ?q = "(app_log_queue a)\<lparr>wq_items := rs\<rparr>"
  from stdio_write_calm [OF Cons.prems(1,3), of "log_line r @ [newline]"] obtain s1 where
    s1: "stdio_write loc (log_line r @ [newline]) s = (True, s1)" "os_sched s1 = []"
      "fd_file loc s1 = Some (f\<lparr>f_data := f_data f @ log_line r @ [newline]\<rparr>)" by auto
  obtain w2 a3 where db: "log_write_database db_write r w (a\<lparr>app_log_queue := ?q\<rparr>) = (w2, a3)"
    by (cases "log_write_database db_write r w (a\<lparr>app_log_queue := ?q\<rparr>)")
  note keep = log_write_database_keeps [OF db]
  let ?a = "a3\<lparr>app_log_queue := wq_task_done (app_log_queue a3)\<rparr>"
  have step: "log_writer_loop db_write (replicate (length (r # rs) + 1) (\<lambda>x. x)) w a s =
      log_writer_loop db_write (replicate (length rs + 1) (\<lambda>x. x)) w2 ?a s1"
    using Cons.prems(2,5) s1(1) db by (simp add: wq_pop_def log_write_file_def)
  have q: "wq_closed (app_log_queue ?a)" "wq_items (app_log_queue ?a) = rs"
    "wq_unfinished (app_log_queue ?a) = wq_unfinished (app_log_queue a) - 1"
    using keep Cons.prems(4) by (simp_all add: wq_task_done_def)
  with Cons.prems(6) have "length rs \<le> wq_unfinished (app_log_queue ?a)" by simp
  moreover have "wr_file w2 = Some loc" using keep Cons.prems(2) by simp
  ultimately show ?case
    using Cons.IH [OF s1(2) _ s1(3) q(1,2), of w2] unfolding step q(3)
    by (simp del: log_writer_loop.simps)
qed

theorem log_writer_drains_witness:
  "\<exists>w' a' s'. log_writer_loop (\<lambda>db r. (0 :: int, Suc db)) (replicate 2 (\<lambda>x. x))
       \<lparr>wr_file = Some [''l''], wr_database = Some 0, wr_database_error_reported = False\<rparr>
       (zero_app\<lparr>app_log_queue := \<lparr>wq_items = [make_record ''INFO'' ''START'' [] [] [] ''started'' tail_demo], wq_unfinished = 1, wq_closed = True\<rparr>\<rparr>)
       tail_demo = Some (w', a', s') \<and> wq_items (app_log_queue a') = []"
proof -
  let ?a = "zero_app\<lparr>app_log_queue := \<lparr>wq_items = [make_record ''INFO'' ''START'' [] [] [] ''started'' tail_demo],
    wq_unfinished = 1, wq_closed = True\<rparr>\<rparr>"
  let ?w = "\<lparr>wr_file = Some [''l''], wr_database = Some 0, wr_database_error_reported = False\<rparr> :: nat writer"
  have "os_sched tail_demo = []" "fd_file [''l''] tail_demo = Some (demo_file\<lparr>f_data := ''x'' @ newline # ''y''\<rparr>)"
    by (simp_all add: tail_demo_def quiet_os_def fd_file_def fs_get_def)
  from log_writer_drains [OF this(1) _ this(2), of ?w ?a _ "\<lambda>db r. (0 :: int, Suc db)"] show ?thesis
    by (auto simp del: log_writer_loop.simps simp: numeral_2_eq_2)
qed

end
