(* ===== verification/App.thy ===== *)
theory App
  imports Log
begin

text \<open>
  The application of \<^verbatim>\<open>app.c\<close> and \<^verbatim>\<open>watcher.c\<close>: putting events on the queue, processing an event in a
  worker, the initial synchronisation, the instance lock, starting and stopping. The outcomes that
  the code asks of the threads library, of SQLite and of the web server are arguments.
\<close>

section \<open>Comparing and counting\<close>

definition files_need_copy :: "string \<Rightarrow> string \<Rightarrow> os \<Rightarrow> bool \<times> os" where
  "files_need_copy source destination s =
     (case syseba_fs_stat source s of
        (None, s1) \<Rightarrow> (False, s1)
      | (Some (size1, source_mtime, source_directory), s1) \<Rightarrow>
          (case syseba_fs_stat destination s1 of
             (None, s2) \<Rightarrow> (True, s2)
           | (Some (size2, destination_mtime, destination_directory), s2) \<Rightarrow>
               (source_directory \<noteq> destination_directory \<or> size1 \<noteq> size2 \<or>
                source_mtime \<noteq> destination_mtime, s2)))"

definition on_stats :: "(stats \<Rightarrow> stats) \<Rightarrow> app \<Rightarrow> app" where
  "on_stats f a = a\<lparr>app_stats := f (app_stats a)\<rparr>"

definition inc_skipped :: "stats \<Rightarrow> stats" where "inc_skipped st = st\<lparr>st_skipped := st_skipped st + 1\<rparr>"
definition inc_copied :: "stats \<Rightarrow> stats" where "inc_copied st = st\<lparr>st_copied := st_copied st + 1\<rparr>"
definition inc_updated :: "stats \<Rightarrow> stats" where "inc_updated st = st\<lparr>st_updated := st_updated st + 1\<rparr>"
definition inc_deleted :: "stats \<Rightarrow> stats" where "inc_deleted st = st\<lparr>st_deleted := st_deleted st + 1\<rparr>"

definition inc_queued :: "stats \<Rightarrow> stats" where
  "inc_queued st = st\<lparr>queued_events := queued_events st + 1\<rparr>"

section \<open>Enqueueing\<close>

definition app_enqueue_internal :: "event_kind \<Rightarrow> string \<Rightarrow> bool \<Rightarrow> bool \<Rightarrow> app \<Rightarrow> os \<Rightarrow> result \<times> app \<times> os" where
  "app_enqueue_internal kind path is_directory initial_sync a s =
     (if syseba_app_is_stopping a then (SYSEBA_ERR_INVALID, a, s)
      else (case syseba_path_is_within (cfg_source (app_config a)) path s of
              (False, s1) \<Rightarrow> (SYSEBA_ERR_INVALID, a, s1)
            | (True, s1) \<Rightarrow>
                (case allocate a of
                   (False, a1) \<Rightarrow> (SYSEBA_ERR, a1, s1)
                 | (True, a1) \<Rightarrow>
                     (case syseba_monotonic_ns s1 of (ns, s2) \<Rightarrow>
                        if \<not> fits SYSEBA_PATH_MAX path then (SYSEBA_ERR_INVALID, a1, s2)
                        else
                          let e = \<lparr>ev_kind = kind, ev_path = path, ev_is_directory = is_directory,
                                   ev_initial_sync = initial_sync, ev_observed_ns = ns\<rparr>;
                              a2 = on_stats inc_queued a1
                          in (case allocate a2 of (node, a3) \<Rightarrow>
                                (case wq_push node e (app_event_queue a3) of (r, q) \<Rightarrow>
                                   (if r \<noteq> 0 then SYSEBA_ERR else SYSEBA_OK, a3\<lparr>app_event_queue := q\<rparr>, s2)))))))"

definition syseba_app_enqueue :: "event_kind \<Rightarrow> string \<Rightarrow> bool \<Rightarrow> app \<Rightarrow> os \<Rightarrow> result \<times> app \<times> os" where
  "syseba_app_enqueue kind path is_directory = app_enqueue_internal kind path is_directory False"

definition syseba_app_enqueue_initial :: "event_kind \<Rightarrow> string \<Rightarrow> bool \<Rightarrow> app \<Rightarrow> os \<Rightarrow> result \<times> app \<times> os" where
  "syseba_app_enqueue_initial kind path is_directory = app_enqueue_internal kind path is_directory True"

section \<open>Processing an event\<close>

definition initial_progress :: "bool \<Rightarrow> bool \<Rightarrow> app \<Rightarrow> app" where
  "initial_progress copied skipped a =
     on_stats (\<lambda>st. st\<lparr>initial_done := initial_done st + 1,
        initial_copied := initial_copied st + (if copied then 1 else 0),
        initial_skipped := initial_skipped st + (if skipped then 1 else 0)\<rparr>) a"

text \<open>
  The part of \<^verbatim>\<open>syseba_app_process_event\<close> for creation and modification, up to the label
  \<^verbatim>\<open>completed\<close>: the result and the flags \<^verbatim>\<open>copied\<close> and \<^verbatim>\<open>skipped\<close>.
\<close>

definition process_change :: "event \<Rightarrow> string \<Rightarrow> app \<Rightarrow> os \<Rightarrow> result \<times> bool \<times> bool \<times> app \<times> os" where
  "process_change e backup a s =
     (if ev_is_directory e
      then (case syseba_mkdirs backup s of (r, s1) \<Rightarrow>
              if r \<noteq> 0 then (SYSEBA_ERR, False, False, a, s1)
              else if ev_initial_sync e then (SYSEBA_OK, False, False, a, s1)
              else (SYSEBA_OK, False, False,
                    syseba_log_emit ''INFO'' ''MKDIR'' (ev_path e) backup []
                      (syseba_tr (app_language a) ''Directory creata'' ''Directory created'' @ '': '' @ backup) s1 a, s1))
      else (case syseba_fs_is_regular (ev_path e) s of
              (False, s1) \<Rightarrow> (SYSEBA_OK, False, True, on_stats inc_skipped a, s1)
            | (True, s1) \<Rightarrow>
                (case files_need_copy (ev_path e) backup s1 of
                   (False, s2) \<Rightarrow> (SYSEBA_OK, False, True, on_stats inc_skipped a, s2)
                 | (True, s2) \<Rightarrow>
                     (case syseba_copy_file (ev_path e) backup 4 s2 of (r, s3) \<Rightarrow>
                        if r \<noteq> 0
                        then (if os_errno s3 = Some ENOENT then SYSEBA_ERR_NOT_FOUND else SYSEBA_ERR, False, False, a, s3)
                        else
                          let created = (ev_kind e = EVENT_CREATE);
                              a1 = on_stats (if created then inc_copied else inc_updated) a
                          in (SYSEBA_OK, True, False,
                              syseba_log_emit ''INFO'' (if created then ''CREATE'' else ''MODIFY'') (ev_path e) backup []
                                ((if created then syseba_tr (app_language a1) ''Creato'' ''Created''
                                  else syseba_tr (app_language a1) ''Modificato'' ''Modified'') @ '': '' @ ev_path e @ '' -> '' @ backup)
                                s3 a1, s3)))))"

definition process_delete :: "(nat \<Rightarrow> bool) \<Rightarrow> string \<Rightarrow> string \<Rightarrow> app \<Rightarrow> os \<Rightarrow> result \<times> app \<times> os" where
  "process_delete memory backup restore a s =
     (case syseba_unique_restore_path restore SYSEBA_PATH_MAX s of
        (None, s1) \<Rightarrow> (SYSEBA_ERR, a, s1)
      | (Some destination, s1) \<Rightarrow>
          (case syseba_move_path memory backup destination s1 of (r, s2) \<Rightarrow>
             if r \<noteq> 0 then (SYSEBA_ERR, a, s2)
             else (SYSEBA_OK,
                   syseba_log_emit ''INFO'' ''DELETE'' backup destination []
                     (syseba_tr (app_language a) ''Eliminato dalla sorgente; backup spostato nel restore''
                        ''Deleted from source; backup moved to restore'' @ '': '' @ destination) s2 (on_stats inc_deleted a), s2)))"

text \<open>The three paths the event is about: relative to the source, in the backup and in the restore area.\<close>

definition event_paths :: "app \<Rightarrow> string \<Rightarrow> os \<Rightarrow> (string \<times> string) option \<times> os" where
  "event_paths a path s =
     (case syseba_relative_path (cfg_source (app_config a)) path SYSEBA_PATH_MAX s of
        (None, s1) \<Rightarrow> (None, s1)
      | (Some relative, s1) \<Rightarrow>
          (case syseba_safe_join (cfg_backup (app_config a)) relative SYSEBA_PATH_MAX s1 of
             (None, s2) \<Rightarrow> (None, s2)
           | (Some backup, s2) \<Rightarrow>
               (case syseba_safe_join (cfg_restore (app_config a)) relative SYSEBA_PATH_MAX s2 of
                  (None, s3) \<Rightarrow> (None, s3)
                | (Some restore, s3) \<Rightarrow> (Some (backup, restore), s3))))"

definition syseba_app_process_event :: "(nat \<Rightarrow> bool) \<Rightarrow> event \<Rightarrow> app \<Rightarrow> os \<Rightarrow> result \<times> app \<times> os" where
  "syseba_app_process_event memory e a s =
     (case event_paths a (ev_path e) s of
        (None, s1) \<Rightarrow> (SYSEBA_ERR_INVALID, a, s1)
      | (Some (backup, restore), s1) \<Rightarrow>
          (case (if ev_kind e = EVENT_CREATE \<or> ev_kind e = EVENT_MODIFY then process_change e backup a s1
                 else (case syseba_fs_exists backup s1 of
                         (False, s2) \<Rightarrow> (SYSEBA_OK, False, False, a, s2)
                       | (True, s2) \<Rightarrow>
                           (case process_delete memory backup restore a s2 of (r, a1, s3) \<Rightarrow> (r, False, False, a1, s3)))) of
             (r, copied, skipped, a1, s2) \<Rightarrow>
               (r, if ev_initial_sync e \<and> \<not> ev_is_directory e then initial_progress copied skipped a1 else a1, s2)))"

section \<open>Workers\<close>

text \<open>What a worker does with an event it has taken from the queue; \<open>strerror\<close> is the text of \<^verbatim>\<open>errno\<close>.\<close>

definition worker_handle :: "(errno option \<Rightarrow> string) \<Rightarrow> (nat \<Rightarrow> bool) \<Rightarrow> event \<Rightarrow> app \<Rightarrow> os \<Rightarrow> app \<times> os" where
  "worker_handle strerror memory e a s =
     (case syseba_app_process_event memory e a s of (result, a1, s1) \<Rightarrow>
        let a2 = (if result \<noteq> SYSEBA_OK \<and> \<not> (result = SYSEBA_ERR_NOT_FOUND \<and> ev_kind e \<noteq> EVENT_DELETE)
                  then syseba_log_emit ''ERROR'' ''ERROR'' (ev_path e) [] (strerror (os_errno s1))
                         (syseba_tr (app_language a1) ''Errore durante l'operazione su'' ''Error processing'' @ '' '' @ ev_path e @
                          '': '' @ strerror (os_errno s1)) s1 a1
                  else a1)
        in (a2\<lparr>app_event_queue := wq_task_done (app_event_queue a2)\<rparr>, s1))"

text \<open>
  One worker alone, over a script of what the other threads do before each return of
  \<^verbatim>\<open>syseba_queue_pop\<close>; \<open>None\<close> means the worker still waits when the script ends.
\<close>

fun worker_main :: "(errno option \<Rightarrow> string) \<Rightarrow> (nat \<Rightarrow> bool) \<Rightarrow> (app \<times> os \<Rightarrow> app \<times> os) list \<Rightarrow> app \<Rightarrow> os \<Rightarrow> (app \<times> os) option" where
  "worker_main strerror memory [] a s = None"
| "worker_main strerror memory (env # envs) a s =
     (case env (a, s) of (a1, s1) \<Rightarrow>
        (case wq_pop (app_event_queue a1) of
           (None, q) \<Rightarrow> if wq_closed (app_event_queue a1) then Some (a1, s1) else worker_main strerror memory envs a1 s1
         | (Some e, q) \<Rightarrow>
             (case worker_handle strerror memory e (a1\<lparr>app_event_queue := q\<rparr>) s1 of (a2, s2) \<Rightarrow>
                worker_main strerror memory envs a2 s2)))"

section \<open>The initial synchronisation\<close>

record sync_context =
  sc_app :: app
  sc_files :: "64 word"
  sc_enqueue :: bool
  sc_errors :: int

definition sync_walk :: "sync_context callback" where
  "sync_walk path directory c s =
     (if syseba_app_is_stopping (sc_app c) then (- 1, c, s)
      else let c1 = (if directory then c else c\<lparr>sc_files := sc_files c + 1\<rparr>) in
        if \<not> sc_enqueue c1 then (0, c1, s)
        else (case syseba_app_enqueue_initial EVENT_CREATE path directory (sc_app c1) s of (r, a, s1) \<Rightarrow>
                (0, c1\<lparr>sc_app := a, sc_errors := (if r \<noteq> SYSEBA_OK then sc_errors c1 + 1 else sc_errors c1)\<rparr>, s1)))"

definition sync_begin :: "os \<Rightarrow> app \<Rightarrow> app" where
  "sync_begin s a = a\<lparr>app_stats := (app_stats a)\<lparr>initial_running := True, initial_total := 0, initial_done := 0,
        initial_copied := 0, initial_skipped := 0\<rparr>,
      app_initial_state := ''running'', app_initial_started_at := syseba_iso_now s,
      app_initial_completed_at := [], app_initial_error := []\<rparr>"

definition int_text :: "int \<Rightarrow> string" where \<comment> \<open>\<^verbatim>\<open>%d\<close>\<close>
  "int_text i = (if i < 0 then CHR ''-'' # dec (nat (- i)) else dec (nat i))"

definition sync_end :: "int \<Rightarrow> os \<Rightarrow> app \<Rightarrow> app" where
  "sync_end errors s a =
     (let a1 = a\<lparr>app_stats := (app_stats a)\<lparr>initial_running := False\<rparr>, app_initial_completed_at := syseba_iso_now s\<rparr>
      in if syseba_app_is_stopping a1 then a1\<lparr>app_initial_state := ''stopped''\<rparr>
         else if errors > 0
         then a1\<lparr>app_initial_state := ''completed_with_errors'',
                 app_initial_error := cut SYSEBA_MESSAGE_MAX (int_text errors @ '' scan/enqueue errors'')\<rparr>
         else a1\<lparr>app_initial_state := ''completed''\<rparr>)"

text \<open>The two scans: the first counts the files, the second puts the events on the queue.\<close>

definition sync_count :: "app \<Rightarrow> os \<Rightarrow> sync_context \<times> os" where
  "sync_count a s =
     (case syseba_walk_files sync_walk (cfg_source (app_config a)) \<lparr>sc_app = a, sc_files = 0, sc_enqueue = False, sc_errors = 0\<rparr> s of
        (r, c, s1) \<Rightarrow>
          let c1 = (if r \<noteq> 0 \<and> \<not> syseba_app_is_stopping (sc_app c) then c\<lparr>sc_errors := sc_errors c + 1\<rparr> else c)
          in (c1\<lparr>sc_app := on_stats (\<lambda>st. st\<lparr>initial_total := sc_files c1\<rparr>) (sc_app c1)\<rparr>, s1))"

definition sync_enqueue :: "sync_context \<Rightarrow> os \<Rightarrow> sync_context \<times> os" where
  "sync_enqueue c s =
     (let c1 = c\<lparr>sc_enqueue := True, sc_files := 0\<rparr> in
      if syseba_app_is_stopping (sc_app c1) then (c1, s)
      else (case syseba_walk_files sync_walk (cfg_source (app_config (sc_app c1))) c1 s of
              (r, c2, s1) \<Rightarrow> (if r \<noteq> 0 then c2\<lparr>sc_errors := sc_errors c2 + 1\<rparr> else c2, s1)))"

definition sync_finish :: "int \<Rightarrow> app \<times> os \<Rightarrow> result \<times> app \<times> os" where
  "sync_finish errors w =
     (case w of (a, s) \<Rightarrow>
        let a1 = sync_end errors s a
        in (if errors = 0 then SYSEBA_OK else SYSEBA_ERR,
            syseba_log_emit (if errors > 0 then ''WARNING'' else ''INFO'') ''SYNC''
              (cfg_source (app_config a1)) (cfg_backup (app_config a1))
              (if errors > 0 then app_initial_error a1 else [])
              (syseba_tr (app_language a1) ''Sincronizzazione iniziale completata'' ''Initial synchronization completed'') s a1, s))"

text \<open>\<open>wait\<close> is what happens while the thread waits for the queue to empty.\<close>

definition syseba_app_initial_sync :: "(app \<times> os \<Rightarrow> app \<times> os) \<Rightarrow> app \<Rightarrow> os \<Rightarrow> result \<times> app \<times> os" where
  "syseba_app_initial_sync wait a s =
     (if initial_running (app_stats a) then (SYSEBA_ERR_BUSY, a, s)
      else (case sync_count (sync_begin s a) s of (c, s1) \<Rightarrow>
        let a1 = syseba_log_emit ''INFO'' ''SYNC'' (cfg_source (app_config (sc_app c))) (cfg_backup (app_config (sc_app c))) []
              (syseba_tr (app_language (sc_app c)) ''Sincronizzazione iniziale avviata; file trovati''
                 ''Initial synchronization started; files found'' @ '': '' @ dec (unat (sc_files c))) s1 (sc_app c)
        in (case sync_enqueue (c\<lparr>sc_app := a1\<rparr>) s1 of (c2, s2) \<Rightarrow>
          sync_finish (sc_errors c2) (wait (sc_app c2, s2)))))"

section \<open>Runtime directories and the instance lock\<close>

fun prepare_parents :: "string list \<Rightarrow> os \<Rightarrow> int \<times> os" where
  "prepare_parents [] s = (0, s)"
| "prepare_parents (path # paths) s =
     (case syseba_parent_dir path SYSEBA_PATH_MAX of
        None \<Rightarrow> (- 1, s)
      | Some parent \<Rightarrow>
          (case syseba_mkdirs parent s of (r, s1) \<Rightarrow> if r \<noteq> 0 then (- 1, s1) else prepare_parents paths s1))"

definition prepare_runtime_paths :: "app \<Rightarrow> os \<Rightarrow> int \<times> os" where
  "prepare_runtime_paths a s =
     (case syseba_mkdirs (cfg_backup (app_config a)) s of (r, s1) \<Rightarrow>
        if r \<noteq> 0 then (- 1, s1)
        else (case syseba_mkdirs (cfg_restore (app_config a)) s1 of (r2, s2) \<Rightarrow>
          if r2 \<noteq> 0 then (- 1, s2)
          else prepare_parents [cfg_log_file (app_config a), app_db_path a, app_lock_path a] s2))"

text \<open>
  \<open>flock_ok\<close> says whether the exclusive lock is granted; the calls that truncate the file and write
  the process number may fail like any other.
\<close>

definition sys_ftruncate :: "cpath \<Rightarrow> os \<Rightarrow> (errno + unit) \<times> os" where
  "sys_ftruncate loc = syscall (\<lambda>_. fd_update loc (\<lambda>f. f\<lparr>f_data := []\<rparr>))"

definition syseba_app_acquire_lock :: "bool \<Rightarrow> app \<Rightarrow> os \<Rightarrow> result \<times> app \<times> os" where
  "syseba_app_acquire_lock flock_ok a s =
     (case sys_open_append (app_lock_path a) 416 s of
        (Inl e, s1) \<Rightarrow> (SYSEBA_ERR_PERMISSION, a, s1)
      | (Inr loc, s1) \<Rightarrow>
          (case sys_fstat loc s1 of
             (Inr (Reg f), s2) \<Rightarrow>
               if \<not> flock_ok then (SYSEBA_ERR_BUSY, a, s2)
               else (case sys_ftruncate loc s2 of
                       (Inl e, s3) \<Rightarrow> (SYSEBA_ERR, a, s3)
                     | (Inr _, s3) \<Rightarrow>
                         (case sys_fdopen loc s3 of
                            (Inl e, s4) \<Rightarrow> (SYSEBA_ERR, a, s4)
                          | (Inr _, s4) \<Rightarrow>
                              (case stdio_write loc (dec (os_pid s4) @ [newline]) s4 of
                                 (False, s5) \<Rightarrow> (SYSEBA_ERR, a, s5)
                               | (True, s5) \<Rightarrow>
                                   (case sys_fsync loc s5 of
                                      (Inl e, s6) \<Rightarrow> (SYSEBA_ERR, a, s6)
                                    | (Inr _, s6) \<Rightarrow> (SYSEBA_OK, a\<lparr>app_lock_file := Some loc\<rparr>, s6)))))
           | (_, s2) \<Rightarrow> (SYSEBA_ERR_PERMISSION, a, s2)))"

definition syseba_app_release_lock :: "app \<Rightarrow> app" where
  "syseba_app_release_lock a = (if app_lock_file a \<noteq> None then a\<lparr>app_lock_file := None\<rparr> else a)"

section \<open>Initialisation\<close>

text \<open>
  The arguments after the options are the results of initialising the mutex and the two queues.
\<close>

definition syseba_app_init :: "config \<Rightarrow> 'd options \<Rightarrow> bool \<Rightarrow> bool \<Rightarrow> bool \<Rightarrow> bool list \<Rightarrow> result \<times> app" where
  "syseba_app_init cfg opts mutex_ok events_ok logs_ok memory =
     (let a = zero_app\<lparr>app_config := cfg, app_language := opt_language opts, app_web_port := opt_web_port opts,
             app_web_enabled := opt_web opts \<or> opt_web_only opts, app_web_only := opt_web_only opts,
             app_no_initial_sync := opt_no_initial_sync opts, app_silent := opt_silent opts,
             app_recent_capacity := SYSEBA_RECENT_LOGS, app_lock_path := cut SYSEBA_PATH_MAX (opt_lock_path opts),
             app_db_path := cut SYSEBA_PATH_MAX (opt_db_path opts), app_web_host := cut 256 (opt_web_host opts),
             app_initial_state := (if opt_web_only opts then ''not_available''
                                   else if opt_no_initial_sync opts then ''skipped'' else ''pending''),
             app_memory := memory\<rparr>
      in if \<not> mutex_ok \<or> \<not> events_ok \<or> \<not> logs_ok then (SYSEBA_ERR, a)
         else (case allocate a of
                 (False, a1) \<Rightarrow> (SYSEBA_ERR, a1\<lparr>app_event_queue := wq_close (app_event_queue a1), app_log_queue := wq_close (app_log_queue a1)\<rparr>)
               | (True, a1) \<Rightarrow> (SYSEBA_OK, a1\<lparr>app_recent_logs := replicate (app_recent_capacity a1) None\<rparr>)))"

section \<open>The watcher thread and the web server\<close>

definition syseba_watcher_start :: "bool \<Rightarrow> app \<Rightarrow> int \<times> app" where
  "syseba_watcher_start thread_ok a = (if \<not> thread_ok then (- 1, a) else (0, a\<lparr>app_watcher_thread_started := True\<rparr>))"

definition syseba_watcher_stop :: "(app \<Rightarrow> app) \<Rightarrow> app \<Rightarrow> app" where
  "syseba_watcher_stop join a =
     (if \<not> app_watcher_thread_started a then a
      else (join (syseba_app_set_stopping a))\<lparr>app_watcher_thread_started := False\<rparr>)"

text \<open>Whether to watch natively or by polling; the mode is the environment variable \<^verbatim>\<open>SYSEBA_WATCHER\<close>.\<close>

definition watcher_is_native :: "string option \<Rightarrow> bool" where
  "watcher_is_native mode = (case mode of None \<Rightarrow> True | Some m \<Rightarrow> m \<noteq> ''poll'')"

definition syseba_web_start :: "bool \<Rightarrow> app \<Rightarrow> os \<Rightarrow> result \<times> app" where
  "syseba_web_start mg_start_ok a s =
     (if \<not> fits 320 (app_web_host a @ '':'' @ int_text (app_web_port a)) then (SYSEBA_ERR_INVALID, a)
      else if \<not> mg_start_ok then (SYSEBA_ERR, a\<lparr>app_web_context := False\<rparr>)
      else (SYSEBA_OK,
            syseba_log_emit ''INFO'' ''WEB'' [] [] (app_web_token_source a)
              (syseba_tr (app_language a) ''Web UI in ascolto su'' ''Web UI listening on'' @ '' http://'' @ app_web_host a @ '':'' @
               int_text (app_web_port a) @ '' ('' @
               (if app_web_auth_enabled a
                then syseba_tr (app_language a) ''autenticazione attiva'' ''authentication enabled''
                else syseba_tr (app_language a) ''autenticazione disabilitata'' ''authentication disabled'') @ '')'')
              s (a\<lparr>app_web_context := True\<rparr>)))"

definition syseba_web_stop :: "app \<Rightarrow> app" where
  "syseba_web_stop a = (if app_web_context a then a\<lparr>app_web_context := False\<rparr> else a)"

section \<open>Stopping and starting\<close>

definition syseba_app_request_stop :: "app \<Rightarrow> app" where
  "syseba_app_request_stop a = syseba_app_set_stopping a"

text \<open>
  What the other threads do to the state while the stopping thread waits for them: joining the
  watcher, joining the initial synchronisation, waiting for the events and joining the workers,
  waiting for the log queue, joining the log writer.
\<close>

record stop_env =
  sp_watcher :: "app \<Rightarrow> app"
  sp_initial :: "app \<Rightarrow> app"
  sp_drain :: "app \<Rightarrow> app"
  sp_workers :: "app \<Rightarrow> app"
  sp_log_drain :: "app \<Rightarrow> app"
  sp_log_join :: "app \<Rightarrow> app"

definition syseba_app_stop :: "stop_env \<Rightarrow> app \<Rightarrow> os \<Rightarrow> app" where
  "syseba_app_stop env a s =
     (let a1 = syseba_watcher_stop (sp_watcher env) (syseba_web_stop (syseba_app_set_stopping a));
          a2 = (if app_initial_thread_started a1 then (sp_initial env a1)\<lparr>app_initial_thread_started := False\<rparr> else a1);
          a3 = (case app_workers a2 of
                  None \<Rightarrow> a2
                | Some n \<Rightarrow>
                    let b = sp_drain env a2;
                        c = sp_workers env (b\<lparr>app_event_queue := wq_close (app_event_queue b)\<rparr>)
                    in c\<lparr>app_workers := None\<rparr>);
          a4 = (if app_log_thread_started a3
                then syseba_log_stop (sp_log_drain env) (sp_log_join env)
                       (syseba_log_emit ''INFO'' ''STOP'' [] [] []
                          (syseba_tr (app_language a3) ''Arresto di SySeBa'' ''SySeBa stopping'') s a3)
                else a3)
      in syseba_app_release_lock (a4\<lparr>app_running := False\<rparr>))"

text \<open>The results of the calls the start makes, in the order it makes them.\<close>

record start_env =
  se_flock :: bool
  se_database :: bool
  se_log_thread :: bool
  se_workers :: "nat \<Rightarrow> bool"
  se_watcher :: bool
  se_initial :: bool
  se_web :: bool

text \<open>The loop that creates the workers: the index of the first that cannot be created.\<close>

function first_failing :: "(nat \<Rightarrow> bool) \<Rightarrow> nat \<Rightarrow> nat \<Rightarrow> nat option" where
  "first_failing ok index n = (if index \<ge> n then None else if \<not> ok index then Some index else first_failing ok (index + 1) n)"
  by pat_completeness auto
termination
  by (relation "measure (\<lambda>(ok, index, n). n - index)") auto

declare first_failing.simps [simp del]

definition start_workers :: "start_env \<Rightarrow> app \<Rightarrow> bool \<times> app" where
  "start_workers env a =
     (case allocate a of
        (False, a1) \<Rightarrow> (False, a1)
      | (True, a1) \<Rightarrow>
          (case first_failing (se_workers env) 0 (cfg_threads (app_config a1)) of
             None \<Rightarrow> (True, a1\<lparr>app_workers := Some (cfg_threads (app_config a1))\<rparr>)
           | Some index \<Rightarrow> (False, a1\<lparr>app_workers := Some index\<rparr>)))"

definition start_threads :: "start_env \<Rightarrow> app \<Rightarrow> bool \<times> app" where
  "start_threads env a =
     (case start_workers env a of
        (False, a1) \<Rightarrow> (False, a1)
      | (True, a1) \<Rightarrow>
          (case syseba_watcher_start (se_watcher env) a1 of (r, a2) \<Rightarrow>
             if r \<noteq> 0 then (False, a2)
             else if app_no_initial_sync a2 then (True, a2)
             else if se_initial env then (True, a2\<lparr>app_initial_thread_started := True\<rparr>)
             else (False, a2)))"

definition syseba_app_start :: "start_env \<Rightarrow> stop_env \<Rightarrow> app \<Rightarrow> os \<Rightarrow> result \<times> app \<times> os" where
  "syseba_app_start env stop a s =
     (case prepare_runtime_paths a s of (r, s1) \<Rightarrow>
        if r \<noteq> 0 then (SYSEBA_ERR, a, s1)
        else (case (if app_web_only a then (SYSEBA_OK, a, s1) else syseba_app_acquire_lock (se_flock env) a s1) of (r1, a1, s2) \<Rightarrow>
          if r1 \<noteq> SYSEBA_OK then (SYSEBA_ERR_BUSY, a1, s2)
          else (case (if se_database env then syseba_log_start (se_log_thread env) a1 s2 else (- 1, a1, s2)) of (r2, a2, s3) \<Rightarrow>
            if r2 \<noteq> 0 then (SYSEBA_ERR, syseba_app_release_lock a2, s3)
            else (case syseba_monotonic_ns s3 of (ns, s4) \<Rightarrow>
              let a3 = a2\<lparr>app_started_ns := ns, app_started_at := syseba_iso_now s4, app_running := \<not> app_web_only a2\<rparr>
              in (case (if app_web_only a3 then (True, a3) else start_threads env a3) of
                    (False, a4) \<Rightarrow> (SYSEBA_ERR, syseba_app_stop stop a4 s4, s4)
                  | (True, a4) \<Rightarrow>
                      (case (if app_web_enabled a4 then syseba_web_start (se_web env) a4 s4 else (SYSEBA_OK, a4)) of (r3, a5) \<Rightarrow>
                         if r3 \<noteq> SYSEBA_OK then (SYSEBA_ERR, syseba_app_stop stop a5 s4, s4)
                         else (SYSEBA_OK,
                               syseba_log_emit ''INFO'' ''START'' (cfg_source (app_config a5)) (cfg_backup (app_config a5)) []
                                 (''SySeBa '' @ syseba_tr (app_language a5) ''avviato'' ''started'' @ '' (PID '' @ dec (os_pid s4) @ '')'')
                                 s4 a5, s4)))))))"

section \<open>Status\<close>

definition dec2w :: "64 word \<Rightarrow> string" where
  "dec2w w = dec2 (unat w)"

definition format_uptime :: "64 word \<Rightarrow> nat \<Rightarrow> string" where
  "format_uptime seconds n =
     (let days = seconds div 86400; hours = (seconds mod 86400) div 3600;
          minutes = (seconds mod 3600) div 60; remaining = seconds mod 60
      in cut n ((if days > 0 then dec (unat days) @ ''d '' else []) @ dec2w hours @ '':'' @ dec2w minutes @ '':'' @ dec2w remaining))"

section \<open>Where an event goes\<close>

definition routed :: "app \<Rightarrow> cpath \<Rightarrow> cpath \<Rightarrow> cpath \<Rightarrow> cpath \<Rightarrow> bool" where
  "routed a src bak res rs \<longleftrightarrow>
     cfg_source (app_config a) = path_str src \<and> cfg_backup (app_config a) = path_str bak \<and>
     cfg_restore (app_config a) = path_str res \<and>
     (\<forall>b \<in> {src, bak, res}. plain_path (b @ rs) \<and> path_fits b \<and> path_fits (b @ rs) \<and>
        length (path_str b) + 1 + length (rel_str rs) < SYSEBA_PATH_MAX)"

lemma safe_join_text:
  assumes "plain_path (bs @ rs)" "path_fits (bs @ rs)" "length (path_str bs) + 1 + length (rel_str rs) < SYSEBA_PATH_MAX"
    and "syseba_safe_join (path_str bs) (rel_str rs) SYSEBA_PATH_MAX s = (Some out, s')"
  shows "out = path_str (bs @ rs)"
proof -
  let ?c = "path_str bs @ slash # rel_str rs"
  have pb: "plain_path bs" "plain_path rs" using assms(1) by simp_all
  have "real_parts ?c = bs @ rs" by (rule real_parts_join [OF assms(1)])
  moreover obtain t where "path_str bs = slash # t" using path_str_Cons by blast
  ultimately have "syseba_path_real ?c SYSEBA_PATH_MAX s = (Some (path_str (bs @ rs)), s)"
    using assms(2,3) by (simp add: syseba_path_real_def absolute_path_def fits_def path_real_text_eq path_fits_def)
  with assms(3,4) rel_str_no_sep [OF pb(2)] show ?thesis
    by (auto simp: syseba_safe_join_def fits_def split: prod.splits bool.splits)
qed

lemma relative_text:
  assumes "plain_path (bs @ rs)" "path_fits bs" "path_fits (bs @ rs)"
    and "syseba_relative_path (path_str bs) (path_str (bs @ rs)) n s = (Some out, s')"
  shows "out = rel_str rs"
proof -
  have pb: "plain_path bs" "plain_path rs" using assms(1) by simp_all
  have r: "syseba_path_real (path_str xs) SYSEBA_PATH_MAX t = (Some (path_str xs), t)"
    if "plain_path xs" "path_fits xs" for xs t
    using path_real_plain that by (simp add: path_fits_def fits_def)
  have "dropWhile is_separator (drop (length (path_str bs)) (path_str (bs @ rs))) = rel_str rs"
    using rel_str_no_sep [OF pb(2)] by (auto simp: path_str_rel is_separator_def rel_str_def)
  moreover have "normalize_separators (rel_str rs) = rel_str rs"
    using rel_str_chars [of rs] pb(2) by (intro normalize_id) (auto simp: plain_path_def backslash_def)
  ultimately show ?thesis
    using r [OF pb(1) assms(2)] r [OF assms(1,3)] assms(4)
    by (auto simp: syseba_relative_path_def Let_def split: prod.splits bool.splits if_splits)
qed

text \<open>Whatever calls fail, the paths an event is processed with are the mirrored ones.\<close>

lemma event_paths_text:
  assumes "routed a src bak res rs" "event_paths a (path_str (src @ rs)) s = (r, s')"
  shows "quiet s s'" and "r = Some (b, d) \<Longrightarrow> b = path_str (bak @ rs) \<and> d = path_str (res @ rs)"
proof -
  let ?rel = "syseba_relative_path (path_str src) (path_str (src @ rs)) SYSEBA_PATH_MAX s"
  obtain r1 s1 where r1: "?rel = (r1, s1)" by (cases ?rel)
  have q1: "quiet s s1" using relative_quiet [of s] r1 by (metis snd_conv)
  have R: "cfg_source (app_config a) = path_str src" "cfg_backup (app_config a) = path_str bak" "cfg_restore (app_config a) = path_str res"
    "plain_path (src @ rs)" "path_fits src" "path_fits (src @ rs)"
    "plain_path (bak @ rs)" "path_fits (bak @ rs)" "length (path_str bak) + 1 + length (rel_str rs) < SYSEBA_PATH_MAX"
    "plain_path (res @ rs)" "path_fits (res @ rs)" "length (path_str res) + 1 + length (rel_str rs) < SYSEBA_PATH_MAX"
    using assms(1) by (auto simp: routed_def)
  have main: "quiet s s' \<and> (r = Some (b, d) \<longrightarrow> b = path_str (bak @ rs) \<and> d = path_str (res @ rs))"
  proof (cases r1)
    case None
    with assms(2) r1 R q1 show ?thesis by (simp add: event_paths_def)
  next
    case (Some rel)
    have rel: "rel = rel_str rs" using relative_text [OF R(4-6)] r1 Some by blast
    obtain r2 s2 where r2: "syseba_safe_join (path_str bak) (rel_str rs) SYSEBA_PATH_MAX s1 = (r2, s2)"
      by (cases "syseba_safe_join (path_str bak) (rel_str rs) SYSEBA_PATH_MAX s1")
    have q2: "quiet s s2" using quiet_trans [OF q1] safe_join_quiet [of s1] r2 by (metis snd_conv)
    obtain r3 s3 where r3: "syseba_safe_join (path_str res) (rel_str rs) SYSEBA_PATH_MAX s2 = (r3, s3)"
      by (cases "syseba_safe_join (path_str res) (rel_str rs) SYSEBA_PATH_MAX s2")
    have q3: "quiet s s3" using quiet_trans [OF q2] safe_join_quiet [of s2] r3 by (metis snd_conv)
    show ?thesis
      using assms(2) r1 Some rel R r2 r3 q2 q3 safe_join_text [OF R(7-9), of s1] safe_join_text [OF R(10-12), of s2]
      by (auto simp: event_paths_def split: option.splits)
  qed
  then show "quiet s s'" "r = Some (b, d) \<Longrightarrow> b = path_str (bak @ rs) \<and> d = path_str (res @ rs)" by blast+
qed

lemma event_paths_calm:
  assumes "routed a src bak res rs" "os_sched s = []"
    and "\<forall>b \<in> {src, bak, res}. link_free (os_fs s) b \<and> link_free (os_fs s) (b @ rs)"
  shows "\<exists>s'. event_paths a (path_str (src @ rs)) s = (Some (path_str (bak @ rs), path_str (res @ rs)), s') \<and> quiet s s'"
proof -
  have R: "plain_path (b @ rs)" "path_fits b" "path_fits (b @ rs)" "length (path_str b) + 1 + length (rel_str rs) < SYSEBA_PATH_MAX"
    if "b \<in> {src, bak, res}" for b using assms(1) that by (auto simp: routed_def)
  have "fits SYSEBA_PATH_MAX (rel_str rs)" using R(4) [of src] by (simp add: fits_def)
  from relative_path_mirror [OF assms(2) R(1-3) _ _ this, of src] assms(3) obtain s1 where
    s1: "syseba_relative_path (path_str src) (path_str (src @ rs)) SYSEBA_PATH_MAX s = (Some (rel_str rs), s1)" "quiet s s1" by auto
  have join: "\<exists>t'. syseba_safe_join (path_str b) (rel_str rs) SYSEBA_PATH_MAX t = (Some (path_str (b @ rs)), t') \<and> quiet t t'"
    if "b \<in> {bak, res}" "quiet s t" for b t
    using safe_join_mirror [OF quiet_sched [OF that(2) assms(2)] R(1-3) _ _ R(4), of b] that(1) assms(3) quiet_fs [OF that(2)] by auto
  from join [of bak s1] s1(2) obtain s2 where
    s2: "syseba_safe_join (path_str bak) (rel_str rs) SYSEBA_PATH_MAX s1 = (Some (path_str (bak @ rs)), s2)" "quiet s1 s2" by auto
  from join [of res s2] quiet_trans [OF s1(2) s2(2)] obtain s3 where
    s3: "syseba_safe_join (path_str res) (rel_str rs) SYSEBA_PATH_MAX s2 = (Some (path_str (res @ rs)), s3)" "quiet s2 s3" by auto
  have "quiet s s3" using quiet_trans [OF quiet_trans [OF s1(2) s2(2)] s3(2)] .
  with s1 s2 s3 assms(1) show ?thesis by (auto simp: event_paths_def routed_def)
qed

section \<open>Changes: the source is only read\<close>

definition apart :: "cpath \<Rightarrow> cpath \<Rightarrow> bool" where
  "apart a b \<longleftrightarrow> \<not> prefix a b \<and> \<not> prefix b a"

lemma apart_below: "apart a b \<Longrightarrow> prefix a x \<Longrightarrow> prefix b y \<Longrightarrow> \<not> prefix x y"
  unfolding apart_def by (meson prefix_order.trans prefix_same_cases)

lemma need_copy_quiet [frame]: "quiet s (snd (files_need_copy p q s))"
proof -
  obtain r1 s1 where 1: "syseba_fs_stat p s = (r1, s1)" by (cases "syseba_fs_stat p s")
  obtain r2 s2 where 2: "syseba_fs_stat q s1 = (r2, s2)" by (cases "syseba_fs_stat q s1")
  have q: "quiet s s1" "quiet s1 s2" using stat_quiet [of s p] stat_quiet [of s1 q] 1 2 by simp_all
  with quiet_trans [OF q] 1 2 show ?thesis
    by (cases r1; cases r2) (auto simp: files_need_copy_def split: prod.splits)
qed

lemma is_regular_reg:
  assumes "syseba_fs_is_regular (path_str k) s = (True, s')" "good_path k" "no_links (os_fs s) k"
  shows "\<exists>f. fs_get (os_fs s) k = Some (Reg f)"
proof -
  obtain ev s1 where t: "tick s = (ev, s1)" by (cases "tick s")
  from assms(1) obtain loc f where l: "lookup_node False (path_str k) s1 = Inr (loc, Reg f)"
    unfolding syseba_fs_is_regular_def sys_lstat_def query_def syscall_def t
    by (auto split: sysev.splits sum.splits node.splits prod.splits)
  have "lookup_node False (path_str k) s = Inr (loc, Reg f)" using l quiet_lookup [OF quiet_tick [OF t]] by simp
  from lookup_no_links [OF assms(2,3) this] show ?thesis by auto
qed

text \<open>
  What processing a creation or a modification may change, for every schedule of failures: missing
  directories on the way to the backup path, the backup path itself and its temporary names.
\<close>

lemma process_change_touches:
  assumes src: "good_path ss" "no_links (os_fs s) ss" and area: "\<not> copy_area ds d ss"
    and dst: "plain_path (ds @ [d])" "no_links (os_fs s) (ds @ [d])" and u: "undisturbed s" and e: "ev_path e = path_str ss"
    and c: "process_change e (path_str (ds @ [d])) a s = (r, copied, skipped, a', s')"
  shows "touches (\<lambda>q. prefix q (ds @ [d])) (copy_area ds d) s s'"
proof (cases "ev_is_directory e")
  case True
  have "touches (\<lambda>q. prefix q (ds @ [d])) (\<lambda>q. False) s (snd (syseba_mkdirs (path_str (ds @ [d])) s))"
    by (rule mkdirs_touches [OF dst])
  moreover have "s' = snd (syseba_mkdirs (path_str (ds @ [d])) s)"
    using c True by (auto simp: process_change_def split: prod.splits if_splits)
  ultimately show ?thesis using touches_mono by blast
next
  case False
  obtain b s1 where b: "syseba_fs_is_regular (path_str ss) s = (b, s1)" by (cases "syseba_fs_is_regular (path_str ss) s")
  have q1: "quiet s s1" using is_regular_quiet [of s "path_str ss"] b by simp
  obtain n s2 where n: "files_need_copy (path_str ss) (path_str (ds @ [d])) s1 = (n, s2)"
    by (cases "files_need_copy (path_str ss) (path_str (ds @ [d])) s1")
  have q2: "quiet s s2" using quiet_trans [OF q1] need_copy_quiet [of s1] n by (metis snd_conv)
  show ?thesis
  proof (cases "b \<and> n")
    case True
    then obtain f where f: "fs_get (os_fs s) ss = Some (Reg f)" using is_regular_reg [OF _ src] b by auto
    obtain r1 s3 where r1: "syseba_copy_file (path_str ss) (path_str (ds @ [d])) 4 s2 = (r1, s3)"
      by (cases "syseba_copy_file (path_str ss) (path_str (ds @ [d])) 4 s2")
    have s3: "s' = s3" using c True False b n r1 e by (auto simp: process_change_def Let_def split: if_splits)
    have u2: "undisturbed s2" by (rule touches_undisturbed [OF touches_quiet [OF q2] u])
    have "touches (\<lambda>q. prefix q ds) (copy_area ds d) s2 s3"
      using copy_file_spec [OF src(1) _ _ area dst(1) _ u2 r1] src(2) f dst(2) quiet_fs [OF q2] by simp
    then have "touches (\<lambda>q. prefix q (ds @ [d])) (copy_area ds d) s2 s3" by (rule touches_more_dirs) simp
    with touches_trans [OF touches_quiet [OF q2]] s3 show ?thesis by blast
  next
    case no: False
    then have "s' = s1 \<or> s' = s2" using c False b n e by (auto simp: process_change_def split: bool.splits)
    with q1 q2 show ?thesis by (auto intro: touches_quiet)
  qed
qed


definition demo_app :: app where
  "demo_app = zero_app\<lparr>app_config := demo_config\<rparr>"

definition demo_event :: "event_kind \<Rightarrow> event" where
  "demo_event k = \<lparr>ev_kind = k, ev_path = path_str [''src'', ''a''], ev_is_directory = False, ev_initial_sync = False, ev_observed_ns = 0\<rparr>"

lemma demo_routed: "routed demo_app [''src''] [''bak''] [''res''] [''a'']"
  by (simp add: routed_def demo_app_def demo_config_def demo_eval)


section \<open>Changes reach the backup\<close>

lemma log_emit_keeps:
  shows "app_config (syseba_log_emit level op p q x m s a) = app_config a"
    and "app_event_queue (syseba_log_emit level op p q x m s a) = app_event_queue a"
    and "app_stop_requested (syseba_log_emit level op p q x m s a) = app_stop_requested a"
    and "app_memory a = [] \<Longrightarrow> app_memory (syseba_log_emit level op p q x m s a) = []"
    and "level \<noteq> ''ERROR'' \<Longrightarrow> length level < 16 \<Longrightarrow> app_stats (syseba_log_emit level op p q x m s a) = app_stats a"
proof -
  define view where "view b = (app_config b, app_event_queue b, app_stop_requested b)" for b :: app
  define fine where "fine b b' \<longleftrightarrow> view b' = view b \<and> app_stats b' = app_stats b \<and> (app_memory b = [] \<longrightarrow> app_memory b' = [])" for b b' :: app
  let ?r = "make_record level op p q x m s"
  have al: "fine b (snd (allocate b))" for b
    by (simp add: fine_def view_def allocate_def split: list.splits)
  have ra: "fine b (recent_add l s b)" for l b
    using al [of b] by (auto simp: fine_def view_def recent_add_def split: prod.splits)
  obtain b1 a1 where 1: "allocate a = (b1, a1)" by (cases "allocate a")
  define a2 where "a2 = (if lr_level ?r = ''ERROR'' then count_error (recent_add (log_line ?r) s a1) else recent_add (log_line ?r) s a1)"
  obtain b3 a3 where 3: "allocate a2 = (b3, a3)" by (cases "allocate a2")
  obtain b4 q4 where 4: "wq_push b3 ?r (app_log_queue a3) = (b4, q4)" by (cases "wq_push b3 ?r (app_log_queue a3)")
  have f: "fine a a1" "fine a1 (recent_add (log_line ?r) s a1)" "fine a2 a3" using al [of a] al [of a2] ra [of a1] 1 3 by auto
  have run: "syseba_log_emit level op p q x m s a =
      (if b1 then if b4 \<noteq> 0 then on_stderr (log_line ?r) (a3\<lparr>app_log_queue := q4\<rparr>) else a3\<lparr>app_log_queue := q4\<rparr> else a1)"
    using 1 3 4 by (simp add: syseba_log_emit_def Let_def a2_def split: bool.splits)
  have v: "view a3 = view a" "view a1 = view a" "app_memory a = [] \<Longrightarrow> app_memory a3 = [] \<and> app_memory a1 = []"
    using f by (auto simp: fine_def view_def a2_def count_error_def)
  then show "app_config (syseba_log_emit level op p q x m s a) = app_config a"
    "app_event_queue (syseba_log_emit level op p q x m s a) = app_event_queue a"
    "app_stop_requested (syseba_log_emit level op p q x m s a) = app_stop_requested a"
    "app_memory a = [] \<Longrightarrow> app_memory (syseba_log_emit level op p q x m s a) = []"
    unfolding run by (auto simp: view_def on_stderr_def)
  assume "level \<noteq> ''ERROR''" "length level < 16"
  then have "lr_level ?r \<noteq> ''ERROR''" by (simp add: make_record_def cut_def)
  with f have "app_stats a3 = app_stats a" "app_stats a1 = app_stats a" by (auto simp: fine_def a2_def)
  then show "app_stats (syseba_log_emit level op p q x m s a) = app_stats a" unfolding run by (simp add: on_stderr_def)
qed

lemma log_info_stats: "app_stats (syseba_log_emit ''INFO'' op p q x m s a) = app_stats a"
  by (rule log_emit_keeps(5)) simp_all

text \<open>The backup is in step with the source file as far as the program looks: same size, same time.\<close>

definition in_step :: "inode \<Rightarrow> node option \<Rightarrow> bool" where
  "in_step f n \<longleftrightarrow> (\<exists>g. n = Some (Reg g) \<and> (of_nat (length (f_data g)) :: 64 word) = of_nat (length (f_data f)) \<and> f_mtime g = f_mtime f)"

lemma full_copy_in_step: "full_copy f n \<Longrightarrow> in_step f n"
  by (auto simp: full_copy_def in_step_def)

lemma stat_chain:
  assumes "os_sched s = []" "good_path k" "dir_chain (os_fs s) k" "fs_get (os_fs s) k = Some (Reg f)"
  shows "syseba_fs_stat (path_str k) s = (Some (of_nat (length (f_data f)), f_mtime f, False), s)"
  using lookup_chain [OF assms(2-4)] assms(1) by (simp add: syseba_fs_stat_def sys_lstat_def query_calm)

lemma need_copy_calm:
  assumes "os_sched s = []" and src: "good_path ss" "dir_chain (os_fs s) ss" "fs_get (os_fs s) ss = Some (Reg f)"
    and dst: "good_path k" "no_links (os_fs s) k" "fs_get (os_fs s) k = None \<or> (\<exists>g. fs_get (os_fs s) k = Some (Reg g))"
  shows "\<exists>b s'. files_need_copy (path_str ss) (path_str k) s = (b, s') \<and> quiet s s' \<and> (\<not> b \<longrightarrow> in_step f (fs_get (os_fs s) k))"
proof -
  have 1: "syseba_fs_stat (path_str ss) s = (Some (of_nat (length (f_data f)), f_mtime f, False), s)"
    by (rule stat_chain [OF assms(1) src])
  show ?thesis
  proof (cases "lookup_node False (path_str k) s")
    case (Inl e)
    then have "syseba_fs_stat (path_str k) s = (None, set_errno e s)"
      by (simp add: syseba_fs_stat_def sys_lstat_def query_calm assms(1))
    with 1 show ?thesis by (auto simp: files_need_copy_def)
  next
    case (Inr p)
    obtain loc n where p: "p = (loc, n)" by (cases p)
    with lookup_no_links [OF dst(1,2)] Inr have "fs_get (os_fs s) k = Some n" by auto
    with dst(3) obtain g where g: "n = Reg g" "fs_get (os_fs s) k = Some (Reg g)" by auto
    then have "syseba_fs_stat (path_str k) s = (Some (of_nat (length (f_data g)), f_mtime g, False), s)"
      using Inr p by (simp add: syseba_fs_stat_def sys_lstat_def query_calm assms(1))
    with 1 g show ?thesis by (auto simp: files_need_copy_def in_step_def)
  qed
qed



section \<open>Deletions are archived\<close>

lemma not_taken_missing:
  assumes "sound_tree (os_fs s)" "good_path k" "\<not> taken s (path_str k)"
  shows "fs_get (os_fs s) k = None"
proof (rule ccontr)
  assume "fs_get (os_fs s) k \<noteq> None"
  then obtain n where n: "fs_get (os_fs s) k = Some n" by blast
  with lookup_chain [OF assms(2) sound_chain [OF assms(1) n] n] assms(3) show False by (simp add: taken_def)
qed

lemma dec_plain: "set (dec n) \<inter> {slash, backslash} = {}"
  using dec_digits [of n] by (auto simp: c_isdigit_def uchar_def backslash_def)

lemma stamp_plain: "set (compact_stamp s) \<inter> {slash, backslash} = {}"
proof -
  have "slash \<notin> set (dec n)" "backslash \<notin> set (dec n)" for n using dec_plain [of n] by auto
  then show ?thesis by (auto simp: compact_stamp_def Let_def dec2_def backslash_def)
qed

lemma candidate_component:
  assumes "plain_path (ds @ [d])"
  shows "\<exists>x. restore_candidate (path_str (ds @ [d])) (compact_stamp s) k = path_str (ds @ [d @ x]) \<and> plain_path (ds @ [d @ x])"
proof -
  define x where "x = ''.'' @ compact_stamp s @ (if k = 0 then [] else ''.'' @ dec k)"
  have "set x \<inter> {slash, backslash} = {}" using stamp_plain [of s] dec_plain [of k] by (auto simp: x_def backslash_def)
  moreover have "d @ x \<noteq> ''.''" "d @ x \<noteq> ''..''" if "d \<noteq> []"
    using that by (auto simp: x_def append_eq_Cons_conv compact_stamp_def Let_def)
  ultimately have "plain_path (ds @ [d @ x])"
    using assms by (auto simp: plain_path_def good_comp_def)
  then show ?thesis by (intro exI [of _ x]) (simp add: restore_candidate_def x_def path_str_def)
qed

lemma unique_destination:
  assumes "os_sched s = []" "plain_path (ds @ [d])" "syseba_unique_restore_path (path_str (ds @ [d])) n s = (Some out, s')"
  shows "\<exists>x. out = path_str (ds @ [d @ x]) \<and> plain_path (ds @ [d @ x]) \<and> \<not> taken s out \<and> fits n out"
proof -
  from unique_first [OF assms(1,3)] have u: "\<not> taken s out" "fits n out"
    "out = path_str (ds @ [d]) \<or> (\<exists>k. out = restore_candidate (path_str (ds @ [d])) (compact_stamp s) k)" by blast+
  show ?thesis
  proof (cases "out = path_str (ds @ [d])")
    case True
    with u(1,2) assms(2) show ?thesis by (intro exI [of _ "[]"]) simp
  next
    case False
    with u(3) candidate_component [OF assms(2), of s] u(1,2) show ?thesis by metis
  qed
qed

text \<open>
  C9: nothing backed up is lost when its source disappears. When no call fails, the event for a
  deleted path moves the backup, with everything below it, to a place in the restore area that was
  free (the same relative path, or that path with a time stamp), whenever a free name can be found;
  the backup path is then gone and every other node outside the two places is kept.
\<close>

theorem delete_archives_backup:
  assumes "routed a src bak res (ps @ [d])" "os_sched s = []" "sound_tree (os_fs s)" "apart bak res"
    and "\<forall>b \<in> {src, bak, res}. link_free (os_fs s) b \<and> link_free (os_fs s) (b @ ps @ [d])"
    and "fs_get (os_fs s) (bak @ ps @ [d]) = Some n"
    and "\<forall>i \<le> length (res @ ps). fs_get (os_fs s) (take i (res @ ps)) = None \<or> fs_get (os_fs s) (take i (res @ ps)) = Some Dir"
    and "ev_path e = path_str (src @ ps @ [d])" "ev_kind e = EVENT_DELETE" "\<not> ev_initial_sync e"
    and "syseba_app_process_event memory e a s = (r, a', s')" "fst (syseba_unique_restore_path (path_str (res @ ps @ [d])) SYSEBA_PATH_MAX s) \<noteq> None"
  shows "r = SYSEBA_OK \<and> st_deleted (app_stats a') = st_deleted (app_stats a) + 1 \<and>
    (\<exists>x. fs_get (os_fs s) (res @ ps @ [d @ x]) = None \<and>
      (\<forall>q. fs_get (os_fs s') (res @ ps @ (d @ x) # q) = fs_get (os_fs s) (bak @ ps @ d # q)) \<and>
      (\<forall>q. fs_get (os_fs s') (bak @ ps @ d # q) = None) \<and>
      (\<forall>q m. \<not> prefix (bak @ ps @ [d]) q \<and> \<not> prefix (res @ ps @ [d @ x]) q \<and> fs_get (os_fs s) q = Some m \<longrightarrow> fs_get (os_fs s') q = Some m))"
proof -
  let ?B = "bak @ ps @ [d]" and ?R = "res @ ps @ [d]"
  from event_paths_calm [OF assms(1,2,5)] obtain s1 where
    p: "event_paths a (path_str (src @ ps @ [d])) s = (Some (path_str ?B, path_str ?R), s1)" "quiet s s1" by blast
  have s1: "os_sched s1 = []" "os_fs s1 = os_fs s" using quiet_sched [OF p(2) assms(2)] quiet_fs [OF p(2)] by auto
  have pl: "good_path ?B" "plain_path ((res @ ps) @ [d])" using assms(1) by (auto simp: routed_def)
  have chain: "dir_chain (os_fs s) ?B" by (rule sound_chain [OF assms(3,6)])
  have ex: "syseba_fs_exists (path_str ?B) s1 = (True, s1)"
    using exists_chain(1) [OF s1(1) pl(1)] chain assms(6) s1(2) by simp
  obtain dst s2 where u: "syseba_unique_restore_path (path_str ?R) SYSEBA_PATH_MAX s1 = (dst, s2)"
    by (cases "syseba_unique_restore_path (path_str ?R) SYSEBA_PATH_MAX s1")
  have q2: "quiet s1 s2" "dst = fst (syseba_unique_restore_path (path_str ?R) SYSEBA_PATH_MAX s)"
    using unique_quiet [of s1 "path_str ?R" SYSEBA_PATH_MAX] u unique_same [OF p(2) assms(2), of "path_str ?R" SYSEBA_PATH_MAX]
    by (auto dest: arg_cong [of _ _ fst])
  have run: "syseba_app_process_event memory e a s = (case dst of
      None \<Rightarrow> (SYSEBA_ERR, a, s2)
    | Some destination \<Rightarrow> process_delete memory (path_str ?B) (path_str ?R) a s1)"
    using p(1) ex u assms(8-10) by (auto simp: syseba_app_process_event_def process_delete_def split: option.splits prod.splits)
  with assms(11,12) q2(2) obtain destination where dst: "dst = Some destination" by (cases dst) auto
  obtain x where x: "destination = path_str (res @ ps @ [d @ x])" "plain_path ((res @ ps) @ [d @ x])" "\<not> taken s1 destination"
    "fits SYSEBA_PATH_MAX destination"
    using unique_destination [OF s1(1) pl(2), of SYSEBA_PATH_MAX destination s2] u dst by auto
  have free: "fs_get (os_fs s) (res @ ps @ [d @ x]) = None"
    using not_taken_missing [of s1 "res @ ps @ [d @ x]"] x assms(3) s1(2) by (auto simp: plain_path_def)
  have "\<not> prefix ?B ((res @ ps) @ [d @ x])" using apart_below [OF assms(4), of ?B "(res @ ps) @ [d @ x]"] by simp
  from move_path_calm [OF quiet_sched [OF q2(1) s1(1)] x(2) _ _ pl(1) _ _ this, of n memory] free assms(6,7) chain s1(2)
    quiet_fs [OF q2(1)] x(1,4) obtain s3 where
    mv: "syseba_move_path memory (path_str ?B) destination s2 = (0, s3)"
    "\<forall>rs. fs_get (os_fs s3) (res @ ps @ (d @ x) # rs) = fs_get (os_fs s) (bak @ ps @ d # rs)"
    "\<forall>rs. fs_get (os_fs s3) (bak @ ps @ d # rs) = None"
    "\<forall>q m. \<not> prefix ?B q \<and> \<not> prefix (res @ ps @ [d @ x]) q \<and> fs_get (os_fs s) q = Some m \<longrightarrow> fs_get (os_fs s3) q = Some m"
    by (auto simp: fits_def)
  have fin: "r = SYSEBA_OK" "s' = s3" "app_stats a' = inc_deleted (app_stats a)"
    using assms(11) run dst u mv(1) log_info_stats
    by (auto simp: process_delete_def on_stats_def)
  with free mv show ?thesis by (auto simp: inc_deleted_def)
qed

text \<open>A tree in which the source of a backed-up file has just been deleted.\<close>

definition deleted_os :: os where
  "deleted_os = quiet_os\<lparr>os_fs := [([''src''], Dir), ([''bak''], Dir), ([''bak'', ''a''], Reg demo_file)]\<rparr>"

theorem delete_archives_backup_witness:
  "\<exists>x. fs_get (os_fs (snd (snd (syseba_app_process_event (\<lambda>_. True) (demo_event EVENT_DELETE) demo_app deleted_os)))) [''res'', ''a'' @ x] = Some (Reg demo_file)"
proof -
  let ?p = "syseba_app_process_event (\<lambda>_. True) (demo_event EVENT_DELETE) demo_app deleted_os"
  have fs: "os_fs deleted_os = [([''src''], Dir), ([''bak''], Dir), ([''bak'', ''a''], Reg demo_file)]" "os_sched deleted_os = []"
    by (simp_all add: deleted_os_def quiet_os_def)
  have sound: "sound_tree (os_fs deleted_os)" unfolding fs(1)
    by (auto simp: sound_tree_def fs_get_def append_eq_Cons_conv split: if_splits)
  have l: "\<forall>b \<in> {[''src''], [''bak''], [''res'']}. link_free (os_fs deleted_os) b \<and> link_free (os_fs deleted_os) (b @ [] @ [''a''])"
    unfolding fs(1) by (auto simp: link_free_def fs_get_def le_Suc_eq)
  have "\<not> fst (syseba_fs_exists ''/res/a'' deleted_os)" "fits 4096 ''/res/a''" by code_simp+
  then have u: "fst (syseba_unique_restore_path (path_str ([''res''] @ [] @ [''a''])) SYSEBA_PATH_MAX deleted_os) \<noteq> None"
    by (cases "syseba_fs_exists ''/res/a'' deleted_os") (simp add: syseba_unique_restore_path_def path_str_def syseba_limits)
  have "\<exists>x. fs_get (os_fs deleted_os) ([''res''] @ [] @ [''a'' @ x]) = None \<and>
      (\<forall>q. fs_get (os_fs (snd (snd ?p))) ([''res''] @ [] @ (''a'' @ x) # q) = fs_get (os_fs deleted_os) ([''bak''] @ [] @ ''a'' # q)) \<and>
      (\<forall>q. fs_get (os_fs (snd (snd ?p))) ([''bak''] @ [] @ ''a'' # q) = None) \<and>
      (\<forall>q m. \<not> prefix ([''bak''] @ [] @ [''a'']) q \<and> \<not> prefix ([''res''] @ [] @ [''a'' @ x]) q \<and> fs_get (os_fs deleted_os) q = Some m \<longrightarrow>
         fs_get (os_fs (snd (snd ?p))) q = Some m)"
    by (rule delete_archives_backup [of demo_app "[''src'']" "[''bak'']" "[''res'']" "[]" "''a''" deleted_os "Reg demo_file"
          "demo_event EVENT_DELETE" "\<lambda>_. True" "fst ?p" "fst (snd ?p)" "snd (snd ?p)", THEN conjunct2, THEN conjunct2])
      (use demo_routed sound l u in \<open>auto simp: fs apart_def demo_event_def fs_get_def\<close>)
  then obtain x where "fs_get (os_fs (snd (snd ?p))) ([''res''] @ [] @ (''a'' @ x) # []) = fs_get (os_fs deleted_os) ([''bak''] @ [] @ ''a'' # [])" by blast
  then show ?thesis by (auto simp: fs fs_get_def)
qed

section \<open>Progress of the initial synchronisation\<close>

text \<open>
  The progress counter counts every file that is really processed, exactly once, whatever
  happens to it: for an event of the initial synchronisation about a file, \<^verbatim>\<open>initial_done\<close> grows by
  one on every path through the processing (copied, skipped, failed), except that an event whose
  paths are refused returns before the counter, so the progress of such a run never reaches the
  total.
\<close>

theorem initial_progress_exact:
  assumes "ev_initial_sync e" "\<not> ev_is_directory e" "syseba_app_process_event memory e a s = (r, a', s')"
  shows "initial_done (app_stats a') = initial_done (app_stats a) + (if fst (event_paths a (ev_path e) s) = None then 0 else 1)"
proof (cases "fst (event_paths a (ev_path e) s)")
  case None
  then show ?thesis using assms by (auto simp: syseba_app_process_event_def split: prod.splits)
next
  case (Some p)
  then obtain backup restore s1 where p: "event_paths a (ev_path e) s = (Some (backup, restore), s1)"
    by (cases p; cases "event_paths a (ev_path e) s") auto
  have change: "initial_done (app_stats a1) = initial_done (app_stats a)"
    if "process_change e backup a s1 = (r1, c1, k1, a1, s2)" for r1 c1 k1 a1 s2
    using that assms(2) by (auto simp: process_change_def Let_def log_info_stats on_stats_def inc_skipped_def inc_copied_def inc_updated_def
        split: prod.splits bool.splits if_splits)
  have delete: "initial_done (app_stats a1) = initial_done (app_stats a)"
    if "process_delete memory backup restore a t = (r1, a1, s2)" for r1 a1 s2 t
    using that by (auto simp: process_delete_def log_info_stats on_stats_def inc_deleted_def split: prod.splits option.splits if_splits)
  obtain r1 c1 k1 a1 s2 where pc: "process_change e backup a s1 = (r1, c1, k1, a1, s2)" by (cases "process_change e backup a s1") auto
  obtain b s3 where ex: "syseba_fs_exists backup s1 = (b, s3)" by (cases "syseba_fs_exists backup s1")
  obtain r2 a2 s4 where pd: "process_delete memory backup restore a s3 = (r2, a2, s4)" by (cases "process_delete memory backup restore a s3") auto
  show ?thesis
    using assms p pc ex pd change [OF pc] delete [OF pd] Some
    by (cases b) (auto simp: syseba_app_process_event_def initial_progress_def on_stats_def split: if_splits)
qed

theorem initial_progress_exact_witness:
  "initial_done (app_stats (fst (snd (syseba_app_process_event (\<lambda>_. True) ((demo_event EVENT_CREATE)\<lparr>ev_initial_sync := True\<rparr>) zero_app demo_os)))) = 0"
proof -
  let ?e = "(demo_event EVENT_CREATE)\<lparr>ev_initial_sync := True\<rparr>"
  let ?p = "syseba_app_process_event (\<lambda>_. True) ?e zero_app demo_os"
  have "fst (event_paths zero_app (ev_path ?e) demo_os) = None" by code_simp
  with initial_progress_exact [of ?e "\<lambda>_. True" zero_app demo_os "fst ?p" "fst (snd ?p)" "snd (snd ?p)"] show ?thesis
    by (simp add: demo_event_def zero_app_def zero_stats_def)
qed

section \<open>The initial synchronisation puts the whole source on the queue\<close>

text \<open>On paths that exist, the containment check neither fails nor disturbs \<^verbatim>\<open>errno\<close>.\<close>

definition settled :: "fstree \<Rightarrow> cpath \<Rightarrow> bool" where
  "settled t k \<longleftrightarrow> plain_path k \<and> path_fits k \<and> dir_chain t k \<and> (\<exists>n. fs_get t k = Some n \<and> walked n)"

lemma resolve_settled:
  assumes "os_sched s = []" "settled (os_fs s) k"
  shows "path_resolve_links (path_str k) SYSEBA_PATH_MAX s = (Some (path_str k), s)"
proof -
  from assms(2) obtain n where k: "plain_path k" "path_fits k" "dir_chain (os_fs s) k" "fs_get (os_fs s) k = Some n" "walked n"
    by (auto simp: settled_def)
  have g: "good_path k" using k(1) by auto
  have pr: "syseba_path_real (path_str k) SYSEBA_PATH_MAX t = (Some (path_str k), t)" for t
    using path_real_plain k(1,2) by (simp add: path_fits_def fits_def)
  have "probe_existing (path_str k) s = (Some (path_str k), s)"
    by (subst probe_existing.simps) (simp add: exists_chain(1) [OF assms(1) g k(3,4)])
  moreover have "lookup_node True (path_str k) s = Inr (k, n)"
  proof -
    have "\<forall>l. n \<noteq> Lnk l" using k(5) by auto
    with lookup_follow_same [OF lookup_chain [OF g k(3,4)]] show ?thesis by blast
  qed
  ultimately show ?thesis
    using pr k(2) assms(1) by (simp add: path_resolve_links_def sys_realpath_def query_calm path_fits_def fits_def syseba_limits)
qed

lemma within_settled:
  assumes "os_sched s = []" "settled (os_fs s) as" "settled (os_fs s) bs"
  shows "syseba_path_is_within (path_str as) (path_str bs) s = (prefix as bs, s)"
  using resolve_settled [OF assms(1,2)] resolve_settled [OF assms(1,3)] str_within_path_str [of as bs] assms(2,3)
  by (simp add: syseba_path_is_within_def settled_def plain_path_def good_path_def)

lemma monotonic_errno: "os_errno (snd (syseba_monotonic_ns s)) = os_errno s"
  by (simp add: syseba_monotonic_ns_def sys_clock_def split: list.splits prod.splits)

definition ready :: "cpath \<Rightarrow> app \<Rightarrow> bool" where
  "ready src a \<longleftrightarrow> \<not> syseba_app_is_stopping a \<and> app_memory a = [] \<and> cfg_source (app_config a) = path_str src \<and>
     \<not> wq_closed (app_event_queue a)"

lemma enqueue_settled:
  assumes "ready src a" "os_sched s = []" "settled (os_fs s) src" "settled (os_fs s) k" "prefix src k"
  shows "\<exists>a' s' ns. app_enqueue_internal kind (path_str k) directory initial a s = (SYSEBA_OK, a', s') \<and> ready src a' \<and>
    app_config a' = app_config a \<and> app_stats a' = inc_queued (app_stats a) \<and>
    wq_items (app_event_queue a') = wq_items (app_event_queue a) @
      [\<lparr>ev_kind = kind, ev_path = path_str k, ev_is_directory = directory, ev_initial_sync = initial, ev_observed_ns = ns\<rparr>] \<and>
    wq_unfinished (app_event_queue a') = wq_unfinished (app_event_queue a) + 1 \<and>
    quiet s s' \<and> os_errno s' = os_errno s"
proof -
  have w: "syseba_path_is_within (cfg_source (app_config a)) (path_str k) s = (True, s)"
    using within_settled [OF assms(2-4)] assms(1,5) by (simp add: ready_def)
  obtain ns s2 where m: "syseba_monotonic_ns s = (ns, s2)" by (cases "syseba_monotonic_ns s")
  have q: "quiet s s2" "os_errno s2 = os_errno s" using monotonic_quiet [of s] monotonic_errno [of s] m by simp_all
  have f: "fits SYSEBA_PATH_MAX (path_str k)" using assms(4) by (simp add: settled_def path_fits_def)
  show ?thesis
    using assms(1) w m q f
    by (auto simp: app_enqueue_internal_def ready_def allocate_ok on_stats_def wq_push_def syseba_app_is_stopping_def)
qed

text \<open>What one entry of the walk adds: to the counter of files, and to the queue.\<close>

type_synonym sync_seen = "64 word \<times> (event_kind \<times> string \<times> bool \<times> bool) list \<times> nat \<times> 64 word"

definition sync_seen_of :: "sync_context \<Rightarrow> sync_seen" where
  "sync_seen_of c = (sc_files c,
     map (\<lambda>e. (ev_kind e, ev_path e, ev_is_directory e, ev_initial_sync e)) (wq_items (app_event_queue (sc_app c))),
     wq_unfinished (app_event_queue (sc_app c)), initial_total (app_stats (sc_app c)))"

fun sync_note :: "sync_seen \<Rightarrow> string \<times> bool \<Rightarrow> sync_seen" where
  "sync_note (n, es, u, t) (p, d) = (if d then n else n + 1, es @ [(EVENT_CREATE, p, d, True)], u + 1, t)"

definition sync_ok :: "cpath \<Rightarrow> sync_context \<Rightarrow> bool" where
  "sync_ok src c \<longleftrightarrow> ready src (sc_app c) \<and> sc_enqueue c \<and> sc_errors c = 0"

definition sync_accepts :: "cpath \<Rightarrow> os \<Rightarrow> string \<Rightarrow> bool" where
  "sync_accepts src s p \<longleftrightarrow> settled (os_fs s) src \<and> (\<exists>k. p = path_str k \<and> prefix src k \<and> settled (os_fs s) k)"

lemma settled_quiet: "quiet s s' \<Longrightarrow> settled (os_fs s') k = settled (os_fs s) k"
  using quiet_fs [of s s'] by simp

interpretation sync_queue: walk_client sync_walk sync_seen_of sync_note "sync_ok src" "sync_accepts src" for src
proof
  fix c s p and directory :: bool
  assume ok: "sync_ok src c" and calm: "os_sched s = []" and acc: "sync_accepts src s p"
  then obtain k where k: "p = path_str k" "prefix src k" "settled (os_fs s) k" "settled (os_fs s) src" by (auto simp: sync_accepts_def)
  let ?c = "if directory then c else c\<lparr>sc_files := sc_files c + 1\<rparr>"
  have r: "ready src (sc_app ?c)" "\<not> syseba_app_is_stopping (sc_app c)" using ok by (auto simp: sync_ok_def ready_def)
  from enqueue_settled [OF r(1) calm k(4,3,2), of EVENT_CREATE directory True] obtain a' s' ns where
    e: "app_enqueue_internal EVENT_CREATE (path_str k) directory True (sc_app ?c) s = (SYSEBA_OK, a', s')" "ready src a'"
    "wq_items (app_event_queue a') = wq_items (app_event_queue (sc_app ?c)) @
      [\<lparr>ev_kind = EVENT_CREATE, ev_path = path_str k, ev_is_directory = directory, ev_initial_sync = True, ev_observed_ns = ns\<rparr>]"
    "wq_unfinished (app_event_queue a') = wq_unfinished (app_event_queue (sc_app ?c)) + 1"
    "app_stats a' = inc_queued (app_stats (sc_app ?c))" "quiet s s'" "os_errno s' = os_errno s" by blast
  show "\<exists>c' s'. sync_walk p directory c s = (0, c', s') \<and> sync_ok src c' \<and> sync_seen_of c' = sync_note (sync_seen_of c) (p, directory) \<and>
      quiet s s' \<and> os_errno s' = os_errno s"
    using ok r(2) e k(1)
    by (cases directory) (auto simp: sync_walk_def sync_ok_def sync_seen_of_def syseba_app_enqueue_initial_def inc_queued_def Let_def)
next
  fix s s' p
  show "quiet s s' \<Longrightarrow> sync_accepts src s p \<Longrightarrow> sync_accepts src s' p" by (simp add: sync_accepts_def settled_quiet)
qed

definition count_note :: "sync_context \<Rightarrow> string \<times> bool \<Rightarrow> sync_context" where
  "count_note c x = (if snd x then c else c\<lparr>sc_files := sc_files c + 1\<rparr>)"

interpretation sync_counter: walk_client sync_walk "\<lambda>c. c" count_note
    "\<lambda>c. \<not> syseba_app_is_stopping (sc_app c) \<and> \<not> sc_enqueue c" "\<lambda>_ _. True"
  by unfold_locales (auto simp: sync_walk_def count_note_def Let_def syseba_app_is_stopping_def)

lemma sync_note_foldl:
  "foldl sync_note (n, es, u, t) xs =
     (n + of_nat (length (filter (\<lambda>x. \<not> snd x) xs)), es @ map (\<lambda>(p, d). (EVENT_CREATE, p, d, True)) xs, u + length xs, t)"
  by (induction xs arbitrary: n es u) (auto simp: algebra_simps)

lemma count_note_foldl: "foldl count_note c xs = c\<lparr>sc_files := sc_files c + of_nat (length (filter (\<lambda>x. \<not> snd x) xs))\<rparr>"
  by (induction xs arbitrary: c) (auto simp: count_note_def algebra_simps)

lemma settled_accepted:
  assumes "walkable (os_fs s) src" "\<forall>rs n. fs_get (os_fs s) (src @ rs) = Some n \<and> walked n \<longrightarrow> settled (os_fs s) (src @ rs)" "quiet s s1"
  shows "\<forall>rs n. fs_get (os_fs s1) (src @ rs) = Some n \<and> walked n \<longrightarrow> sync_accepts src s1 (path_str (src @ rs))"
proof (intro allI impI)
  fix rs n assume n: "fs_get (os_fs s1) (src @ rs) = Some n \<and> walked n"
  have "fs_get (os_fs s) (src @ []) = Some Dir" using assms(1) by (simp add: walkable_def)
  then have "settled (os_fs s) src" using assms(2) by (metis append_Nil2 walked_simps(1))
  with n assms(2) quiet_fs [OF assms(3)] show "sync_accepts src s1 (path_str (src @ rs))"
    unfolding sync_accepts_def by (metis prefixI)
qed

text \<open>
  C10: the initial synchronisation looks at the whole source. When no call fails, both scans of the
  source succeed, the total shown to the user is the number of regular files below it, and when the
  thread starts to wait for the workers the queue holds, behind what was there before, one creation
  event for every directory and every regular file below the source, parents before children, each
  marked as initial and counted as unfinished.
\<close>

theorem initial_sync_queues_source:
  assumes "ready src a" "os_sched s = []" "\<not> initial_running (app_stats a)"
    and "src \<noteq> []" "walkable (os_fs s) src"
    and "\<forall>rs n. fs_get (os_fs s) (src @ rs) = Some n \<and> walked n \<longrightarrow> settled (os_fs s) (src @ rs)"
  shows "\<exists>aq s2. syseba_app_initial_sync wait a s = sync_finish 0 (wait (aq, s2)) \<and> quiet s s2 \<and>
    (let entries = shown (tree_nodes SYSEBA_PATH_MAX (os_fs s) src) in
     initial_total (app_stats aq) = of_nat (length (filter (\<lambda>x. \<not> snd x) entries)) \<and>
     map (\<lambda>e. (ev_kind e, ev_path e, ev_is_directory e, ev_initial_sync e)) (wq_items (app_event_queue aq)) =
       map (\<lambda>e. (ev_kind e, ev_path e, ev_is_directory e, ev_initial_sync e)) (wq_items (app_event_queue a)) @
       map (\<lambda>(p, d). (EVENT_CREATE, p, d, True)) entries \<and>
     wq_unfinished (app_event_queue aq) = wq_unfinished (app_event_queue a) + length entries)"
proof -
  let ?L = "shown (tree_nodes SYSEBA_PATH_MAX (os_fs s) src)"
  have src: "cfg_source (app_config a) = path_str src" using assms(1) by (simp add: ready_def)
  let ?c0 = "\<lparr>sc_app = sync_begin s a, sc_files = 0, sc_enqueue = False, sc_errors = 0\<rparr>"
  from sync_counter.walk_complete [OF assms(4,5) _ assms(2), of ?c0] assms(1) obtain s1 where
    w1: "syseba_walk_files sync_walk (path_str src) ?c0 s = (0, foldl count_note ?c0 ?L, s1)" "quiet s s1"
    by (auto simp: sync_begin_def ready_def syseba_app_is_stopping_def)
  define total where "total = (of_nat (length (filter (\<lambda>x. \<not> snd x) ?L)) :: 64 word)"
  define a0 where "a0 = on_stats (\<lambda>st. st\<lparr>initial_total := total\<rparr>) (sync_begin s a)"
  have cnt: "sync_count (sync_begin s a) s = (\<lparr>sc_app = a0, sc_files = total, sc_enqueue = False, sc_errors = 0\<rparr>, s1)"
    using w1(1) src by (simp add: sync_count_def count_note_foldl total_def a0_def) (simp add: sync_begin_def)
  define a1 where "a1 = syseba_log_emit ''INFO'' ''SYNC'' (cfg_source (app_config a0)) (cfg_backup (app_config a0)) []
      (syseba_tr (app_language a0) ''Sincronizzazione iniziale avviata; file trovati'' ''Initial synchronization started; files found'' @ '': '' @
       dec (unat total)) s1 a0"
  have a0: "app_config a0 = app_config a" "app_event_queue a0 = app_event_queue a" "app_stop_requested a0 = app_stop_requested a" "app_memory a0 = app_memory a"
    by (simp_all add: a0_def sync_begin_def on_stats_def)
  have ready1: "ready src a1" and st1: "app_stats a1 = app_stats a0" and q1: "app_event_queue a1 = app_event_queue a"
    using assms(1) a0 log_emit_keeps log_info_stats unfolding a1_def ready_def syseba_app_is_stopping_def by auto
  let ?c1 = "\<lparr>sc_app = a1, sc_files = 0, sc_enqueue = True, sc_errors = 0\<rparr>"
  note acc = settled_accepted [OF assms(5,6) w1(2)]
  from sync_queue.walk_complete [OF assms(4) _ _ quiet_sched [OF w1(2) assms(2)] acc, of ?c1] assms(5) ready1 quiet_fs [OF w1(2)]
  obtain c2 s2 where w2: "syseba_walk_files sync_walk (path_str src) ?c1 s1 = (0, c2, s2)" "sync_ok src c2"
    "sync_seen_of c2 = foldl sync_note (sync_seen_of ?c1) ?L" "quiet s1 s2" by (auto simp: sync_ok_def)
  have enq: "sync_enqueue \<lparr>sc_app = a1, sc_files = total, sc_enqueue = False, sc_errors = 0\<rparr> s1 = (c2, s2)"
    using w2(1) ready1 by (simp add: sync_enqueue_def ready_def)
  have run: "syseba_app_initial_sync wait a s = sync_finish 0 (wait (sc_app c2, s2))"
    using assms(3) cnt enq [unfolded a1_def] w2(2) by (simp add: syseba_app_initial_sync_def sync_ok_def)
  from w2(3) have tot: "initial_total (app_stats (sc_app c2)) = total"
    by (simp add: sync_seen_of_def sync_note_foldl st1) (simp add: a0_def on_stats_def)
  from w2(3) have "map (\<lambda>e. (ev_kind e, ev_path e, ev_is_directory e, ev_initial_sync e)) (wq_items (app_event_queue (sc_app c2))) =
       map (\<lambda>e. (ev_kind e, ev_path e, ev_is_directory e, ev_initial_sync e)) (wq_items (app_event_queue a)) @
       map (\<lambda>(p, d). (EVENT_CREATE, p, d, True)) ?L"
    "wq_unfinished (app_event_queue (sc_app c2)) = wq_unfinished (app_event_queue a) + length ?L"
    by (simp_all add: sync_seen_of_def sync_note_foldl q1)
  with run tot quiet_trans [OF w1(2) w2(4)] show ?thesis
    by (auto simp: total_def Let_def intro!: exI [of _ "sc_app c2"] exI [of _ s2])
qed

lemma demo_settled:
  assumes "fs_get (os_fs demo_os) ([''src''] @ rs) = Some n"
  shows "rs = [] \<or> rs = [''a'']" "settled (os_fs demo_os) ([''src''] @ rs)"
proof -
  show rs: "rs = [] \<or> rs = [''a'']" using assms by (auto simp: demo_eval split: if_splits)
  then show "settled (os_fs demo_os) ([''src''] @ rs)" by (auto simp: settled_def demo_eval less_Suc_eq walked_def)
qed

theorem initial_sync_queues_source_witness:
  "\<exists>aq s2. syseba_app_initial_sync (\<lambda>w. w) demo_app demo_os = sync_finish 0 (aq, s2) \<and>
     initial_total (app_stats aq) = 1 \<and> map ev_path (wq_items (app_event_queue aq)) = [''/src/a'']"
proof -
  have w: "walkable (os_fs demo_os) [''src'']" by (auto simp: walkable_def demo_eval split: if_splits)
  have r: "ready [''src''] demo_app"
    by (simp add: ready_def demo_app_def demo_config_def zero_app_def syseba_app_is_stopping_def empty_wq_def path_str_def)
  have d: "os_sched demo_os = []" "\<not> initial_running (app_stats demo_app)"
    by (simp_all add: demo_os_def quiet_os_def demo_app_def zero_app_def zero_stats_def)
  have L: "shown (tree_nodes SYSEBA_PATH_MAX (os_fs demo_os) [''src'']) = [(''/src/a'', False)]"
  proof -
    have n: "SYSEBA_PATH_MAX = Suc 4095" by (simp add: syseba_limits)
    show ?thesis unfolding n tree_nodes_Suc by (simp add: node_visit_def children_def demo_os_def quiet_os_def fs_get_def shown_def path_str_def)
  qed
  have q: "app_event_queue demo_app = \<lparr>wq_items = [], wq_unfinished = 0, wq_closed = False\<rparr>"
    by (simp add: demo_app_def zero_app_def empty_wq_def)
  have "\<forall>rs n. fs_get (os_fs demo_os) ([''src''] @ rs) = Some n \<and> walked n \<longrightarrow> settled (os_fs demo_os) ([''src''] @ rs)"
    using demo_settled(2) by blast
  from initial_sync_queues_source [OF r d _ w this, of "\<lambda>w. w"]
  obtain aq s2 where "syseba_app_initial_sync (\<lambda>w. w) demo_app demo_os = sync_finish 0 (aq, s2)"
    "initial_total (app_stats aq) = 1"
    "map (\<lambda>e. (ev_kind e, ev_path e, ev_is_directory e, ev_initial_sync e)) (wq_items (app_event_queue aq)) = [(EVENT_CREATE, ''/src/a'', False, True)]"
    unfolding L Let_def q by auto
  then show ?thesis by auto
qed

section \<open>A start that fails leaves nothing behind\<close>

lemma release_releases: "app_lock_file (syseba_app_release_lock a) = None"
  by (simp add: syseba_app_release_lock_def)

lemma stop_leaves_nothing:
  "let a' = syseba_app_stop env a s in app_lock_file a' = None \<and> \<not> app_running a'"
  by (simp add: syseba_app_stop_def Let_def syseba_app_release_lock_def)

lemma acquire_fails_without_lock:
  "syseba_app_acquire_lock ok a s = (r, a', s') \<Longrightarrow> r \<noteq> SYSEBA_OK \<Longrightarrow> a' = a"
  by (auto simp: syseba_app_acquire_lock_def split: prod.splits sum.splits node.splits if_splits bool.splits)

lemma acquire_ok:
  "syseba_app_acquire_lock ok a s = (SYSEBA_OK, a', s') \<Longrightarrow> ok \<and> (\<exists>loc. a' = a\<lparr>app_lock_file := Some loc\<rparr>)"
  by (auto simp: syseba_app_acquire_lock_def split: prod.splits sum.splits node.splits if_splits bool.splits)

lemma log_start_keeps:
  "syseba_log_start ok a s = (r, a', s') \<Longrightarrow> app_lock_file a' = app_lock_file a \<and> app_running a' = app_running a \<and>
     app_web_only a' = app_web_only a"
  by (auto simp: syseba_log_start_def split: option.splits prod.splits if_splits)

lemma start_failure_clean:
  assumes "app_lock_file a = None" "\<not> app_running a" "syseba_app_start env stop a s = (r, a', s')"
  shows "(r \<noteq> SYSEBA_OK \<longrightarrow> app_lock_file a' = None \<and> \<not> app_running a') \<and> (r = SYSEBA_OK \<longrightarrow> app_web_only a \<or> se_flock env)"
proof -
  obtain r0 s1 where 0: "prepare_runtime_paths a s = (r0, s1)" by (cases "prepare_runtime_paths a s")
  obtain r1 a1 s2 where 1: "(if app_web_only a then (SYSEBA_OK, a, s1) else syseba_app_acquire_lock (se_flock env) a s1) = (r1, a1, s2)"
    by (cases "if app_web_only a then (SYSEBA_OK, a, s1) else syseba_app_acquire_lock (se_flock env) a s1") auto
  obtain r2 a2 s3 where 2: "(if se_database env then syseba_log_start (se_log_thread env) a1 s2 else (- 1, a1, s2)) = (r2, a2, s3)"
    by (cases "if se_database env then syseba_log_start (se_log_thread env) a1 s2 else (- 1, a1, s2)") auto
  have l1: "r1 \<noteq> SYSEBA_OK \<Longrightarrow> a1 = a" using 1 acquire_fails_without_lock [of "se_flock env" a s1 r1 a1 s2] by (auto split: if_splits)
  have f1: "r1 = SYSEBA_OK \<Longrightarrow> (app_web_only a \<or> se_flock env) \<and> app_running a1 = app_running a \<and> app_web_only a1 = app_web_only a"
    using 1 acquire_ok [of "se_flock env" a s1 a1 s2] by (auto split: if_splits)
  have l2: "app_running a2 = app_running a1" using 2 log_start_keeps [of _ a1 s2 r2 a2 s3] by (auto split: if_splits)
  show ?thesis
  proof (cases "r0 = 0 \<and> r1 = SYSEBA_OK \<and> r2 = 0")
    case False
    with assms 0 1 2 l1 l2 f1 show ?thesis
      by (auto simp: syseba_app_start_def release_releases syseba_app_release_lock_def split: if_splits)
  next
    case True
    obtain ns s4 where m: "syseba_monotonic_ns s3 = (ns, s4)" by (cases "syseba_monotonic_ns s3")
    define a3 where "a3 = a2\<lparr>app_started_ns := ns, app_started_at := syseba_iso_now s4, app_running := \<not> app_web_only a2\<rparr>"
    obtain b a4 where 4: "(if app_web_only a3 then (True, a3) else start_threads env a3) = (b, a4)"
      by (cases "if app_web_only a3 then (True, a3) else start_threads env a3")
    obtain r5 a5 where 5: "(if app_web_enabled a4 then syseba_web_start (se_web env) a4 s4 else (SYSEBA_OK, a4)) = (r5, a5)"
      by (cases "if app_web_enabled a4 then syseba_web_start (se_web env) a4 s4 else (SYSEBA_OK, a4)")
    have run: "syseba_app_start env stop a s =
        (if \<not> b then (SYSEBA_ERR, syseba_app_stop stop a4 s4, s4)
         else if r5 \<noteq> SYSEBA_OK then (SYSEBA_ERR, syseba_app_stop stop a5 s4, s4)
         else (SYSEBA_OK, syseba_log_emit ''INFO'' ''START'' (cfg_source (app_config a5)) (cfg_backup (app_config a5)) []
                 (''SySeBa '' @ syseba_tr (app_language a5) ''avviato'' ''started'' @ '' (PID '' @ dec (os_pid s4) @ '')'') s4 a5, s4))"
      unfolding syseba_app_start_def 0 prod.case 1 2 m Let_def a3_def [symmetric] 4 5 using True by (simp split: bool.splits)
    from True f1 stop_leaves_nothing [of stop a4 s4] stop_leaves_nothing [of stop a5 s4] assms(3) show ?thesis
      unfolding run by (auto simp: Let_def split: if_splits)
  qed
qed

text \<open>
  A start that fails leaves no lock and no running mark behind, wherever it fails: creating the
  directories, taking the lock, opening the database, starting the log writer, a worker, the watcher,
  the initial synchronisation or the web server. And only a start whose lock was granted (or a
  web-only start, which takes none) can succeed.
\<close>

theorem start_failure_releases:
  assumes "app_lock_file a = None" "\<not> app_running a" "syseba_app_start env stop a s = (r, a', s')"
  shows "(r \<noteq> SYSEBA_OK \<longrightarrow> app_lock_file a' = None \<and> \<not> app_running a') \<and> (r = SYSEBA_OK \<longrightarrow> app_web_only a \<or> se_flock env)"
  by (rule start_failure_clean [OF assms])

theorem start_failure_releases_witness:
  "app_lock_file (fst (snd (syseba_app_start
     \<lparr>se_flock = False, se_database = True, se_log_thread = True, se_workers = (\<lambda>_. True), se_watcher = True, se_initial = True, se_web = True\<rparr>
     \<lparr>sp_watcher = id, sp_initial = id, sp_drain = id, sp_workers = id, sp_log_drain = id, sp_log_join = id\<rparr> demo_app demo_os))) = None"
proof -
  let ?e = "\<lparr>se_flock = False, se_database = True, se_log_thread = True, se_workers = (\<lambda>_. True), se_watcher = True, se_initial = True, se_web = True\<rparr>"
  let ?t = "\<lparr>sp_watcher = id, sp_initial = id, sp_drain = id, sp_workers = id, sp_log_drain = id, sp_log_join = id\<rparr>"
  let ?p = "syseba_app_start ?e ?t demo_app demo_os"
  have "app_lock_file demo_app = None" "\<not> app_running demo_app" "\<not> app_web_only demo_app"
    by (simp_all add: demo_app_def zero_app_def)
  with start_failure_releases [of demo_app ?e ?t demo_os "fst ?p" "fst (snd ?p)" "snd (snd ?p)"] show ?thesis by auto
qed

end
