(* ===== verification/Restore.thy ===== *)
theory Restore
  imports App
begin

text \<open>
  The restore area of \<^verbatim>\<open>fs.c\<close>: searching, sorting and paging the items of a directory of the restore
  area and copying an item back into the source with one of the three conflict strategies. What
  sorting needs from a comparison function is the locale \<open>comparison\<close>; the six comparison functions
  of the code are its interpretations.
\<close>

section \<open>Searching\<close>

text \<open>The inner loop: the number of characters of \<open>search\<close> that match at the start of \<open>value\<close>.\<close>

fun match_length :: "string \<Rightarrow> string \<Rightarrow> nat" where
  "match_length (v # value) (c # search) = (if c_tolower v = c_tolower c then 1 + match_length value search else 0)"
| "match_length _ _ = 0"

fun contains_from :: "string \<Rightarrow> string \<Rightarrow> bool" where
  "contains_from [] search = False"
| "contains_from (v # value) search =
     (if match_length (v # value) search = length search then True else contains_from value search)"

definition contains_case_insensitive :: "string \<Rightarrow> string \<Rightarrow> bool" where
  "contains_case_insensitive value search = (if length search = 0 then True else contains_from value search)"

section \<open>Comparison functions\<close>

text \<open>\<^verbatim>\<open>strcmp\<close> and \<^verbatim>\<open>strcasecmp\<close>: the sign of the first difference of the bytes, after mapping them with \<open>f\<close>.\<close>

fun compare_bytes :: "(char \<Rightarrow> char) \<Rightarrow> string \<Rightarrow> string \<Rightarrow> int" where
  "compare_bytes f [] [] = 0"
| "compare_bytes f [] (y # ys) = - 1"
| "compare_bytes f (x # xs) [] = 1"
| "compare_bytes f (x # xs) (y # ys) =
     (if uchar (f x) < uchar (f y) then - 1 else if uchar (f y) < uchar (f x) then 1 else compare_bytes f xs ys)"

definition strcmp :: "string \<Rightarrow> string \<Rightarrow> int" where
  "strcmp = compare_bytes (\<lambda>c. c)"

definition strcasecmp :: "string \<Rightarrow> string \<Rightarrow> int" where
  "strcasecmp = compare_bytes c_tolower"

definition compare_common :: "restore_item \<Rightarrow> restore_item \<Rightarrow> int" where
  "compare_common first second =
     (if ri_is_directory first \<noteq> ri_is_directory second then if ri_is_directory first then - 1 else 1 else 0)"

definition compare_name_asc :: "restore_item \<Rightarrow> restore_item \<Rightarrow> int" where
  "compare_name_asc first second =
     (let common = compare_common first second in
      if common \<noteq> 0 then common else strcasecmp (ri_name first) (ri_name second))"

definition compare_name_desc :: "restore_item \<Rightarrow> restore_item \<Rightarrow> int" where
  "compare_name_desc first second =
     (let common = compare_common first second in if common \<noteq> 0 then common else - compare_name_asc first second)"

definition compare_mtime_asc :: "restore_item \<Rightarrow> restore_item \<Rightarrow> int" where
  "compare_mtime_asc first second =
     (let common = compare_common first second in
      if common \<noteq> 0 then common else strcmp (ri_mtime first) (ri_mtime second))"

definition compare_mtime_desc :: "restore_item \<Rightarrow> restore_item \<Rightarrow> int" where
  "compare_mtime_desc first second =
     (let common = compare_common first second in
      if common \<noteq> 0 then common else - strcmp (ri_mtime first) (ri_mtime second))"

definition compare_size_asc :: "restore_item \<Rightarrow> restore_item \<Rightarrow> int" where
  "compare_size_asc first second =
     (let common = compare_common first second in
      if common \<noteq> 0 then common
      else if ri_size first = ri_size second then compare_name_asc first second
      else if ri_size first < ri_size second then - 1 else 1)"

definition compare_size_desc :: "restore_item \<Rightarrow> restore_item \<Rightarrow> int" where
  "compare_size_desc first second =
     (let common = compare_common first second in
      if common \<noteq> 0 then common
      else if ri_size first = ri_size second then compare_name_asc first second
      else if ri_size first > ri_size second then - 1 else 1)"

definition pick_comparator :: "string \<Rightarrow> string \<Rightarrow> restore_item \<Rightarrow> restore_item \<Rightarrow> int" where
  "pick_comparator sort_by direction =
     (if sort_by = ''mtime'' then (if direction = ''desc'' then compare_mtime_desc else compare_mtime_asc)
      else if sort_by = ''size'' then (if direction = ''desc'' then compare_size_desc else compare_size_asc)
      else if direction = ''desc'' then compare_name_desc else compare_name_asc)"

text \<open>\<^verbatim>\<open>qsort\<close>: insertion of the elements one after the other, each before the greater ones.\<close>

fun qinsert :: "('a \<Rightarrow> 'a \<Rightarrow> int) \<Rightarrow> 'a \<Rightarrow> 'a list \<Rightarrow> 'a list" where
  "qinsert cmp x [] = [x]"
| "qinsert cmp x (y # ys) = (if cmp x y \<le> 0 then x # y # ys else y # qinsert cmp x ys)"

definition qsort :: "('a \<Rightarrow> 'a \<Rightarrow> int) \<Rightarrow> 'a list \<Rightarrow> 'a list" where
  "qsort cmp xs = foldr (qinsert cmp) xs []"

section \<open>Reading a directory of the restore area\<close>

definition zero_item :: restore_item where
  "zero_item = \<lparr>ri_name = [], ri_path = [], ri_mtime = [], ri_size = 0, ri_is_directory = False, ri_destination_exists = False\<rparr>"

definition zero_listing :: restore_listing where
  "zero_listing = \<lparr>rl_items = [], rl_count = 0, rl_total = 0, rl_page = 0, rl_pages = 0, rl_page_size = 0,
     rl_has_previous = False, rl_has_next = False, rl_is_file = False, rl_path = []\<rparr>"

text \<open>C division truncates towards zero.\<close>

definition seconds_of :: "int \<Rightarrow> int" where
  "seconds_of ns = (if ns \<ge> 0 then ns div 1000000000 else - ((- ns) div 1000000000))"

definition restore_entry :: "app \<Rightarrow> string \<Rightarrow> string \<Rightarrow> 64 word \<times> int \<times> bool \<Rightarrow> os \<Rightarrow> restore_item \<times> os" where
  "restore_entry a path name st s =
     (case st of (sz, mtime_ns, directory) \<Rightarrow>
      (case syseba_relative_path (cfg_restore (app_config a)) path SYSEBA_PATH_MAX s of (rel, s1) \<Rightarrow>
        let item_path = (case rel of None \<Rightarrow> [] | Some p \<Rightarrow> p) in
        (case syseba_safe_join (cfg_source (app_config a)) item_path SYSEBA_PATH_MAX s1 of (joined, s2) \<Rightarrow>
          (case (case joined of None \<Rightarrow> (False, s2) | Some destination \<Rightarrow> syseba_fs_exists destination s2) of (present, s3) \<Rightarrow>
             (\<lparr>ri_name = cut SYSEBA_PATH_MAX name, ri_path = item_path, ri_mtime = syseba_iso_from_time (seconds_of mtime_ns) s1,
               ri_size = sz, ri_is_directory = directory, ri_destination_exists = present\<rparr>, s3)))))"

text \<open>
  The loop over the names; \<open>broken\<close> is the error at which \<^verbatim>\<open>readdir\<close> stops early and \<open>memory k\<close> says
  whether the array can grow beyond \<open>k\<close> items.
\<close>

fun restore_entries ::
  "app \<Rightarrow> (nat \<Rightarrow> bool) \<Rightarrow> string \<Rightarrow> string \<Rightarrow> errno option \<Rightarrow> string list \<Rightarrow> restore_item list \<Rightarrow> os \<Rightarrow> int \<times> restore_item list \<times> os" where
  "restore_entries a memory target search broken [] items s =
     (let s' = (case broken of None \<Rightarrow> s | Some e \<Rightarrow> set_errno e s) in (if os_errno s' \<noteq> None then - 1 else 0, items, s'))"
| "restore_entries a memory target search broken (name # names) items s =
     (if name = ''.'' \<or> name = ''..'' \<or> \<not> contains_case_insensitive name search
      then restore_entries a memory target search broken names items s
      else let path = target @ slash # name in
        if \<not> fits SYSEBA_PATH_MAX path then restore_entries a memory target search broken names items s
        else (case syseba_fs_stat path s of
                (None, s1) \<Rightarrow> restore_entries a memory target search broken names items s1
              | (Some st, s1) \<Rightarrow>
                  (case restore_entry a path name st s1 of (item, s2) \<Rightarrow>
                     if memory (length items) then restore_entries a memory target search broken names (items @ [item]) s2
                     else (- 1, items, s2))))"

definition restore_read_directory :: "app \<Rightarrow> (nat \<Rightarrow> bool) \<Rightarrow> string \<Rightarrow> string \<Rightarrow> os \<Rightarrow> int \<times> restore_item list \<times> os" where
  "restore_read_directory a memory target search s =
     (case sys_readdir target s of
        (Inl e, s1) \<Rightarrow> (- 1, [], s1)
      | (Inr (names, broken), s1) \<Rightarrow> restore_entries a memory target search broken names [] (clear_errno s1))"

section \<open>Paging\<close>

definition clamp_page_size :: "nat \<Rightarrow> nat" where
  "clamp_page_size page_size =
     (let p = (if page_size = 0 then SYSEBA_DEFAULT_RESTORE_PAGE else page_size)
      in if p > SYSEBA_MAX_RESTORE_PAGE then SYSEBA_MAX_RESTORE_PAGE else p)"

text \<open>The number of pages is stored in an \<^verbatim>\<open>unsigned\<close>.\<close>

definition page_count :: "nat \<Rightarrow> nat \<Rightarrow> nat" where
  "page_count total_items page_size =
     (let pages = ((total_items + page_size - 1) div page_size) mod 2 ^ 32 in if pages = 0 then 1 else pages)"

text \<open>The selection of one page of the sorted items, from \<^verbatim>\<open>listing->total\<close> on.\<close>

definition restore_page :: "nat \<Rightarrow> nat \<Rightarrow> restore_item list \<Rightarrow> restore_listing \<Rightarrow> restore_listing" where
  "restore_page page page_size items listing =
     (let pages = page_count (length items) page_size;
          p = (if page > pages then pages else page);
          offset = (p - 1) * page_size;
          available = (if length items > offset then length items - offset else 0);
          selected = (if available > page_size then page_size else available)
      in listing\<lparr>rl_total := length items, rl_pages := pages, rl_page := p, rl_page_size := page_size,
           rl_has_previous := p > 1, rl_has_next := p < pages,
           rl_items := take selected (drop offset items), rl_count := selected\<rparr>)"

definition syseba_restore_list ::
  "app \<Rightarrow> (nat \<Rightarrow> bool) \<Rightarrow> string \<Rightarrow> string \<Rightarrow> nat \<Rightarrow> nat \<Rightarrow> string \<Rightarrow> string \<Rightarrow> os \<Rightarrow> result \<times> restore_listing \<times> os" where
  "syseba_restore_list a memory relative search page page_size sort_by direction s =
     (let p = (if page = 0 then 1 else page); ps = clamp_page_size page_size in
      case syseba_safe_join (cfg_restore (app_config a)) relative SYSEBA_PATH_MAX s of
        (None, s1) \<Rightarrow> (SYSEBA_ERR_INVALID, zero_listing, s1)
      | (Some target, s1) \<Rightarrow>
          (case syseba_fs_exists target s1 of
             (False, s2) \<Rightarrow> (SYSEBA_ERR_NOT_FOUND, zero_listing, s2)
           | (True, s2) \<Rightarrow>
               (case syseba_relative_path (cfg_restore (app_config a)) target SYSEBA_PATH_MAX s2 of (rel, s3) \<Rightarrow>
                  let listing = zero_listing\<lparr>rl_path := (case rel of None \<Rightarrow> [] | Some q \<Rightarrow> q)\<rparr> in
                  (case syseba_fs_is_directory target s3 of
                     (False, s4) \<Rightarrow>
                       (case syseba_fs_stat target s4 of
                          (None, s5) \<Rightarrow> (SYSEBA_ERR, listing, s5)
                        | (Some (sz, mtime_ns, directory), s5) \<Rightarrow>
                            let l1 = listing\<lparr>rl_is_file := True, rl_page := 1, rl_pages := 1, rl_page_size := 1, rl_total := 1\<rparr>;
                                item = zero_item\<lparr>ri_name := base_name target, ri_path := rl_path l1, ri_size := sz,
                                         ri_mtime := syseba_iso_from_time (seconds_of mtime_ns) s5\<rparr>
                            in if memory 0 then (SYSEBA_OK, l1\<lparr>rl_items := [item], rl_count := 1\<rparr>, s5) else (SYSEBA_ERR, l1, s5))
                   | (True, s4) \<Rightarrow>
                       (case restore_read_directory a memory target search s4 of (r, items, s5) \<Rightarrow>
                          if r \<noteq> 0 then (SYSEBA_ERR, zero_listing, s5)
                          else (SYSEBA_OK, restore_page p ps (qsort (pick_comparator sort_by direction) items) listing, s5))))))"

section \<open>Restoring an item\<close>

definition inc_restored :: "stats \<Rightarrow> stats" where
  "inc_restored st = st\<lparr>st_restored := st_restored st + 1\<rparr>"

text \<open>The choice of the destination after the conflict checks: an error, or the path to write.\<close>

definition restore_target :: "string \<Rightarrow> string \<Rightarrow> restore_strategy \<Rightarrow> os \<Rightarrow> (result + bool \<times> string) \<times> os" where
  "restore_target source target strategy s =
     (case syseba_fs_is_directory source s of (source_directory, s1) \<Rightarrow>
      (case syseba_fs_exists target s1 of (present, s2) \<Rightarrow>
        if present \<and> strategy = RESTORE_FAIL then (Inl SYSEBA_ERR_EXISTS, s2)
        else if present \<and> strategy = RESTORE_RENAME
        then (case syseba_unique_restored_path target SYSEBA_PATH_MAX s2 of
                (None, s3) \<Rightarrow> (Inl SYSEBA_ERR, s3)
              | (Some t, s3) \<Rightarrow> (Inr (source_directory, t), s3))
        else if present
        then (case syseba_fs_is_directory target s2 of (target_directory, s3) \<Rightarrow>
                if source_directory \<noteq> target_directory then (Inl SYSEBA_ERR_EXISTS, s3) else (Inr (source_directory, target), s3))
        else (Inr (source_directory, target), s2)))"

definition restore_done :: "string \<Rightarrow> string \<Rightarrow> nat \<Rightarrow> app \<Rightarrow> os \<Rightarrow> (result + string) \<times> app" where
  "restore_done source target n a s =
     (let a1 = syseba_log_emit ''INFO'' ''RESTORE'' source target []
            (syseba_tr (app_language a) ''Ripristinato dall'area restore'' ''Restored from restore area'' @ '': '' @ source @ '' -> '' @ target)
            s (on_stats inc_restored a)
      in (if fits n target then Inr target else Inl SYSEBA_ERR, a1))"

definition syseba_restore_item :: "app \<Rightarrow> string \<Rightarrow> restore_strategy \<Rightarrow> nat \<Rightarrow> os \<Rightarrow> (result + string) \<times> app \<times> os" where
  "syseba_restore_item a relative strategy n s =
     (if relative = [] then (Inl SYSEBA_ERR_INVALID, a, s)
      else (case syseba_safe_join (cfg_restore (app_config a)) relative SYSEBA_PATH_MAX s of
              (None, s1) \<Rightarrow> (Inl SYSEBA_ERR_INVALID, a, s1)
            | (Some source, s1) \<Rightarrow>
                (case syseba_safe_join (cfg_source (app_config a)) relative SYSEBA_PATH_MAX s1 of
                   (None, s2) \<Rightarrow> (Inl SYSEBA_ERR_INVALID, a, s2)
                 | (Some target, s2) \<Rightarrow>
                     (case syseba_fs_exists source s2 of
                        (False, s3) \<Rightarrow> (Inl SYSEBA_ERR_NOT_FOUND, a, s3)
                      | (True, s3) \<Rightarrow>
                          (case restore_target source target strategy s3 of
                             (Inl e, s4) \<Rightarrow> (Inl e, a, s4)
                           | (Inr (source_directory, t), s4) \<Rightarrow>
                               (case (if source_directory then syseba_copy_tree source t (strategy = RESTORE_OVERWRITE) s4
                                      else syseba_copy_file source t 4 s4) of (r, s5) \<Rightarrow>
                                  if r \<noteq> 0 then (Inl SYSEBA_ERR, a, s5)
                                  else (case restore_done source t n a s5 of (out, a1) \<Rightarrow> (out, a1, s5))))))))"

section \<open>The search is a substring test\<close>

lemma match_length_full:
  "match_length w search = length search \<longleftrightarrow>
     (\<exists>rest. map c_tolower w = map c_tolower search @ rest)"
  by (induction w search rule: match_length.induct) (auto simp: Cons_eq_append_conv)

lemma contains_from_iff:
  "search \<noteq> [] \<Longrightarrow> contains_from w search \<longleftrightarrow> sublist (map c_tolower search) (map c_tolower w)"
proof (induction w)
  case (Cons v w)
  have "match_length (v # w) search = length search \<longleftrightarrow> prefix (map c_tolower search) (map c_tolower (v # w))"
    unfolding match_length_full prefix_def ..
  with Cons show ?case by (simp add: sublist_Cons_right)
qed simp

text \<open>
  The search of the restore list is a case-insensitive substring test: the two nested loops
  accept a name exactly when the search text, with all letters made small, occurs somewhere in the
  name made small in the same way; the empty search accepts every name.
\<close>

theorem search_is_substring:
  "contains_case_insensitive w search \<longleftrightarrow> sublist (map c_tolower search) (map c_tolower w)"
  by (cases "search = []") (simp_all add: contains_case_insensitive_def contains_from_iff)

section \<open>Sorting\<close>

text \<open>
  What \<^verbatim>\<open>qsort\<close> needs from its comparison function: opposite signs when the arguments are swapped,
  and that \<open>\<le> 0\<close> is transitive.
\<close>

locale comparison =
  fixes cmp :: "'a \<Rightarrow> 'a \<Rightarrow> int"
  assumes swap: "0 \<le> cmp x y \<longleftrightarrow> cmp y x \<le> 0"
    and trans: "cmp x y \<le> 0 \<Longrightarrow> cmp y z \<le> 0 \<Longrightarrow> cmp x z \<le> 0"
begin

lemma total: "\<not> cmp x y \<le> 0 \<Longrightarrow> cmp y x \<le> 0"
  using swap by force

lemma qinsert_sorted: "sorted_wrt (\<lambda>x y. cmp x y \<le> 0) ys \<Longrightarrow> sorted_wrt (\<lambda>x y. cmp x y \<le> 0) (qinsert cmp x ys)"
proof (induction ys)
  case (Cons y ys)
  have "set (qinsert cmp x ys) = insert x (set ys)" by (induction ys) auto
  with Cons show ?case using trans [of x y] total [of x y] by auto
qed simp

lemma qsort_sorted: "sorted_wrt (\<lambda>x y. cmp x y \<le> 0) (qsort cmp xs)"
  unfolding qsort_def by (induction xs) (simp_all add: qinsert_sorted)

end

lemma qinsert_mset: "mset (qinsert cmp x ys) = add_mset x (mset ys)"
  by (induction ys) auto

lemma qsort_mset: "mset (qsort cmp xs) = mset xs"
  unfolding qsort_def by (induction xs) (simp_all add: qinsert_mset)

text \<open>
  The comparison functions are built from smaller ones: by \<open>f\<close> first and by \<open>g\<close> when \<open>f\<close> sees no
  difference, by a part of the items, in the opposite direction, and by the order of the sizes.
\<close>

lemma comparison_then:
  assumes "comparison f" "comparison g"
  shows "comparison (\<lambda>x y. if f x y \<noteq> 0 then f x y else g x y)"
proof (unfold_locales, goal_cases)
  case (1 x y)
  show ?case using comparison.swap [OF assms(1), of x y] comparison.swap [OF assms(1), of y x]
      comparison.swap [OF assms(2), of x y] by (cases "f x y = 0"; cases "f y x = 0") simp_all
next
  case (2 x y z)
  note f = comparison.trans [OF assms(1)] and g = comparison.trans [OF assms(2), of x y z]
  note s = comparison.swap [OF assms(1)]
  have 3: "f x y \<le> 0" "f y z \<le> 0" using 2 by (auto split: if_splits)
  have 4: "f x y = 0 \<and> f y z = 0" if "f x z = 0"
    using 3 that f [of y z x] f [of z x y] s [of x y] s [of z y] s [of y z] s [of x z] s [of z x] by auto
  show ?case
  proof (cases "f x z = 0")
    case True
    with 4 2 g show ?thesis by auto
  next
    case False
    with f [OF 3] show ?thesis by simp
  qed
qed

lemma comparison_on: "comparison f \<Longrightarrow> comparison (\<lambda>x y. f (h x) (h y))"
  unfolding comparison_def by blast

lemma comparison_minus:
  assumes "comparison f" shows "comparison (\<lambda>x y. - f x y)"
proof (unfold_locales, goal_cases)
  case (1 x y)
  show ?case using comparison.swap [OF assms, of y x] by auto
next
  case (2 x y z)
  then have "f z x \<le> 0"
    using comparison.swap [OF assms] comparison.trans [OF assms, of z y x] by simp
  then show ?case using comparison.swap [OF assms] by simp
qed

lemma comparison_order: "comparison (\<lambda>(x :: 'a :: linorder) y. if x = y then 0 else if x < y then - 1 else 1)"
  by unfold_locales (fastforce split: if_splits)+

lemma compare_bytes_swap: "compare_bytes f x y = - compare_bytes f y x"
proof (induction x arbitrary: y)
  case Nil
  then show ?case by (cases y) simp_all
next
  case (Cons a x)
  then show ?case by (cases y) simp_all
qed

lemma compare_bytes_trans: "compare_bytes f x y \<le> 0 \<Longrightarrow> compare_bytes f y z \<le> 0 \<Longrightarrow> compare_bytes f x z \<le> 0"
proof (induction x arbitrary: y z)
  case Nil
  show ?case by (cases z) simp_all
next
  case (Cons a x)
  from Cons.prems(1) obtain b ys where y: "y = b # ys" by (cases y) simp_all
  from Cons.prems(2) obtain c zs where z: "z = c # zs" by (cases z) (simp_all add: y)
  from Cons.prems Cons.IH [of ys zs] show ?case by (simp add: y z split: if_splits)
qed

lemma comparison_bytes: "comparison (compare_bytes f)"
proof (unfold_locales, goal_cases)
  case (1 x y)
  show ?case using compare_bytes_swap [of f x y] by simp
qed (rule compare_bytes_trans)

interpretation common: comparison compare_common
  by unfold_locales (auto simp: compare_common_def split: if_splits)

lemmas comparison_by_bytes = comparison_on [OF comparison_bytes]
lemmas comparison_by_size = comparison_on [OF comparison_order, of ri_size]

interpretation name_asc: comparison compare_name_asc
  unfolding compare_name_asc_def Let_def strcasecmp_def
  by (rule comparison_then [OF common.comparison_axioms comparison_by_bytes])

interpretation name_desc: comparison compare_name_desc
  unfolding compare_name_desc_def Let_def
  by (rule comparison_then [OF common.comparison_axioms comparison_minus [OF name_asc.comparison_axioms]])

interpretation mtime_asc: comparison compare_mtime_asc
  unfolding compare_mtime_asc_def Let_def strcmp_def
  by (rule comparison_then [OF common.comparison_axioms comparison_by_bytes])

interpretation mtime_desc: comparison compare_mtime_desc
  unfolding compare_mtime_desc_def Let_def strcmp_def
  by (rule comparison_then [OF common.comparison_axioms comparison_minus [OF comparison_by_bytes]])

lemma size_asc_then:
  "compare_size_asc = (\<lambda>x y. if compare_common x y \<noteq> 0 then compare_common x y
     else let by_size = (if ri_size x = ri_size y then 0 else if ri_size x < ri_size y then - 1 else 1)
          in if by_size \<noteq> 0 then by_size else compare_name_asc x y)"
  by (intro ext) (simp add: compare_size_asc_def Let_def)

lemma size_desc_then:
  "compare_size_desc = (\<lambda>x y. if compare_common x y \<noteq> 0 then compare_common x y
     else let by_size = - (if ri_size x = ri_size y then 0 else if ri_size x < ri_size y then - 1 else 1)
          in if by_size \<noteq> 0 then by_size else compare_name_asc x y)"
  by (intro ext) (auto simp add: compare_size_desc_def Let_def)

interpretation size_asc: comparison compare_size_asc
  unfolding size_asc_then Let_def
  by (rule comparison_then [OF common.comparison_axioms
        comparison_then [OF comparison_by_size name_asc.comparison_axioms]])

interpretation size_desc: comparison compare_size_desc
  unfolding size_desc_then Let_def
  by (rule comparison_then [OF common.comparison_axioms
        comparison_then [OF comparison_minus [OF comparison_by_size] name_asc.comparison_axioms]])

interpretation picked: comparison "pick_comparator sort_by direction" for sort_by direction
  unfolding pick_comparator_def
  by (simp add: name_asc.comparison_axioms name_desc.comparison_axioms mtime_asc.comparison_axioms
      mtime_desc.comparison_axioms size_asc.comparison_axioms size_desc.comparison_axioms)

lemma picked_directories_first:
  "ri_is_directory x \<Longrightarrow> \<not> ri_is_directory y \<Longrightarrow> \<not> pick_comparator sort_by direction y x \<le> 0"
  by (simp add: pick_comparator_def compare_name_asc_def compare_name_desc_def compare_mtime_asc_def
      compare_mtime_desc_def compare_size_asc_def compare_size_desc_def compare_common_def)

section \<open>Pages\<close>

lemma concat_chunks: "concat (map (\<lambda>i. take k (drop (i * k) xs)) [0..<n]) = take (n * k) xs"
proof (induction n)
  case (Suc n)
  then show ?case using take_add [of "n * k" k xs] by (simp add: add.commute)
qed simp

lemma page_count_covers:
  assumes "0 < k" "m < 2 ^ 32"
  shows "m \<le> page_count m k * k" "0 < page_count m k"
proof -
  define q where "q = (m + k - 1) div k"
  have m: "m \<le> q * k"
  proof -
    have "m + k - 1 < q * k + k" unfolding q_def using dividend_less_div_times [OF assms(1), of "m + k - 1"] by simp
    then show ?thesis by simp
  qed
  have "q \<le> m" unfolding q_def using assms(1) by (cases m) (simp_all add: div_le_mono div_add_self2 le_trans [OF div_le_dividend])
  then have "q < 2 ^ 32" using assms(2) by simp
  then have "page_count m k = max 1 q" unfolding page_count_def Let_def q_def by (simp add: max_def)
  with m show "m \<le> page_count m k * k" "0 < page_count m k" by (cases q; simp)+
qed

lemma restore_page_items:
  "1 \<le> p \<Longrightarrow> p \<le> page_count (length xs) k \<Longrightarrow> rl_items (restore_page p k xs l) = take k (drop ((p - 1) * k) xs)"
  by (auto simp: restore_page_def Let_def)

lemma pages_partition:
  assumes "0 < k" "length xs < 2 ^ 32"
  shows "concat (map (\<lambda>p. rl_items (restore_page p k xs l)) [1..<Suc (page_count (length xs) k)]) = xs"
proof -
  let ?n = "page_count (length xs) k"
  have "map (\<lambda>p. rl_items (restore_page p k xs l)) [1..<Suc ?n] = map (\<lambda>i. rl_items (restore_page (Suc i) k xs l)) [0..<?n]"
    by (simp add: map_Suc_upt [symmetric] o_def del: upt_Suc)
  also have "\<dots> = map (\<lambda>i. take k (drop (i * k) xs)) [0..<?n]" by (simp add: restore_page_items)
  finally show ?thesis using page_count_covers [OF assms] by (simp add: concat_chunks)
qed

lemma clamp_page_size_bounds: "0 < clamp_page_size n" "clamp_page_size n \<le> SYSEBA_MAX_RESTORE_PAGE"
  by (simp_all add: clamp_page_size_def syseba_limits Let_def)

text \<open>A successful listing of a directory: the items read once, sorted, and one page of them.\<close>

lemma restore_list_shape:
  assumes "syseba_restore_list a memory relative search p k sort_by direction s = (SYSEBA_OK, l, s')" "\<not> rl_is_file l"
  obtains target s4 items path where
    "restore_read_directory a memory target search s4 = (0, items, s')"
    "\<And>q. syseba_restore_list a memory relative search q k sort_by direction s =
       (SYSEBA_OK, restore_page (if q = 0 then 1 else q) (clamp_page_size k) (qsort (pick_comparator sort_by direction) items)
          (zero_listing\<lparr>rl_path := path\<rparr>), s')"
  using assms by (auto simp: syseba_restore_list_def Let_def split: prod.splits option.splits bool.splits if_splits)


section \<open>A listing whose entries left errno set\<close>

text \<open>Once set, \<^verbatim>\<open>errno\<close> stays set through every call the loop makes.\<close>

definition sticky :: "os \<Rightarrow> os \<Rightarrow> bool" where
  "sticky s s' \<longleftrightarrow> (os_errno s \<noteq> None \<longrightarrow> os_errno s' \<noteq> None)"

lemma sticky_refl [simp]: "sticky s s"
  by (simp add: sticky_def)

lemma sticky_trans: "sticky s s' \<Longrightarrow> sticky s' s'' \<Longrightarrow> sticky s s''"
  by (simp add: sticky_def)

interpretation sticky: reading sticky
  by unfold_locales (auto intro: sticky_trans simp: sticky_def tick_def split: list.splits)

lemma restore_entry_frame:
  assumes "restore_entry a path name st s = (item, s')"
  shows "quiet s s'" "sticky s s'"
proof -
  obtain r1 s1 where 1: "syseba_relative_path (cfg_restore (app_config a)) path SYSEBA_PATH_MAX s = (r1, s1)"
    by (cases "syseba_relative_path (cfg_restore (app_config a)) path SYSEBA_PATH_MAX s")
  let ?p = "case r1 of None \<Rightarrow> [] | Some p \<Rightarrow> p"
  obtain r2 s2 where 2: "syseba_safe_join (cfg_source (app_config a)) ?p SYSEBA_PATH_MAX s1 = (r2, s2)"
    by (cases "syseba_safe_join (cfg_source (app_config a)) ?p SYSEBA_PATH_MAX s1")
  have 3: "s' = s2 \<or> (\<exists>d. s' = snd (syseba_fs_exists d s2))"
    using assms 1 2 by (auto simp: restore_entry_def Let_def split: option.splits prod.splits) (metis snd_conv)+
  have "quiet s s1" "quiet s1 s2" "sticky s s1" "sticky s1 s2"
    using relative_quiet [of s "cfg_restore (app_config a)" path SYSEBA_PATH_MAX] sticky.reads_relative [of s "cfg_restore (app_config a)" path SYSEBA_PATH_MAX] 1
      safe_join_quiet [of s1 "cfg_source (app_config a)" ?p SYSEBA_PATH_MAX] sticky.reads_safe_join [of s1 "cfg_source (app_config a)" ?p SYSEBA_PATH_MAX] 2
    by simp_all
  with 3 show "quiet s s'" "sticky s s'"
    by (auto intro: quiet_trans quiet_trans [OF _ exists_quiet] sticky_trans sticky_trans [OF _ sticky.reads_exists])
qed

lemma restore_entries_set_errno:
  "os_errno s \<noteq> None \<Longrightarrow> restore_entries a memory target search broken names items s = (r, items', s') \<Longrightarrow> r = - 1"
proof (induction names arbitrary: items s)
  case Nil
  then show ?case by (auto simp: set_errno_def Let_def split: option.splits)
next
  case (Cons name names)
  let ?path = "target @ slash # name"
  obtain st s1 where 1: "syseba_fs_stat ?path s = (st, s1)" by (cases "syseba_fs_stat ?path s")
  have e1: "os_errno s1 \<noteq> None" using sticky.reads_stat [of s ?path] 1 Cons.prems(1) by (simp add: sticky_def)
  show ?case
  proof (cases st)
    case None
    with Cons.IH [OF Cons.prems(1)] Cons.IH [OF e1] Cons.prems(2) 1 show ?thesis by (auto simp: Let_def split: if_splits)
  next
    case (Some x)
    obtain item s2 where 2: "restore_entry a ?path name x s1 = (item, s2)" by (cases "restore_entry a ?path name x s1")
    have e2: "os_errno s2 \<noteq> None" using restore_entry_frame(2) [OF 2] e1 by (simp add: sticky_def)
    with Cons.IH [OF Cons.prems(1)] Cons.IH [OF e2] Cons.prems(2) 1 2 Some show ?thesis by (auto simp: Let_def split: if_splits)
  qed
qed

lemma routed_prefix:
  assumes "routed a src bak res (rs @ [x])"
  shows "routed a src bak res rs"
proof -
  have "length (rel_str rs) \<le> length (rel_str (rs @ [x]))" by (auto simp: rel_str_def path_str_def)
  moreover have "path_fits (b @ rs)" if "path_fits (b @ rs @ [x])" for b
    using path_fits_take [OF that, of "length (b @ rs)"] by simp
  ultimately show ?thesis using assms unfolding routed_def by (metis (no_types, lifting) append_assoc le_less_trans add_left_mono plain_path_append)
qed

text \<open>An entry with nothing at its place in the source leaves \<^verbatim>\<open>errno\<close> set.\<close>

lemma restore_entry_missing:
  assumes "routed a src bak res (rs @ [x])" "os_sched s = []"
    and "\<forall>b \<in> {src, res}. link_free (os_fs s) b \<and> link_free (os_fs s) (b @ rs @ [x])"
    and "fs_get (os_fs s) (src @ rs @ [x]) = None"
    and "restore_entry a (path_str (res @ rs @ [x])) name st s = (item, s')"
  shows "os_errno s' \<noteq> None"
proof -
  have R: "plain_path (b @ rs @ [x])" "path_fits b" "path_fits (b @ rs @ [x])" "length (path_str b) + 1 + length (rel_str (rs @ [x])) < SYSEBA_PATH_MAX"
    if "b \<in> {src, res}" for b using assms(1) that by (auto simp: routed_def)
  have cfg: "cfg_restore (app_config a) = path_str res" "cfg_source (app_config a) = path_str src" using assms(1) by (auto simp: routed_def)
  have "fits SYSEBA_PATH_MAX (rel_str (rs @ [x]))" using R(4) [of src] by (simp add: fits_def)
  from relative_path_mirror [OF assms(2) R(1-3) _ _ this, of res] assms(3) obtain s1 where
    s1: "syseba_relative_path (path_str res) (path_str (res @ rs @ [x])) SYSEBA_PATH_MAX s = (Some (rel_str (rs @ [x])), s1)" "quiet s s1" by auto
  from safe_join_mirror [OF quiet_sched [OF s1(2) assms(2)] R(1-3) _ _ R(4), of src] assms(3) quiet_fs [OF s1(2)] obtain s2 where
    s2: "syseba_safe_join (path_str src) (rel_str (rs @ [x])) SYSEBA_PATH_MAX s1 = (Some (path_str (src @ rs @ [x])), s2)" "quiet s1 s2" by auto
  have q: "quiet s s2" by (rule quiet_trans [OF s1(2) s2(2)])
  have g: "good_path (src @ rs @ [x])" using R(1) [of src] by auto
  have "no_links (os_fs s) (src @ rs @ [x])"
    using link_free_no_links [of "os_fs s" "src @ rs @ [x]" "length (src @ rs @ [x])"] assms(3) by simp
  with lookup_no_links [OF g] assms(4) have "\<exists>e. lookup_node False (path_str (src @ rs @ [x])) s = Inl e"
    by (cases "lookup_node False (path_str (src @ rs @ [x])) s") auto
  then obtain e where "syseba_fs_exists (path_str (src @ rs @ [x])) s2 = (False, set_errno e s2)"
    using quiet_sched [OF q assms(2)] quiet_lookup [OF q] by (auto simp: syseba_fs_exists_def sys_lstat_def query_calm)
  with assms(5) s1 s2 cfg show ?thesis by (auto simp: restore_entry_def set_errno_def split: prod.splits)
qed

lemma restore_entries_missing:
  assumes x: "routed a src bak res (rs @ [x])" "res @ rs \<noteq> []"
      "\<forall>b \<in> {src, res}. link_free t b \<and> link_free t (b @ rs @ [x])"
      "fs_get t (src @ rs @ [x]) = None" "fs_get t (res @ rs @ [x]) = Some (Reg f)" "dir_chain t (res @ rs @ [x])"
      "contains_case_insensitive x search" "x \<in> set names"
    and s: "os_sched s = []" "os_fs s = t" "restore_entries a memory (path_str (res @ rs)) search broken names items s = (r, items', s')"
  shows "r = - 1"
  using x(8) s
proof (induction names arbitrary: items s)
  case (Cons name names)
  let ?path = "path_str (res @ rs) @ slash # name"
  obtain st s1 where 1: "syseba_fs_stat ?path s = (st, s1)" by (cases "syseba_fs_stat ?path s")
  have q1: "quiet s s1" using stat_quiet [of s ?path] 1 by simp
  have c1: "os_sched s1 = []" "os_fs s1 = t" using quiet_sched [OF q1] quiet_fs [OF q1] Cons.prems by simp_all
  show ?case
  proof (cases "name = x")
    case True
    have g: "good_path (res @ rs @ [x])" "path_fits (res @ rs @ [x])" using x(1) by (auto simp: routed_def)
    have p: "?path = path_str (res @ rs @ [x])" using path_str_below [OF x(2), of x] True by simp
    have st: "st = Some (of_nat (length (f_data f)), f_mtime f, False)" "s1 = s"
      using stat_chain [OF Cons.prems(2) g(1)] x(5,6) Cons.prems(3) 1 p by auto
    obtain item s2 where 2: "restore_entry a ?path name (of_nat (length (f_data f)), f_mtime f, False) s = (item, s2)"
      by (cases "restore_entry a ?path name (of_nat (length (f_data f)), f_mtime f, False) s")
    have e: "os_errno s2 \<noteq> None"
      using restore_entry_missing [OF x(1) Cons.prems(2) _ _ 2 [unfolded p]] x(3,4) Cons.prems(3) by simp
    have "x \<noteq> ''.''" "x \<noteq> ''..''" using g(1) by (auto simp: good_comp_def)
    with Cons.prems(4) True x(7) g(2) 1 st 2 p restore_entries_set_errno [OF e] show ?thesis
      by (auto simp: Let_def path_fits_def split: if_splits)
  next
    case False
    then have n: "x \<in> set names" using Cons.prems(1) by simp
    note IH = Cons.IH [OF n]
    show ?thesis
    proof (cases st)
      case None
      with IH [OF Cons.prems(2,3)] IH [OF c1] Cons.prems(4) 1 show ?thesis by (auto simp: Let_def split: if_splits)
    next
      case (Some y)
      obtain item s2 where 2: "restore_entry a ?path name y s1 = (item, s2)" by (cases "restore_entry a ?path name y s1")
      note q2 = restore_entry_frame(1) [OF 2]
      have c2: "os_sched s2 = []" "os_fs s2 = t" using quiet_sched [OF q2] quiet_fs [OF q2] c1 by simp_all
      from IH [OF Cons.prems(2,3)] IH [OF c2] Cons.prems(4) 1 2 Some show ?thesis by (auto simp: Let_def split: if_splits)
    qed
  qed
qed simp

text \<open>
  Deleted files hide the restore area. A directory of the restore area cannot be listed at all
  when one of the regular files in it that match the search is no longer in the source, which is
  what a deletion leaves behind: the check for a destination in the source leaves \<^verbatim>\<open>errno\<close> set and the
  loop takes it for an error of \<^verbatim>\<open>readdir\<close>, although no call on the restore area has failed.
\<close>

theorem restore_list_stale_errno:
  assumes "routed a src bak res (rs @ [x])" "os_sched s = []" "res \<noteq> []"
    and "\<forall>b \<in> {src, res}. link_free (os_fs s) b \<and> link_free (os_fs s) (b @ rs @ [x])"
    and "walkable (os_fs s) (res @ rs)" "fs_get (os_fs s) (res @ rs @ [x]) = Some (Reg f)"
    and "fs_get (os_fs s) (src @ rs @ [x]) = None" "contains_case_insensitive x search"
  shows "fst (syseba_restore_list a memory (rel_str rs) search page page_size sort_by direction s) = SYSEBA_ERR"
proof -
  have R: "plain_path (res @ rs)" "path_fits res" "path_fits (res @ rs)" "length (path_str res) + 1 + length (rel_str rs) < SYSEBA_PATH_MAX"
    "cfg_restore (app_config a) = path_str res"
    using routed_prefix [OF assms(1)] by (auto simp: routed_def)
  have lf: "link_free (os_fs s) (res @ rs)"
    unfolding link_free_def
  proof (intro allI impI)
    fix i l assume "i \<le> length (res @ rs)"
    then show "fs_get (os_fs s) (take i (res @ rs)) \<noteq> Some (Lnk l)"
      using assms(4) unfolding link_free_def by (auto dest!: spec [of _ i])
  qed
  from safe_join_mirror [OF assms(2) R(1-3) _ lf R(4)] assms(4) obtain s1 where
    s1: "syseba_safe_join (path_str res) (rel_str rs) SYSEBA_PATH_MAX s = (Some (path_str (res @ rs)), s1)" "quiet s s1" by auto
  have c1: "os_sched s1 = []" "os_fs s1 = os_fs s" using quiet_sched [OF s1(2) assms(2)] quiet_fs [OF s1(2)] by simp_all
  have d: "good_path (res @ rs)" "dir_chain (os_fs s) (res @ rs)" "fs_get (os_fs s) (res @ rs) = Some Dir"
    using assms(5) by (auto simp: walkable_def)
  obtain r2 s2 where 2: "syseba_relative_path (path_str res) (path_str (res @ rs)) SYSEBA_PATH_MAX s1 = (r2, s2)"
    by (cases "syseba_relative_path (path_str res) (path_str (res @ rs)) SYSEBA_PATH_MAX s1")
  have q2: "quiet s1 s2" using relative_quiet [of s1 "path_str res" "path_str (res @ rs)" SYSEBA_PATH_MAX] 2 by simp
  have c2: "os_sched s2 = []" "os_fs s2 = os_fs s" using quiet_sched [OF q2 c1(1)] quiet_fs [OF q2] c1 by simp_all
  have w: "walkable (os_fs s2) (res @ rs)" using assms(5) c2 by simp
  obtain r items s3 where 3: "restore_read_directory a memory (path_str (res @ rs)) search s2 = (r, items, s3)"
    by (cases "restore_read_directory a memory (path_str (res @ rs)) search s2")
  have "x \<in> set (children (os_fs s) (res @ rs))" using assms(6) by (simp add: children_iff)
  moreover have "dir_chain (os_fs s) (res @ rs @ [x])" using d dir_chain_snoc [of "os_fs s" "res @ rs" x] by simp
  moreover have "restore_entries a memory (path_str (res @ rs)) search None (children (os_fs s) (res @ rs)) [] (clear_errno s2) = (r, items, s3)"
    using 3 readdir_walkable [OF c2(1) w] c2 by (simp add: restore_read_directory_def)
  ultimately have "r = - 1"
    using restore_entries_missing [OF assms(1) _ assms(4) assms(7,6) _ assms(8), of _ "clear_errno s2"] assms(3) c2
    by (simp add: clear_errno_def)
  then show ?thesis
    using s1 R(5) exists_chain [OF c1(1) d(1)] exists_chain(2) [OF c2(1) d(1)] d c1 c2 2 3
    by (simp add: syseba_restore_list_def Let_def)
qed

definition restore_os :: "(cpath \<times> node) list \<Rightarrow> os" where
  "restore_os t = quiet_os\<lparr>os_fs := [([''src''], Dir), ([''res''], Dir), ([''res'', ''a''], Reg demo_file)] @ t\<rparr>"

theorem restore_list_stale_errno_witness:
  "fst (syseba_restore_list demo_app (\<lambda>_. True) [] [] 1 50 ''name'' ''asc'' (restore_os [])) = SYSEBA_ERR"
proof -
  have "fst (syseba_restore_list demo_app (\<lambda>_. True) (rel_str []) [] 1 50 ''name'' ''asc'' (restore_os [])) = SYSEBA_ERR"
  proof (rule restore_list_stale_errno [where x = "''a''" and f = demo_file])
    show "routed demo_app [''src''] [''bak''] [''res''] ([] @ [''a''])" using demo_routed by simp
    show "walkable (os_fs (restore_os [])) ([''res''] @ [])"
      by (auto simp: walkable_def restore_os_def demo_eval split: if_splits)
  qed (auto simp: restore_os_def quiet_os_def link_free_def fs_get_def le_Suc_eq contains_case_insensitive_def)
  then show ?thesis by (simp add: rel_str_def)
qed

section \<open>A listing that succeeds\<close>

lemma relative_settled:
  assumes "os_sched s = []" "settled (os_fs s) bs" "settled (os_fs s) (bs @ rs)" "fits n (rel_str rs)"
  shows "syseba_relative_path (path_str bs) (path_str (bs @ rs)) n s = (Some (rel_str rs), s)"
proof -
  have p: "plain_path bs" "plain_path rs" "path_fits bs" "path_fits (bs @ rs)" using assms(2,3) by (auto simp: settled_def)
  have "syseba_path_real (path_str xs) SYSEBA_PATH_MAX t = (Some (path_str xs), t)" if "plain_path xs" "path_fits xs" for xs t
    using path_real_plain that by (simp add: path_fits_def fits_def)
  moreover have "dropWhile is_separator (drop (length (path_str bs)) (path_str (bs @ rs))) = rel_str rs"
    using rel_str_no_sep [OF p(2)] by (auto simp: path_str_rel is_separator_def rel_str_def)
  moreover have "normalize_separators (rel_str rs) = rel_str rs"
    using rel_str_chars [of rs] p(2) by (intro normalize_id) (auto simp: plain_path_def backslash_def)
  ultimately show ?thesis
    using within_settled [OF assms(1-3)] p assms(4) by (auto simp: syseba_relative_path_def Let_def)
qed

lemma safe_join_settled:
  assumes "os_sched s = []" "settled (os_fs s) bs" "settled (os_fs s) (bs @ rs)"
    and "length (path_str bs) + 1 + length (rel_str rs) < SYSEBA_PATH_MAX"
  shows "syseba_safe_join (path_str bs) (rel_str rs) SYSEBA_PATH_MAX s = (Some (path_str (bs @ rs)), s)"
proof -
  have p: "plain_path (bs @ rs)" "path_fits (bs @ rs)" using assms(3) by (auto simp: settled_def)
  obtain t where "path_str bs = slash # t" using path_str_Cons by blast
  then have "syseba_path_real (path_str bs @ slash # rel_str rs) SYSEBA_PATH_MAX s = (Some (path_str (bs @ rs)), s)"
    using real_parts_join [OF p(1)] assms(4) p(2)
    by (simp add: syseba_path_real_def absolute_path_def fits_def path_real_text_eq path_fits_def)
  with within_settled [OF assms(1-3)] rel_str_no_sep [of rs] p assms(4) show ?thesis
    by (simp add: syseba_safe_join_def fits_def)
qed

text \<open>An entry that is also in the source: it is listed and \<^verbatim>\<open>errno\<close> is left alone.\<close>

definition restorable :: "app \<Rightarrow> cpath \<Rightarrow> cpath \<Rightarrow> cpath \<Rightarrow> fstree \<Rightarrow> bool" where
  "restorable a src res rs t \<longleftrightarrow> (\<exists>bak. routed a src bak res rs) \<and>
     (\<forall>b \<in> {src, res}. settled t b \<and> settled t (b @ rs))"

lemma restore_entry_settled:
  assumes "restorable a src res rs (os_fs s)" "os_sched s = []"
  shows "\<exists>item. restore_entry a (path_str (res @ rs)) name (sz, mt, dir) s = (item, s) \<and>
    ri_name item = cut SYSEBA_PATH_MAX name \<and> ri_path item = rel_str rs \<and> ri_is_directory item = dir \<and> ri_destination_exists item"
proof -
  have R: "settled (os_fs s) b" "settled (os_fs s) (b @ rs)" "length (path_str b) + 1 + length (rel_str rs) < SYSEBA_PATH_MAX"
    if "b \<in> {src, res}" for b using assms(1) that by (auto simp: restorable_def routed_def)
  have cfg: "cfg_restore (app_config a) = path_str res" "cfg_source (app_config a) = path_str src"
    using assms(1) by (auto simp: restorable_def routed_def)
  have f: "fits SYSEBA_PATH_MAX (rel_str rs)" using R(3) [of src] by (simp add: fits_def)
  have "syseba_fs_exists (path_str (src @ rs)) s = (True, s)"
    using R(2) [of src] exists_chain(1) [OF assms(2), of "src @ rs"] by (auto simp: settled_def)
  with relative_settled [OF assms(2) R(1,2) f, of res] safe_join_settled [OF assms(2) R(1-3), of src] cfg show ?thesis
    by (simp add: restore_entry_def)
qed

lemma restore_entries_complete:
  assumes "res @ rs \<noteq> []" "os_sched s = []" "os_errno s = None"
    and "\<forall>x \<in> set names. fs_get (os_fs s) (res @ rs @ [x]) \<noteq> None \<and> dir_chain (os_fs s) (res @ rs @ [x]) \<and>
      (contains_case_insensitive x search \<longrightarrow> restorable a src res (rs @ [x]) (os_fs s))"
  shows "\<exists>items'. restore_entries a (\<lambda>_. True) (path_str (res @ rs)) search None names items s = (0, items @ items', s) \<and>
    map ri_path items' = map (\<lambda>x. rel_str (rs @ [x])) (filter (\<lambda>x. contains_case_insensitive x search) names) \<and>
    (\<forall>i \<in> set items'. ri_destination_exists i)"
  using assms(4)
proof (induction names arbitrary: items)
  case Nil
  then show ?case using assms(3) by simp
next
  case (Cons x names)
  show ?case
  proof (cases "contains_case_insensitive x search")
    case False
    with Cons.IH [of items] Cons.prems show ?thesis by simp
  next
    case True
    then have r: "restorable a src res (rs @ [x]) (os_fs s)" and chain: "dir_chain (os_fs s) (res @ rs @ [x])" using Cons.prems by auto
    then obtain n where n: "fs_get (os_fs s) (res @ rs @ [x]) = Some n" "walked n" and
      g: "good_path (res @ rs @ [x])" "path_fits (res @ rs @ [x])" by (auto simp: restorable_def settled_def plain_path_def)
    obtain sz mt dir where st: "syseba_fs_stat (path_str (res @ rs @ [x])) s = (Some (sz, mt, dir), s)"
      using lookup_chain [OF g(1) chain n(1)] n(2) assms(2)
      by (cases n) (auto simp: syseba_fs_stat_def sys_lstat_def query_calm)
    from restore_entry_settled [OF r assms(2), of x sz mt dir] obtain item where
      item: "restore_entry a (path_str (res @ rs @ [x])) x (sz, mt, dir) s = (item, s)" "ri_path item = rel_str (rs @ [x])"
        "ri_destination_exists item" by auto
    from Cons.IH [of "items @ [item]"] Cons.prems obtain items' where
      "restore_entries a (\<lambda>_. True) (path_str (res @ rs)) search None names (items @ [item]) s = (0, (items @ [item]) @ items', s)"
      "map ri_path items' = map (\<lambda>x. rel_str (rs @ [x])) (filter (\<lambda>x. contains_case_insensitive x search) names)"
      "\<forall>i \<in> set items'. ri_destination_exists i" by auto
    with True item st g path_str_below [OF assms(1), of x] show ?thesis
      by (intro exI [of _ "item # items'"]) (auto simp: good_comp_def path_fits_def)
  qed
qed

lemma restore_list_complete:
  assumes "restorable a src res rs (os_fs s)" "os_sched s = []" "res \<noteq> []" "walkable (os_fs s) (res @ rs)"
    and "\<forall>x \<in> set (children (os_fs s) (res @ rs)). contains_case_insensitive x search \<longrightarrow> restorable a src res (rs @ [x]) (os_fs s)"
  shows "\<exists>l s'. syseba_restore_list a (\<lambda>_. True) (rel_str rs) search page page_size sort_by direction s = (SYSEBA_OK, l, s') \<and>
    \<not> rl_is_file l \<and> rl_total l = length (filter (\<lambda>x. contains_case_insensitive x search) (children (os_fs s) (res @ rs)))"
proof -
  let ?s = "clear_errno s"
  have R: "settled (os_fs s) res" "settled (os_fs s) (res @ rs)" "length (path_str res) + 1 + length (rel_str rs) < SYSEBA_PATH_MAX"
    "cfg_restore (app_config a) = path_str res" using assms(1) by (auto simp: restorable_def routed_def)
  have f: "fits SYSEBA_PATH_MAX (rel_str rs)" using R(3) by (simp add: fits_def)
  have d: "good_path (res @ rs)" "dir_chain (os_fs s) (res @ rs)" "fs_get (os_fs s) (res @ rs) = Some Dir"
    using assms(4) by (auto simp: walkable_def)
  have "\<exists>items'. restore_entries a (\<lambda>_. True) (path_str (res @ rs)) search None (children (os_fs s) (res @ rs)) [] ?s = (0, [] @ items', ?s) \<and>
      map ri_path items' = map (\<lambda>x. rel_str (rs @ [x])) (filter (\<lambda>x. contains_case_insensitive x search) (children (os_fs s) (res @ rs))) \<and>
      (\<forall>i \<in> set items'. ri_destination_exists i)"
    by (rule restore_entries_complete) (use assms d dir_chain_snoc [of "os_fs s" "res @ rs"] in \<open>auto simp: clear_errno_def children_iff\<close>)
  then obtain items where "restore_entries a (\<lambda>_. True) (path_str (res @ rs)) search None (children (os_fs s) (res @ rs)) [] ?s = (0, items, ?s)"
    "length items = length (filter (\<lambda>x. contains_case_insensitive x search) (children (os_fs s) (res @ rs)))"
    by (metis append_Nil length_map)
  then have "restore_read_directory a (\<lambda>_. True) (path_str (res @ rs)) search s = (0, items, ?s)"
    using readdir_walkable [OF assms(2,4)] by (simp add: restore_read_directory_def)
  moreover have "length (qsort c items) = length items" for c by (metis qsort_mset size_mset)
  ultimately show ?thesis
    using safe_join_settled [OF assms(2) R(1-3)] relative_settled [OF assms(2) R(1,2) f] exists_chain [OF assms(2) d] R(4)
      \<open>length items = _\<close>
    by (simp add: syseba_restore_list_def Let_def restore_page_def zero_listing_def)
qed

definition listed_os :: os where
  "listed_os = restore_os [([''res'', ''b''], Reg demo_file), ([''src'', ''a''], Reg demo_file), ([''src'', ''b''], Reg demo_file)]"


section \<open>Restoring does not destroy\<close>

lemma restored_path_quiet: "quiet s (snd (syseba_unique_restored_path path n s))"
proof -
  obtain b s1 where e: "syseba_fs_exists path s = (b, s1)" by (cases "syseba_fs_exists path s")
  have "quiet s s1" using exists_quiet [of s path] e by simp
  with quiet_trans [OF this unique_loop_quiet] e show ?thesis
    by (cases b) (simp_all add: syseba_unique_restored_path_def split: option.splits prod.splits)
qed

lemma restored_path_fresh:
  assumes "os_sched s = []" "syseba_unique_restored_path path n s = (Some out, s')"
  shows "\<not> taken s out"
proof -
  obtain b s1 where e: "syseba_fs_exists path s = (b, s1)" by (cases "syseba_fs_exists path s")
  have q: "quiet s s1" using exists_quiet [of s path] e by simp
  have b: "b = taken s path" using exists_calm [OF assms(1), of path] e by (simp add: taken_def)
  show ?thesis
  proof (cases b)
    case False
    then show ?thesis using assms(2) e b by (auto simp: syseba_unique_restored_path_def split: if_splits)
  next
    case True
    with assms(2) e obtain candidate where "unique_loop candidate n unique_tries 0 s1 = (Some out, s')"
      by (auto simp: syseba_unique_restored_path_def split: option.splits prod.splits if_splits)
    with unique_loop_first [OF quiet_sched [OF q assms(1)], where candidate = candidate and n = n and left = unique_tries and counter = 0]
    show ?thesis
      by (auto simp: taken_quiet [OF q])
  qed
qed

lemma restore_target_choice:
  assumes "os_sched s = []" "restore_target source target strategy s = (r, s')"
  shows "quiet s s'"
    and "r = Inr (d, t) \<Longrightarrow> strategy \<noteq> RESTORE_OVERWRITE \<Longrightarrow> \<not> taken s t"
    and "taken s target \<Longrightarrow> strategy = RESTORE_FAIL \<Longrightarrow> r = Inl SYSEBA_ERR_EXISTS"
    and "\<not> taken s target \<Longrightarrow> \<exists>d. r = Inr (d, target)"
proof -
  obtain d s1 where 1: "syseba_fs_is_directory source s = (d, s1)" by (cases "syseba_fs_is_directory source s")
  have q1: "quiet s s1" using is_directory_quiet [of s source] 1 by simp
  obtain b s2 where 2: "syseba_fs_exists target s1 = (b, s2)" by (cases "syseba_fs_exists target s1")
  have q2: "quiet s s2" using exists_quiet [of s1 target] 2 q1 by (auto intro: quiet_trans)
  have b: "b = taken s target"
    using exists_calm [OF quiet_sched [OF q1 assms(1)], of target] 2 by (simp add: taken_def quiet_lookup [OF q1])
  obtain u s3 where 3: "syseba_unique_restored_path target SYSEBA_PATH_MAX s2 = (u, s3)"
    by (cases "syseba_unique_restored_path target SYSEBA_PATH_MAX s2")
  obtain e s4 where 4: "syseba_fs_is_directory target s2 = (e, s4)" by (cases "syseba_fs_is_directory target s2")
  have q: "quiet s s3" "quiet s s4"
    using restored_path_quiet [of s2 target SYSEBA_PATH_MAX] is_directory_quiet [of s2 target] 3 4 q2 by (auto intro: quiet_trans)
  have f: "u = Some t \<Longrightarrow> \<not> taken s t" for t
    using restored_path_fresh [OF quiet_sched [OF q2 assms(1)], of target SYSEBA_PATH_MAX t s3] 3 by (simp add: taken_quiet [OF q2])
  note run = assms(2) [unfolded restore_target_def 1 2 prod.case 3 4]
  show "quiet s s'" using run q q2 by (auto split: if_splits option.splits)
  show "r = Inr (d, t) \<Longrightarrow> strategy \<noteq> RESTORE_OVERWRITE \<Longrightarrow> \<not> taken s t" for d t
    using run f b by (cases strategy) (auto split: if_splits option.splits)
  show "taken s target \<Longrightarrow> strategy = RESTORE_FAIL \<Longrightarrow> r = Inl SYSEBA_ERR_EXISTS" using run b by simp
  show "\<not> taken s target \<Longrightarrow> \<exists>d. r = Inr (d, target)" using run b by auto
qed


lemma restore_target_file:
  assumes "os_sched s = []" "good_path ss" "dir_chain (os_fs s) ss" "fs_get (os_fs s) ss = Some (Reg f)"
    and "good_path k" "no_links (os_fs s) k"
    and "fs_get (os_fs s) k = None \<or> strategy = RESTORE_OVERWRITE \<and> (\<exists>g. fs_get (os_fs s) k = Some (Reg g))"
  shows "\<exists>s'. restore_target (path_str ss) (path_str k) strategy s = (Inr (False, path_str k), s') \<and> quiet s s'"
proof -
  have 1: "syseba_fs_is_directory (path_str ss) s = (False, s)"
    using lookup_chain [OF assms(2-4)] assms(1) by (simp add: syseba_fs_is_directory_def sys_lstat_def query_calm)
  show ?thesis
  proof (cases "lookup_node False (path_str k) s")
    case (Inl e)
    then have "syseba_fs_exists (path_str k) s = (False, set_errno e s)"
      by (simp add: syseba_fs_exists_def sys_lstat_def query_calm assms(1))
    with 1 show ?thesis by (simp add: restore_target_def)
  next
    case (Inr p)
    obtain loc n where p: "p = (loc, n)" by (cases p)
    with lookup_no_links [OF assms(5,6)] Inr have "fs_get (os_fs s) k = Some n" by auto
    with assms(7) obtain g where "n = Reg g" "strategy = RESTORE_OVERWRITE" by auto
    with Inr p 1 show ?thesis
      by (simp add: restore_target_def syseba_fs_exists_def syseba_fs_is_directory_def sys_lstat_def query_calm assms(1))
  qed
qed

text \<open>
  C13: a deleted file can be brought back. When no call fails, a regular file of the restore area whose
  place in the source is free (or, with the strategy to overwrite, holds a regular file) is copied
  there completely, with its content, mode and times, is reported at that path and is counted.
\<close>

theorem restore_item_restores:
  assumes "routed a src bak res (ps @ [d])" "os_sched s = []"
    and "\<forall>b \<in> {src, res}. link_free (os_fs s) b \<and> link_free (os_fs s) (b @ ps @ [d])"
    and "dir_chain (os_fs s) (res @ ps @ [d])" "fs_get (os_fs s) (res @ ps @ [d]) = Some (Reg f)"
    and "fs_get (os_fs s) (src @ ps @ [d]) = None \<or> strategy = RESTORE_OVERWRITE \<and> (\<exists>g. fs_get (os_fs s) (src @ ps @ [d]) = Some (Reg g))"
    and "\<forall>i \<le> length (src @ ps). fs_get (os_fs s) (take i (src @ ps)) = None \<or> fs_get (os_fs s) (take i (src @ ps)) = Some Dir"
    and "\<forall>x. fs_get (os_fs s) (src @ ps @ [d @ ''.syseba-tmp.'' @ x]) = None"
    and "\<forall>ns. fits SYSEBA_PATH_MAX (temporary_name (path_str (src @ ps @ [d])) (os_pid s) ns 0)"
    and "fits n (path_str (src @ ps @ [d]))"
  shows "\<exists>a' s'. syseba_restore_item a (rel_str (ps @ [d])) strategy n s = (Inr (path_str (src @ ps @ [d])), a', s') \<and>
    full_copy f (fs_get (os_fs s') (src @ ps @ [d])) \<and> st_restored (app_stats a') = st_restored (app_stats a) + 1"
proof -
  let ?S = "res @ ps @ [d]" and ?T = "src @ ps @ [d]"
  have R: "plain_path (b @ ps @ [d])" "path_fits b" "path_fits (b @ ps @ [d])" "length (path_str b) + 1 + length (rel_str (ps @ [d])) < SYSEBA_PATH_MAX"
    if "b \<in> {src, res}" for b using assms(1) that by (auto simp: routed_def)
  have cfg: "cfg_restore (app_config a) = path_str res" "cfg_source (app_config a) = path_str src" using assms(1) by (auto simp: routed_def)
  have g: "good_path ?S" "good_path ?T" "plain_path ((src @ ps) @ [d])" using R(1) [of res] R(1) [of src] by auto
  have join: "\<exists>t'. syseba_safe_join (path_str b) (rel_str (ps @ [d])) SYSEBA_PATH_MAX t = (Some (path_str (b @ ps @ [d])), t') \<and> quiet t t'"
    if "b \<in> {src, res}" "quiet s t" for b t
    using safe_join_mirror [OF quiet_sched [OF that(2) assms(2)] R(1-3) _ _ R(4), of b] that assms(3) quiet_fs [OF that(2)] by auto
  from join [of res s] obtain s1 where
    1: "syseba_safe_join (path_str res) (rel_str (ps @ [d])) SYSEBA_PATH_MAX s = (Some (path_str ?S), s1)" "quiet s s1" by auto
  from join [of src s1] 1(2) obtain s2 where
    2: "syseba_safe_join (path_str src) (rel_str (ps @ [d])) SYSEBA_PATH_MAX s1 = (Some (path_str ?T), s2)" "quiet s1 s2" by auto
  have q: "quiet s s2" by (rule quiet_trans [OF 1(2) 2(2)])
  have c2: "os_sched s2 = []" "os_fs s2 = os_fs s" "os_pid s2 = os_pid s"
    using quiet_sched [OF q assms(2)] quiet_fs [OF q] quiet_env [OF q] by auto
  have 3: "syseba_fs_exists (path_str ?S) s2 = (True, s2)"
    using exists_chain(1) [OF c2(1) g(1)] assms(4,5) c2(2) by auto
  have nl: "no_links (os_fs s2) ?T" using link_free_no_links [of "os_fs s" ?T "length ?T"] assms(3) c2(2) by simp
  from restore_target_file [OF c2(1) g(1) _ _ g(2) nl] assms(4-6) c2(2) obtain s3 where
    4: "restore_target (path_str ?S) (path_str ?T) strategy s2 = (Inr (False, path_str ?T), s3)" "quiet s2 s3" by auto
  have c3: "os_sched s3 = []" "os_fs s3 = os_fs s" "os_pid s3 = os_pid s"
    using quiet_sched [OF 4(2) c2(1)] quiet_fs [OF 4(2)] quiet_env [OF 4(2)] c2 by auto
  have "\<exists>s4. syseba_copy_file (path_str ?S) (path_str ((src @ ps) @ [d])) 4 s3 = (0, s4) \<and> full_copy f (fs_get (os_fs s4) ((src @ ps) @ [d]))"
    by (rule copy_file_calm [OF c3(1) g(1) _ _ g(3)]) (use assms(4-9) c3 in auto)
  then obtain s4 where 5: "syseba_copy_file (path_str ?S) (path_str ?T) 4 s3 = (0, s4)" "full_copy f (fs_get (os_fs s4) ?T)" by auto
  have "rel_str (ps @ [d]) \<noteq> []" using rel_str_Cons [of "ps @ [d]"] g(1) by simp
  with 1 2 3 4 5 cfg assms(10) show ?thesis
    by (simp add: syseba_restore_item_def restore_done_def Let_def log_info_stats on_stats_def inc_restored_def)
qed

theorem restore_item_restores_witness:
  "\<exists>a' s'. syseba_restore_item demo_app ''a'' RESTORE_FAIL 4096 (restore_os []) = (Inr ''/src/a'', a', s') \<and>
     full_copy demo_file (fs_get (os_fs s') [''src'', ''a''])"
proof -
  have fs: "os_fs (restore_os []) = [([''src''], Dir), ([''res''], Dir), ([''res'', ''a''], Reg demo_file)]" "os_sched (restore_os []) = []"
    by (simp_all add: restore_os_def quiet_os_def)
  have "fits SYSEBA_PATH_MAX (temporary_name (path_str [''src'', ''a'']) (os_pid (restore_os [])) ns 0)" for ns
    using dec_word_length [of ns] dec_length [of 1 0] dec_length [of 0 0]
    by (simp add: fits_def temporary_name_def path_str_def restore_os_def quiet_os_def SYSEBA_PATH_MAX_def)
  then have "\<exists>a' s'. syseba_restore_item demo_app (rel_str ([] @ [''a''])) RESTORE_FAIL 4096 (restore_os []) = (Inr (path_str ([''src''] @ [] @ [''a''])), a', s') \<and>
     full_copy demo_file (fs_get (os_fs s') ([''src''] @ [] @ [''a''])) \<and> st_restored (app_stats a') = st_restored (app_stats demo_app) + 1"
    using demo_routed
    by (intro restore_item_restores) (auto simp: fs link_free_def dir_chain_def fs_get_def le_Suc_eq less_Suc_eq fits_def path_str_def)
  then show ?thesis by (auto simp: rel_str_def path_str_def)
qed


end
