(* ===== verification/Status.thy ===== *)
theory Status
  imports App
begin

text \<open>
  The status document of \<^verbatim>\<open>app.c\<close> (\<^verbatim>\<open>syseba_app_status_json\<close> and its helpers), as a JSON value: the value
  that the calls of \<^verbatim>\<open>cJSON_Add...\<close> build, members in the order they are added. The type \<open>'d\<close> of numbers
  stands for \<^verbatim>\<open>double\<close>; the few operations on it are given by a record of functions.
\<close>

section \<open>JSON values\<close>

datatype 'd json =
    JNull
  | JBool bool
  | JNum 'd
  | JStr string
  | JArr "'d json list"
  | JObj "(string \<times> 'd json) list"

text \<open>Conversion from integers, arithmetic, comparison, \<^verbatim>\<open>%.1f\<close>, and conversion to \<^verbatim>\<open>long\<close>.\<close>

record 'd double_ops =
  d_num :: "int \<Rightarrow> 'd"
  d_mul :: "'d \<Rightarrow> 'd \<Rightarrow> 'd"
  d_div :: "'d \<Rightarrow> 'd \<Rightarrow> 'd"
  d_ge :: "'d \<Rightarrow> 'd \<Rightarrow> bool"
  d_text1 :: "'d \<Rightarrow> string"
  d_long :: "'d \<Rightarrow> int"

definition d_word :: "'d double_ops \<Rightarrow> 64 word \<Rightarrow> 'd" where
  "d_word D w = d_num D (uint w)"

text \<open>A string member that is null while the string is empty.\<close>

definition str_or_null :: "string \<Rightarrow> 'd json" where
  "str_or_null v = (if v = [] then JNull else JStr v)"

section \<open>The parts of the document\<close>

definition json_config :: "'d double_ops \<Rightarrow> config \<Rightarrow> 'd json" where
  "json_config D c =
     JObj [(''source'', JStr (cfg_source c)), (''backup'', JStr (cfg_backup c)), (''restore'', JStr (cfg_restore c)),
           (''log_file'', JStr (cfg_log_file c)), (''threads'', JNum (d_num D (int (cfg_threads c)))),
           (''config_path'', JStr (cfg_config_path c))]"

definition used_percent :: "'d double_ops \<Rightarrow> disk_usage \<Rightarrow> 'd" where
  "used_percent D u =
     (if du_total u = 0 then d_num D 0 else d_div D (d_mul D (d_word D (du_used u)) (d_num D 100)) (d_word D (du_total u)))"

definition json_disk :: "'d double_ops \<Rightarrow> (64 word \<times> 64 word \<times> 64 word) option \<Rightarrow> string \<Rightarrow> 'd json" where
  "json_disk D statvfs path =
     (case syseba_disk_usage path statvfs of (r, u) \<Rightarrow>
        JObj [(''path'', JStr path), (''exists'', JBool (r = 0 \<and> du_exists u)),
              (''used_percent'', JNum (if r = 0 then used_percent D u else d_num D 0)),
              (''total'', JNum (if r = 0 then d_word D (du_total u) else d_num D 0)),
              (''used'', JNum (if r = 0 then d_word D (du_used u) else d_num D 0)),
              (''free'', JNum (if r = 0 then d_word D (du_free_bytes u) else d_num D 0))])"

definition string_change :: "string \<Rightarrow> string \<Rightarrow> string \<Rightarrow> (string \<times> 'd json) list" where
  "string_change key active saved =
     (if active \<noteq> saved then [(key, JObj [(''active'', JStr active), (''saved'', JStr saved)])] else [])"

definition json_changes :: "'d double_ops \<Rightarrow> config \<Rightarrow> config \<Rightarrow> (string \<times> 'd json) list" where
  "json_changes D active saved =
     string_change ''source'' (cfg_source active) (cfg_source saved) @
     string_change ''backup'' (cfg_backup active) (cfg_backup saved) @
     string_change ''restore'' (cfg_restore active) (cfg_restore saved) @
     string_change ''log_file'' (cfg_log_file active) (cfg_log_file saved) @
     (if cfg_threads active \<noteq> cfg_threads saved
      then [(''threads'', JObj [(''active'', JNum (d_num D (int (cfg_threads active)))), (''saved'', JNum (d_num D (int (cfg_threads saved))))])]
      else [])"

definition json_config_state :: "'d double_ops \<Rightarrow> app \<Rightarrow> os \<Rightarrow> 'd json \<times> bool \<times> app \<times> os" where
  "json_config_state D a s =
     (case syseba_config_load (cfg_config_path (app_config a)) s of
        (Inl e, s1) \<Rightarrow>
          (JObj [(''active'', json_config D (app_config a)), (''saved'', JNull), (''changes'', JObj []),
                 (''restart_required'', JBool (app_restart_required a))], app_restart_required a, a, s1)
      | (Inr saved, s1) \<Rightarrow>
          let changes = json_changes D (app_config a) saved; required = (changes \<noteq> [])
          in (JObj [(''active'', json_config D (app_config a)), (''saved'', json_config D saved), (''changes'', JObj changes),
                    (''restart_required'', JBool required)], required, a\<lparr>app_restart_required := required\<rparr>, s1))"

definition json_stats :: "'d double_ops \<Rightarrow> stats \<Rightarrow> 'd json" where
  "json_stats D st =
     JObj [(''queued_events'', JNum (d_word D (queued_events st))), (''copied'', JNum (d_word D (st_copied st))),
           (''updated'', JNum (d_word D (st_updated st))), (''deleted'', JNum (d_word D (st_deleted st))),
           (''restored'', JNum (d_word D (st_restored st))), (''skipped'', JNum (d_word D (st_skipped st))),
           (''errors'', JNum (d_word D (st_errors st))), (''initial_total'', JNum (d_word D (initial_total st))),
           (''initial_done'', JNum (d_word D (initial_done st))), (''initial_copied'', JNum (d_word D (initial_copied st))),
           (''initial_skipped'', JNum (d_word D (initial_skipped st))), (''initial_running'', JBool (initial_running st))]"

text \<open>The progress in percent; \<open>None\<close> is the value \<open>-1.0\<close> for "not known".\<close>

definition initial_percent :: "'d double_ops \<Rightarrow> stats \<Rightarrow> string \<Rightarrow> 'd option" where
  "initial_percent D st state =
     (if initial_total st > 0
      then Some (d_div D (d_mul D (d_word D (initial_done st)) (d_num D 100)) (d_word D (initial_total st)))
      else if take 9 state = ''completed'' then Some (d_num D 100) else None)"

definition num_or_null :: "'d option \<Rightarrow> 'd json" where
  "num_or_null v = (case v of None \<Rightarrow> JNull | Some x \<Rightarrow> JNum x)"

definition json_initial :: "'d double_ops \<Rightarrow> app \<Rightarrow> 'd json" where
  "json_initial D a =
     JObj [(''state'', JStr (cut 32 (app_initial_state a))),
           (''percent'', num_or_null (initial_percent D (app_stats a) (cut 32 (app_initial_state a)))),
           (''total'', JNum (d_word D (initial_total (app_stats a)))), (''done'', JNum (d_word D (initial_done (app_stats a)))),
           (''started_at'', str_or_null (cut 32 (app_initial_started_at a))),
           (''completed_at'', str_or_null (cut 32 (app_initial_completed_at a))),
           (''error'', str_or_null (cut SYSEBA_MESSAGE_MAX (app_initial_error a)))]"

section \<open>The document\<close>

text \<open>
  What the document takes from the system besides the file tree: \<^verbatim>\<open>statvfs\<close>, the process metrics
  (\<open>None\<close> where they are negative, 0 threads when unknown) and whether systemd can restart the service.
\<close>

record 'd status_env =
  se_ops :: "'d double_ops"
  se_version :: string
  se_statvfs :: "string \<Rightarrow> (64 word \<times> 64 word \<times> 64 word) option"
  se_cpu :: "'d option"
  se_memory :: "'d option"
  se_threads :: nat
  se_restart_available :: bool

definition service_restart_command :: string where
  "service_restart_command = ''sudo systemctl restart syseba.service''"

definition worker_count :: "app \<Rightarrow> nat" where
  "worker_count a = (case app_workers a of None \<Rightarrow> 0 | Some n \<Rightarrow> n)"

definition json_process :: "'d status_env \<Rightarrow> app \<Rightarrow> 'd json" where
  "json_process E a =
     JObj [(''cpu_percent'', num_or_null (se_cpu E)), (''memory_mb'', num_or_null (se_memory E)),
           (''threads'', JNum (d_num (se_ops E) (int (if se_threads E = 0 then worker_count a + 3 else se_threads E)))),
           (''queue_size'', JNum (d_num (se_ops E) (int (length (wq_items (app_event_queue a))))))]"

definition syseba_app_status_json :: "'d status_env \<Rightarrow> app \<Rightarrow> os \<Rightarrow> 'd json \<times> app \<times> os" where
  "syseba_app_status_json E a s =
     (case syseba_monotonic_ns s of (now_ns, s1) \<Rightarrow>
      (case json_config_state (se_ops E) a s1 of (state, restart_required, a1, s2) \<Rightarrow>
      (case syseba_fs_exists (app_lock_path a1) s2 of (lock_exists, s3) \<Rightarrow>
        (JObj [(''app'', JStr ''SySeBa''), (''version'', JStr (se_version E)), (''running'', JBool (app_running a)),
               (''web_only'', JBool (app_web_only a)), (''pid'', JNum (d_num (se_ops E) (int (os_pid s)))),
               (''lockfile'', JStr (app_lock_path a)), (''db_path'', JStr (app_db_path a)),
               (''uptime'', JStr (format_uptime ((now_ns - app_started_ns a) div 1000000000) 64)),
               (''started_at'', JStr (cut 32 (app_started_at a))), (''now'', JStr (syseba_iso_now s1)),
               (''last_event_at'', str_or_null (cut 32 (app_last_event_at a))),
               (''config'', json_config (se_ops E) (app_config a)), (''config_state'', state),
               (''restart_required'', JBool restart_required),
               (''disk'', JObj [(''source'', json_disk (se_ops E) (se_statvfs E (cfg_source (app_config a))) (cfg_source (app_config a))),
                                (''backup'', json_disk (se_ops E) (se_statvfs E (cfg_backup (app_config a))) (cfg_backup (app_config a))),
                                (''restore'', json_disk (se_ops E) (se_statvfs E (cfg_restore (app_config a))) (cfg_restore (app_config a)))]),
               (''process'', json_process E a1), (''stats'', json_stats (se_ops E) (app_stats a)),
               (''initial_sync_percent'', num_or_null (initial_percent (se_ops E) (app_stats a) (cut 32 (app_initial_state a)))),
               (''initial_sync'', json_initial (se_ops E) a),
               (''recent_logs'', JArr (map JStr (recent_view 20 a1))),
               (''external_lock'', JObj [(''exists'', JBool lock_exists), (''pid'', JNum (d_num (se_ops E) (int (os_pid s)))),
                                         (''running'', JBool (app_running a))]),
               (''service'', JObj [(''managed'', JBool (se_restart_available E)), (''restart_available'', JBool (se_restart_available E)),
                                   (''name'', JStr ''syseba.service''), (''restart_command'', JStr service_restart_command)])],
         a1, s3))))"

section \<open>Reading a document\<close>

text \<open>\<^verbatim>\<open>cJSON_GetObjectItemCaseSensitive\<close>: the first member with the name.\<close>

definition json_get :: "string \<Rightarrow> 'd json \<Rightarrow> 'd json option" where
  "json_get name j = (case j of JObj ms \<Rightarrow> map_of ms name | _ \<Rightarrow> None)"

text \<open>When two configurations differ for the user: in a directory, the log file or the number of threads.\<close>

definition config_differs :: "config \<Rightarrow> config \<Rightarrow> bool" where
  "config_differs active saved \<longleftrightarrow>
     cfg_source active \<noteq> cfg_source saved \<or> cfg_backup active \<noteq> cfg_backup saved \<or>
     cfg_restore active \<noteq> cfg_restore saved \<or> cfg_log_file active \<noteq> cfg_log_file saved \<or>
     cfg_threads active \<noteq> cfg_threads saved"

lemma changes_empty_iff: "json_changes D active saved = [] \<longleftrightarrow> \<not> config_differs active saved"
  by (auto simp: json_changes_def string_change_def config_differs_def)

text \<open>
  The status tells the truth about a pending restart. The member \<^verbatim>\<open>restart_required\<close> of the status is
  true exactly when the saved configuration can be loaded and differs from the active one in a
  directory, the log file or the number of threads (it keeps its last value when the file cannot be
  loaded); the member \<^verbatim>\<open>config_state\<close> says the same, and lists changes only when a restart is required;
  and building the status changes nothing of the program but this flag, and no file.
\<close>

theorem status_restart_required:
  "let load = syseba_config_load (cfg_config_path (app_config a)) (snd (syseba_monotonic_ns s));
       required = (case fst load of Inl _ \<Rightarrow> app_restart_required a | Inr saved \<Rightarrow> config_differs (app_config a) saved);
       (j, a', s') = syseba_app_status_json E a s
   in json_get ''restart_required'' j = Some (JBool required) \<and>
      (\<exists>state changes. json_get ''config_state'' j = Some state \<and> json_get ''restart_required'' state = Some (JBool required) \<and>
         json_get ''changes'' state = Some (JObj changes) \<and> (changes = [] \<or> required)) \<and>
      a' = a\<lparr>app_restart_required := required\<rparr> \<and> os_fs s' = os_fs s"
proof -
  obtain ns t where m: "syseba_monotonic_ns s = (ns, t)" by (cases "syseba_monotonic_ns s")
  obtain l t1 where l: "syseba_config_load (cfg_config_path (app_config a)) t = (l, t1)"
    by (cases "syseba_config_load (cfg_config_path (app_config a)) t")
  obtain x t2 where x: "syseba_fs_exists (app_lock_path a) t1 = (x, t2)" by (cases "syseba_fs_exists (app_lock_path a) t1")
  have "quiet s t" using monotonic_quiet [of s] m by simp
  moreover have "quiet t t1" using config_load_quiet [of t "cfg_config_path (app_config a)"] l by simp
  moreover have "quiet t1 t2" using exists_quiet [of t1 "app_lock_path a"] x by simp
  ultimately have "os_fs t2 = os_fs s" using quiet_fs by metis
  then show ?thesis using m l x
    by (cases l) (simp_all add: syseba_app_status_json_def json_config_state_def json_get_def changes_empty_iff Let_def)
qed

end
