(* ===== verification/Web_Token.thy ===== *)
theory Web_Token
  imports App
begin

text \<open>
  The access token of the Web interface (\<^verbatim>\<open>web.c\<close>): the comparison in constant time, which tokens are
  valid, reading and creating the token file, and the choice of the token at start
  (\<^verbatim>\<open>syseba_web_load_token\<close>). The environment variable and the reads of the random device are
  arguments. The lemmas show that the comparison is equality, that a start that succeeds has a
  valid token or listens on a loopback address only, and that a token that was created is read back.
\<close>

unbundle bit_operations_syntax

section \<open>Comparison\<close>

definition byte_at :: "string \<Rightarrow> nat \<Rightarrow> 8 word" where
  "byte_at v i = (if i < length v then of_nat (uchar (v ! i)) else 0)"

definition constant_time_equal :: "string \<Rightarrow> string \<Rightarrow> bool" where
  "constant_time_equal first second =
     (let n1 = length first; n2 = length second;
          length_bits = (of_nat n1 :: 64 word) XOR of_nat n2;
          difference = (ucast length_bits :: 32 word)
      in fold (\<lambda>i d. d OR ucast (byte_at first i XOR byte_at second i)) [0..<max n1 n2] difference = 0)"

section \<open>Tokens\<close>

definition SYSEBA_WEB_TOKEN_MIN :: nat where
  "SYSEBA_WEB_TOKEN_MIN = 16"

definition trim_token :: "string \<Rightarrow> string" where
  "trim_token v = c_trim v"

definition web_token_valid :: "string \<Rightarrow> bool" where
  "web_token_valid token \<longleftrightarrow>
     \<not> (length token < SYSEBA_WEB_TOKEN_MIN \<or> length token \<ge> SYSEBA_TOKEN_MAX) \<and>
     (\<forall>c \<in> set token. \<not> (uchar c < 33 \<or> uchar c > 126))"

definition web_host_is_loopback :: "string \<Rightarrow> bool" where
  "web_host_is_loopback host \<longleftrightarrow> host = ''127.0.0.1'' \<or> host = ''::1'' \<or> host = ''[::1]'' \<or> host = ''localhost''"

text \<open>
  The buffer has one byte less than \<^verbatim>\<open>SYSEBA_TOKEN_MAX + 32\<close> for the contents: a file that fills it has not
  reached its end and is refused. The token buffer of the caller is written on success only, and in
  the impossible case that a valid token does not fit.
\<close>

definition token_buffer :: nat where
  "token_buffer = SYSEBA_TOKEN_MAX + 32"

definition web_read_token :: "string \<Rightarrow> string \<Rightarrow> nat \<Rightarrow> os \<Rightarrow> int \<times> string \<times> os" where
  "web_read_token path token n s =
     (case syseba_open_regular_read path s of
        (None, s1) \<Rightarrow> (- 1, token, s1)
      | (Some (loc, sz), s1) \<Rightarrow>
          (case stdio_read loc s1 of ((contents, failed), s2) \<Rightarrow>
             if failed \<or> length contents \<ge> token_buffer - 1
             then (- 1, token, set_errno EINVAL (snd (sys_fclose loc s2)))
             else
               let s3 = snd (sys_fclose loc s2); t = trim_token (c_string contents) in
               if \<not> web_token_valid t then (- 1, token, set_errno EINVAL s3)
               else if \<not> fits n t then (- 1, cut n t, set_errno EINVAL s3)
               else (0, t, s3)))"

text \<open>\<^verbatim>\<open>%02x\<close>\<close>

definition hex_digit :: "nat \<Rightarrow> char" where
  "hex_digit k = (if k < 10 then char_of (48 + k) else char_of (87 + k))"

definition hex2 :: "char \<Rightarrow> string" where
  "hex2 c = [hex_digit (uchar c div 16), hex_digit (uchar c mod 16)]"

definition write_token :: "string \<Rightarrow> string \<Rightarrow> string \<Rightarrow> os \<Rightarrow> int \<times> os" where
  "write_token path temporary token s =
     (case syseba_open_exclusive_write temporary 384 s of
        (None, s1) \<Rightarrow> (- 1, s1)
      | (Some loc, s1) \<Rightarrow>
          (case write_config loc (token @ [newline]) s1 of
             (False, s2) \<Rightarrow> (- 1, snd (sys_unlink temporary s2))
           | (True, s2) \<Rightarrow>
               (case syseba_set_private_permissions temporary s2 of (r, s3) \<Rightarrow>
                  if r \<noteq> 0 then (- 1, snd (sys_unlink temporary s3))
                  else (case syseba_atomic_replace temporary path s3 of (r, s4) \<Rightarrow>
                          if r \<noteq> 0 then (- 1, snd (sys_unlink temporary s4))
                          else syseba_set_private_permissions path s4))))"

text \<open>
  The result, the token buffer and the state; \<open>None\<close> while the script of the reads of the random device
  has not let the loop of \<^verbatim>\<open>syseba_random_bytes\<close> end.
\<close>

definition web_create_token ::
  "bool \<Rightarrow> (errno + string) list \<Rightarrow> string \<Rightarrow> string \<Rightarrow> nat \<Rightarrow> os \<Rightarrow> (int \<times> string \<times> os) option" where
  "web_create_token opened reads path token n s =
     (if n < 32 * 2 + 1 then Some (- 1, token, s)
      else (case syseba_random_bytes opened 32 reads of
              None \<Rightarrow> None
            | Some (r, random) \<Rightarrow>
                if r \<noteq> 0 then Some (- 1, token, s)
                else
                  let t = concat (map hex2 random) in
                  (case syseba_parent_dir path SYSEBA_PATH_MAX of
                     None \<Rightarrow> Some (- 1, t, s)
                   | Some parent \<Rightarrow>
                       (case syseba_mkdirs parent s of (r, s1) \<Rightarrow>
                          if r \<noteq> 0 then Some (- 1, t, s1)
                          else (case syseba_monotonic_ns s1 of (ns, s2) \<Rightarrow>
                            let temporary = path @ ''.tmp.'' @ dec (unat ns) in
                            if \<not> fits SYSEBA_PATH_MAX temporary then Some (- 1, t, s2)
                            else (case write_token path temporary t s2 of (r, s3) \<Rightarrow> Some (r, t, s3)))))))"

section \<open>The choice of the token\<close>

definition use_token :: "string \<Rightarrow> string \<Rightarrow> app \<Rightarrow> result \<times> app" where
  "use_token token origin a =
     (if \<not> web_token_valid token then (SYSEBA_ERR_INVALID, a)
      else if \<not> fits SYSEBA_TOKEN_MAX token then (SYSEBA_ERR_INVALID, a\<lparr>app_web_token := cut SYSEBA_TOKEN_MAX token\<rparr>)
      else (SYSEBA_OK, a\<lparr>app_web_token := token, app_web_token_source := cut 64 origin\<rparr>))"

definition load_token_file ::
  "bool \<Rightarrow> (errno + string) list \<Rightarrow> string \<Rightarrow> app \<Rightarrow> os \<Rightarrow> (result \<times> app \<times> os) option" where
  "load_token_file opened reads path a s =
     (case web_read_token path (app_web_token a) SYSEBA_TOKEN_MAX s of (r, token, s1) \<Rightarrow>
        if r = 0
        then (case syseba_set_private_permissions path s1 of (r2, s2) \<Rightarrow>
                if r2 \<noteq> 0 then Some (SYSEBA_ERR_PERMISSION, a\<lparr>app_web_token := token\<rparr>, s2)
                else Some (SYSEBA_OK, a\<lparr>app_web_token := token, app_web_token_source := cut 64 ''file''\<rparr>, s2))
        else if os_errno s1 \<noteq> Some ENOENT then Some (SYSEBA_ERR, a\<lparr>app_web_token := token\<rparr>, s1)
        else (case web_create_token opened reads path token SYSEBA_TOKEN_MAX s1 of
                None \<Rightarrow> None
              | Some (r3, token3, s3) \<Rightarrow>
                  if r3 \<noteq> 0 then Some (SYSEBA_ERR, a\<lparr>app_web_token := token3\<rparr>, s3)
                  else Some (SYSEBA_OK, a\<lparr>app_web_token := token3, app_web_token_source := cut 64 ''generated-file''\<rparr>, s3)))"

definition syseba_web_load_token ::
  "bool \<Rightarrow> (errno + string) list \<Rightarrow> string option \<Rightarrow> 'd options \<Rightarrow> app \<Rightarrow> os \<Rightarrow> (result \<times> app \<times> os) option" where
  "syseba_web_load_token opened reads environment opts a s =
     (if opt_no_web_auth opts
      then (if \<not> web_host_is_loopback (opt_web_host opts) then Some (SYSEBA_ERR_INVALID, a, s)
            else Some (SYSEBA_OK, a\<lparr>app_web_auth_enabled := False, app_web_token_source := cut 64 ''disabled''\<rparr>, s))
      else
        let a1 = a\<lparr>app_web_auth_enabled := True\<rparr> in
        if opt_explicit_token opts \<noteq> []
        then (case use_token (opt_explicit_token opts) ''argument'' a1 of (r, a2) \<Rightarrow> Some (r, a2, s))
        else (case environment of
                Some (c # cs) \<Rightarrow> (case use_token (c # cs) ''environment'' a1 of (r, a2) \<Rightarrow> Some (r, a2, s))
              | _ \<Rightarrow> load_token_file opened reads (opt_token_path opts) a1 s))"

section \<open>The comparison is equality\<close>

lemma fold_or_zero:
  "fold (\<lambda>i d. d OR f i) xs (d :: 'a::len word) = 0 \<longleftrightarrow> d = 0 \<and> (\<forall>i \<in> set xs. f i = 0)"
  by (induction xs arbitrary: d) (auto simp: or_eq_0_iff)

lemma xor_zero_iff: "a XOR b = 0 \<longleftrightarrow> a = (b :: 'a::len word)"
  by (metis bit.xor_left_self bit.xor_self xor.right_neutral)

lemma byte_bits_zero: "(ucast (w :: 8 word) :: 32 word) = 0 \<longleftrightarrow> w = 0"
  by transfer simp

lemma byte_at_inside: "i < length v \<Longrightarrow> unat (byte_at v i) = uchar (v ! i)"
  by (simp add: byte_at_def unsigned_of_nat take_bit_eq_mod)

lemma byte_at_outside: "length v \<le> i \<Longrightarrow> byte_at v i = 0"
  by (simp add: byte_at_def)

lemma uchar_zero: "uchar c = 0 \<longleftrightarrow> c = CHR 0x00"
  using uchar_eq_iff [of c "CHR 0x00"] by (simp add: uchar_def)

text \<open>Two C strings with the same bytes at every index of the longer one are equal: a string has no NUL inside.\<close>

lemma bytes_determine:
  assumes "CHR 0x00 \<notin> set v" "CHR 0x00 \<notin> set w" and same: "\<And>i. i < max (length v) (length w) \<Longrightarrow> byte_at v i = byte_at w i"
  shows "v = w"
proof -
  have inside: "byte_at u i \<noteq> 0" if "CHR 0x00 \<notin> set u" "i < length u" for u i
    using byte_at_inside [OF that(2)] nth_mem [OF that(2)] that(1) uchar_zero by (metis unat_0)
  have len: "length v = length w"
  proof (rule ccontr)
    assume "length v \<noteq> length w"
    then consider "length v < length w" | "length w < length v" by linarith
    then show False
      using inside [OF assms(2), of "length v"] inside [OF assms(1), of "length w"]
        same [of "length v"] same [of "length w"] byte_at_outside
      by cases auto
  qed
  moreover have "v ! i = w ! i" if "i < length v" for i
    using same [of i] byte_at_inside [of i v] byte_at_inside [of i w] that len by (simp add: uchar_eq_iff)
  ultimately show ?thesis by (simp add: nth_equalityI)
qed

lemma constant_time_equal_strings:
  assumes "CHR 0x00 \<notin> set v" "CHR 0x00 \<notin> set w"
  shows "constant_time_equal v w \<longleftrightarrow> v = w"
proof
  show "v = w" if "constant_time_equal v w"
  proof (rule bytes_determine [OF assms])
    fix i assume "i < max (length v) (length w)"
    with that have "(ucast (byte_at v i XOR byte_at w i) :: 32 word) = 0"
      by (simp add: constant_time_equal_def Let_def fold_or_zero)
    then show "byte_at v i = byte_at w i" by (simp add: byte_bits_zero xor_zero_iff)
  qed
  show "constant_time_equal v w" if "v = w"
    unfolding that constant_time_equal_def Let_def fold_or_zero by simp
qed

text \<open>
  C37: the comparison of tokens in constant time is equality: it inspects every byte of the longer of
  the two strings, folds the differences, the one of the lengths included, into one word, and
  answers true exactly when the two C strings are equal, whatever their lengths.
\<close>

theorem constant_time_equal_iff: "constant_time_equal (c_string v) (c_string w) \<longleftrightarrow> c_string v = c_string w"
  by (rule constant_time_equal_strings) (auto simp: c_string_def dest: set_takeWhileD)

section \<open>A start has a valid token\<close>

lemma hex_digit_char: "k < 16 \<Longrightarrow> 48 \<le> uchar (hex_digit k) \<and> uchar (hex_digit k) \<le> 102"
  by (simp add: hex_digit_def uchar_char_of)

lemma hex_text: "length (concat (map hex2 bs)) = 2 * length bs"
  "c \<in> set (concat (map hex2 bs)) \<Longrightarrow> 48 \<le> uchar c \<and> uchar c \<le> 102"
proof -
  show "length (concat (map hex2 bs)) = 2 * length bs" by (induction bs) (simp_all add: hex2_def)
  have "48 \<le> uchar c \<and> uchar c \<le> 102" if "c \<in> set (hex2 b)" for b
  proof -
    have "uchar b div 16 < 16" "uchar b mod 16 < 16" using uchar_less [of b] by (simp_all add: div_less_iff_less_mult)
    with that hex_digit_char [of "uchar b div 16"] hex_digit_char [of "uchar b mod 16"] show ?thesis by (auto simp: hex2_def)
  qed
  then show "c \<in> set (concat (map hex2 bs)) \<Longrightarrow> 48 \<le> uchar c \<and> uchar c \<le> 102" by auto
qed

lemma create_token_valid:
  assumes "web_create_token opened reads path token n s = Some (0, t, s')"
  shows "web_token_valid t \<and> length t = 64"
proof -
  from assms obtain random where r: "syseba_random_bytes opened 32 reads = Some (0, random)"
    and t: "t = concat (map hex2 random)"
    by (auto simp: web_create_token_def Let_def split: if_splits option.splits prod.splits)
  have "length random = 32"
    using r random_loop_exact [of 32 reads "[]" random] by (auto simp: syseba_random_bytes_def split: if_splits)
  then show ?thesis
    using hex_text(1) [of random] hex_text(2) [of _ random]
    by (force simp: web_token_valid_def SYSEBA_WEB_TOKEN_MIN_def syseba_limits t)
qed

lemma read_token_valid: "web_read_token path token n s = (0, t, s') \<Longrightarrow> web_token_valid t"
  by (auto simp: web_read_token_def Let_def split: if_splits option.splits prod.splits)

lemma load_token_access:
  assumes "syseba_web_load_token opened reads environment opts a s = Some (SYSEBA_OK, a', s')"
  shows "(if app_web_auth_enabled a'
          then web_token_valid (app_web_token a') \<and> \<not> opt_no_web_auth opts
          else opt_no_web_auth opts \<and> web_host_is_loopback (opt_web_host opts)) \<and>
    a' = a\<lparr>app_web_token := app_web_token a', app_web_token_source := app_web_token_source a', app_web_auth_enabled := app_web_auth_enabled a'\<rparr>"
  using assms
  by (auto simp: syseba_web_load_token_def use_token_def load_token_file_def Let_def
      dest: read_token_valid create_token_valid split: if_splits option.splits prod.splits list.splits)

text \<open>
  A start of the Web interface that succeeds is protected. Whichever source the token came from, after
  \<^verbatim>\<open>syseba_web_load_token\<close> returned \<^verbatim>\<open>SYSEBA_OK\<close> either authentication is on and the token has 16 to 255
  printable characters, none of them a space, or the user asked for no authentication and the server
  listens on a loopback address; nothing of the application but the token, where it came from and
  the flag has changed.
\<close>

theorem load_token_protects:
  assumes "syseba_web_load_token opened reads environment opts a s = Some (SYSEBA_OK, a', s')"
  shows "(if app_web_auth_enabled a'
          then web_token_valid (app_web_token a') \<and> \<not> opt_no_web_auth opts
          else opt_no_web_auth opts \<and> web_host_is_loopback (opt_web_host opts)) \<and>
    a' = a\<lparr>app_web_token := app_web_token a', app_web_token_source := app_web_token_source a', app_web_auth_enabled := app_web_auth_enabled a'\<rparr>"
  by (rule load_token_access [OF assms])

definition demo_options :: "unit options" where
  "demo_options = \<lparr>opt_command = None, opt_config_path = [], opt_lock_path = [], opt_db_path = [], opt_token_path = ''/t'',
     opt_web_host = ''127.0.0.1'', opt_web_port = 9100, opt_language = LANGUAGE_EN, opt_silent = False, opt_web = True,
     opt_web_only = False, opt_no_web_auth = False, opt_no_initial_sync = False, opt_output_json = False, opt_overwrite = False,
     opt_rename = False, opt_create_daemon = False, opt_windows_service = False, opt_console_refresh = (), opt_lines = 200,
     opt_path = [], opt_search = [], opt_page = 1, opt_page_size = 50, opt_sort = ''name'', opt_direction = ''asc'',
     opt_explicit_token = []\<rparr>"

theorem load_token_protects_witness:
  "\<exists>a. syseba_web_load_token True [] (Some ''0123456789abcdef'') demo_options demo_app demo_os = Some (SYSEBA_OK, a, demo_os) \<and>
     app_web_auth_enabled a \<and> web_token_valid (app_web_token a)"
proof -
  let ?a = "demo_app\<lparr>app_web_auth_enabled := True, app_web_token := ''0123456789abcdef'', app_web_token_source := ''environment''\<rparr>"
  have "syseba_web_load_token True [] (Some ''0123456789abcdef'') demo_options demo_app demo_os = Some (SYSEBA_OK, ?a, demo_os)"
    by (simp add: syseba_web_load_token_def demo_options_def use_token_def web_token_valid_def SYSEBA_WEB_TOKEN_MIN_def
        syseba_limits fits_def cut_def uchar_def)
  from this load_token_protects [OF this] show ?thesis by auto
qed

section \<open>A token that was created is read back\<close>

lemma dir_chain_put: "dir_chain (fs_put (ds @ [t]) n fs) (ds @ [x]) = dir_chain fs (ds @ [x])"
proof -
  have "take i ds \<noteq> ds @ [t]" for i using not_prefix_take [of ds t i] by auto
  then show ?thesis by (simp add: dir_chain_def less_Suc_eq_le)
qed

lemma dir_chain_other:
  assumes "dir_chain fs (ds @ [x])" "\<And>k. k \<noteq> ds @ [t] \<Longrightarrow> fs_get fs' k = fs_get fs k"
  shows "dir_chain fs' (ds @ [x])"
proof -
  have "take i ds \<noteq> ds @ [t]" for i using not_prefix_take [of ds t i] by auto
  with assms show ?thesis by (simp add: dir_chain_def less_Suc_eq_le)
qed

lemma chmod_calm:
  assumes "os_sched s = []" "good_path cs" "dir_chain (os_fs s) cs" "fs_get (os_fs s) cs = Some (Reg g)"
  shows "sys_chmod (path_str cs) mode s = (Inr (), set_fs (fs_put cs (Reg (g\<lparr>f_mode := mode\<rparr>)) (os_fs s)) s)"
proof -
  have "lookup_node True (path_str cs) s = Inr (cs, Reg g)"
    using locate_path_str [OF assms(2,3), of True] assms(4) by (simp add: lookup_node_def)
  with assms(1) show ?thesis by (simp add: sys_chmod_def syscall_calm)
qed

text \<open>
  A temporary file: created, written and given its mode. It has the text then, and nothing else has
  changed.
\<close>

lemma stage_calm:
  assumes calm: "os_sched s = []" and T: "good_path (ds @ [t])" "fs_get (os_fs s) (ds @ [t]) = None"
    and dc: "dir_chain (os_fs s) (ds @ [t])"
  shows "\<exists>s1 s2 s3 g. syseba_open_exclusive_write (path_str (ds @ [t])) mode s = (Some (ds @ [t]), s1) \<and>
    write_config (ds @ [t]) text s1 = (True, s2) \<and> sys_chmod (path_str (ds @ [t])) mode s2 = (Inr (), s3) \<and> os_sched s3 = [] \<and>
    (\<forall>k. k \<noteq> ds @ [t] \<longrightarrow> fs_get (os_fs s3) k = fs_get (os_fs s) k) \<and>
    fs_get (os_fs s3) (ds @ [t]) = Some (Reg g) \<and> f_data g = text \<and> f_mode g = mode"
proof -
  let ?T = "ds @ [t]"
  let ?g = "\<lparr>f_data = [], f_mode = mode, f_mtime = os_time s, f_atime = os_time s, f_dev = 0, f_ino = os_ino s\<rparr>"
  let ?s1 = "s\<lparr>os_fs := fs_put ?T (Reg ?g) (os_fs s), os_ino := os_ino s + 1\<rparr>"
  let ?h = "?g\<lparr>f_data := text\<rparr>"
  let ?s2 = "set_fs (fs_put ?T (Reg ?h) (os_fs ?s1)) ?s1"
  let ?s3 = "set_fs (fs_put ?T (Reg (?h\<lparr>f_mode := mode\<rparr>)) (os_fs ?s2)) ?s2"
  have "locate False (path_str ?T) s = Inr ?T" using locate_path_str [OF T(1) dc, of False] by simp
  then have op: "syseba_open_exclusive_write (path_str ?T) mode s = (Some ?T, ?s1)"
    using calm T(2) by (simp add: syseba_open_exclusive_write_def sys_open_excl_def syscall_calm sys_fdopen_def query_calm)
  have "stdio_write ?T text ?s1 = (True, ?s2)"
    using calm by (simp add: stdio_write_def tick_calm write_count_def fd_update_def fd_file_def)
  then have wr: "write_config ?T text ?s1 = (True, ?s2)"
    using calm by (simp add: write_config_def sys_fsync_def sys_fclose_def query_calm)
  have ch: "sys_chmod (path_str ?T) mode ?s2 = (Inr (), ?s3)"
    using chmod_calm [of ?s2 ?T ?h] calm T(1) dc by (simp add: dir_chain_put)
  have "os_sched ?s3 = []" "fs_get (os_fs ?s3) ?T = Some (Reg (?h\<lparr>f_mode := mode\<rparr>))"
    "k \<noteq> ?T \<Longrightarrow> fs_get (os_fs ?s3) k = fs_get (os_fs s) k" for k using calm by simp_all
  with op wr ch show ?thesis by (intro exI [of _ ?s1] exI [of _ ?s2] exI [of _ ?s3] exI [of _ "?h\<lparr>f_mode := mode\<rparr>"]) simp
qed

lemma replace_calm:
  assumes "os_sched s = []" "good_path (ds @ [t])" "good_path (ds @ [d])" "dir_chain (os_fs s) (ds @ [d])" "t \<noteq> d"
    and "fs_get (os_fs s) (ds @ [t]) = Some (Reg g)" "fs_get (os_fs s) (ds @ [d]) \<noteq> Some Dir"
    and "length (path_str (ds @ [d])) \<le> SYSEBA_PATH_MAX"
  shows "\<exists>s'. syseba_atomic_replace (path_str (ds @ [t])) (path_str (ds @ [d])) s = (0, s') \<and> os_sched s' = [] \<and>
    dir_chain (os_fs s') (ds @ [d]) \<and> fs_get (os_fs s') (ds @ [d]) = Some (Reg g)"
proof -
  let ?T = "ds @ [t]" and ?D = "ds @ [d]"
  let ?s1 = "set_fs (fs_move ?T ?D (os_fs s)) s"
  have dcT: "dir_chain (os_fs s) ?T" using assms(4) by (simp add: dir_chain_snoc)
  have "\<not> strict_prefix ?T ?D" by (auto simp: strict_prefix_def dest: prefix_length_le)
  then have mv: "sys_rename (path_str ?T) (path_str ?D) s = (Inr (), ?s1)"
    using rename_calm [OF assms(1-3) dcT assms(4,6,7)] assms(5) by simp
  have dc: "dir_chain (os_fs ?s1) ?D"
    using assms(4) unfolding dir_chain_def by (auto simp: fs_get_move less_Suc_eq_le not_prefix_take set_fs_simps)
  have get: "fs_get (os_fs ?s1) ?D = Some (Reg g)" using assms(6) by (simp add: fs_get_move set_fs_simps)
  obtain r s2 where s2: "sync_parent_directory (path_str ?D) ?s1 = (r, s2)" by (cases "sync_parent_directory (path_str ?D) ?s1")
  have "r = 0" using sync_parent_calm [of ?s1 ds d] assms(1,3,8) dc s2 by (simp add: set_fs_simps)
  moreover have q: "quiet ?s1 s2" using sync_parent_quiet [of ?s1 "path_str ?D"] s2 by simp
  moreover have "os_fs s2 = os_fs ?s1" "os_sched s2 = []"
    using quiet_fs [OF q] quiet_sched [OF q] assms(1) by (simp_all add: set_fs_simps)
  ultimately show ?thesis using mv s2 dc get by (simp add: syseba_atomic_replace_def)
qed

lemma write_token_calm:
  assumes calm: "os_sched s = []" and T: "good_path (ds @ [t])" "fs_get (os_fs s) (ds @ [t]) = None" "t \<noteq> d"
    and D: "good_path (ds @ [d])" "dir_chain (os_fs s) (ds @ [d])" "fs_get (os_fs s) (ds @ [d]) \<noteq> Some Dir"
      "length (path_str (ds @ [d])) \<le> SYSEBA_PATH_MAX"
  shows "\<exists>s' g. write_token (path_str (ds @ [d])) (path_str (ds @ [t])) token s = (0, s') \<and> os_sched s' = [] \<and>
    dir_chain (os_fs s') (ds @ [d]) \<and> fs_get (os_fs s') (ds @ [d]) = Some (Reg g) \<and>
    f_data g = token @ [newline] \<and> f_mode g = 384"
proof -
  let ?T = "ds @ [t]" and ?D = "ds @ [d]"
  have dcT: "dir_chain (os_fs s) ?T" using D(2) by (simp add: dir_chain_snoc)
  from stage_calm [OF calm T(1,2) dcT, of 384 "token @ [newline]"] obtain s1 s2 s3 g where
    st: "syseba_open_exclusive_write (path_str ?T) 384 s = (Some ?T, s1)" "write_config ?T (token @ [newline]) s1 = (True, s2)"
      "sys_chmod (path_str ?T) 384 s2 = (Inr (), s3)" and s3: "os_sched s3 = []" "\<And>k. k \<noteq> ?T \<Longrightarrow> fs_get (os_fs s3) k = fs_get (os_fs s) k"
      "fs_get (os_fs s3) ?T = Some (Reg g)" and g: "f_data g = token @ [newline]" "f_mode g = 384" by blast
  have dc3: "dir_chain (os_fs s3) ?D" by (rule dir_chain_other [OF D(2) s3(2)])
  have D3: "fs_get (os_fs s3) ?D \<noteq> Some Dir" using D(3) T(3) s3(2) by simp
  from replace_calm [OF s3(1) T(1) D(1) dc3 T(3) s3(3) D3 D(4)] obtain s4 where
    rp: "syseba_atomic_replace (path_str ?T) (path_str ?D) s3 = (0, s4)" and s4: "os_sched s4 = []"
      "dir_chain (os_fs s4) ?D" "fs_get (os_fs s4) ?D = Some (Reg g)" by blast
  from chmod_calm [OF s4(1) D(1) s4(2,3), of 384] st rp s4(1,2) g show ?thesis
    by (simp add: write_token_def syseba_set_private_permissions_def dir_chain_put)
qed

lemma tmp_component:
  assumes "plain_path (ds @ [d])"
  shows "path_str (ds @ [d]) @ ''.tmp.'' @ dec n = path_str (ds @ [d @ ''.tmp.'' @ dec n]) \<and> good_path (ds @ [d @ ''.tmp.'' @ dec n])"
proof
  have "slash \<notin> set (dec n)" using dec_digits [of n] by (auto simp: c_isdigit_def uchar_def)
  then show "good_path (ds @ [d @ ''.tmp.'' @ dec n])"
    using assms by (auto simp: plain_path_def good_comp_def Cons_eq_append_conv append_eq_Cons_conv)
qed (simp add: path_str_def)

lemma read_token_calm:
  assumes "os_sched s = []" "good_path cs" "dir_chain (os_fs s) cs" "fs_get (os_fs s) cs = Some (Reg g)"
    and "f_data g = token @ [newline]" "web_token_valid token"
  shows "web_read_token (path_str cs) other SYSEBA_TOKEN_MAX s = (0, token, s)"
proof -
  have valid: "16 \<le> length token" "length token < 256" "\<forall>c \<in> set token. 33 \<le> uchar c \<and> uchar c \<le> 126"
    using assms(6) by (auto simp: web_token_valid_def SYSEBA_WEB_TOKEN_MIN_def syseba_limits)
  have "lookup_node False (path_str cs) s = Inr (cs, Reg g)" by (rule lookup_chain [OF assms(2-4)])
  then have op: "syseba_open_regular_read (path_str cs) s = (Some (cs, of_nat (length (f_data g))), s)"
    using assms(1,4) by (simp add: syseba_open_regular_read_def sys_open_read_def sys_fstat_def sys_fdopen_def query_calm)
  have rd: "stdio_read cs s = ((token @ [newline], False), s)"
    using assms(1,4,5) by (simp add: stdio_read_def tick_calm fd_file_def)
  have "uchar (CHR 0x00) = 0" by (simp add: uchar_def)
  then have cs: "c_string (token @ [newline]) = token @ [newline]"
    using valid(3) by (auto simp: c_string_def newline_def takeWhile_eq_all_conv)
  have "trimmed token"
    using valid by (cases token) (auto simp: trimmed_def c_isspace_def dest!: bspec [OF _ last_in_set])
  then have "trim_token (token @ [newline]) = token"
    by (simp add: trim_token_def c_trim_append_space c_trim_id newline_def c_isspace_def uchar_def)
  with op rd cs valid(2) assms(1,6) show ?thesis
    by (simp add: web_read_token_def token_buffer_def syseba_limits fits_def sys_fclose_def query_calm Let_def)
qed

text \<open>
  A generated token survives a restart. When no call fails and the temporary name is free,
  \<^verbatim>\<open>syseba_web_create_token\<close> creates the missing directories and a token file that only its owner can
  read (mode 0600), and the next start reads from that file exactly the token that was generated:
  the 32 random bytes in hexadecimal.
\<close>

theorem token_file_roundtrip:
  assumes "os_sched s = []" "plain_path (ds @ [d])" "fs_get (os_fs s) (ds @ [d]) \<noteq> Some Dir"
    and "\<forall>i \<le> length ds. fs_get (os_fs s) (take i ds) = None \<or> fs_get (os_fs s) (take i ds) = Some Dir"
    and "\<forall>x. fs_get (os_fs s) (ds @ [d @ ''.tmp.'' @ x]) = None"
    and "length (path_str (ds @ [d])) + 26 \<le> SYSEBA_PATH_MAX"
    and "syseba_random_bytes opened 32 reads = Some (0, random)"
  shows "\<exists>s1 g. web_create_token opened reads (path_str (ds @ [d])) old SYSEBA_TOKEN_MAX s = Some (0, concat (map hex2 random), s1) \<and>
    fs_get (os_fs s1) (ds @ [d]) = Some (Reg g) \<and> f_mode g = 384 \<and>
    web_read_token (path_str (ds @ [d])) other SYSEBA_TOKEN_MAX s1 = (0, concat (map hex2 random), s1)"
proof -
  let ?D = "ds @ [d]" and ?t = "concat (map hex2 random)"
  have len: "length (path_str ?D) \<le> SYSEBA_PATH_MAX" using assms(6) by simp
  from prepare_calm [OF assms(1,2) len assms(4)] obtain s1 where
    pr: "prepare_destination (path_str ?D) s = (0, s1)" and s1: "os_sched s1 = []" "dir_chain (os_fs s1) ?D" by blast
  have nl: "no_links (os_fs s) ?D" using assms(4) unfolding no_links_def by (auto simp: less_Suc_eq_le)
  have t1: "touches (\<lambda>q. prefix q ds) (\<lambda>q. False) s s1" using prepare_touches [OF assms(2) nl] pr by simp
  obtain ns s2 where m: "syseba_monotonic_ns s1 = (ns, s2)" by (cases "syseba_monotonic_ns s1")
  have q: "quiet s1 s2" using monotonic_quiet [of s1] m by simp
  have fs2: "os_fs s2 = os_fs s1" "os_sched s2 = []" using quiet_fs [OF q] quiet_sched [OF q s1(1)] by auto
  let ?c = "d @ ''.tmp.'' @ dec (unat ns)"
  note tmp = tmp_component [OF assms(2), of "unat ns"]
  have fit: "fits SYSEBA_PATH_MAX (path_str (ds @ [?c]))"
    using assms(6) dec_word_length [of ns] tmp [THEN conjunct1, symmetric] by (simp add: fits_def)
  have "fs_get (os_fs s2) (ds @ [?c]) = None" "fs_get (os_fs s2) ?D \<noteq> Some Dir"
    using touches_above [OF t1] assms(3,5) fs2(1) by simp_all
  with write_token_calm [OF fs2(2) tmp [THEN conjunct2], of d ?t] plain_path_good [OF assms(2)] s1(2) fs2(1) len obtain s3 g where
    w: "write_token (path_str ?D) (path_str (ds @ [?c])) ?t s2 = (0, s3)" and s3: "os_sched s3 = []" "dir_chain (os_fs s3) ?D"
      "fs_get (os_fs s3) ?D = Some (Reg g)" "f_data g = ?t @ [newline]" "f_mode g = 384" by auto
  obtain parent where "syseba_parent_dir (path_str ?D) SYSEBA_PATH_MAX = Some parent" "syseba_mkdirs parent s = (0, s1)"
    using pr by (auto simp: prepare_destination_def split: option.splits)
  with assms(7) m fit w tmp have cr: "web_create_token opened reads (path_str ?D) old SYSEBA_TOKEN_MAX s = Some (0, ?t, s3)"
    by (simp add: web_create_token_def syseba_limits Let_def)
  from create_token_valid [OF this] have "web_token_valid ?t" by simp
  from read_token_calm [OF s3(1) plain_path_good [OF assms(2)] s3(2-4) this] cr s3(3,5) show ?thesis by blast
qed

theorem token_file_roundtrip_witness:
  "\<exists>s1. web_create_token True [Inr (replicate 32 (CHR ''A''))] ''/run/syseba/t'' [] SYSEBA_TOKEN_MAX demo_os =
       Some (0, concat (replicate 32 ''41''), s1) \<and>
     web_read_token ''/run/syseba/t'' [] SYSEBA_TOKEN_MAX s1 = (0, concat (replicate 32 ''41''), s1)"
proof -
  have r: "syseba_random_bytes True 32 [Inr (replicate 32 (CHR ''A''))] = Some (0, replicate 32 (CHR ''A''))"
    by (simp add: syseba_random_bytes_def random_loop.simps)
  have h: "map hex2 (replicate 32 (CHR ''A'')) = replicate 32 ''41''"
    by (simp add: hex2_def hex_digit_def uchar_def char_of_def bit_iff_odd)
  have p: "path_str ([''run'', ''syseba''] @ [''t'']) = ''/run/syseba/t''" by (simp add: path_str_def)
  have "\<exists>s1 g. web_create_token True [Inr (replicate 32 (CHR ''A''))] (path_str ([''run'', ''syseba''] @ [''t''])) [] SYSEBA_TOKEN_MAX demo_os =
       Some (0, concat (map hex2 (replicate 32 (CHR ''A''))), s1) \<and>
     fs_get (os_fs s1) ([''run'', ''syseba''] @ [''t'']) = Some (Reg g) \<and> f_mode g = 384 \<and>
     web_read_token (path_str ([''run'', ''syseba''] @ [''t''])) [] SYSEBA_TOKEN_MAX s1 = (0, concat (map hex2 (replicate 32 (CHR ''A''))), s1)"
    by (rule token_file_roundtrip [OF _ _ _ _ _ _ r])
      (auto simp: demo_eval le_Suc_eq plain_path_def good_comp_def backslash_def path_str_def syseba_limits)
  then show ?thesis unfolding h p by blast
qed

end
