(* ===== verification/Cli.thy ===== *)
theory Cli
  imports Restore Status Web_Token
begin

text \<open>
  The command line of \<^verbatim>\<open>cli.c\<close>: the defaults and the parser of the arguments. An argument
  list is the list of strings after the program name. The result of the parser is its return value,
  the options as they are then and the text of the error. The conversions of floating-point numbers
  are given by a record of functions. The lemmas show that options that were accepted are well
  formed and that the modes that can do harm are only ever on when the user asked for them.
\<close>

section \<open>Arguments\<close>

definition cli_commands :: "string list" where
  "cli_commands = [''run'', ''status'', ''logs'', ''config-check'', ''restore-list'', ''restore-copy'', ''restore-browser'', ''service-install'']"

definition cli_command_valid :: "string \<Rightarrow> bool" where
  "cli_command_valid command \<longleftrightarrow> command \<in> set cli_commands"

text \<open>\<^verbatim>\<open>syseba_option_copy\<close>: the result and the destination buffer.\<close>

definition option_copy :: "string \<Rightarrow> nat \<Rightarrow> string option \<Rightarrow> int \<times> string" where
  "option_copy destination n v =
     (case v of
        None \<Rightarrow> (- 1, destination)
      | Some text \<Rightarrow> if fits n text then (0, text) else (- 1, cut n text))"

text \<open>\<^verbatim>\<open>syseba_option_value\<close>: what follows the first \<open>=\<close>, or the next argument; with the arguments not yet used.\<close>

definition option_value :: "string \<Rightarrow> string list \<Rightarrow> string option \<times> string list" where
  "option_value argument rest =
     (if CHR ''='' \<in> set argument then (Some (tl (dropWhile (\<lambda>c. c \<noteq> CHR ''='') argument)), rest)
      else (case rest of [] \<Rightarrow> (None, []) | v # rest1 \<Rightarrow> (Some v, rest1)))"

definition parse_unsigned :: "string \<Rightarrow> nat \<Rightarrow> nat \<Rightarrow> nat option" where
  "parse_unsigned v minimum maximum =
     (case c_strtoul v of
        None \<Rightarrow> None
      | Some (parsed, rest, erange) \<Rightarrow>
          if erange \<or> rest \<noteq> [] \<or> parsed < minimum \<or> parsed > maximum then None else Some (parsed mod 2 ^ 32))"

record 'd cli_doubles =
  cd_zero :: 'd
  cd_three :: 'd
  cd_strtod :: "string \<Rightarrow> ('d \<times> string) option" \<comment> \<open>\<^verbatim>\<open>None\<close> is no conversion\<close>
  cd_not_positive :: "'d \<Rightarrow> bool"
  cd_above_3600 :: "'d \<Rightarrow> bool"

definition options_defaults :: "'d cli_doubles \<Rightarrow> 'd options" where
  "options_defaults D =
     \<lparr>opt_command = Some ''run'', opt_config_path = [], opt_lock_path = cut SYSEBA_PATH_MAX SYSEBA_DEFAULT_LOCK,
      opt_db_path = cut SYSEBA_PATH_MAX SYSEBA_DEFAULT_DB, opt_token_path = cut SYSEBA_PATH_MAX SYSEBA_DEFAULT_TOKEN,
      opt_web_host = cut 256 SYSEBA_DEFAULT_WEB_HOST, opt_web_port = int SYSEBA_DEFAULT_WEB_PORT, opt_language = LANGUAGE_IT,
      opt_silent = False, opt_web = False, opt_web_only = False, opt_no_web_auth = False, opt_no_initial_sync = False,
      opt_output_json = False, opt_overwrite = False, opt_rename = False, opt_create_daemon = False, opt_windows_service = False,
      opt_console_refresh = cd_three D, opt_lines = 100, opt_path = [], opt_search = [], opt_page = 1,
      opt_page_size = SYSEBA_DEFAULT_RESTORE_PAGE, opt_sort = cut 16 ''name'', opt_direction = cut 8 ''asc'', opt_explicit_token = []\<rparr>"

section \<open>Options\<close>

text \<open>
  One option: the options with it and the arguments left, or the options at that moment and the text
  of the error. A text option writes its buffer even when the value is cut off.
\<close>

type_synonym 'd step = "('d options \<times> string) + ('d options \<times> string list)"

definition text_option :: "(string \<Rightarrow> 'd options) \<Rightarrow> string \<Rightarrow> nat \<Rightarrow> string \<Rightarrow> string \<Rightarrow> string list \<Rightarrow> 'd step" where
  "text_option set_to current n name argument rest =
     (case option_value argument rest of (v, rest1) \<Rightarrow>
        (case option_copy current n v of (r, text) \<Rightarrow>
           if r \<noteq> 0 then Inl (set_to text, ''Invalid or too long value for '' @ name) else Inr (set_to text, rest1)))"

definition number_option :: "(nat \<Rightarrow> 'd options) \<Rightarrow> 'd options \<Rightarrow> nat \<Rightarrow> nat \<Rightarrow> string \<Rightarrow> string \<Rightarrow> string list \<Rightarrow> 'd step" where
  "number_option set_to opts minimum maximum message argument rest =
     (case option_value argument rest of
        (None, rest1) \<Rightarrow> Inl (opts, message)
      | (Some v, rest1) \<Rightarrow>
          (case parse_unsigned v minimum maximum of None \<Rightarrow> Inl (opts, message) | Some k \<Rightarrow> Inr (set_to k, rest1)))"

definition choice_option :: "(string \<Rightarrow> 'd options) \<Rightarrow> 'd options \<Rightarrow> string list \<Rightarrow> string \<Rightarrow> string \<Rightarrow> string list \<Rightarrow> 'd step" where
  "choice_option set_to opts choices message argument rest =
     (case option_value argument rest of
        (None, rest1) \<Rightarrow> Inl (opts, message)
      | (Some v, rest1) \<Rightarrow> if v \<notin> set choices then Inl (opts, message) else Inr (set_to v, rest1))"

definition refresh_option :: "'d cli_doubles \<Rightarrow> 'd options \<Rightarrow> string \<Rightarrow> string list \<Rightarrow> 'd step" where
  "refresh_option D opts argument rest =
     (case option_value argument rest of
        (None, rest1) \<Rightarrow> Inl (opts\<lparr>opt_console_refresh := cd_zero D\<rparr>, ''Invalid --console-refresh'')
      | (Some v, rest1) \<Rightarrow>
          (case cd_strtod D v of
             None \<Rightarrow> Inl (opts\<lparr>opt_console_refresh := cd_zero D\<rparr>, ''Invalid --console-refresh'')
           | Some (x, left) \<Rightarrow>
               let o1 = opts\<lparr>opt_console_refresh := x\<rparr> in
               if left \<noteq> [] \<or> cd_not_positive D x \<or> cd_above_3600 D x then Inl (o1, ''Invalid --console-refresh'')
               else Inr (o1, rest1)))"

text \<open>The options that take no value.\<close>

definition flag_option :: "string \<Rightarrow> 'd options \<Rightarrow> 'd options option" where
  "flag_option argument opts =
     (if argument = ''--silent'' then Some (opts\<lparr>opt_silent := True\<rparr>)
      else if argument = ''--web'' then Some (opts\<lparr>opt_web := True\<rparr>)
      else if argument = ''--web-only'' then Some (opts\<lparr>opt_web_only := True\<rparr>)
      else if argument = ''--no-web-auth'' then Some (opts\<lparr>opt_no_web_auth := True\<rparr>)
      else if argument = ''--no-initial-sync'' then Some (opts\<lparr>opt_no_initial_sync := True\<rparr>)
      else if argument = ''--json'' then Some (opts\<lparr>opt_output_json := True\<rparr>)
      else if argument = ''--overwrite'' then Some (opts\<lparr>opt_overwrite := True\<rparr>)
      else if argument = ''--rename'' then Some (opts\<lparr>opt_rename := True\<rparr>)
      else if argument = ''--create-daemon'' then Some (opts\<lparr>opt_create_daemon := True, opt_command := Some ''service-install''\<rparr>)
      else None)"

text \<open>
  The options with a value, told apart by \<^verbatim>\<open>strncmp\<close> with the length of the name: an argument that only
  begins with the name counts as the option.
\<close>

definition display_option :: "'d cli_doubles \<Rightarrow> 'd options \<Rightarrow> string \<Rightarrow> string list \<Rightarrow> 'd step" where
  "display_option D opts argument rest =
     (if prefix ''--console-refresh'' argument then refresh_option D opts argument rest
      else if prefix ''--lines'' argument
      then number_option (\<lambda>k. opts\<lparr>opt_lines := k\<rparr>) opts 1 2000 ''Invalid --lines'' argument rest
      else if prefix ''--path'' argument
      then text_option (\<lambda>v. opts\<lparr>opt_path := v\<rparr>) (opt_path opts) SYSEBA_PATH_MAX ''--path'' argument rest
      else if prefix ''--search'' argument
      then text_option (\<lambda>v. opts\<lparr>opt_search := v\<rparr>) (opt_search opts) 512 ''--search'' argument rest
      else if prefix ''--page-size'' argument
      then number_option (\<lambda>k. opts\<lparr>opt_page_size := k\<rparr>) opts 1 SYSEBA_MAX_RESTORE_PAGE ''Invalid --page-size'' argument rest
      else if prefix ''--page'' argument
      then number_option (\<lambda>k. opts\<lparr>opt_page := k\<rparr>) opts 1 4294967295 ''Invalid --page'' argument rest
      else if prefix ''--sort'' argument
      then choice_option (\<lambda>v. opts\<lparr>opt_sort := cut 16 v\<rparr>) opts [''name'', ''mtime'', ''size''] ''Invalid --sort'' argument rest
      else if prefix ''--direction'' argument
      then choice_option (\<lambda>v. opts\<lparr>opt_direction := cut 8 v\<rparr>) opts [''asc'', ''desc''] ''Invalid --direction'' argument rest
      else Inl (opts, ''Unknown option: '' @ argument))"

definition value_option :: "'d cli_doubles \<Rightarrow> 'd options \<Rightarrow> string \<Rightarrow> string list \<Rightarrow> 'd step" where
  "value_option D opts argument rest =
     (if prefix ''--config'' argument
      then text_option (\<lambda>v. opts\<lparr>opt_config_path := v\<rparr>) (opt_config_path opts) SYSEBA_PATH_MAX ''--config'' argument rest
      else if prefix ''--lang'' argument
      then choice_option (\<lambda>v. opts\<lparr>opt_language := (if v = ''en'' then LANGUAGE_EN else LANGUAGE_IT)\<rparr>) opts
             [''it'', ''en''] ''--lang must be it or en'' argument rest
      else if prefix ''--web-host'' argument
      then text_option (\<lambda>v. opts\<lparr>opt_web_host := v\<rparr>) (opt_web_host opts) 256 ''--web-host'' argument rest
      else if prefix ''--web-port'' argument
      then number_option (\<lambda>k. opts\<lparr>opt_web_port := int k\<rparr>) opts 1 65535 ''--web-port must be between 1 and 65535'' argument rest
      else if prefix ''--web-token-file'' argument
      then text_option (\<lambda>v. opts\<lparr>opt_token_path := v\<rparr>) (opt_token_path opts) SYSEBA_PATH_MAX ''--web-token-file'' argument rest
      else if prefix ''--web-token'' argument
      then text_option (\<lambda>v. opts\<lparr>opt_explicit_token := v\<rparr>) (opt_explicit_token opts) SYSEBA_TOKEN_MAX ''--web-token'' argument rest
      else if prefix ''--lockfile'' argument
      then text_option (\<lambda>v. opts\<lparr>opt_lock_path := v\<rparr>) (opt_lock_path opts) SYSEBA_PATH_MAX ''--lockfile'' argument rest
      else if prefix ''--db-path'' argument
      then text_option (\<lambda>v. opts\<lparr>opt_db_path := v\<rparr>) (opt_db_path opts) SYSEBA_PATH_MAX ''--db-path'' argument rest
      else display_option D opts argument rest)"

lemma option_value_shorter: "option_value argument rest = (v, rest1) \<Longrightarrow> length rest1 \<le> length rest"
  by (auto simp: option_value_def split: if_splits list.splits)

lemma option_value_rest: "option_value argument rest = (v, rest1) \<Longrightarrow> set rest1 \<subseteq> set rest"
  by (auto simp: option_value_def split: if_splits list.splits)

lemma value_option_rest: "value_option D opts argument rest = Inr (opts1, rest1) \<Longrightarrow> set rest1 \<subseteq> set rest"
  by (auto simp: value_option_def display_option_def text_option_def number_option_def choice_option_def refresh_option_def Let_def
      dest: option_value_rest split: if_splits prod.splits option.splits)

lemma value_option_shorter: "value_option D opts argument rest = Inr (opts1, rest1) \<Longrightarrow> length rest1 \<le> length rest"
  by (auto simp: value_option_def display_option_def text_option_def number_option_def choice_option_def refresh_option_def Let_def
      dest: option_value_shorter split: if_splits prod.splits option.splits)

section \<open>The parser\<close>

definition cli_parse_end :: "'d options \<Rightarrow> int \<times> 'd options \<times> string" where
  "cli_parse_end opts =
     (if opt_overwrite opts \<and> opt_rename opts then (- 1, opts, ''--overwrite and --rename are mutually exclusive'') else (0, opts, []))"

function cli_parse_loop :: "'d cli_doubles \<Rightarrow> string list \<Rightarrow> bool \<Rightarrow> 'd options \<Rightarrow> int \<times> 'd options \<times> string" where
  "cli_parse_loop D [] command_set opts =
     cli_parse_end opts"
| "cli_parse_loop D (argument # rest) command_set opts =
     (if argument = ''--help'' \<or> argument = ''-h'' then (1, opts, [])
      else if argument = ''--version'' \<or> argument = ''-V'' then (1, opts, [])
      else if argument = [] \<or> hd argument \<noteq> CHR ''-''
      then (if command_set \<or> \<not> cli_command_valid argument then (- 1, opts, ''Unknown command: '' @ argument)
            else cli_parse_loop D rest True (opts\<lparr>opt_command := Some argument\<rparr>))
      else (case flag_option argument opts of
              Some opts1 \<Rightarrow> cli_parse_loop D rest (command_set \<or> argument = ''--create-daemon'') opts1
            | None \<Rightarrow>
                (case value_option D opts argument rest of
                   Inl (opts1, message) \<Rightarrow> (- 1, opts1, message)
                 | Inr (opts1, rest1) \<Rightarrow> cli_parse_loop D rest1 command_set opts1)))"
  by pat_completeness auto

termination
  by (relation "measure (\<lambda>(D, args, command_set, opts). length args)") (auto dest!: value_option_shorter)

text \<open>The error buffer has \<open>n\<close> bytes.\<close>

definition syseba_cli_parse :: "'d cli_doubles \<Rightarrow> string list \<Rightarrow> 'd options \<Rightarrow> nat \<Rightarrow> int \<times> 'd options \<times> string" where
  "syseba_cli_parse D args opts n = (case cli_parse_loop D args False opts of (r, opts1, message) \<Rightarrow> (r, opts1, cut n message))"

section \<open>Options that were accepted\<close>

definition wf_options :: "'d options \<Rightarrow> bool" where
  "wf_options opts \<longleftrightarrow>
     opt_command opts \<in> Some ` set cli_commands \<and>
     fits SYSEBA_PATH_MAX (opt_config_path opts) \<and> fits SYSEBA_PATH_MAX (opt_lock_path opts) \<and>
     fits SYSEBA_PATH_MAX (opt_db_path opts) \<and> fits SYSEBA_PATH_MAX (opt_token_path opts) \<and> fits SYSEBA_PATH_MAX (opt_path opts) \<and>
     fits 256 (opt_web_host opts) \<and> fits SYSEBA_TOKEN_MAX (opt_explicit_token opts) \<and> fits 512 (opt_search opts) \<and>
     opt_web_port opts \<in> {1..65535} \<and> opt_lines opts \<in> {1..2000} \<and> opt_page opts \<in> {1..4294967295} \<and>
     opt_page_size opts \<in> {1..SYSEBA_MAX_RESTORE_PAGE} \<and>
     opt_sort opts \<in> {''name'', ''mtime'', ''size''} \<and> opt_direction opts \<in> {''asc'', ''desc''}"

text \<open>A step keeps a property of the options when every value it accepts does.\<close>

definition step_ok :: "('d options \<Rightarrow> bool) \<Rightarrow> 'd step \<Rightarrow> bool" where
  "step_ok P st \<longleftrightarrow> (case st of Inl _ \<Rightarrow> True | Inr (opts, rest) \<Rightarrow> P opts)"

lemma step_if: "(c \<Longrightarrow> step_ok P x) \<Longrightarrow> (\<not> c \<Longrightarrow> step_ok P y) \<Longrightarrow> step_ok P (if c then x else y)"
  by simp

lemma step_text: "(\<And>v. fits n v \<Longrightarrow> P (set_to v)) \<Longrightarrow> step_ok P (text_option set_to current n name argument rest)"
  by (auto simp: step_ok_def text_option_def option_copy_def split: prod.splits option.splits)

lemma step_number:
  "(\<And>k. k \<in> {minimum..maximum} \<Longrightarrow> P (set_to k)) \<Longrightarrow> maximum < 2 ^ 32 \<Longrightarrow>
     step_ok P (number_option set_to opts minimum maximum message argument rest)"
  by (auto simp: step_ok_def number_option_def parse_unsigned_def split: prod.splits option.splits)

lemma step_choice: "(\<And>v. v \<in> set choices \<Longrightarrow> P (set_to v)) \<Longrightarrow> step_ok P (choice_option set_to opts choices message argument rest)"
  by (auto simp: step_ok_def choice_option_def split: prod.splits option.splits)

lemma step_refresh: "(\<And>x. P (opts\<lparr>opt_console_refresh := x\<rparr>)) \<Longrightarrow> step_ok P (refresh_option D opts argument rest)"
  by (auto simp: step_ok_def refresh_option_def Let_def split: prod.splits option.splits)

lemma step_fail: "step_ok P (Inl x)"
  by (simp add: step_ok_def)

lemmas step_intros = step_if step_text step_number step_choice step_refresh step_fail

text \<open>What a step does to the options, field by field.\<close>

lemma wf_options_flags [simp]:
  "wf_options (opts\<lparr>opt_silent := b\<rparr>) = wf_options opts" "wf_options (opts\<lparr>opt_web := b\<rparr>) = wf_options opts"
  "wf_options (opts\<lparr>opt_web_only := b\<rparr>) = wf_options opts" "wf_options (opts\<lparr>opt_no_web_auth := b\<rparr>) = wf_options opts"
  "wf_options (opts\<lparr>opt_no_initial_sync := b\<rparr>) = wf_options opts" "wf_options (opts\<lparr>opt_output_json := b\<rparr>) = wf_options opts"
  "wf_options (opts\<lparr>opt_overwrite := b\<rparr>) = wf_options opts" "wf_options (opts\<lparr>opt_rename := b\<rparr>) = wf_options opts"
  "wf_options (opts\<lparr>opt_create_daemon := b\<rparr>) = wf_options opts" "wf_options (opts\<lparr>opt_language := l\<rparr>) = wf_options opts"
  "wf_options (opts\<lparr>opt_console_refresh := x\<rparr>) = wf_options opts"
  by (simp_all add: wf_options_def)

lemma wf_options_fields:
  assumes "wf_options opts"
  shows "c \<in> set cli_commands \<Longrightarrow> wf_options (opts\<lparr>opt_command := Some c\<rparr>)"
    "fits SYSEBA_PATH_MAX v \<Longrightarrow> wf_options (opts\<lparr>opt_config_path := v\<rparr>)" "fits SYSEBA_PATH_MAX v \<Longrightarrow> wf_options (opts\<lparr>opt_lock_path := v\<rparr>)"
    "fits SYSEBA_PATH_MAX v \<Longrightarrow> wf_options (opts\<lparr>opt_db_path := v\<rparr>)" "fits SYSEBA_PATH_MAX v \<Longrightarrow> wf_options (opts\<lparr>opt_token_path := v\<rparr>)"
    "fits SYSEBA_PATH_MAX v \<Longrightarrow> wf_options (opts\<lparr>opt_path := v\<rparr>)" "fits 256 v \<Longrightarrow> wf_options (opts\<lparr>opt_web_host := v\<rparr>)"
    "fits SYSEBA_TOKEN_MAX v \<Longrightarrow> wf_options (opts\<lparr>opt_explicit_token := v\<rparr>)" "fits 512 v \<Longrightarrow> wf_options (opts\<lparr>opt_search := v\<rparr>)"
    "k \<in> {1..65535} \<Longrightarrow> wf_options (opts\<lparr>opt_web_port := int k\<rparr>)" "k \<in> {1..2000} \<Longrightarrow> wf_options (opts\<lparr>opt_lines := k\<rparr>)"
    "k \<in> {1..4294967295} \<Longrightarrow> wf_options (opts\<lparr>opt_page := k\<rparr>)" "k \<in> {1..SYSEBA_MAX_RESTORE_PAGE} \<Longrightarrow> wf_options (opts\<lparr>opt_page_size := k\<rparr>)"
    "v \<in> set [''name'', ''mtime'', ''size''] \<Longrightarrow> wf_options (opts\<lparr>opt_sort := cut 16 v\<rparr>)"
    "v \<in> set [''asc'', ''desc''] \<Longrightarrow> wf_options (opts\<lparr>opt_direction := cut 8 v\<rparr>)"
  using assms by (simp_all add: wf_options_def) (auto simp: cut_def)

lemma number_limits: "(65535::nat) < 2 ^ 32" "(2000::nat) < 2 ^ 32" "(4294967295::nat) < 2 ^ 32" "SYSEBA_MAX_RESTORE_PAGE < 2 ^ 32"
  by (simp_all add: SYSEBA_MAX_RESTORE_PAGE_def)

lemma value_option_wf: "wf_options opts \<Longrightarrow> step_ok wf_options (value_option D opts argument rest)"
  unfolding value_option_def display_option_def by (intro step_intros number_limits) (simp_all add: wf_options_fields)

lemma flag_if: "(c \<Longrightarrow> P x) \<Longrightarrow> (\<not> c \<Longrightarrow> pred_option P y) \<Longrightarrow> pred_option P (if c then Some x else y)"
  by simp

lemma flag_option_wf: "wf_options opts \<Longrightarrow> pred_option wf_options (flag_option argument opts)"
  unfolding flag_option_def by (intro flag_if) (simp_all add: wf_options_fields(1) cli_commands_def)

text \<open>What every command, every flag among the arguments and every value keeps, the accepted options have.\<close>

lemma parse_loop_invariant:
  assumes "cli_parse_loop D args command_set opts = (0, opts1, e)" "P opts"
    and command: "\<And>opts c. P opts \<Longrightarrow> c \<in> set cli_commands \<Longrightarrow> P (opts\<lparr>opt_command := Some c\<rparr>)"
    and flag: "\<And>opts argument. P opts \<Longrightarrow> argument \<in> A \<Longrightarrow> pred_option P (flag_option argument opts)"
    and val: "\<And>D opts argument rest. P opts \<Longrightarrow> step_ok P (value_option D opts argument rest)"
    and args: "set args \<subseteq> A"
  shows "P opts1 \<and> \<not> (opt_overwrite opts1 \<and> opt_rename opts1)"
  using assms(1,2) args
proof (induction D args command_set opts rule: cli_parse_loop.induct)
  case (1 D command_set opts)
  then show ?case by (simp add: cli_parse_end_def split: if_splits)
next
  case (2 D argument rest command_set opts)
  note IH = 2(1-3) and loop = 2(4) and P = 2(5)
  from 2(6) have A: "argument \<in> A" "set rest \<subseteq> A" by auto
  consider (opts) "argument = ''--help'' \<or> argument = ''-h'' \<or> argument = ''--version'' \<or> argument = ''-V''"
    | (name) "\<not> (argument = ''--help'' \<or> argument = ''-h'')" "\<not> (argument = ''--version'' \<or> argument = ''-V'')"
        "argument = [] \<or> hd argument \<noteq> CHR ''-''"
    | (dash) "\<not> (argument = ''--help'' \<or> argument = ''-h'')" "\<not> (argument = ''--version'' \<or> argument = ''-V'')"
        "\<not> (argument = [] \<or> hd argument \<noteq> CHR ''-'')"
    by blast
  then show ?case
  proof cases
    case opts
    with loop show ?thesis by auto
  next
    case name
    with loop have valid: "\<not> (command_set \<or> \<not> cli_command_valid argument)" by (simp split: if_splits)
    with name loop have "cli_parse_loop D rest True (opts\<lparr>opt_command := Some argument\<rparr>) = (0, opts1, e)" by simp
    with IH(1) [OF name valid] command [OF P, of argument] valid A(2) show ?thesis by (simp add: cli_command_valid_def)
  next
    case dash
    show ?thesis
    proof (cases "flag_option argument opts")
      case (Some o1)
      with dash loop have "cli_parse_loop D rest (command_set \<or> argument = ''--create-daemon'') o1 = (0, opts1, e)" by simp
      with IH(3) [OF dash Some] flag [OF P A(1)] Some A(2) show ?thesis by simp
    next
      case None
      with dash loop obtain o1 rest1 where v: "value_option D opts argument rest = Inr (o1, rest1)"
          and l: "cli_parse_loop D rest1 command_set o1 = (0, opts1, e)"
        by (auto split: sum.splits)
      from val [OF P, of D argument rest] v have "P o1" by (simp add: step_ok_def)
      with IH(2) [OF dash None v refl l] value_option_rest [OF v] A(2) show ?thesis by auto
    qed
  qed
qed

lemma wf_options_defaults: "wf_options (options_defaults D)"
  by (simp add: wf_options_def options_defaults_def cli_commands_def fits_def cut_def SYSEBA_PATH_MAX_def SYSEBA_TOKEN_MAX_def
      SYSEBA_DEFAULT_LOCK_def SYSEBA_DEFAULT_DB_def SYSEBA_DEFAULT_TOKEN_def SYSEBA_DEFAULT_WEB_HOST_def SYSEBA_DEFAULT_WEB_PORT_def
      SYSEBA_DEFAULT_RESTORE_PAGE_def SYSEBA_MAX_RESTORE_PAGE_def)

lemma cli_parse_wf:
  assumes "syseba_cli_parse D args (options_defaults D) n = (0, opts, e)"
  shows "wf_options opts" "\<not> (opt_overwrite opts \<and> opt_rename opts)"
proof -
  from assms obtain e1 where "cli_parse_loop D args False (options_defaults D) = (0, opts, e1)"
    by (auto simp: syseba_cli_parse_def split: prod.splits)
  from parse_loop_invariant [OF this, where P = wf_options and A = UNIV]
  have "wf_options opts \<and> \<not> (opt_overwrite opts \<and> opt_rename opts)"
    by (simp add: wf_options_defaults wf_options_fields(1) flag_option_wf value_option_wf)
  then show "wf_options opts" "\<not> (opt_overwrite opts \<and> opt_rename opts)" by simp_all
qed

text \<open>The modes that switch a protection off, each with the argument that stands for it.\<close>

definition asked_for :: "string set \<Rightarrow> 'd options \<Rightarrow> bool" where
  "asked_for A opts \<longleftrightarrow>
     (opt_overwrite opts \<longrightarrow> ''--overwrite'' \<in> A) \<and> (opt_no_web_auth opts \<longrightarrow> ''--no-web-auth'' \<in> A) \<and>
     (opt_no_initial_sync opts \<longrightarrow> ''--no-initial-sync'' \<in> A) \<and> (opt_web opts \<longrightarrow> ''--web'' \<in> A) \<and>
     (opt_web_only opts \<longrightarrow> ''--web-only'' \<in> A) \<and> (opt_create_daemon opts \<longrightarrow> ''--create-daemon'' \<in> A) \<and> \<not> opt_windows_service opts"

lemma asked_for_values: "asked_for A opts \<Longrightarrow> step_ok (asked_for A) (value_option D opts argument rest)"
  unfolding value_option_def display_option_def by (intro step_intros number_limits) (simp_all add: asked_for_def)

lemma asked_for_flags: "asked_for A opts \<Longrightarrow> argument \<in> A \<Longrightarrow> pred_option (asked_for A) (flag_option argument opts)"
  unfolding flag_option_def by (intro flag_if) (simp_all add: asked_for_def)

lemma cli_parse_asked_for:
  assumes "syseba_cli_parse D args (options_defaults D) n = (0, opts, e)"
  shows "asked_for (set args) opts"
proof -
  from assms obtain e1 where "cli_parse_loop D args False (options_defaults D) = (0, opts, e1)"
    by (auto simp: syseba_cli_parse_def split: prod.splits)
  from parse_loop_invariant [OF this, where P = "asked_for (set args)" and A = "set args"] show ?thesis
    by (simp add: asked_for_values asked_for_flags) (simp add: asked_for_def options_defaults_def)
qed

section \<open>Properties\<close>

definition demo_doubles :: "nat cli_doubles" where
  "demo_doubles = \<lparr>cd_zero = 0, cd_three = 3, cd_strtod = (\<lambda>s. None), cd_not_positive = (\<lambda>x. x = 0), cd_above_3600 = (\<lambda>x. 3600 < x)\<rparr>"

text \<open>
  Options the parser accepts are well formed. Whatever the arguments are, when \<^verbatim>\<open>syseba_cli_parse\<close> returns 0
  on the defaults, the command is one of the eight, every text is shorter than its buffer (so nothing was
  cut off), the port, the lines, the page and its size are in their ranges, the sort key and the direction
  are known ones and \<^verbatim>\<open>--overwrite\<close> and \<^verbatim>\<open>--rename\<close> are not both on.
\<close>

theorem cli_options_wellformed:
  assumes "syseba_cli_parse D args (options_defaults D) n = (0, opts, e)"
  shows "wf_options opts \<and> \<not> (opt_overwrite opts \<and> opt_rename opts)"
  using cli_parse_wf [OF assms] by simp

theorem cli_options_wellformed_witness:
  "\<exists>opts. syseba_cli_parse demo_doubles [''restore-copy'', ''--path=a'', ''--overwrite''] (options_defaults demo_doubles) 1024 = (0, opts, []) \<and>
     opt_path opts = ''a'' \<and> wf_options opts \<and> \<not> (opt_overwrite opts \<and> opt_rename opts)"
proof -
  let ?args = "[''restore-copy'', ''--path=a'', ''--overwrite'']"
  have p: "syseba_cli_parse demo_doubles ?args (options_defaults demo_doubles) 1024
      = (0, (options_defaults demo_doubles)\<lparr>opt_command := Some ''restore-copy'', opt_path := ''a'', opt_overwrite := True\<rparr>, [])"
    by (simp add: syseba_cli_parse_def cli_parse_end_def cli_command_valid_def cli_commands_def flag_option_def value_option_def display_option_def text_option_def
        option_value_def option_copy_def options_defaults_def fits_def cut_def SYSEBA_PATH_MAX_def)
  show ?thesis
    by (rule exI, rule conjI [OF p conjI [OF _ cli_options_wellformed [OF p]]]) simp
qed

text \<open>
  A mode that switches a protection off is never on by itself. When the parser accepts the arguments,
  overwriting, a web interface without a token, a start without the first synchronisation, a web
  interface at all and the installation of the service are on only when the argument of that name was
  given, whatever the other arguments are.
\<close>

theorem unsafe_modes_explicit:
  assumes "syseba_cli_parse D args (options_defaults D) n = (0, opts, e)"
  shows "asked_for (set args) opts"
  by (rule cli_parse_asked_for [OF assms])

theorem unsafe_modes_explicit_witness:
  "\<exists>opts. syseba_cli_parse demo_doubles [''run'', ''--web'', ''--silent''] (options_defaults demo_doubles) 1024 = (0, opts, []) \<and>
     asked_for {''run'', ''--web'', ''--silent''} opts \<and> opt_web opts \<and> \<not> opt_no_web_auth opts"
proof -
  let ?args = "[''run'', ''--web'', ''--silent'']"
  let ?opts = "(options_defaults demo_doubles)\<lparr>opt_command := Some ''run'', opt_web := True, opt_silent := True\<rparr>"
  have p: "syseba_cli_parse demo_doubles ?args (options_defaults demo_doubles) 1024 = (0, ?opts, [])"
    by (simp add: syseba_cli_parse_def cli_parse_end_def cli_command_valid_def cli_commands_def flag_option_def options_defaults_def cut_def)
  from unsafe_modes_explicit [OF p] have a: "asked_for {''run'', ''--web'', ''--silent''} ?opts" by simp
  show ?thesis
    by (rule exI, rule conjI [OF p conjI [OF a]]) (simp add: options_defaults_def)
qed

end
