(* ===== verification/Service.thy ===== *)
theory Service
  imports Cli
begin

text \<open>
  The Linux service of \<^verbatim>\<open>service_linux.c\<close>: escaping a path for a unit file, the text of the unit, writing it
  and the installation. Whether the caller is root, where the executable is and the results of
  \<^verbatim>\<open>systemctl\<close> are given by a record. The lemmas show that no path can leave its quotes or add a
  directive, and that the command of the unit, read back and given to the parser of the command line,
  runs the daemon with the paths of the installation.
\<close>

section \<open>Escaping\<close>

definition quote :: char where
  "quote = CHR 0x22"

fun systemd_escape_loop :: "nat \<Rightarrow> string \<Rightarrow> string \<Rightarrow> string option" where
  "systemd_escape_loop n [] out = Some out"
| "systemd_escape_loop n (c # cs) out =
     (let duplicate = (c = CHR ''%'' \<or> c = CHR ''$''); slash_escape = (c = backslash \<or> c = quote)
      in if uchar c < 32 \<or> uchar c = 127 \<or> length out + (if duplicate \<or> slash_escape then 2 else 1) \<ge> n then None
         else systemd_escape_loop n cs (out @ (if duplicate then [c] else if slash_escape then [backslash] else []) @ [c]))"

definition systemd_escape :: "string \<Rightarrow> nat \<Rightarrow> string option" where
  "systemd_escape input n = (if n = 0 then None else systemd_escape_loop n input [])"

section \<open>The unit\<close>

record unit_paths =
  up_executable :: string
  up_config :: string
  up_token :: string
  up_db :: string
  up_lock :: string
  up_writable :: "string list"

text \<open>What stands after \<^verbatim>\<open>ExecStart=\<close> and \<^verbatim>\<open>ReadWritePaths=\<close>.\<close>

definition unit_command :: "unit_paths \<Rightarrow> int \<Rightarrow> language \<Rightarrow> string" where
  "unit_command p port lang =
     [quote] @ up_executable p @ [quote] @ '' run --silent --web --web-host 0.0.0.0 --web-port '' @ int_text port @
     '' --config '' @ [quote] @ up_config p @ [quote] @ '' --web-token-file '' @ [quote] @ up_token p @ [quote] @
     '' --db-path '' @ [quote] @ up_db p @ [quote] @ '' --lockfile '' @ [quote] @ up_lock p @ [quote] @
     '' --lang '' @ (if lang = LANGUAGE_EN then ''en'' else ''it'')"

definition quoted_paths :: "string list \<Rightarrow> string" where
  "quoted_paths ps = concat (map (\<lambda>p. '' '' @ [quote] @ p @ [quote]) ps)"

text \<open>The lines of \<^verbatim>\<open>syseba_systemd_unit_format\<close>, filled in.\<close>

definition unit_before :: "string list" where
  "unit_before =
     [''[Unit]'', ''Description=SySeBa - The Syncro Service Backup'', ''Wants=network-online.target'', ''After=network-online.target'', [],
      ''[Service]'', ''Type=simple'']"

definition unit_between :: "string list" where
  "unit_between =
     [''Restart=always'', ''RestartSec=5'', ''TimeoutStopSec=45'', ''User=root'', ''Group=root'', ''StandardOutput=journal'',
      ''StandardError=journal'', ''SyslogIdentifier=syseba'', ''NoNewPrivileges=true'',
      ''CapabilityBoundingSet=CAP_DAC_OVERRIDE CAP_FOWNER'', ''PrivateTmp=true'', ''PrivateDevices=true'', ''ProtectSystem=full'']"

definition unit_after :: "string list" where
  "unit_after =
     [''ProtectProc=invisible'', ''ProcSubset=pid'', ''ProtectKernelTunables=true'', ''ProtectKernelModules=true'',
      ''ProtectControlGroups=true'', ''ProtectKernelLogs=true'', ''ProtectClock=true'', ''ProtectHostname=true'', ''RestrictSUIDSGID=true'',
      ''RestrictRealtime=true'', ''RestrictNamespaces=true'', ''RestrictAddressFamilies=AF_UNIX AF_INET AF_INET6'', ''LockPersonality=true'',
      ''MemoryDenyWriteExecute=true'', ''RemoveIPC=true'',
      ''SystemCallFilter=~@mount @module @reboot @swap @raw-io @debug @cpu-emulation'', ''SystemCallErrorNumber=EPERM'',
      ''SystemCallArchitectures=native'', ''UMask=0077'', [], ''[Install]'', ''WantedBy=multi-user.target'']"

definition unit_lines :: "unit_paths \<Rightarrow> int \<Rightarrow> language \<Rightarrow> string list" where
  "unit_lines p port lang =
     unit_before @ [''ExecStart='' @ unit_command p port lang] @ unit_between @ [''ReadWritePaths='' @ tl (quoted_paths (up_writable p))] @ unit_after"

definition unit_text :: "unit_paths \<Rightarrow> int \<Rightarrow> language \<Rightarrow> string" where
  "unit_text p port lang = concat (map (\<lambda>line. line @ [newline]) (unit_lines p port lang))"

section \<open>Writing the unit\<close>

definition write_atomic :: "string \<Rightarrow> string \<Rightarrow> nat \<Rightarrow> os \<Rightarrow> int \<times> os" where
  "write_atomic path content mode s =
     (case syseba_monotonic_ns s of (ns, s1) \<Rightarrow>
        let temporary = path @ ''.tmp.'' @ dec (unat ns) in
        if \<not> fits SYSEBA_PATH_MAX temporary then (- 1, s1)
        else (case syseba_open_exclusive_write temporary mode s1 of
                (None, s2) \<Rightarrow> (- 1, s2)
              | (Some loc, s2) \<Rightarrow>
                  (case write_config loc content s2 of
                     (False, s3) \<Rightarrow> (- 1, snd (sys_unlink temporary s3))
                   | (True, s3) \<Rightarrow>
                       (case sys_chmod temporary mode s3 of
                          (Inl e, s4) \<Rightarrow> (- 1, snd (sys_unlink temporary s4))
                        | (Inr _, s4) \<Rightarrow>
                            (case syseba_atomic_replace temporary path s4 of (r, s5) \<Rightarrow>
                               if r \<noteq> 0 then (- 1, snd (sys_unlink temporary s5)) else (0, s5))))))"

section \<open>Installation\<close>

text \<open>
  \<^verbatim>\<open>geteuid() == 0\<close>, \<^verbatim>\<open>readlink("/proc/self/exe")\<close> and whether \<^verbatim>\<open>systemctl\<close> with these arguments could be run
  and exited with 0.
\<close>

record service_env =
  sv_root :: bool
  sv_executable :: "errno + string"
  sv_systemctl :: "string list \<Rightarrow> bool"

definition unit_path :: string where
  "unit_path = ''/etc/systemd/system/syseba.service''"

text \<open>The directories of several files, or failure when one cannot be formed.\<close>

fun parent_dirs :: "string list \<Rightarrow> string list option" where
  "parent_dirs [] = Some []"
| "parent_dirs (p # ps) =
     (case syseba_parent_dir p SYSEBA_PATH_MAX of
        None \<Rightarrow> None
      | Some d \<Rightarrow> (case parent_dirs ps of None \<Rightarrow> None | Some ds \<Rightarrow> Some (d # ds)))"

fun mkdirs_all :: "string list \<Rightarrow> os \<Rightarrow> int \<times> os" where
  "mkdirs_all [] s = (0, s)"
| "mkdirs_all (d # ds) s = (case syseba_mkdirs d s of (r, s1) \<Rightarrow> if r \<noteq> 0 then (- 1, s1) else mkdirs_all ds s1)"

fun escape_all :: "string list \<Rightarrow> string list option" where
  "escape_all [] = Some []"
| "escape_all (p # ps) =
     (case systemd_escape p (SYSEBA_PATH_MAX * 2) of
        None \<Rightarrow> None
      | Some e \<Rightarrow> (case escape_all ps of None \<Rightarrow> None | Some es \<Rightarrow> Some (e # es)))"

text \<open>The paths of the command and the writable directories, escaped, in the text of the unit; \<open>dirs\<close> are the directories of the five files.\<close>

definition service_unit :: "'d options \<Rightarrow> config \<Rightarrow> string \<Rightarrow> string list \<Rightarrow> string option" where
  "service_unit opts c executable dirs =
     (case escape_all ([executable, cfg_config_path c, opt_token_path opts, opt_db_path opts, opt_lock_path opts] @
             [cfg_source c, cfg_backup c, cfg_restore c] @ dirs) of
        Some (x # cp # tp # dp # lp # ws) \<Rightarrow>
          let text = unit_text \<lparr>up_executable = x, up_config = cp, up_token = tp, up_db = dp, up_lock = lp, up_writable = ws\<rparr>
                (opt_web_port opts) (opt_language opts)
          in if fits (SYSEBA_PATH_MAX * 20) text then Some text else None
      | _ \<Rightarrow> None)"

definition syseba_service_install :: "service_env \<Rightarrow> 'd options \<Rightarrow> os \<Rightarrow> result \<times> os" where
  "syseba_service_install E opts s =
     (if \<not> sv_root E then (SYSEBA_ERR_PERMISSION, s)
      else (case syseba_config_load (opt_config_path opts) s of
              (Inl e, s1) \<Rightarrow> (SYSEBA_ERR_INVALID, s1)
            | (Inr c, s1) \<Rightarrow>
                (case parent_dirs [cfg_config_path c, opt_token_path opts, opt_db_path opts, opt_lock_path opts, cfg_log_file c] of
                   None \<Rightarrow> (SYSEBA_ERR_INVALID, s1)
                 | Some dirs \<Rightarrow>
                     (case mkdirs_all ([cfg_backup c, cfg_restore c] @ tl dirs) s1 of (r, s2) \<Rightarrow>
                        if r \<noteq> 0 then (SYSEBA_ERR_PERMISSION, s2)
                        else (case sv_executable E of
                                Inl e \<Rightarrow> (SYSEBA_ERR, s2)
                              | Inr target \<Rightarrow>
                                  if target = [] then (SYSEBA_ERR, s2)
                                  else (case service_unit opts c (take (SYSEBA_PATH_MAX - 1) target) dirs of
                                          None \<Rightarrow> (SYSEBA_ERR_INVALID, s2)
                                        | Some text \<Rightarrow>
                                            (case write_atomic unit_path text 420 s2 of (r, s3) \<Rightarrow>
                                               if r \<noteq> 0 then (SYSEBA_ERR, s3)
                                               else if \<not> sv_systemctl E [''daemon-reload''] \<or> \<not> sv_systemctl E [''enable'', ''--now'', ''syseba.service'']
                                               then (SYSEBA_ERR, s3) else (SYSEBA_OK, s3))))))))"

section \<open>What an escaped path reads as\<close>

definition esc :: "char \<Rightarrow> string" where
  "esc c = (if c = CHR ''%'' \<or> c = CHR ''$'' then [c, c] else if c = backslash \<or> c = quote then [backslash, c] else [c])"

definition printable :: "string \<Rightarrow> bool" where
  "printable w \<longleftrightarrow> (\<forall>c \<in> set w. 32 \<le> uchar c \<and> uchar c \<noteq> 127)"

lemma systemd_escape_loop_esc: "systemd_escape_loop n cs out = Some e \<Longrightarrow> e = out @ concat (map esc cs) \<and> printable cs"
proof (induction cs arbitrary: out)
  case (Cons c cs)
  from Cons.prems have ok: "\<not> (uchar c < 32 \<or> uchar c = 127)" and "systemd_escape_loop n cs (out @ esc c) = Some e"
    by (auto simp: Let_def esc_def split: if_splits)
  with Cons.IH [of "out @ esc c"] show ?case by (auto simp: printable_def)
qed (simp add: printable_def)

lemma systemd_escape_esc: "systemd_escape w n = Some e \<Longrightarrow> e = concat (map esc w) \<and> printable w"
  by (auto simp: systemd_escape_def dest: systemd_escape_loop_esc split: if_splits)

lemma esc_no_newline: "printable w \<Longrightarrow> newline \<notin> set (concat (map esc w))"
proof -
  assume p: "printable w"
  have "set (esc c) \<subseteq> {backslash, c}" for c by (simp add: esc_def)
  then have "set (concat (map esc w)) \<subseteq> insert backslash (set w)" by auto
  moreover have "newline \<noteq> backslash" "newline \<notin> set w" using p by (auto simp: printable_def newline_def backslash_def uchar_def)
  ultimately show ?thesis by blast
qed

text \<open>
  What an escaping promises to the reader of its text: \<open>read r\<close> is the text up to the character \<open>stop\<close> with
  what follows it, and the code of a character reads as that character.
\<close>

locale escaping =
  fixes code :: "char \<Rightarrow> string" and read :: "string \<Rightarrow> (string \<times> string) option" and stop :: char
  assumes at_stop: "read (stop # r) = Some ([], r)"
    and at_code: "read (code c @ r) = map_option (apfst (Cons c)) (read r)"
begin

lemma read_coded: "read (concat (map code w) @ stop # r) = Some (w, r)"
  by (induction w) (simp_all add: at_stop at_code)

end

text \<open>
  How the value of a directive is read: \<open>read r\<close> is the content of a word whose opening quote stands before
  \<open>r\<close>, with what follows the closing quote. In it a backslash protects the next backslash or quote, and
  a doubled percent or dollar sign stands for one.
\<close>

locale unit_reader =
  fixes read :: "string \<Rightarrow> (string \<times> string) option"
  assumes close: "read (quote # r) = Some ([], r)"
    and escaped: "c = backslash \<or> c = quote \<Longrightarrow> read (backslash # c # r) = map_option (apfst (Cons c)) (read r)"
    and doubled: "c = CHR ''%'' \<or> c = CHR ''$'' \<Longrightarrow> read (c # c # r) = map_option (apfst (Cons c)) (read r)"
    and plain: "c \<noteq> backslash \<Longrightarrow> c \<noteq> quote \<Longrightarrow> c \<noteq> CHR ''%'' \<Longrightarrow> c \<noteq> CHR ''$'' \<Longrightarrow> read (c # r) = map_option (apfst (Cons c)) (read r)"

sublocale unit_reader \<subseteq> escaping esc read quote
  by unfold_locales (simp_all add: close esc_def escaped doubled plain)

fun unit_quoted :: "string \<Rightarrow> (string \<times> string) option" where
  "unit_quoted [] = None"
| "unit_quoted [c] = (if c = quote then Some ([], []) else None)"
| "unit_quoted (c # x # r) =
     (if c = quote then Some ([], x # r)
      else if c = backslash then (if x = backslash \<or> x = quote then map_option (apfst (Cons x)) (unit_quoted r) else None)
      else if c = CHR ''%'' \<or> c = CHR ''$'' then (if x = c then map_option (apfst (Cons x)) (unit_quoted r) else None)
      else map_option (apfst (Cons c)) (unit_quoted (x # r)))"

interpretation systemd: unit_reader unit_quoted
proof
  fix r show "unit_quoted (quote # r) = Some ([], r)" by (cases r) simp_all
next
  fix c r assume "c \<noteq> backslash" "c \<noteq> quote" "c \<noteq> CHR ''%''" "c \<noteq> CHR ''$''"
  then show "unit_quoted (c # r) = map_option (apfst (Cons c)) (unit_quoted r)" by (cases r) simp_all
qed (auto simp: backslash_def quote_def)

lemma unit_quoted_shorter: "unit_quoted r = Some (w, t) \<Longrightarrow> length t < length r"
  by (induction r arbitrary: w rule: unit_quoted.induct) (fastforce split: if_splits)+

text \<open>The words of a command, quoted or not.\<close>

definition plain_word :: "string \<Rightarrow> bool" where
  "plain_word w \<longleftrightarrow> w \<noteq> [] \<and> set w \<inter> {CHR '' '', quote, backslash, CHR ''%'', CHR ''$''} = {}"

function unit_words :: "string \<Rightarrow> string list option" where
  "unit_words [] = Some []"
| "unit_words (c # r) =
     (if c = CHR '' '' then unit_words r
      else if c = quote
      then (case unit_quoted r of
              None \<Rightarrow> None
            | Some (w, t) \<Rightarrow> if t = [] \<or> hd t = CHR '' '' then map_option (Cons w) (unit_words t) else None)
      else
        let w = takeWhile (\<lambda>x. x \<noteq> CHR '' '') (c # r) in
        if plain_word w then map_option (Cons w) (unit_words (dropWhile (\<lambda>x. x \<noteq> CHR '' '') (c # r))) else None)"
  by pat_completeness auto
termination
  by (relation "measure length") (auto simp: less_Suc_eq_le length_dropWhile_le dest: unit_quoted_shorter)

declare unit_words.simps(2) [simp del]

text \<open>A word as it stands in the unit, and the word it is read as.\<close>

definition unit_token :: "string \<Rightarrow> string \<Rightarrow> bool" where
  "unit_token t w \<longleftrightarrow> t = [quote] @ concat (map esc w) @ [quote] \<or> t = w \<and> plain_word w"

lemma unit_words_space: "unit_words (CHR '' '' # r) = unit_words r"
  by (simp add: unit_words.simps(2))

lemma unit_words_token:
  assumes "unit_token t w" "r = [] \<or> hd r = CHR '' ''"
  shows "unit_words (t @ r) = map_option (Cons w) (unit_words r)"
  using assms(1) unfolding unit_token_def
proof
  assume "t = [quote] @ concat (map esc w) @ [quote]"
  then show ?thesis using systemd.read_coded [of w r] assms(2) by (simp add: unit_words.simps(2) quote_def)
next
  assume t: "t = w \<and> plain_word w"
  then obtain c v where w: "w = c # v" by (cases w) (auto simp: plain_word_def)
  have "takeWhile (\<lambda>x. x \<noteq> CHR '' '') (w @ r) = w" "dropWhile (\<lambda>x. x \<noteq> CHR '' '') (w @ r) = r"
    using t assms(2) by (cases r; auto simp: plain_word_def takeWhile_append dropWhile_append)+
  with t w show ?thesis by (auto simp: unit_words.simps(2) plain_word_def Let_def)
qed

definition joined :: "string list \<Rightarrow> string" where
  "joined ts = concat (map (\<lambda>t. CHR '' '' # t) ts)"

lemma unit_words_joined: "list_all2 unit_token ts ws \<Longrightarrow> unit_words (joined ts) = Some ws"
proof (induction ts ws rule: list_all2_induct)
  case (Cons t ts w ws)
  have "joined ts = [] \<or> hd (joined ts) = CHR '' ''" by (cases ts) (simp_all add: joined_def)
  with Cons unit_words_token [of t w "joined ts"] show ?case by (simp add: joined_def unit_words_space)
qed (simp add: joined_def)

section \<open>The unit starts the daemon that was installed\<close>

definition service_arguments :: "string \<Rightarrow> string \<Rightarrow> string \<Rightarrow> string \<Rightarrow> int \<Rightarrow> language \<Rightarrow> string list" where
  "service_arguments config token db lock port lang =
     [''run'', ''--silent'', ''--web'', ''--web-host'', ''0.0.0.0'', ''--web-port'', int_text port, ''--config'', config,
      ''--web-token-file'', token, ''--db-path'', db, ''--lockfile'', lock, ''--lang'', if lang = LANGUAGE_EN then ''en'' else ''it'']"

abbreviation escape :: "string \<Rightarrow> string" where
  "escape w \<equiv> concat (map esc w)"

lemma plain_int_text: "plain_word (int_text i)"
proof -
  have "c_isdigit c \<Longrightarrow> c \<notin> {CHR '' '', quote, backslash, CHR ''%'', CHR ''$''}" for c
    by (auto simp: c_isdigit_def uchar_def quote_def backslash_def)
  with dec_digits show ?thesis
    unfolding plain_word_def int_text_def by (auto simp: quote_def backslash_def)
qed

lemma unit_command_words:
  assumes "up_executable p = escape x" "up_config p = escape c" "up_token p = escape t" "up_db p = escape d" "up_lock p = escape l"
  shows "unit_words (unit_command p port lang) = Some (x # service_arguments c t d l port lang)"
proof -
  let ?q = "\<lambda>w. [quote] @ escape w @ [quote]"
  let ?ts = "[?q x, ''run'', ''--silent'', ''--web'', ''--web-host'', ''0.0.0.0'', ''--web-port'', int_text port, ''--config'', ?q c,
      ''--web-token-file'', ?q t, ''--db-path'', ?q d, ''--lockfile'', ?q l, ''--lang'', if lang = LANGUAGE_EN then ''en'' else ''it'']"
  have "unit_token (?q w) w" for w by (simp add: unit_token_def)
  moreover have "unit_token (int_text port) (int_text port)" by (simp add: unit_token_def plain_int_text)
  moreover have "unit_token w w" if "w \<in> {''run'', ''--silent'', ''--web'', ''--web-host'', ''0.0.0.0'', ''--web-port'', ''--config'',
      ''--web-token-file'', ''--db-path'', ''--lockfile'', ''--lang'', ''en'', ''it''}" for w
    using that by (auto simp: unit_token_def plain_word_def quote_def backslash_def)
  ultimately have "list_all2 unit_token ?ts (x # service_arguments c t d l port lang)" by (simp add: service_arguments_def)
  moreover have "CHR '' '' # unit_command p port lang = joined ?ts" by (simp add: unit_command_def joined_def assms)
  ultimately show ?thesis using unit_words_joined unit_words_space by metis
qed

lemma escape_all_map: "escape_all ps = Some es \<Longrightarrow> es = map escape ps \<and> (\<forall>p \<in> set ps. printable p)"
  by (induction ps arbitrary: es) (auto dest: systemd_escape_esc split: option.splits)

lemma split_lines: "\<forall>l \<in> set ls. newline \<notin> set l \<Longrightarrow> split_on newline (concat (map (\<lambda>l. l @ [newline]) ls)) = ls @ [[]]"
  by (induction ls) (simp_all add: split_on_append_sep)

lemma fixed_lines: "\<forall>l \<in> set (unit_before @ unit_between @ unit_after). newline \<notin> set l"
  by (simp add: unit_before_def unit_between_def unit_after_def newline_def)

lemma not_in_tl: "x \<notin> set xs \<Longrightarrow> x \<notin> set (tl xs)"
  by (cases xs) auto

lemma quoted_paths_no_newline: "\<forall>p \<in> set ps. printable p \<Longrightarrow> newline \<notin> set (quoted_paths (map escape ps))"
  using esc_no_newline by (auto simp: quoted_paths_def quote_def newline_def)

lemma command_no_newline:
  assumes "\<forall>w \<in> {up_executable p, up_config p, up_token p, up_db p, up_lock p}. newline \<notin> set w"
  shows "newline \<notin> set (unit_command p port lang)"
proof -
  have "newline \<notin> set (int_text port)"
    using dec_digits [of "nat port"] dec_digits [of "nat (- port)"] by (auto simp: int_text_def newline_def c_isdigit_def uchar_def)
  with assms show ?thesis by (simp add: unit_command_def newline_def quote_def)
qed

lemma service_arguments_parse:
  assumes "fits SYSEBA_PATH_MAX c" "fits SYSEBA_PATH_MAX t" "fits SYSEBA_PATH_MAX d" "fits SYSEBA_PATH_MAX l" "port \<in> {1..65535}"
  shows "syseba_cli_parse D (service_arguments c t d l port lang) (options_defaults D) n =
    (0, (options_defaults D)\<lparr>opt_command := Some ''run'', opt_silent := True, opt_web := True, opt_web_host := ''0.0.0.0'',
       opt_web_port := port, opt_config_path := c, opt_token_path := t, opt_db_path := d, opt_lock_path := l, opt_language := lang\<rparr>, [])"
proof -
  have "nat port \<le> ULONG_MAX" "1 \<le> nat port" "nat port \<le> 65535" using assms(5) by (auto simp: ULONG_MAX_def)
  with c_strtoul_dec [of "nat port" "[]"] have "parse_unsigned (dec (nat port)) 1 65535 = Some (nat port)"
    by (simp add: parse_unsigned_def)
  then have "parse_unsigned (int_text port) 1 65535 = Some (nat port)" using assms(5) by (simp add: int_text_def)
  moreover have "fits 256 ''0.0.0.0''" "\<And>n. cut n [] = []" by (simp_all add: fits_def cut_def)
  ultimately show ?thesis
    using assms
    by (cases lang) (simp_all add: service_arguments_def syseba_cli_parse_def cli_parse_end_def cli_command_valid_def cli_commands_def
        flag_option_def value_option_def display_option_def text_option_def number_option_def choice_option_def option_value_def option_copy_def
        options_defaults_def)
qed

text \<open>The value of the first line of a unit that sets a key.\<close>

definition unit_setting :: "string \<Rightarrow> string \<Rightarrow> string option" where
  "unit_setting key text = map_option (drop (length key + 1)) (find (\<lambda>line. prefix (key @ ''='') line) (split_on newline text))"

lemma service_unit_lines:
  assumes "service_unit opts c executable dirs = Some text"
  shows "\<exists>p. split_on newline text = unit_lines p (opt_web_port opts) (opt_language opts) @ [[]] \<and>
    up_executable p = escape executable \<and> up_config p = escape (cfg_config_path c) \<and> up_token p = escape (opt_token_path opts) \<and>
    up_db p = escape (opt_db_path opts) \<and> up_lock p = escape (opt_lock_path opts)"
proof -
  let ?ps = "[executable, cfg_config_path c, opt_token_path opts, opt_db_path opts, opt_lock_path opts] @ [cfg_source c, cfg_backup c, cfg_restore c] @ dirs"
  obtain es where es: "escape_all ?ps = Some es" using assms unfolding service_unit_def by (auto split: option.splits)
  from escape_all_map [OF this] have map: "es = map escape ?ps" and ok: "\<forall>w \<in> set ?ps. printable w" by auto
  let ?p = "\<lparr>up_executable = escape executable, up_config = escape (cfg_config_path c), up_token = escape (opt_token_path opts),
     up_db = escape (opt_db_path opts), up_lock = escape (opt_lock_path opts),
     up_writable = map escape ([cfg_source c, cfg_backup c, cfg_restore c] @ dirs)\<rparr>"
  have unit: "text = unit_text ?p (opt_web_port opts) (opt_language opts)"
    using assms unfolding service_unit_def es unfolding map by (simp add: Let_def split: if_splits)
  have "newline \<notin> set (unit_command ?p (opt_web_port opts) (opt_language opts))"
    by (rule command_no_newline) (use ok esc_no_newline in auto)
  moreover have "newline \<notin> set (tl (quoted_paths (up_writable ?p)))"
    using quoted_paths_no_newline [of "[cfg_source c, cfg_backup c, cfg_restore c] @ dirs"] ok by (intro not_in_tl) simp
  ultimately have "\<forall>l \<in> set (unit_lines ?p (opt_web_port opts) (opt_language opts)). newline \<notin> set l"
    using fixed_lines by (auto simp: unit_lines_def newline_def)
  from split_lines [OF this] unit show ?thesis by (intro exI [of _ ?p]) (simp add: unit_text_def)
qed

lemma unit_lines_command:
  "find (\<lambda>line. prefix (''ExecStart'' @ ''='') line) (unit_lines p port lang @ [[]]) = Some (''ExecStart='' @ unit_command p port lang)"
  by (simp add: unit_lines_def unit_before_def)


text \<open>The escaping succeeds on every printable path: its buffer is twice as long as a path can be.\<close>

lemma systemd_escape_loop_ok: "printable cs \<Longrightarrow> length out + 2 * length cs < n \<Longrightarrow> systemd_escape_loop n cs out = Some (out @ escape cs)"
  by (induction cs arbitrary: out) (auto simp: Let_def esc_def printable_def)

lemma escape_all_ok: "\<forall>p \<in> set ps. printable p \<and> fits SYSEBA_PATH_MAX p \<Longrightarrow> escape_all ps = Some (map escape ps)"
  by (induction ps) (simp_all add: systemd_escape_def systemd_escape_loop_ok fits_def syseba_limits)

lemma unit_text_length:
  "length (unit_text p port lang) \<le> 1500 + length (up_executable p) + length (up_config p) + length (up_token p) + length (up_db p) +
     length (up_lock p) + length (quoted_paths (up_writable p)) + length (int_text port)"
  by (simp add: unit_text_def unit_lines_def unit_before_def unit_between_def unit_after_def unit_command_def)


end
