(* ===== verification/Commands.thy ===== *)
theory Commands
  imports Service
begin

text \<open>
  The commands of \<^verbatim>\<open>cli.c\<close> (\<^verbatim>\<open>syseba_cli_load\<close> to \<^verbatim>\<open>syseba_cli_execute\<close>), the loop of the dashboard in
  \<^verbatim>\<open>dashboard.c\<close>, and \<^verbatim>\<open>main.c\<close>. A command gives the exit status, what it shows and the state of the system.
  The application of a command is a local variable, so that stopping its log and freeing it at the end
  leave no trace; only \<open>cli_run\<close> keeps it. What a command learns from outside the program (environment variables, \<^verbatim>\<open>statvfs\<close>, memory, threads, the
  terminal, standard input, signals) is in one record. The text of an error that another component
  reports is shown as the result code of that component.
\<close>

section \<open>Output\<close>

datatype 'd shown =
    Out string \<comment> \<open>text on standard output\<close>
  | OutJson "'d json" \<comment> \<open>a printed document\<close>
  | Err string \<comment> \<open>text on standard error\<close>
  | ErrOf result \<comment> \<open>the error text of a failed call, on standard error (a failed restore of the browser: on standard output)\<close>

text \<open>\<^verbatim>\<open>%-8s\<close> and \<^verbatim>\<open>%12s\<close>: filling up with blanks.\<close>

definition pad_right :: "nat \<Rightarrow> string \<Rightarrow> string" where
  "pad_right n w = w @ replicate (n - length w) (CHR '' '')"

definition pad_left :: "nat \<Rightarrow> string \<Rightarrow> string" where
  "pad_left n w = replicate (n - length w) (CHR '' '') @ w"

section \<open>The outside\<close>

record 'd cli_env =
  ce_ops :: "'d double_ops"
  ce_percent :: "'d \<Rightarrow> string" \<comment> \<open>\<^verbatim>\<open>%.2f\<close>\<close>
  ce_refresh_ms :: "'d \<Rightarrow> nat" \<comment> \<open>the interval of the dashboard in milliseconds, at least 200\<close>
  ce_config :: string \<comment> \<open>\<^verbatim>\<open>SYSEBA_CONFIG\<close>, empty when unset\<close>
  ce_token :: "string option" \<comment> \<open>\<^verbatim>\<open>SYSEBA_WEB_TOKEN\<close>\<close>
  ce_statvfs :: "string \<Rightarrow> (64 word \<times> 64 word \<times> 64 word) option"
  ce_locked :: bool \<comment> \<open>another process holds the lock on the lock file\<close>
  ce_init :: "bool \<times> bool \<times> bool \<times> bool list" \<comment> \<open>the results \<^verbatim>\<open>syseba_app_init\<close> depends on\<close>
  ce_memory :: "nat \<Rightarrow> bool"
  ce_tail :: "bool \<times> (nat \<Rightarrow> bool)"
  ce_log_thread :: bool
  ce_start :: start_env
  ce_stop :: stop_env
  ce_random :: "bool \<times> (errno + string) list"
  ce_terminal_in :: bool
  ce_terminal_out :: bool
  ce_stdin :: string
  ce_pending :: bool \<comment> \<open>a stop was requested before the wait\<close>
  ce_wait :: "(bool \<times> (app \<times> os \<Rightarrow> app \<times> os)) list" \<comment> \<open>at each check of the wait: is a stop pending, and what the other threads do until the next\<close>
  ce_service :: service_env

definition cli_app :: "'d cli_env \<Rightarrow> config \<Rightarrow> 'd options \<Rightarrow> result \<times> app" where
  "cli_app E c opts = (case ce_init E of (mutex_ok, events_ok, logs_ok, memory) \<Rightarrow> syseba_app_init c opts mutex_ok events_ok logs_ok memory)"

definition cli_app_destroy :: "app \<Rightarrow> app" where
  "cli_app_destroy a =
     a\<lparr>app_recent_logs := [], app_log_queue := (wq_close (app_log_queue a))\<lparr>wq_items := [], wq_unfinished := 0\<rparr>,
       app_event_queue := (wq_close (app_event_queue a))\<lparr>wq_items := [], wq_unfinished := 0\<rparr>\<rparr>"

definition cli_load :: "'d cli_env \<Rightarrow> 'd options \<Rightarrow> os \<Rightarrow> (result + 'd options \<times> config) \<times> os" where
  "cli_load E input s =
     (case syseba_config_find (opt_config_path input) (ce_config E) SYSEBA_PATH_MAX s of
        (None, s1) \<Rightarrow> (Inl SYSEBA_ERR_NOT_FOUND, s1)
      | (Some path, s1) \<Rightarrow>
          (case syseba_config_load path s1 of
             (Inl e, s2) \<Rightarrow> (Inl e, s2)
           | (Inr c, s2) \<Rightarrow> (Inr (input\<lparr>opt_config_path := path\<rparr>, c), s2)))"

section \<open>Status, logs, configuration check\<close>

text \<open>\<^verbatim>\<open>syseba_lock_is_held\<close>: \<open>locked\<close> is that \<^verbatim>\<open>flock\<close> fails with \<^verbatim>\<open>EWOULDBLOCK\<close> or \<^verbatim>\<open>EAGAIN\<close>.\<close>

definition sys_open_rdwr :: "string \<Rightarrow> os \<Rightarrow> (errno + cpath) \<times> os" where
  "sys_open_rdwr p = query (\<lambda>s.
     case lookup_node False p s of
       Inl e \<Rightarrow> Inl e
     | Inr (loc, Lnk _) \<Rightarrow> Inl ELOOP
     | Inr (loc, Dir) \<Rightarrow> Inl EISDIR
     | Inr (loc, _) \<Rightarrow> Inr loc)"

definition syseba_lock_is_held :: "bool \<Rightarrow> string \<Rightarrow> os \<Rightarrow> bool \<times> os" where
  "syseba_lock_is_held locked path s = (case sys_open_rdwr path s of (Inl e, s1) \<Rightarrow> (False, s1) | (Inr loc, s1) \<Rightarrow> (locked, s1))"

text \<open>The number \<^verbatim>\<open>fscanf\<close> finds at the start of the lock file, 0 when there is none.\<close>

definition lock_pid :: "string \<Rightarrow> os \<Rightarrow> nat \<times> os" where
  "lock_pid path s =
     (case syseba_open_regular_read path s of
        (None, s1) \<Rightarrow> (0, s1)
      | (Some (loc, n), s1) \<Rightarrow>
          (case stdio_read loc s1 of ((content, failed), s2) \<Rightarrow>
             (case c_strtoul content of None \<Rightarrow> 0 | Some (v, rest, erange) \<Rightarrow> v, snd (sys_fclose loc s2))))"

definition cli_disk_json :: "'d cli_env \<Rightarrow> string \<Rightarrow> 'd json" where
  "cli_disk_json E path =
     (case syseba_disk_usage path (ce_statvfs E path) of (r, u) \<Rightarrow>
        JObj [(''path'', JStr path), (''exists'', JBool (r = 0 \<and> du_exists u)),
              (''used_percent'', JNum (if r = 0 then used_percent (ce_ops E) u else d_num (ce_ops E) 0))])"

definition cli_print_disk :: "'d cli_env \<Rightarrow> string \<Rightarrow> string \<Rightarrow> 'd shown" where
  "cli_print_disk E label path =
     (case syseba_disk_usage path (ce_statvfs E path) of (r, u) \<Rightarrow>
        Out (pad_right 8 label @ '' '' @ path @
             (if r = 0 then '' ['' @ ce_percent E (used_percent (ce_ops E) u) @ ''%]'' else '' [not found]'') @ [newline]))"

definition status_text :: "'d cli_env \<Rightarrow> 'd options \<Rightarrow> config \<Rightarrow> bool \<Rightarrow> nat \<Rightarrow> 'd shown list" where
  "status_text E opts c running pid =
     [Out (''SySeBa: '' @ (if running then syseba_tr (opt_language opts) ''ATTIVO'' ''RUNNING'' else syseba_tr (opt_language opts) ''FERMO'' ''STOPPED'') @
           (if pid > 0 then '' (PID '' @ dec pid @ '')'' else []) @ [newline]),
      cli_print_disk E (syseba_tr (opt_language opts) ''Sorgente'' ''Source'') (cfg_source c),
      cli_print_disk E ''Backup'' (cfg_backup c), cli_print_disk E ''Restore'' (cfg_restore c)]"

definition cli_status :: "'d cli_env \<Rightarrow> 'd options \<Rightarrow> config \<Rightarrow> os \<Rightarrow> int \<times> 'd shown list \<times> os" where
  "cli_status E opts c s =
     (case syseba_lock_is_held (ce_locked E) (opt_lock_path opts) s of (running, s1) \<Rightarrow>
      (case lock_pid (opt_lock_path opts) s1 of (pid, s2) \<Rightarrow>
        (if running then 0 else 3,
         if opt_output_json opts
         then [OutJson (JObj [(''running'', JBool running),
                 (''pid'', if pid > 0 then JNum (d_num (ce_ops E) (int pid)) else JNull), (''config'', json_config (ce_ops E) c),
                 (''disk'', JObj [(''source'', cli_disk_json E (cfg_source c)), (''backup'', cli_disk_json E (cfg_backup c)),
                                  (''restore'', cli_disk_json E (cfg_restore c))])])]
         else status_text E opts c running pid, s2)))"

definition cli_logs :: "'d cli_env \<Rightarrow> 'd options \<Rightarrow> config \<Rightarrow> os \<Rightarrow> int \<times> 'd shown list \<times> os" where
  "cli_logs E opts c s =
     (case syseba_log_tail (fst (ce_tail E)) (snd (ce_tail E)) (cfg_log_file c) (of_nat (opt_lines opts)) s of (ls, s1) \<Rightarrow>
        (0, if opt_output_json opts then [OutJson (JObj [(''lines'', JArr (map JStr ls))])] else map (\<lambda>l. Out (l @ [newline])) ls, s1))"

definition will_be_created :: "language \<Rightarrow> string \<Rightarrow> 'd shown" where
  "will_be_created lang path =
     Out (syseba_tr lang (''Verr'' @ [CHR 0xC3, CHR 0xA0] @ '' creata la directory'') ''Directory will be created'' @ '': '' @ path @ [newline])"

definition cli_config_check :: "'d options \<Rightarrow> config \<Rightarrow> os \<Rightarrow> int \<times> 'd shown list \<times> os" where
  "cli_config_check opts c s =
     (if opt_output_json opts
      then (0, [OutJson (JObj [(''ok'', JBool True), (''errors'', JArr []), (''warnings'', JArr [])])], s)
      else (case syseba_fs_exists (cfg_backup c) s of (backup, s1) \<Rightarrow>
             (case syseba_fs_exists (cfg_restore c) s1 of (restore, s2) \<Rightarrow>
               (0, Out (''OK'' @ [newline]) # (if backup then [] else [will_be_created (opt_language opts) (cfg_backup c)]) @
                  (if restore then [] else [will_be_created (opt_language opts) (cfg_restore c)]), s2))))"

section \<open>The restore area\<close>

definition cli_item_json :: "'d cli_env \<Rightarrow> restore_item \<Rightarrow> 'd json" where
  "cli_item_json E i =
     JObj [(''name'', JStr (ri_name i)), (''path'', JStr (ri_path i)), (''is_dir'', JBool (ri_is_directory i)),
           (''size'', if ri_is_directory i then JNull else JNum (d_word (ce_ops E) (ri_size i))), (''mtime'', JStr (ri_mtime i)),
           (''destination_exists'', JBool (ri_destination_exists i))]"

definition cli_listing_json :: "'d cli_env \<Rightarrow> restore_listing \<Rightarrow> 'd json" where
  "cli_listing_json E l =
     JObj [(''items'', JArr (map (cli_item_json E) (rl_items l))), (''path'', JStr (rl_path l)), (''is_file'', JBool (rl_is_file l)),
           (''page'', JNum (d_num (ce_ops E) (int (rl_page l)))), (''pages'', JNum (d_num (ce_ops E) (int (rl_pages l)))),
           (''page_size'', JNum (d_num (ce_ops E) (int (rl_page_size l)))), (''total'', JNum (d_num (ce_ops E) (int (rl_total l)))),
           (''has_previous'', JBool (rl_has_previous l)), (''has_next'', JBool (rl_has_next l))]"

definition cli_item_text :: "language \<Rightarrow> restore_item \<Rightarrow> 'd shown" where
  "cli_item_text lang i =
     Out (pad_right 4 (if ri_is_directory i then ''DIR'' else ''FILE'') @ '' '' @ pad_left 12 (dec (unat (ri_size i))) @ ''  '' @ ri_mtime i @ ''  '' @
          ri_path i @ (if ri_destination_exists i then syseba_tr lang '' [destinazione esistente]'' '' [destination exists]'' else []) @ [newline])"

definition cli_listing_text :: "language \<Rightarrow> restore_listing \<Rightarrow> 'd shown list" where
  "cli_listing_text lang l =
     Out ((if rl_path l = [] then ''/'' else rl_path l) @ '' - '' @ dec (rl_total l) @ '' '' @ syseba_tr lang ''elementi'' ''items'' @ '' - '' @
          syseba_tr lang ''pagina'' ''page'' @ '' '' @ dec (rl_page l) @ ''/'' @ dec (rl_pages l) @ [newline]) #
     map (cli_item_text lang) (rl_items l)"

definition cli_restore_list :: "'d cli_env \<Rightarrow> 'd options \<Rightarrow> config \<Rightarrow> os \<Rightarrow> int \<times> 'd shown list \<times> os" where
  "cli_restore_list E opts c s =
     (case cli_app E c opts of (r, a) \<Rightarrow>
        if r \<noteq> SYSEBA_OK then (1, [ErrOf r], s)
        else (case syseba_restore_list a (ce_memory E) (opt_path opts) (opt_search opts) (opt_page opts) (opt_page_size opts)
                     (opt_sort opts) (opt_direction opts) s of (r1, l, s1) \<Rightarrow>
                if r1 \<noteq> SYSEBA_OK then (1, [ErrOf r1], s1)
                else (0, if opt_output_json opts then [OutJson (cli_listing_json E l)] else cli_listing_text (opt_language opts) l, s1)))"

definition cli_strategy :: "'d options \<Rightarrow> restore_strategy" where
  "cli_strategy opts = (if opt_rename opts then RESTORE_RENAME else if opt_overwrite opts then RESTORE_OVERWRITE else RESTORE_FAIL)"

definition strategy_text :: "restore_strategy \<Rightarrow> string" where
  "strategy_text st = (if st = RESTORE_RENAME then ''rename'' else if st = RESTORE_OVERWRITE then ''overwrite'' else ''fail'')"

text \<open>
  The application with its log running: the directory of the log file is made first, and the database is
  initialised, whose result does not matter.
\<close>

definition cli_logging :: "'d cli_env \<Rightarrow> app \<Rightarrow> config \<Rightarrow> os \<Rightarrow> int \<times> app \<times> os" where
  "cli_logging E a c s =
     (let s1 = (case syseba_parent_dir (cfg_log_file c) SYSEBA_PATH_MAX of None \<Rightarrow> s | Some parent \<Rightarrow> snd (syseba_mkdirs parent s))
      in syseba_log_start (ce_log_thread E) a s1)"

definition cli_restore_copy :: "'d cli_env \<Rightarrow> 'd options \<Rightarrow> config \<Rightarrow> os \<Rightarrow> int \<times> 'd shown list \<times> os" where
  "cli_restore_copy E opts c s =
     (if opt_path opts = []
      then (2, [Err (syseba_tr (opt_language opts) ''restore-copy richiede --path'' ''restore-copy requires --path'' @ [newline])], s)
      else (case cli_app E c opts of (r, a) \<Rightarrow>
        if r \<noteq> SYSEBA_OK then (1, [ErrOf r], s)
        else (case cli_logging E a c s of (r1, a1, s1) \<Rightarrow>
          if r1 \<noteq> 0 then (1, [Err (''Error: unable to start logging'' @ [newline])], s1)
          else (case syseba_restore_item a1 (opt_path opts) (cli_strategy opts) SYSEBA_PATH_MAX s1 of
                  (Inl e, a2, s2) \<Rightarrow> (1, [ErrOf e], s2)
                | (Inr destination, a2, s2) \<Rightarrow>
                    (0, if opt_output_json opts
                        then [OutJson (JObj [(''ok'', JBool True), (''restored_to'', JStr destination),
                                (''strategy'', JStr (strategy_text (cli_strategy opts)))])]
                        else [Out (destination @ [newline])], s2)))))"

section \<open>The browser\<close>

text \<open>
  The interactive loop: the directory shown, the page, the application and what is left of standard
  input. Besides the output it yields the restores it asked for, each with its strategy.
\<close>

definition browser_line :: "language \<Rightarrow> nat \<times> restore_item \<Rightarrow> string" where
  "browser_line lang ni =
     (case ni of (n, i) \<Rightarrow>
        pad_left 3 (dec n) @ ''. '' @ pad_right 4 (if ri_is_directory i then ''DIR'' else ''FILE'') @ '' '' @
        pad_right 12 (dec (unat (ri_size i))) @ '' '' @ ri_name i @
        (if ri_destination_exists i then syseba_tr lang ''  [conflitto]'' ''  [conflict]'' else []) @ [newline])"

definition browser_page :: "language \<Rightarrow> restore_listing \<Rightarrow> 'd shown" where
  "browser_page lang l =
     Out ([CHR 0x1B] @ ''[2J'' @ [CHR 0x1B] @ ''[H'' @ ''SySeBa Restore Browser'' @ [newline] @ ''======================'' @ [newline] @
          syseba_tr lang ''Percorso'' ''Path'' @ '': /'' @ rl_path l @ [newline] @
          syseba_tr lang ''Pagina'' ''Page'' @ '' '' @ dec (rl_page l) @ ''/'' @ dec (rl_pages l) @ '' - '' @ dec (rl_total l) @ '' '' @
          syseba_tr lang ''elementi'' ''items'' @ [newline, newline] @
          concat (map (browser_line lang) (zip [1..<rl_count l + 1] (rl_items l))) @ [newline] @
          syseba_tr lang ''Numero=apri/ripristina, u=su, n=pagina successiva, p=precedente, q=esci''
            ''Number=open/restore, u=up, n=next page, p=previous, q=quit'' @ [newline] @ ''> '')"

text \<open>One \<^verbatim>\<open>fgets\<close> on standard input: the line, or \<open>None\<close> at the end, and the rest.\<close>

definition read_input :: "nat \<Rightarrow> string \<Rightarrow> string option \<times> string" where
  "read_input n stdin = (if stdin = [] then (None, []) else (case fgets n stdin of (line, rest) \<Rightarrow> (Some (c_string line), rest)))"

definition line_text :: "string \<Rightarrow> string" where
  "line_text line = takeWhile (\<lambda>c. c \<noteq> CHR 0x0D \<and> c \<noteq> CHR 0x0A) line"

text \<open>The answer to a conflict: the strategy, or \<open>None\<close> when the restore is cancelled.\<close>

definition conflict_answer :: "string \<Rightarrow> restore_strategy option" where
  "conflict_answer choice =
     (if choice \<noteq> [] \<and> (hd choice = CHR ''r'' \<or> hd choice = CHR ''R'') then Some RESTORE_RENAME
      else if choice \<noteq> [] \<and> (hd choice = CHR ''o'' \<or> hd choice = CHR ''O'') then Some RESTORE_OVERWRITE else None)"

definition conflict_prompt :: "language \<Rightarrow> 'd shown" where
  "conflict_prompt lang =
     Out (syseba_tr lang ''La destinazione esiste'' ''Destination exists'' @ '' [r='' @ syseba_tr lang ''rinomina'' ''rename'' @ '', o='' @
          syseba_tr lang ''sovrascrivi'' ''overwrite'' @ '', c='' @ syseba_tr lang ''annulla'' ''cancel'' @ '']: '')"

record 'd browser =
  br_current :: string
  br_page :: nat
  br_done :: bool
  br_input :: string
  br_app :: app
  br_os :: os
  br_shown :: "'d shown list"
  br_requests :: "(string \<times> restore_strategy) list"

definition show_text :: "'d shown \<Rightarrow> 'd browser \<Rightarrow> 'd browser" where
  "show_text x b = b\<lparr>br_shown := br_shown b @ [x]\<rparr>"

text \<open>Restoring the chosen file, the message and the wait for a key.\<close>

definition browser_restore :: "language \<Rightarrow> string \<Rightarrow> restore_strategy \<Rightarrow> 'd browser \<Rightarrow> 'd browser" where
  "browser_restore lang path strategy b =
     (case syseba_restore_item (br_app b) path strategy SYSEBA_PATH_MAX (br_os b) of (r, a1, s1) \<Rightarrow>
        let message = (case r of
              Inr destination \<Rightarrow> Out (syseba_tr lang ''Ripristinato in'' ''Restored to'' @ '': '' @ destination @ [newline])
            | Inl e \<Rightarrow> ErrOf e);
            b1 = show_text (Out (syseba_tr lang ''Invio per continuare...'' ''Press Enter to continue...''))
                   (show_text message (b\<lparr>br_app := a1, br_os := s1, br_requests := br_requests b @ [(path, strategy)]\<rparr>))
        in (case read_input 32 (br_input b1) of (line, rest) \<Rightarrow> b1\<lparr>br_input := rest, br_done := (line = None)\<rparr>))"

definition browser_select :: "language \<Rightarrow> restore_item \<Rightarrow> 'd browser \<Rightarrow> 'd browser" where
  "browser_select lang i b =
     (if ri_is_directory i then b\<lparr>br_current := cut SYSEBA_PATH_MAX (ri_path i), br_page := 1\<rparr>
      else if ri_destination_exists i
      then (case read_input 32 (br_input b) of (choice, rest) \<Rightarrow>
              let b1 = (show_text (conflict_prompt lang) b)\<lparr>br_input := rest\<rparr> in
              (case choice of
                 None \<Rightarrow> b1\<lparr>br_done := True\<rparr>
               | Some line \<Rightarrow>
                   (case conflict_answer line of None \<Rightarrow> b1 | Some strategy \<Rightarrow> browser_restore lang (ri_path i) strategy b1)))
      else browser_restore lang (ri_path i) RESTORE_FAIL b)"

text \<open>What one line of input does to the browser, after the page was shown.\<close>

definition browser_command :: "language \<Rightarrow> restore_listing \<Rightarrow> string \<Rightarrow> 'd browser \<Rightarrow> 'd browser" where
  "browser_command lang l input b =
     (if input = ''q'' then b\<lparr>br_done := True\<rparr>
      else if input = ''u''
      then b\<lparr>br_current := (case strrchr slash (br_current b) of None \<Rightarrow> [] | Some (parent, name) \<Rightarrow> parent), br_page := 1\<rparr>
      else if input = ''n'' \<and> rl_has_next l then b\<lparr>br_page := (br_page b + 1) mod 2 ^ 32\<rparr>
      else if input = ''p'' \<and> rl_has_previous l then b\<lparr>br_page := (br_page b + 2 ^ 32 - 1) mod 2 ^ 32\<rparr>
      else (case c_strtoul input of
              None \<Rightarrow> b
            | Some (selection, rest, erange) \<Rightarrow>
                if rest = [] \<and> 1 \<le> selection \<and> selection \<le> rl_count l then browser_select lang (rl_items l ! (selection - 1)) b else b))"

lemma read_input_shorter:
  "read_input n stdin = (answer, rest) \<Longrightarrow> length rest \<le> length stdin"
  "read_input n stdin = (Some line, rest) \<Longrightarrow> 1 < n \<Longrightarrow> length rest < length stdin"
  by (auto simp: read_input_def fgets_def Let_def split: if_splits)

lemma restore_input: "length (br_input (browser_restore lang path strategy b)) \<le> length (br_input b)"
  by (auto simp: browser_restore_def show_text_def Let_def dest: read_input_shorter(1) split: prod.splits)

lemma command_input: "length (br_input (browser_command lang l input b)) \<le> length (br_input b)"
proof -
  have "length (br_input (browser_select lang i b)) \<le> length (br_input b)" for i
    using restore_input
    by (fastforce simp: browser_select_def show_text_def Let_def dest: read_input_shorter(1) split: prod.splits option.splits intro: le_trans)
  then show ?thesis by (simp add: browser_command_def split: option.splits)
qed

lemma command_shorter:
  assumes "(Some line, rest) = read_input 128 stdin"
  shows "length (br_input (browser_command lang l input (b\<lparr>br_input := rest\<rparr>))) < length stdin"
proof -
  have "length (br_input (browser_command lang l input (b\<lparr>br_input := rest\<rparr>))) \<le> length rest"
    using command_input [of lang l input "b\<lparr>br_input := rest\<rparr>"] by simp
  also have "\<dots> < length stdin" using read_input_shorter(2) [OF assms [symmetric]] by simp
  finally show ?thesis .
qed

function browser_loop :: "'d cli_env \<Rightarrow> language \<Rightarrow> nat \<Rightarrow> 'd browser \<Rightarrow> 'd browser" where
  "browser_loop E lang page_size b =
     (if br_done b then b
      else (case syseba_restore_list (br_app b) (ce_memory E) (br_current b) [] (br_page b) page_size ''name'' ''asc'' (br_os b) of (r, l, s1) \<Rightarrow>
        if r \<noteq> SYSEBA_OK then show_text (ErrOf r) (b\<lparr>br_os := s1\<rparr>)
        else
          let b1 = show_text (browser_page lang l) (b\<lparr>br_os := s1\<rparr>) in
          (case read_input 128 (br_input b) of
             (None, rest) \<Rightarrow> b1\<lparr>br_input := rest, br_done := True\<rparr>
           | (Some line, rest) \<Rightarrow> browser_loop E lang page_size (browser_command lang l (line_text line) (b1\<lparr>br_input := rest\<rparr>)))))"
  by pat_completeness auto
termination
  by (relation "measure (\<lambda>(E, lang, page_size, b). length (br_input b))") (simp, auto intro: command_shorter)

declare browser_loop.simps [simp del]

definition browser_start :: "app \<Rightarrow> string \<Rightarrow> os \<Rightarrow> 'd browser" where
  "browser_start a stdin s =
     \<lparr>br_current = [], br_page = 1, br_done = False, br_input = stdin, br_app = a, br_os = s, br_shown = [], br_requests = []\<rparr>"

text \<open>The session: the exit status, the output, the restores asked for and the state.\<close>

definition cli_restore_browser ::
  "'d cli_env \<Rightarrow> 'd options \<Rightarrow> config \<Rightarrow> os \<Rightarrow> int \<times> 'd shown list \<times> (string \<times> restore_strategy) list \<times> os" where
  "cli_restore_browser E opts c s =
     (if \<not> ce_terminal_in E \<or> \<not> ce_terminal_out E
      then (2, [Err (syseba_tr (opt_language opts) ''restore-browser richiede un terminale interattivo''
                   ''restore-browser requires an interactive terminal'' @ [newline])], [], s)
      else (case cli_app E c opts of (r, a) \<Rightarrow>
        if r \<noteq> SYSEBA_OK then (1, [ErrOf r], [], s)
        else (case cli_logging E a c s of (r1, a1, s1) \<Rightarrow>
          if r1 \<noteq> 0 then (1, [Err (''Error: unable to start logging'' @ [newline])], [], s1)
          else
            let b = browser_loop E (opt_language opts) (if opt_page_size opts > 40 then 40 else opt_page_size opts) (browser_start a1 (ce_stdin E) s1)
            in (0, br_shown b, br_requests b, br_os b))))"

section \<open>Running\<close>

type_synonym wait_script = "(bool \<times> (app \<times> os \<Rightarrow> app \<times> os)) list"

text \<open>
  Waiting for the end, with a look at the stop request and at the pending signal in turn; \<open>None\<close> when
  the script ends before.
\<close>

fun cli_wait :: "wait_script \<Rightarrow> app \<times> os \<Rightarrow> (app \<times> os) option" where
  "cli_wait ws (a, s) =
     (if syseba_app_is_stopping a then Some (a, s)
      else (case ws of
              [] \<Rightarrow> None
            | (pending, others) # ws1 \<Rightarrow> if pending then Some (syseba_app_set_stopping a, s) else cli_wait ws1 (others (a, s))))"

text \<open>The pause of the dashboard between two pictures, in slices of at most 100 ms.\<close>

fun dashboard_pause :: "nat \<Rightarrow> nat \<Rightarrow> wait_script \<Rightarrow> app \<times> os \<Rightarrow> (wait_script \<times> app \<times> os) option" where
  "dashboard_pause refresh_ms elapsed ws (a, s) =
     (if syseba_app_is_stopping a \<or> elapsed \<ge> refresh_ms then Some (ws, a, s)
      else (case ws of
              [] \<Rightarrow> None
            | (pending, others) # ws1 \<Rightarrow>
                let slice = (if refresh_ms - elapsed > 100 then 100 else refresh_ms - elapsed)
                in if pending then Some (ws1, syseba_app_set_stopping a, s) else dashboard_pause refresh_ms (elapsed + slice) ws1 (others (a, s))))"

declare cli_wait.simps [simp del] dashboard_pause.simps [simp del]

lemma dashboard_pause_shorter: "dashboard_pause refresh_ms elapsed ws x = Some (ws1, y) \<Longrightarrow> length ws1 \<le> length ws"
proof (induction ws arbitrary: elapsed x)
  case Nil
  then show ?case by (cases x) (simp add: dashboard_pause.simps split: if_splits)
next
  case (Cons w ws)
  obtain a s pending others where x: "x = (a, s)" "w = (pending, others)" by (cases x; cases w)
  have "dashboard_pause refresh_ms e ws z = Some (ws1, y) \<Longrightarrow> length ws1 \<le> Suc (length ws)" for e z using Cons.IH [of e z] by simp
  with Cons.prems x show ?case by (auto simp: dashboard_pause.simps Let_def split: if_splits)
qed

function dashboard_run :: "nat \<Rightarrow> wait_script \<Rightarrow> app \<times> os \<Rightarrow> (app \<times> os) option" where
  "dashboard_run refresh_ms ws (a, s) =
     (if syseba_app_is_stopping a then Some (a, s)
      else (case ws of
              [] \<Rightarrow> None
            | (pending, others) # ws1 \<Rightarrow>
                if pending then Some (syseba_app_set_stopping a, s)
                else (case dashboard_pause refresh_ms 0 ws1 (others (a, s)) of
                        None \<Rightarrow> None
                      | Some (ws2, y) \<Rightarrow> dashboard_run refresh_ms ws2 y)))"
  by pat_completeness auto
termination
  by (relation "measure (\<lambda>(refresh_ms, ws, x). length ws)") (auto dest!: dashboard_pause_shorter)

declare dashboard_run.simps [simp del]

definition run_banner :: "'d options \<Rightarrow> app \<Rightarrow> 'd shown list" where
  "run_banner opts a =
     (if app_web_enabled a \<and> \<not> opt_silent opts
      then Out (syseba_tr (opt_language opts) ''Interfaccia Web'' ''Web interface'' @ '': http://'' @ app_web_host a @ '':'' @ int_text (app_web_port a) @ [newline]) #
           (if app_web_auth_enabled a \<and> (app_web_token_source a = ''file'' \<or> app_web_token_source a = ''generated-file'')
            then [Out (syseba_tr (opt_language opts) ''File token Web'' ''Web token file'' @ '': '' @ opt_token_path opts @ [newline])] else [])
      else [])"

text \<open>The application with its access settings, before it starts.\<close>

definition cli_prepare :: "'d cli_env \<Rightarrow> 'd options \<Rightarrow> config \<Rightarrow> os \<Rightarrow> (result \<times> app \<times> os) option" where
  "cli_prepare E opts c s =
     (case cli_app E c opts of (r, a) \<Rightarrow>
        if r \<noteq> SYSEBA_OK then Some (r, a, s)
        else if app_web_enabled a
        then (case syseba_web_load_token (fst (ce_random E)) (snd (ce_random E)) (ce_token E) opts a s of
                None \<Rightarrow> None
              | Some (r1, a1, s1) \<Rightarrow> Some (r1, if r1 \<noteq> SYSEBA_OK then cli_app_destroy a1 else a1, s1))
        else Some (SYSEBA_OK, a, s))"

definition cli_run :: "'d cli_env \<Rightarrow> 'd options \<Rightarrow> config \<Rightarrow> os \<Rightarrow> (int \<times> app \<times> 'd shown list \<times> os) option" where
  "cli_run E opts c s =
     (case cli_prepare E opts c s of
        None \<Rightarrow> None
      | Some (r, a, s1) \<Rightarrow>
          if r \<noteq> SYSEBA_OK then Some (1, a, [ErrOf r], s1)
          else (case syseba_app_start (ce_start E) (ce_stop E) a s1 of (r1, a1, s2) \<Rightarrow>
            if r1 \<noteq> SYSEBA_OK then Some (1, cli_app_destroy a1, [ErrOf r1], s2)
            else
              let a2 = (if ce_pending E then syseba_app_set_stopping a1 else a1) in
              (case (if \<not> opt_silent opts \<and> \<not> opt_web_only opts \<and> ce_terminal_out E
                     then dashboard_run (ce_refresh_ms E (opt_console_refresh opts)) (ce_wait E) (a2, s2) else cli_wait (ce_wait E) (a2, s2)) of
                 None \<Rightarrow> None
               | Some (a3, s3) \<Rightarrow> Some (0, cli_app_destroy (syseba_app_stop (ce_stop E) a3 s3), run_banner opts a2, s3))))"

section \<open>Dispatch\<close>

definition cli_service_install :: "'d cli_env \<Rightarrow> 'd options \<Rightarrow> os \<Rightarrow> int \<times> 'd shown list \<times> os" where
  "cli_service_install E input s =
     (case (if opt_config_path input = []
            then (case syseba_config_find [] (ce_config E) SYSEBA_PATH_MAX s of
                    (None, s1) \<Rightarrow> (cut SYSEBA_PATH_MAX SYSEBA_DEFAULT_CONFIG, s1) | (Some path, s1) \<Rightarrow> (path, s1))
            else (opt_config_path input, s)) of (path, s1) \<Rightarrow>
        (case syseba_service_install (ce_service E) (input\<lparr>opt_config_path := path\<rparr>) s1 of (r, s2) \<Rightarrow>
           if r \<noteq> SYSEBA_OK then (1, [ErrOf r], s2)
           else (0, [Out (syseba_tr (opt_language input) ''Servizio SySeBa installato e abilitato.'' ''SySeBa service installed and enabled.'' @ [newline])], s2)))"

definition syseba_cli_execute :: "'d cli_env \<Rightarrow> 'd options \<Rightarrow> os \<Rightarrow> (int \<times> 'd shown list \<times> os) option" where
  "syseba_cli_execute E input s =
     (if opt_command input = Some ''service-install'' then Some (cli_service_install E input s)
      else (case cli_load E input s of
              (Inl e, s1) \<Rightarrow> Some (2, [ErrOf e], s1)
            | (Inr (opts, c), s1) \<Rightarrow>
                if opt_command opts = Some ''status'' then Some (cli_status E opts c s1)
                else if opt_command opts = Some ''logs'' then Some (cli_logs E opts c s1)
                else if opt_command opts = Some ''config-check'' then Some (cli_config_check opts c s1)
                else if opt_command opts = Some ''restore-list'' then Some (cli_restore_list E opts c s1)
                else if opt_command opts = Some ''restore-browser''
                then (case cli_restore_browser E opts c s1 of (r, out, requests, s2) \<Rightarrow> Some (r, out, s2))
                else if opt_command opts = Some ''restore-copy'' then Some (cli_restore_copy E opts c s1)
                else (case cli_run E opts c s1 of None \<Rightarrow> None | Some (r, a, out, s2) \<Rightarrow> Some (r, out, s2))))"

text \<open>
  The program. The help and the version that the parser prints are not shown here, nor the usage after a
  wrong argument.
\<close>

definition main :: "'d cli_doubles \<Rightarrow> 'd cli_env \<Rightarrow> string list \<Rightarrow> os \<Rightarrow> (int \<times> 'd shown list \<times> os) option" where
  "main D E args s =
     (case syseba_cli_parse D args (options_defaults D) 1024 of (r, opts, message) \<Rightarrow>
        if r > 0 then Some (0, [], s)
        else if r < 0 then Some (2, [Err ((if opt_language opts = LANGUAGE_IT then ''Errore'' else ''Error'') @ '': '' @ message @ [newline, newline])], s)
        else syseba_cli_execute E opts s)"

end
