(* ===== verification/Web.thy ===== *)
theory Web
  imports Restore Status Web_Token
begin

text \<open>
  The HTTP interface of \<^verbatim>\<open>web.c\<close>: responses, authentication, query parameters, the handlers of the API
  and the dispatch of a request. The server library (\<^verbatim>\<open>civetweb\<close>) and the JSON library (\<^verbatim>\<open>cJSON\<close>) are
  given by a record of functions: writing to and reading from the connection, headers, decoding of
  query parameters, printing and parsing JSON (a JSON text that cannot be printed is \<open>None\<close>; building a
  value does not fail). The texts that the failing operations leave in their \<^verbatim>\<open>error\<close> buffers are a
  function of the result and the state.
\<close>

section \<open>Requests and the libraries\<close>

record request =
  rq_method :: string
  rq_local_uri :: "string option"
  rq_request_uri :: string
  rq_query_string :: "string option"
  rq_content_length :: int

text \<open>
  \<open>we_read\<close> returns the bytes read, none when the count is not positive; \<open>we_get_var\<close> the decoded value
  of a parameter if it is present and fits the buffer.
\<close>

record ('c, 'd) web_env =
  we_printf :: "string \<Rightarrow> 'c \<Rightarrow> int \<times> 'c"
  we_write :: "string \<Rightarrow> 'c \<Rightarrow> int \<times> 'c"
  we_read :: "nat \<Rightarrow> 'c \<Rightarrow> string \<times> 'c"
  we_get_header :: "'c \<Rightarrow> string \<Rightarrow> string option"
  we_get_var :: "string \<Rightarrow> string \<Rightarrow> nat \<Rightarrow> string option"
  we_print :: "'d json \<Rightarrow> string option"
  we_parse :: "string \<Rightarrow> 'd json option"
  we_status :: "'d status_env"
  we_message :: "result \<Rightarrow> os \<Rightarrow> string"
  we_data_memory :: bool
  we_memory :: "nat \<Rightarrow> bool"
  we_fork :: bool
  we_html :: string
  we_js :: string
  we_logo :: string

section \<open>Responses\<close>

definition http_reason :: "int \<Rightarrow> string" where
  "http_reason status =
     (if status = 200 then ''OK'' else if status = 400 then ''Bad Request'' else if status = 401 then ''Unauthorized''
      else if status = 403 then ''Forbidden'' else if status = 404 then ''Not Found'' else if status = 409 then ''Conflict''
      else if status = 413 then ''Payload Too Large'' else if status = 500 then ''Internal Server Error''
      else if status = 503 then ''Service Unavailable'' else ''Error'')"

definition crlf :: string where
  "crlf = [CHR 0x0D, CHR 0x0A]"

definition http_head :: "int \<Rightarrow> string \<Rightarrow> nat \<Rightarrow> string \<Rightarrow> string" where
  "http_head status content_type body_size extra_headers =
     ''HTTP/1.1 '' @ int_text status @ '' '' @ http_reason status @ crlf @
     ''Content-Type: '' @ content_type @ crlf @
     ''Content-Length: '' @ dec body_size @ crlf @
     ''Cache-Control: no-store'' @ crlf @
     ''X-Content-Type-Options: nosniff'' @ crlf @
     ''X-Frame-Options: DENY'' @ crlf @
     ''Referrer-Policy: no-referrer'' @ crlf @
     ''Content-Security-Policy: default-src 'self'; script-src 'self'; '' @
     ''style-src 'self' 'unsafe-inline'; img-src 'self' data:; '' @
     ''object-src 'none'; base-uri 'none'; frame-ancestors 'none'; '' @
     ''form-action 'self'' @ [CHR 0x27] @ crlf @
     extra_headers @
     ''Connection: close'' @ crlf @ crlf"

text \<open>The conversion of a size to \<^verbatim>\<open>int\<close>.\<close>

definition c_int :: "nat \<Rightarrow> int" where
  "c_int n = sint (of_nat n :: 32 word)"

definition http_send :: "('c, 'd) web_env \<Rightarrow> 'c \<Rightarrow> int \<Rightarrow> string \<Rightarrow> string \<Rightarrow> string \<Rightarrow> int \<times> 'c" where
  "http_send E c status content_type body extra_headers =
     (case we_printf E (http_head status content_type (length body) extra_headers) c of (r, c1) \<Rightarrow>
        if r < 0 then (- 1, c1)
        else if length body > 0
        then (case we_write E body c1 of (n, c2) \<Rightarrow> if n \<noteq> c_int (length body) then (- 1, c2) else (status, c2))
        else (status, c1))"

definition http_send_json_text :: "('c, 'd) web_env \<Rightarrow> 'c \<Rightarrow> int \<Rightarrow> string \<Rightarrow> string \<Rightarrow> int \<times> 'c" where
  "http_send_json_text E c status json extra_headers =
     http_send E c status ''application/json; charset=utf-8'' json extra_headers"

definition http_send_json :: "('c, 'd) web_env \<Rightarrow> 'c \<Rightarrow> int \<Rightarrow> 'd json \<Rightarrow> string \<Rightarrow> int \<times> 'c" where
  "http_send_json E c status json extra_headers =
     (case we_print E json of
        None \<Rightarrow> http_send_json_text E c 500
          ''{\"ok\":false,\"code\":\"internal_error\",\"error\":\"Unable to serialize response\"}'' []
      | Some body \<Rightarrow> http_send_json_text E c status body extra_headers)"

definition http_error :: "('c, 'd) web_env \<Rightarrow> 'c \<Rightarrow> int \<Rightarrow> string \<Rightarrow> string \<Rightarrow> int \<times> 'c" where
  "http_error E c status code message =
     http_send_json E c status (JObj [(''ok'', JBool False), (''code'', JStr code), (''error'', JStr message)]) []"

section \<open>Authentication\<close>

definition http_authorized :: "('c, 'd) web_env \<Rightarrow> 'c \<Rightarrow> app \<Rightarrow> bool" where
  "http_authorized E c a \<longleftrightarrow>
     \<not> app_web_auth_enabled a \<or>
     (case we_get_header E c ''X-SySeBa-Token'' of None \<Rightarrow> False | Some supplied \<Rightarrow> constant_time_equal supplied (app_web_token a)) \<or>
     (case we_get_header E c ''Authorization'' of
        None \<Rightarrow> False
      | Some authorization \<Rightarrow>
          length authorization > 7 \<and> strcasecmp_eq (take 7 authorization) ''Bearer '' \<and>
          constant_time_equal (drop 7 authorization) (app_web_token a))"

definition http_require_auth :: "('c, 'd) web_env \<Rightarrow> 'c \<Rightarrow> app \<Rightarrow> int \<times> 'c" where
  "http_require_auth E c a =
     (if http_authorized E c a then (0, c)
      else http_send_json E c 401
        (JObj [(''ok'', JBool False), (''error'', JStr (syseba_tr (app_language a) ''Autenticazione richiesta.'' ''Authentication required.''))])
        (''WWW-Authenticate: Bearer realm=\"SySeBa\"'' @ crlf))"

section \<open>Query parameters\<close>

definition query_value :: "('c, 'd) web_env \<Rightarrow> request \<Rightarrow> string \<Rightarrow> string \<Rightarrow> nat \<Rightarrow> int \<times> string" where
  "query_value E q name fallback n =
     (case rq_query_string q of
        None \<Rightarrow> (if fits n fallback then 0 else - 1, cut n fallback)
      | Some qs \<Rightarrow>
          (case we_get_var E qs name n of
             None \<Rightarrow> (if fits n fallback then 0 else - 1, cut n fallback)
           | Some v \<Rightarrow> (0, v)))"

definition query_unsigned :: "('c, 'd) web_env \<Rightarrow> request \<Rightarrow> string \<Rightarrow> nat \<Rightarrow> nat \<Rightarrow> nat" where
  "query_unsigned E q name fallback maximum =
     (case query_value E q name [] 32 of (r, v) \<Rightarrow>
        if r \<noteq> 0 \<or> v = [] then fallback
        else (case c_strtoul v of
                None \<Rightarrow> fallback
              | Some (parsed, rest, erange) \<Rightarrow>
                  if erange \<or> rest \<noteq> [] \<or> parsed = 0 then fallback
                  else (if parsed > maximum then maximum else parsed) mod 2 ^ 32))"

definition query_text :: "('c, 'd) web_env \<Rightarrow> request \<Rightarrow> string \<Rightarrow> string \<Rightarrow> nat \<Rightarrow> string" where
  "query_text E q name fallback n = snd (query_value E q name fallback n)"

section \<open>Status, log and configuration\<close>

text \<open>A handler returns the status it sent (or \<open>-1\<close>), the connection, the application and the system.\<close>

type_synonym 'c reply = "int \<times> 'c \<times> app \<times> os"

definition answered :: "int \<times> 'c \<Rightarrow> app \<Rightarrow> os \<Rightarrow> 'c reply" where
  "answered r a s = (fst r, snd r, a, s)"

text \<open>
  \<^verbatim>\<open>syseba_config_state_json\<close>: the status is printed, parsed and its member \<^verbatim>\<open>config_state\<close> taken out
  (\<^verbatim>\<open>cJSON_DetachItemFromObject\<close> compares names without regard to case).
\<close>

definition json_detach :: "string \<Rightarrow> 'd json \<Rightarrow> 'd json option" where
  "json_detach name j =
     (case j of
        JObj ms \<Rightarrow> map_option snd (find (\<lambda>(k, v). strcasecmp_eq k name) ms)
      | _ \<Rightarrow> None)"

definition config_state_json :: "('c, 'd) web_env \<Rightarrow> app \<Rightarrow> os \<Rightarrow> 'd json option \<times> app \<times> os" where
  "config_state_json E a s =
     (case syseba_app_status_json (we_status E) a s of (j, a1, s1) \<Rightarrow>
        (case we_print E j of
           None \<Rightarrow> (None, a1, s1)
         | Some status_text \<Rightarrow>
             (case we_parse E status_text of
                None \<Rightarrow> (None, a1, s1)
              | Some status \<Rightarrow> (json_detach ''config_state'' status, a1, s1))))"

definition http_status :: "('c, 'd) web_env \<Rightarrow> 'c \<Rightarrow> app \<Rightarrow> os \<Rightarrow> 'c reply" where
  "http_status E c a s =
     (case syseba_app_status_json (we_status E) a s of (j, a1, s1) \<Rightarrow>
        (case we_print E j of
           None \<Rightarrow> answered (http_error E c 500 ''internal_error'' ''Unable to build status'') a1 s1
         | Some json \<Rightarrow> answered (http_send_json_text E c 200 json []) a1 s1))"

definition http_logs :: "('c, 'd) web_env \<Rightarrow> request \<Rightarrow> 'c \<Rightarrow> app \<Rightarrow> os \<Rightarrow> 'c reply" where
  "http_logs E q c a s =
     (case syseba_log_tail (we_data_memory E) (we_memory E) (cfg_log_file (app_config a))
             (of_nat (query_unsigned E q ''lines'' 200 2000)) s of (lines, s1) \<Rightarrow>
        answered (http_send_json E c 200 (JObj [(''lines'', JArr (map JStr lines))]) []) a s1)"

definition http_config_get :: "('c, 'd) web_env \<Rightarrow> 'c \<Rightarrow> app \<Rightarrow> os \<Rightarrow> 'c reply" where
  "http_config_get E c a s =
     (case syseba_config_load (cfg_config_path (app_config a)) s of
        (Inl e, s1) \<Rightarrow> answered (http_error E c 500 ''config_error'' (we_message E e s1)) a s1
      | (Inr config, s1) \<Rightarrow> answered (http_send_json E c 200 (json_config (se_ops (we_status E)) config) []) a s1)"

definition http_config_state :: "('c, 'd) web_env \<Rightarrow> 'c \<Rightarrow> app \<Rightarrow> os \<Rightarrow> 'c reply" where
  "http_config_state E c a s =
     (case config_state_json E a s of
        (None, a1, s1) \<Rightarrow> answered (http_error E c 500 ''internal_error'' ''Unable to build configuration state'') a1 s1
      | (Some state, a1, s1) \<Rightarrow> answered (http_send_json E c 200 state []) a1 s1)"

text \<open>The loop around \<^verbatim>\<open>mg_read\<close>: \<open>n\<close> bytes are still to come.\<close>

function read_body :: "('c, 'd) web_env \<Rightarrow> nat \<Rightarrow> string \<Rightarrow> 'c \<Rightarrow> string option \<times> 'c" where
  "read_body E n body c =
     (if n = 0 then (Some body, c)
      else (case we_read E n c of (bytes, c1) \<Rightarrow>
              if bytes = [] then (None, c1) else read_body E (n - length bytes) (body @ bytes) c1))"
  by pat_completeness auto

termination
  by (relation "measure (\<lambda>(E, n, body, c). n)") auto

declare read_body.simps [simp del]

definition http_read_json ::
  "('c, 'd) web_env \<Rightarrow> request \<Rightarrow> 'c \<Rightarrow> app \<Rightarrow> ((int \<times> string) + 'd json) \<times> 'c \<times> app" where
  "http_read_json E q c a =
     (if rq_content_length q < 0 \<or> rq_content_length q > int SYSEBA_MAX_JSON_BODY
      then (Inl (if rq_content_length q > int SYSEBA_MAX_JSON_BODY then 413 else 400, ''Invalid request body size''), c, a)
      else (case allocate a of
              (False, a1) \<Rightarrow> (Inl (500, ''Out of memory''), c, a1)
            | (True, a1) \<Rightarrow>
                (case read_body E (nat (rq_content_length q)) [] c of
                   (None, c1) \<Rightarrow> (Inl (400, ''Incomplete request body''), c1, a1)
                 | (Some body, c1) \<Rightarrow>
                     (case we_parse E body of
                        Some (JObj ms) \<Rightarrow> (Inr (JObj ms), c1, a1)
                      | _ \<Rightarrow> (Inl (400, ''Invalid JSON object''), c1, a1)))))"

definition json_copy_path :: "'d json \<Rightarrow> string \<Rightarrow> string \<Rightarrow> string + string" where
  "json_copy_path root name current =
     (case json_get name root of
        None \<Rightarrow> Inr current
      | Some (JStr v) \<Rightarrow> if v = [] \<or> \<not> fits SYSEBA_PATH_MAX v then Inl (''Invalid '' @ name) else Inr v
      | Some _ \<Rightarrow> Inl (''Invalid '' @ name))"

text \<open>\<^verbatim>\<open>strtol(s, &end, 10)\<close>: the value, saturated to \<^verbatim>\<open>long\<close>, and the unread rest; \<open>None\<close> is "no conversion".\<close>

definition c_strtol :: "string \<Rightarrow> (int \<times> string) option" where
  "c_strtol v =
     (let v1 = dropWhile c_isspace v;
          neg = (v1 \<noteq> [] \<and> hd v1 = CHR ''-'');
          v2 = (if v1 \<noteq> [] \<and> (hd v1 = CHR ''-'' \<or> hd v1 = CHR ''+'') then tl v1 else v1);
          ds = takeWhile c_isdigit v2;
          n = (if neg then - int (digits_value ds) else int (digits_value ds))
      in if ds = [] then None else Some (max (- (2 ^ 63)) (min (2 ^ 63 - 1) n), dropWhile c_isdigit v2))"

definition json_threads :: "'d double_ops \<Rightarrow> 'd json \<Rightarrow> int" where
  "json_threads D j =
     (case j of
        JNum v \<Rightarrow> if d_num D (d_long D v) \<noteq> v then 0 else d_long D v
      | JStr v \<Rightarrow> (case c_strtol v of None \<Rightarrow> 0 | Some (parsed, rest) \<Rightarrow> if rest \<noteq> [] then 0 else parsed)
      | _ \<Rightarrow> 0)"

text \<open>The configuration a request asks for: the active one with the members of the request.\<close>

definition json_candidate :: "'d double_ops \<Rightarrow> 'd json \<Rightarrow> config \<Rightarrow> string + config" where
  "json_candidate D input c =
     (case json_copy_path input ''source'' (cfg_source c) of Inl e \<Rightarrow> Inl e | Inr source \<Rightarrow>
     (case json_copy_path input ''backup'' (cfg_backup c) of Inl e \<Rightarrow> Inl e | Inr backup \<Rightarrow>
     (case json_copy_path input ''restore'' (cfg_restore c) of Inl e \<Rightarrow> Inl e | Inr restore \<Rightarrow>
     (case json_copy_path input ''log_file'' (cfg_log_file c) of Inl e \<Rightarrow> Inl e | Inr log_file \<Rightarrow>
        let c1 = c\<lparr>cfg_source := source, cfg_backup := backup, cfg_restore := restore, cfg_log_file := log_file\<rparr> in
        (case json_get ''threads'' input of
           None \<Rightarrow> Inr c1
         | Some t \<Rightarrow>
             if json_threads D t < 1 \<or> json_threads D t > int SYSEBA_MAX_THREADS then Inl ''threads must be between 1 and 64''
             else Inr (c1\<lparr>cfg_threads := nat (json_threads D t)\<rparr>))))))"

definition config_saved ::
  "('c, 'd) web_env \<Rightarrow> config \<Rightarrow> 'c \<Rightarrow> app \<Rightarrow> os \<Rightarrow> 'c reply" where
  "config_saved E candidate c a s =
     (let a1 = a\<lparr>app_restart_required := config_differs candidate (app_config a)\<rparr>;
          a2 = syseba_log_emit ''INFO'' ''CONFIG'' (cfg_config_path (app_config a1)) [] []
                 (syseba_tr (app_language a1) ''Configurazione aggiornata dalla Web UI'' ''Configuration updated from Web UI'') s a1
      in case config_state_json E a2 s of
           (None, a3, s1) \<Rightarrow> answered (http_error E c 500 ''internal_error'' ''Unable to build configuration response'') a3 s1
         | (Some state, a3, s1) \<Rightarrow>
             answered (http_send_json E c 200
               (JObj [(''ok'', JBool True), (''restart_required'', JBool (app_restart_required a3)),
                      (''config'', json_config (se_ops (we_status E)) candidate), (''state'', state),
                      (''message'', JStr (if app_restart_required a3
                         then syseba_tr (app_language a3) ''Configurazione salvata. Riavvia SySeBa per applicarla.''
                                ''Configuration saved. Restart SySeBa to apply it.''
                         else syseba_tr (app_language a3) (''Configurazione salvata e gi'' @ [CHR 0xC3, CHR 0xA0] @ '' attiva.'')
                                ''Configuration saved and already active.''))]) []) a3 s1)"

definition http_config_post :: "('c, 'd) web_env \<Rightarrow> request \<Rightarrow> 'c \<Rightarrow> app \<Rightarrow> os \<Rightarrow> 'c reply" where
  "http_config_post E q c a s =
     (case http_read_json E q c a of
        (Inl (status, message), c1, a1) \<Rightarrow> answered (http_error E c1 status ''invalid_request'' message) a1 s
      | (Inr input, c1, a1) \<Rightarrow>
          (case json_candidate (se_ops (we_status E)) input (app_config a1) of
             Inl message \<Rightarrow> answered (http_error E c1 400 ''invalid_request'' message) a1 s
           | Inr candidate \<Rightarrow>
               (case syseba_config_normalize candidate s of
                  (Inl e, s1) \<Rightarrow> answered (http_error E c1 400 ''config_error'' (we_message E e s1)) a1 s1
                | (Inr normalized, s1) \<Rightarrow>
                    (case syseba_config_save normalized s1 of (r, s2) \<Rightarrow>
                       if r \<noteq> SYSEBA_OK
                       then answered (http_error E c1 (if os_errno s2 = Some EACCES then 403 else 400) ''config_error'' (we_message E r s2)) a1 s2
                       else config_saved E normalized c1 a1 s2))))"

section \<open>The restore area\<close>

fun human_loop :: "'d double_ops \<Rightarrow> 'd \<Rightarrow> string \<Rightarrow> string list \<Rightarrow> 'd \<times> string" where
  "human_loop D v unit [] = (v, unit)"
| "human_loop D v unit (u # us) = (if d_ge D v (d_num D 1024) then human_loop D (d_div D v (d_num D 1024)) u us else (v, unit))"

definition human_size :: "'d double_ops \<Rightarrow> 64 word \<Rightarrow> nat \<Rightarrow> string" where
  "human_size D sz n =
     (case human_loop D (d_word D sz) ''B'' [''KB'', ''MB'', ''GB'', ''TB'', ''PB''] of (v, unit) \<Rightarrow> cut n (d_text1 D v @ '' '' @ unit))"

definition json_size :: "'d double_ops \<Rightarrow> bool \<Rightarrow> 64 word \<Rightarrow> (string \<times> 'd json) list" where
  "json_size D directory sz =
     (if directory then [(''size'', JNull), (''size_human'', JStr ''-'')]
      else [(''size'', JNum (d_word D sz)), (''size_human'', JStr (human_size D sz 64))])"

definition restore_item_json :: "'d double_ops \<Rightarrow> restore_item \<Rightarrow> 'd json" where
  "restore_item_json D i =
     JObj ([(''name'', JStr (ri_name i)), (''path'', JStr (ri_path i)), (''is_dir'', JBool (ri_is_directory i))] @
           json_size D (ri_is_directory i) (ri_size i) @
           [(''mtime'', JStr (ri_mtime i)), (''destination_exists'', JBool (ri_destination_exists i))])"

definition listing_json :: "'d double_ops \<Rightarrow> restore_listing \<Rightarrow> string \<Rightarrow> string \<Rightarrow> string \<Rightarrow> 'd json" where
  "listing_json D l search sort_by direction =
     JObj [(''path'', JStr (rl_path l)), (''is_file'', JBool (rl_is_file l)),
           (''items'', JArr (map (restore_item_json D) (take (rl_count l) (rl_items l)))),
           (''search'', JStr search), (''sort'', JStr sort_by), (''direction'', JStr direction),
           (''page'', JNum (d_num D (int (rl_page l)))), (''page_size'', JNum (d_num D (int (rl_page_size l)))),
           (''pages'', JNum (d_num D (int (rl_pages l)))), (''total'', JNum (d_num D (int (rl_total l)))),
           (''has_previous'', JBool (rl_has_previous l)), (''has_next'', JBool (rl_has_next l))]"

definition http_restore_list :: "('c, 'd) web_env \<Rightarrow> request \<Rightarrow> 'c \<Rightarrow> app \<Rightarrow> os \<Rightarrow> 'c reply" where
  "http_restore_list E q c a s =
     (let page = query_unsigned E q ''page'' 1 4294967295;
          page_size = query_unsigned E q ''page_size'' SYSEBA_DEFAULT_RESTORE_PAGE SYSEBA_MAX_RESTORE_PAGE;
          path = query_text E q ''path'' [] SYSEBA_PATH_MAX;
          search = query_text E q ''search'' [] 512;
          asked_sort = query_text E q ''sort'' ''name'' 16;
          asked_direction = query_text E q ''direction'' ''asc'' 8;
          sort_by = (if asked_sort \<noteq> ''name'' \<and> asked_sort \<noteq> ''mtime'' \<and> asked_sort \<noteq> ''size'' then ''name'' else asked_sort);
          direction = (if asked_direction \<noteq> ''desc'' then ''asc'' else asked_direction)
      in case syseba_restore_list a (we_memory E) path search page page_size sort_by direction s of (r, listing, s1) \<Rightarrow>
           if r \<noteq> SYSEBA_OK
           then answered (http_error E c (if r = SYSEBA_ERR_NOT_FOUND then 404 else 400)
                  (if r = SYSEBA_ERR_NOT_FOUND then ''not_found'' else ''invalid_request'') (we_message E r s1)) a s1
           else answered (http_send_json E c 200 (listing_json (se_ops (we_status E)) listing search sort_by direction) []) a s1)"

definition restore_info_json ::
  "'d double_ops \<Rightarrow> string \<Rightarrow> string \<Rightarrow> string \<Rightarrow> bool \<Rightarrow> 64 word \<Rightarrow> string \<Rightarrow> bool \<Rightarrow> 'd json" where
  "restore_info_json D relative source destination directory sz mtime destination_exists =
     JObj ([(''name'', JStr (base_name source)), (''path'', JStr relative), (''is_dir'', JBool directory)] @
           json_size D directory sz @
           [(''mtime'', JStr mtime), (''destination'', JStr destination), (''destination_exists'', JBool destination_exists)])"

definition http_restore_info :: "('c, 'd) web_env \<Rightarrow> request \<Rightarrow> 'c \<Rightarrow> app \<Rightarrow> os \<Rightarrow> 'c reply" where
  "http_restore_info E q c a s =
     (let relative = query_text E q ''path'' [] SYSEBA_PATH_MAX;
          invalid = http_error E c 400 ''invalid_request'' ''Invalid restore item path''
      in if relative = [] then answered invalid a s
         else (case syseba_safe_join (cfg_restore (app_config a)) relative SYSEBA_PATH_MAX s of
                 (None, s1) \<Rightarrow> answered invalid a s1
               | (Some source, s1) \<Rightarrow>
                   (case syseba_safe_join (cfg_source (app_config a)) relative SYSEBA_PATH_MAX s1 of
                      (None, s2) \<Rightarrow> answered invalid a s2
                    | (Some destination, s2) \<Rightarrow>
                        (case syseba_fs_stat source s2 of
                           (None, s3) \<Rightarrow> answered (http_error E c 404 ''not_found'' ''Restore item not found'') a s3
                         | (Some (sz, mtime_ns, directory), s3) \<Rightarrow>
                             (case syseba_fs_exists destination s3 of (destination_exists, s4) \<Rightarrow>
                                answered (http_send_json E c 200
                                  (restore_info_json (se_ops (we_status E)) relative source destination directory sz
                                    (syseba_iso_from_time (seconds_of mtime_ns) s3) destination_exists) []) a s4)))))"

definition json_strategy :: "'d json option \<Rightarrow> (restore_strategy \<times> string) option" where
  "json_strategy j =
     (let name = (case j of Some (JStr v) \<Rightarrow> v | _ \<Rightarrow> ''fail'') in
      if name = ''rename'' then Some (RESTORE_RENAME, ''rename'')
      else if name = ''overwrite'' then Some (RESTORE_OVERWRITE, ''overwrite'')
      else if name \<noteq> ''fail'' then None else Some (RESTORE_FAIL, ''fail''))"

definition http_restore_post :: "('c, 'd) web_env \<Rightarrow> request \<Rightarrow> 'c \<Rightarrow> app \<Rightarrow> os \<Rightarrow> 'c reply" where
  "http_restore_post E q c a s =
     (case http_read_json E q c a of
        (Inl (status, message), c1, a1) \<Rightarrow> answered (http_error E c1 status ''invalid_request'' message) a1 s
      | (Inr input, c1, a1) \<Rightarrow>
          (case json_get ''path'' input of
             Some (JStr (x # xs)) \<Rightarrow>
               (case json_strategy (json_get ''strategy'' input) of
                  None \<Rightarrow> answered (http_error E c1 400 ''invalid_request'' ''Invalid restore strategy'') a1 s
                | Some (strategy, strategy_name) \<Rightarrow>
                    (case syseba_restore_item a1 (x # xs) strategy SYSEBA_PATH_MAX s of
                       (Inl r, a2, s1) \<Rightarrow>
                         answered (http_error E c1 (if r = SYSEBA_ERR_NOT_FOUND then 404 else if r = SYSEBA_ERR_EXISTS then 409 else 400)
                           (if r = SYSEBA_ERR_NOT_FOUND then ''not_found'' else if r = SYSEBA_ERR_EXISTS then ''destination_exists''
                            else ''invalid_request'') (we_message E r s1)) a2 s1
                     | (Inr destination, a2, s1) \<Rightarrow>
                         answered (http_send_json E c1 200
                           (JObj [(''ok'', JBool True), (''restored_to'', JStr destination), (''strategy'', JStr strategy_name),
                                  (''message'', JStr (syseba_tr (app_language a2) ''Elemento ripristinato correttamente.''
                                     ''Item restored successfully.''))]) []) a2 s1))
           | _ \<Rightarrow> answered (http_error E c1 400 ''invalid_request'' ''restore path is required'') a1 s))"

section \<open>Downloads\<close>

definition unsafe_name_char :: "char \<Rightarrow> bool" where
  "unsafe_name_char x \<longleftrightarrow> x = CHR 0x22 \<or> x = CHR 0x0D \<or> x = CHR 0x0A \<or> x = slash \<or> x = backslash \<or> uchar x < 32"

definition safe_download_name :: "string \<Rightarrow> nat \<Rightarrow> string" where
  "safe_download_name path n =
     (let name = base_name path; name1 = (if name = [] then ''download'' else name)
      in map (\<lambda>x. if unsafe_name_char x then CHR ''_'' else x) (take (n - 1) name1))"

definition download_header :: "string \<Rightarrow> string" where
  "download_header path =
     cut 1024 (''Content-Disposition: attachment; filename='' @ [CHR 0x22] @ safe_download_name path 512 @ [CHR 0x22] @ crlf)"

definition download_head :: "string \<Rightarrow> 64 word \<Rightarrow> string" where
  "download_head path file_size =
     ''HTTP/1.1 200 OK'' @ crlf @ ''Content-Type: application/octet-stream'' @ crlf @
     ''Content-Length: '' @ dec (unat file_size) @ crlf @ ''Cache-Control: no-store'' @ crlf @
     ''X-Content-Type-Options: nosniff'' @ crlf @ download_header path @ ''Connection: close'' @ crlf @ crlf"

definition download_buffer :: nat where
  "download_buffer = 1024 * 1024"

text \<open>The loop that sends what \<^verbatim>\<open>fread\<close> delivers, buffer by buffer; a short buffer is the last one.\<close>

function send_chunks :: "('c, 'd) web_env \<Rightarrow> string \<Rightarrow> 'c \<Rightarrow> int \<times> 'c" where
  "send_chunks E contents c =
     (let chunk = take download_buffer contents in
      if chunk = [] then (200, c)
      else (case we_write E chunk c of (n, c1) \<Rightarrow>
              if n \<noteq> c_int (length chunk) then (500, c1)
              else if length chunk < download_buffer then (200, c1)
              else send_chunks E (drop download_buffer contents) c1))"
  by pat_completeness auto

termination
  by (relation "measure (\<lambda>(E, contents, c). length contents)") (auto simp: download_buffer_def)

declare send_chunks.simps [simp del]

definition http_download :: "('c, 'd) web_env \<Rightarrow> request \<Rightarrow> 'c \<Rightarrow> app \<Rightarrow> os \<Rightarrow> 'c reply" where
  "http_download E q c a s =
     (let relative = query_text E q ''path'' [] SYSEBA_PATH_MAX;
          missing = http_error E c 404 ''not_found'' ''File not found''
      in if relative = [] then answered missing a s
         else (case syseba_safe_join (cfg_restore (app_config a)) relative SYSEBA_PATH_MAX s of
                 (None, s1) \<Rightarrow> answered missing a s1
               | (Some path, s1) \<Rightarrow>
                   (case syseba_open_regular_read path s1 of
                      (None, s2) \<Rightarrow> answered missing a s2
                    | (Some (loc, file_size), s2) \<Rightarrow>
                        (case we_printf E (download_head path file_size) c of (r, c1) \<Rightarrow>
                           if r < 0 then (500, c1, a, snd (sys_fclose loc s2))
                           else (case stdio_read loc s2 of ((contents, failed), s3) \<Rightarrow>
                                   answered (send_chunks E contents c1) a (snd (sys_fclose loc s3)))))))"

section \<open>Dispatch\<close>

text \<open>
  \<^verbatim>\<open>syseba_service_request_restart\<close>: the restart is scheduled in a child process when systemd started the
  program.
\<close>

definition service_request_restart :: "('c, 'd) web_env \<Rightarrow> result" where
  "service_request_restart E =
     (if \<not> se_restart_available (we_status E) then SYSEBA_ERR else if \<not> we_fork E then SYSEBA_ERR else SYSEBA_OK)"

definition http_restart :: "('c, 'd) web_env \<Rightarrow> 'c \<Rightarrow> app \<Rightarrow> os \<Rightarrow> 'c reply" where
  "http_restart E c a s =
     (if service_request_restart E \<noteq> SYSEBA_OK
      then answered (http_error E c 503 ''restart_unavailable'' (we_message E (service_request_restart E) s)) a s
      else
        let a1 = syseba_log_emit ''WARNING'' ''SERVICE'' [] [] []
                   (syseba_tr (app_language a) ''Riavvio del servizio richiesto dalla Web UI'' ''Service restart requested from Web UI'') s a
        in answered (http_send_json E c 200
             (JObj [(''ok'', JBool True), (''message'', JStr (syseba_tr (app_language a1) ''Riavvio del servizio richiesto.''
                ''Service restart requested.''))]) []) a1 s)"

text \<open>\<^verbatim>\<open>strstr\<close>: the index of the first occurrence.\<close>

fun c_strstr :: "string \<Rightarrow> string \<Rightarrow> nat option" where
  "c_strstr [] marker = (if marker = [] then Some 0 else None)"
| "c_strstr (x # xs) marker = (if prefix marker (x # xs) then Some 0 else map_option Suc (c_strstr xs marker))"

definition http_index :: "('c, 'd) web_env \<Rightarrow> 'c \<Rightarrow> app \<Rightarrow> os \<Rightarrow> 'c reply" where
  "http_index E c a s =
     (let marker = ''__SYSEBA_LANG__''; lang = (if app_language a = LANGUAGE_EN then ''en'' else ''it'') in
      case c_strstr (c_string (we_html E)) marker of
        None \<Rightarrow> answered (http_send E c 200 ''text/html; charset=utf-8'' (we_html E) []) a s
      | Some position \<Rightarrow>
          (case allocate a of
             (False, a1) \<Rightarrow> answered (http_error E c 500 ''internal_error'' ''Out of memory'') a1 s
           | (True, a1) \<Rightarrow>
               answered (http_send E c 200 ''text/html; charset=utf-8''
                 (take position (we_html E) @ lang @ drop (position + length marker) (we_html E)) []) a1 s))"

definition http_handler :: "('c, 'd) web_env \<Rightarrow> request \<Rightarrow> 'c \<Rightarrow> app \<Rightarrow> os \<Rightarrow> 'c reply" where
  "http_handler E q c a s =
     (let path = (case rq_local_uri q of None \<Rightarrow> rq_request_uri q | Some uri \<Rightarrow> uri);
          get = (rq_method q = ''GET''); post = (rq_method q = ''POST'')
      in if get \<and> path = ''/'' then http_index E c a s
         else if get \<and> path = ''/webui.js''
         then answered (http_send E c 200 ''application/javascript; charset=utf-8'' (we_js E) []) a s
         else if get \<and> (path = ''/logo'' \<or> path = ''/favicon.ico'')
         then answered (http_send E c 200 ''image/webp'' (we_logo E) []) a s
         else if get \<and> path = ''/api/auth''
         then answered (http_send_json E c 200 (JObj [(''required'', JBool (app_web_auth_enabled a))]) []) a s
         else if \<not> get \<and> \<not> post
         then answered (http_error E c 400 ''invalid_method'' ''Unsupported HTTP method'') a s
         else (case http_require_auth E c a of (unauthorized, c1) \<Rightarrow>
           if unauthorized \<noteq> 0 then (unauthorized, c1, a, s)
           else if get \<and> path = ''/api/status'' then http_status E c1 a s
           else if get \<and> path = ''/api/logs'' then http_logs E q c1 a s
           else if get \<and> path = ''/api/config'' then http_config_get E c1 a s
           else if get \<and> path = ''/api/config/state'' then http_config_state E c1 a s
           else if post \<and> path = ''/api/config'' then http_config_post E q c1 a s
           else if get \<and> path = ''/api/restore'' then http_restore_list E q c1 a s
           else if get \<and> path = ''/api/restore/info'' then http_restore_info E q c1 a s
           else if post \<and> path = ''/api/restore'' then http_restore_post E q c1 a s
           else if get \<and> path = ''/restore/download'' then http_download E q c1 a s
           else if post \<and> path = ''/api/service/restart'' then http_restart E c1 a s
           else answered (http_error E c1 404 ''not_found'' (syseba_tr (app_language a) ''Risorsa non trovata.'' ''Not found.'')) a s))"

section \<open>Who is let in\<close>

text \<open>A request presents the token in its own header or as a bearer token.\<close>

definition presents_token :: "('c, 'd) web_env \<Rightarrow> 'c \<Rightarrow> string \<Rightarrow> bool" where
  "presents_token E c token \<longleftrightarrow>
     we_get_header E c ''X-SySeBa-Token'' = Some token \<or>
     token \<noteq> [] \<and> (\<exists>scheme. map c_tolower scheme = ''bearer '' \<and> we_get_header E c ''Authorization'' = Some (scheme @ token))"

text \<open>Headers are C strings.\<close>

definition headers_ok :: "('c, 'd) web_env \<Rightarrow> 'c \<Rightarrow> bool" where
  "headers_ok E c \<longleftrightarrow> (\<forall>name v. we_get_header E c name = Some v \<longrightarrow> CHR 0x00 \<notin> set v)"

lemma bearer_lower: "map c_tolower ''Bearer '' = ''bearer ''"
  by (simp add: c_tolower_def uchar_def char_of_def bit_iff_odd)

lemma authorized_iff:
  assumes "headers_ok E c" "CHR 0x00 \<notin> set (app_web_token a)"
  shows "http_authorized E c a \<longleftrightarrow> \<not> app_web_auth_enabled a \<or> presents_token E c (app_web_token a)"
proof -
  let ?t = "app_web_token a"
  have x: "(case we_get_header E c ''X-SySeBa-Token'' of None \<Rightarrow> False | Some v \<Rightarrow> constant_time_equal v ?t) \<longleftrightarrow>
      we_get_header E c ''X-SySeBa-Token'' = Some ?t"
    using assms by (auto simp: headers_ok_def constant_time_equal_strings split: option.splits)
  have bearer: "length v > 7 \<and> strcasecmp_eq (take 7 v) ''Bearer '' \<and> constant_time_equal (drop 7 v) ?t \<longleftrightarrow>
      ?t \<noteq> [] \<and> (\<exists>scheme. map c_tolower scheme = ''bearer '' \<and> v = scheme @ ?t)"
    if "CHR 0x00 \<notin> set v" for v
  proof -
    have "constant_time_equal (drop 7 v) ?t \<longleftrightarrow> drop 7 v = ?t"
      using constant_time_equal_strings [OF _ assms(2)] that by (meson in_set_dropD)
    moreover have "length scheme = 7" if "map c_tolower scheme = ''bearer ''" for scheme
      using arg_cong [OF that, of length] by simp
    ultimately show ?thesis
      using append_take_drop_id [of 7 v] unfolding strcasecmp_eq_def bearer_lower by fastforce
  qed
  show ?thesis
    using x bearer assms(1) unfolding http_authorized_def presents_token_def headers_ok_def
    by (cases "we_get_header E c ''Authorization''") auto
qed

text \<open>A request that is refused gets an answer other than 0.\<close>

lemma send_not_zero: "status \<noteq> 0 \<Longrightarrow> fst (http_send E c status ct body extra) \<noteq> 0"
  by (simp add: http_send_def split: prod.splits)

lemma require_auth_refuses: "\<not> http_authorized E c a \<Longrightarrow> fst (http_require_auth E c a) \<noteq> 0"
  by (simp add: http_require_auth_def http_send_json_def http_send_json_text_def send_not_zero split: option.splits)

lemma answered_simps [simp]:
  "fst (answered r a s) = fst r" "fst (snd (answered r a s)) = snd r"
  "fst (snd (snd (answered r a s))) = a" "snd (snd (snd (answered r a s))) = s"
  by (simp_all add: answered_def)

lemma allocate_memory: "allocate a = (b, a') \<Longrightarrow> a' = a\<lparr>app_memory := app_memory a'\<rparr>"
  by (auto simp: allocate_def split: list.splits)

lemma allocate_same: "app_memory a = app_memory b \<Longrightarrow> fst (allocate a) = fst (allocate b)"
  by (simp add: allocate_def split: list.splits)

lemma index_inert:
  "snd (snd (snd (http_index E c a s))) = s"
  "fst (snd (snd (http_index E c a s))) = a\<lparr>app_memory := app_memory (fst (snd (snd (http_index E c a s))))\<rparr>"
  by (auto simp: http_index_def Let_def dest: allocate_memory split: option.splits prod.splits bool.splits)

lemma index_same:
  assumes "app_language a = app_language b" "app_memory a = app_memory b"
  shows "fst (http_index E c a s) = fst (http_index E c b t)" "fst (snd (http_index E c a s)) = fst (snd (http_index E c b t))"
  using assms(1) allocate_same [OF assms(2)]
  by (auto simp: http_index_def Let_def split: option.splits prod.splits bool.splits)

lemma require_auth_same:
  assumes "app_language a = app_language b" "\<not> http_authorized E c a" "\<not> http_authorized E c b"
  shows "http_require_auth E c a = http_require_auth E c b"
  using assms by (simp add: http_require_auth_def)

text \<open>What a handler does for a request that is not let in.\<close>

lemma handler_refused:
  assumes "\<not> http_authorized E c a"
  shows "http_handler E q c a s =
    (let path = (case rq_local_uri q of None \<Rightarrow> rq_request_uri q | Some uri \<Rightarrow> uri);
         get = (rq_method q = ''GET''); post = (rq_method q = ''POST'')
     in if get \<and> path = ''/'' then http_index E c a s
        else if get \<and> path = ''/webui.js''
        then answered (http_send E c 200 ''application/javascript; charset=utf-8'' (we_js E) []) a s
        else if get \<and> (path = ''/logo'' \<or> path = ''/favicon.ico'')
        then answered (http_send E c 200 ''image/webp'' (we_logo E) []) a s
        else if get \<and> path = ''/api/auth''
        then answered (http_send_json E c 200 (JObj [(''required'', JBool True)]) []) a s
        else if \<not> get \<and> \<not> post
        then answered (http_error E c 400 ''invalid_method'' ''Unsupported HTTP method'') a s
        else answered (http_require_auth E c a) a s)"
proof -
  have "app_web_auth_enabled a" using assms by (simp add: http_authorized_def)
  moreover obtain u c1 where "http_require_auth E c a = (u, c1)" "u \<noteq> 0"
    using require_auth_refuses [OF assms] by (cases "http_require_auth E c a") auto
  ultimately show ?thesis unfolding http_handler_def Let_def by (simp add: answered_def)
qed

lemma refused_inert:
  assumes "\<not> http_authorized E c a"
  shows "snd (snd (snd (http_handler E q c a s))) = s"
    and "fst (snd (snd (http_handler E q c a s))) = a\<lparr>app_memory := app_memory (fst (snd (snd (http_handler E q c a s))))\<rparr>"
  unfolding handler_refused [OF assms] Let_def by (simp_all add: index_inert(1)) (intro impI, rule index_inert(2))

text \<open>
  C4: a request without the token does nothing and learns nothing. While authentication is on, a request
  that presents the token in neither header leaves the file system and the application as they
  were (but for the memory of the page it may be sent), and its answer depends on nothing of either
  but the language: any other application and system state with authentication on would have
  given the same answer. This holds for every method, path and body, and also when sending the refusal fails.
\<close>

theorem unauthorized_request_inert:
  assumes "headers_ok E c"
    and "app_web_auth_enabled a" "CHR 0x00 \<notin> set (app_web_token a)" "\<not> presents_token E c (app_web_token a)"
    and "app_web_auth_enabled b" "CHR 0x00 \<notin> set (app_web_token b)" "\<not> presents_token E c (app_web_token b)"
    and "app_language b = app_language a" "app_memory b = app_memory a"
    and "http_handler E q c a s = (r, c', a', s')"
  shows "s' = s \<and> a' = a\<lparr>app_memory := app_memory a'\<rparr> \<and>
    fst (http_handler E q c b t) = r \<and> fst (snd (http_handler E q c b t)) = c'"
proof -
  have na: "\<not> http_authorized E c a" "\<not> http_authorized E c b"
    using authorized_iff [OF assms(1)] assms(2-7) by simp_all
  have run: "fst (http_handler E q c a s) = r" "fst (snd (http_handler E q c a s)) = c'"
    "fst (snd (snd (http_handler E q c a s))) = a'" "snd (snd (snd (http_handler E q c a s))) = s'"
    using assms(10) by simp_all
  note refused_inert [OF na(1), of q s]
  moreover have "fst (http_handler E q c b t) = fst (http_handler E q c a s)"
    "fst (snd (http_handler E q c b t)) = fst (snd (http_handler E q c a s))"
    unfolding handler_refused [OF na(1)] handler_refused [OF na(2)] Let_def
    using index_same [OF assms(8,9), of E c t s] require_auth_same [OF assms(8) na(2,1)] by simp_all
  ultimately show ?thesis unfolding run by simp
qed

text \<open>A connection for examples: what was sent, and a single header.\<close>

definition demo_web :: "(string, int) web_env" where
  "demo_web = \<lparr>we_printf = (\<lambda>t c. (int (length t), c @ t)), we_write = (\<lambda>t c. (int (length t), c @ t)), we_read = (\<lambda>n c. ([], c)),
     we_get_header = (\<lambda>c name. if name = ''Authorization'' then Some ''bearer guess'' else None),
     we_get_var = (\<lambda>qs name n. if name = ''path'' \<and> fits n qs then Some qs else None),
     we_print = (\<lambda>j. Some ''{}''), we_parse = (\<lambda>t. Some JNull),
     we_status = \<lparr>se_ops = \<lparr>d_num = (\<lambda>n. n), d_mul = (*), d_div = (div), d_ge = (\<ge>), d_text1 = (\<lambda>n. dec (nat n)), d_long = (\<lambda>n. n)\<rparr>,
       se_version = ''1'', se_statvfs = (\<lambda>_. None), se_cpu = None, se_memory = None, se_threads = 0, se_restart_available = True\<rparr>,
     we_message = (\<lambda>_ _. ''failed''), we_data_memory = True, we_memory = (\<lambda>_. True), we_fork = True,
     we_html = ''<html>__SYSEBA_LANG__</html>'', we_js = [], we_logo = []\<rparr>"

definition demo_request :: "string \<Rightarrow> string \<Rightarrow> request" where
  "demo_request how path = \<lparr>rq_method = how, rq_local_uri = Some path, rq_request_uri = path, rq_query_string = Some ''a'', rq_content_length = 0\<rparr>"

theorem unauthorized_request_inert_witness:
  "let a = demo_app\<lparr>app_web_auth_enabled := True, app_web_token := ''0123456789abcdef''\<rparr>;
       p = http_handler demo_web (demo_request ''POST'' ''/api/service/restart'') [] a demo_os
   in snd (snd (snd p)) = demo_os \<and> fst p = fst (http_handler demo_web (demo_request ''POST'' ''/api/service/restart'') []
        (a\<lparr>app_web_token := ''another-token-here'', app_running := True\<rparr>) quiet_os)"
proof -
  let ?a = "demo_app\<lparr>app_web_auth_enabled := True, app_web_token := ''0123456789abcdef''\<rparr>"
  let ?b = "?a\<lparr>app_web_token := ''another-token-here'', app_running := True\<rparr>"
  let ?q = "demo_request ''POST'' ''/api/service/restart''"
  have h: "headers_ok demo_web []" by (simp add: headers_ok_def demo_web_def)
  have "\<not> presents_token demo_web [] ''0123456789abcdef''" "\<not> presents_token demo_web [] ''another-token-here''"
    by (auto simp: presents_token_def demo_web_def dest!: arg_cong [of _ _ "\<lambda>v. last v"])
  with unauthorized_request_inert [OF h, of ?a ?b ?q demo_os "fst (http_handler demo_web ?q [] ?a demo_os)"
      "fst (snd (http_handler demo_web ?q [] ?a demo_os))" "fst (snd (snd (http_handler demo_web ?q [] ?a demo_os)))"
      "snd (snd (snd (http_handler demo_web ?q [] ?a demo_os)))" quiet_os]
  show ?thesis by (simp add: Let_def)
qed

end
