(* ===== verification/Web_Safety.thy ===== *)
theory Web_Safety
  imports Web
begin

text \<open>
  What requests to the Web interface can change. The frames of the handlers: a read request changes no
  file and nothing of the application but the flag that a restart is required, and no request
  changes the active configuration, the token or whether it is required. Downloads and the numbers of
  a query: the header of a download stays one header line, the file arrives unchanged, the
  numbers are in range.
\<close>

section \<open>Reading operations\<close>

text \<open>A routine that reads runs its steps one after the other, each from the state the last one left.\<close>

context reading
begin

lemma R_case2:
  assumes "R s (snd m)" and "\<And>x s1. m = (x, s1) \<Longrightarrow> R s1 (snd (k x s1))"
  shows "R s (snd (case m of (x, s1) \<Rightarrow> k x s1))"
  using assms by (cases m) (auto intro: R_trans)

lemma R_case3:
  assumes "R s (snd m)" and "\<And>x s1. m = (x, s1) \<Longrightarrow> R s1 (snd (snd (k x s1)))"
  shows "R s (snd (snd (case m of (x, s1) \<Rightarrow> k x s1)))"
  using assms by (cases m) (auto intro: R_trans)

lemma R_case4:
  assumes "R s (snd m)" and "\<And>x s1. m = (x, s1) \<Longrightarrow> R s1 (snd (snd (snd (k x s1))))"
  shows "R s (snd (snd (snd (case m of (x, s1) \<Rightarrow> k x s1))))"
  using assms by (cases m) (auto intro: R_trans)

end

text \<open>
  A routine that reads the contents of files sees the changes that others make to them; as long as there
  are none in the schedule it changes nothing either.
\<close>

definition steady :: "os \<Rightarrow> os \<Rightarrow> bool" where
  "steady s s' \<longleftrightarrow> (undisturbed s \<longrightarrow> quiet s s')"

lemma quiet_undisturbed: "quiet s s' \<Longrightarrow> undisturbed s \<Longrightarrow> undisturbed s'"
  using quiet_suffix [of s s'] by (auto simp: undisturbed_def suffix_def)

interpretation steady: reading steady
  by unfold_locales (auto simp: steady_def intro: quiet_trans quiet_tick quiet_undisturbed)

lemma steady_quiet: "quiet s s' \<Longrightarrow> steady s s'"
  by (simp add: steady_def)

lemma fread_at_steady [simp]: "steady s (snd (fread_at loc off n s))"
proof (cases "\<exists>f s1. tick s = (SChange f, s1)")
  case True
  then show ?thesis by (auto simp: steady_def undisturbed_def tick_def split: list.splits)
next
  case False
  obtain ev s1 where t: "tick s = (ev, s1)" by (cases "tick s")
  then have "quiet s1 (snd (fread_at loc off n s))"
    using False by (auto simp: fread_at_def apply_change_def Let_def split: sysev.splits option.splits)
  with quiet_tick [OF t] show ?thesis by (auto simp: steady_def intro: quiet_trans)
qed

lemma tail_start_steady [simp]: "steady s (snd (tail_start loc lines position found s))"
proof (induction loc lines position found s rule: tail_start.induct)
  case (1 loc lines position found s)
  define chunk where "chunk = (if position > tail_chunk then tail_chunk else position)"
  have IH: "steady s1 (snd (tail_start loc lines (position - chunk) found' s1))"
    if "\<not> (position = 0 \<or> found > lines)" "fread_at loc (position - chunk) chunk s = (Some buffer, s1)"
      "scan_chunk chunk buffer found lines = (None, found')" for buffer s1 found'
    by (rule "1.IH" [OF that(1) chunk_def refl that(2) [symmetric] refl that(3) [symmetric] refl])
  obtain b s1 where f: "fread_at loc (position - chunk) chunk s = (b, s1)" by (cases "fread_at loc (position - chunk) chunk s")
  have "steady s s1" using fread_at_steady [of s loc "position - chunk" chunk] f by simp
  then show ?case
    unfolding tail_start.simps [of loc lines position found s] Let_def chunk_def [symmetric]
    using IH f by (auto intro: steady.R_trans split: option.splits prod.splits)
qed

lemma log_tail_steady: "steady s (snd (syseba_log_tail data_memory memory path lines s))"
  unfolding syseba_log_tail_def
  by (auto simp: frame steady_quiet intro!: steady.R_case2 split: option.splits sum.splits node.splits)

lemma restore_entry_quiet: "quiet s (snd (restore_entry a path name st s))"
  by (cases "restore_entry a path name st s") (simp add: restore_entry_frame)

lemma restore_entries_quiet: "quiet s (snd (snd (restore_entries a memory target search broken names items s)))"
proof (induction a memory target search broken names items s rule: restore_entries.induct)
  case (2 a memory target search broken name names items s)
  then show ?case
    by (auto simp: Let_def frame restore_entry_quiet intro!: quiet.R_case3 split: option.splits)
qed (simp add: Let_def split: option.splits)

lemma restore_read_directory_quiet: "quiet s (snd (snd (restore_read_directory a memory target search s)))"
  unfolding restore_read_directory_def
  by (auto simp: frame intro!: quiet.R_case3 split: sum.splits intro: quiet_trans [OF clear_errno_quiet(1) restore_entries_quiet])

lemma quiet_triple: "quiet s (snd (snd m)) \<Longrightarrow> (\<And>x y s1. m = (x, y, s1) \<Longrightarrow> quiet s1 (snd (snd (k x y s1)))) \<Longrightarrow>
    quiet s (snd (snd (case m of (x, y, s1) \<Rightarrow> k x y s1)))"
  by (cases m) (auto intro: quiet_trans)

lemma restore_list_quiet: "quiet s (snd (snd (syseba_restore_list a memory relative search page page_size sort_by direction s)))"
  unfolding syseba_restore_list_def Let_def
  by (auto simp: frame restore_read_directory_quiet intro!: quiet.R_case3 quiet_triple split: option.splits bool.splits)

section \<open>Read requests\<close>

text \<open>What a read request may do: nothing to the system, and to the application only the two fields.\<close>

definition reads_only :: "app \<Rightarrow> os \<Rightarrow> 'c reply \<Rightarrow> bool" where
  "reads_only a s reply \<longleftrightarrow>
     (case reply of (r, c, a', s') \<Rightarrow>
        steady s s' \<and> a' = a\<lparr>app_memory := app_memory a', app_restart_required := app_restart_required a'\<rparr>)"

lemma reads_only_answered: "steady s s' \<Longrightarrow> reads_only a s (answered r a s')"
  by (simp add: reads_only_def answered_def)

lemma reads_only_case:
  assumes "steady s (snd m)" and "\<And>x s1. m = (x, s1) \<Longrightarrow> reads_only a s1 (k x s1)"
  shows "reads_only a s (case m of (x, s1) \<Rightarrow> k x s1)"
  using assms by (cases m) (force simp: reads_only_def intro: steady.R_trans)

lemma reads_only_case3:
  assumes "steady s (snd (snd m))" and "\<And>x y s1. m = (x, y, s1) \<Longrightarrow> reads_only a s1 (k x y s1)"
  shows "reads_only a s (case m of (x, y, s1) \<Rightarrow> k x y s1)"
  using assms by (cases m) (force simp: reads_only_def intro: steady.R_trans)

lemma reads_only_sent: "(\<And>r c1. reads_only a s (k r c1)) \<Longrightarrow> reads_only a s (case (m :: int \<times> 'c) of (r, c1) \<Rightarrow> (k r c1 :: 'c reply))"
  by (cases m) simp

lemma status_json_frame:
  assumes "syseba_app_status_json D a s = (j, a', s')"
  shows "steady s s'" "a' = a\<lparr>app_restart_required := app_restart_required a'\<rparr>"
proof -
  obtain ns t where m: "syseba_monotonic_ns s = (ns, t)" by (cases "syseba_monotonic_ns s")
  obtain l t1 where l: "syseba_config_load (cfg_config_path (app_config a)) t = (l, t1)"
    by (cases "syseba_config_load (cfg_config_path (app_config a)) t")
  obtain x t2 where x: "syseba_fs_exists (app_lock_path a) t1 = (x, t2)" by (cases "syseba_fs_exists (app_lock_path a) t1")
  have "quiet s t" "quiet t t1" "quiet t1 t2"
    using monotonic_quiet [of s] m config_load_quiet [of t "cfg_config_path (app_config a)"] l exists_quiet [of t1 "app_lock_path a"] x
    by simp_all
  moreover have "s' = t2 \<and> a' = a\<lparr>app_restart_required := app_restart_required a'\<rparr>"
    using assms m l x by (cases l) (auto simp: syseba_app_status_json_def json_config_state_def Let_def)
  ultimately show "steady s s'" "a' = a\<lparr>app_restart_required := app_restart_required a'\<rparr>"
    by (auto intro!: steady_quiet intro: quiet_trans)
qed

lemma reads_only_status:
  "syseba_app_status_json D a s = (j, b, t) \<Longrightarrow> reads_only a s (answered r b t)"
  using status_json_frame [of D a s j b t] by (cases a; cases b) (auto simp: reads_only_def answered_def)

lemma allocate_reads_only: "allocate a = (ok, a1) \<Longrightarrow> reads_only a s (answered r a1 s)"
  by (auto simp: reads_only_def answered_def allocate_def split: list.splits)

lemma get_handlers_read_only:
  "reads_only a s (http_status E c a s)" "reads_only a s (http_config_state E c a s)"
  "reads_only a s (http_logs E q c a s)" "reads_only a s (http_config_get E c a s)"
  "reads_only a s (http_restore_info E q c a s)" "reads_only a s (http_index E c a s)"
  "reads_only a s (http_download E q c a s)" "reads_only a s (http_restore_list E q c a s)"
proof -
  obtain j b t where st: "syseba_app_status_json (we_status E) a s = (j, b, t)" by (cases "syseba_app_status_json (we_status E) a s") auto
  show "reads_only a s (http_status E c a s)" "reads_only a s (http_config_state E c a s)"
    by (simp_all add: http_status_def http_config_state_def config_state_json_def st reads_only_status [OF st] split: option.splits)
  show "reads_only a s (http_logs E q c a s)" "reads_only a s (http_config_get E c a s)"
    unfolding http_logs_def http_config_get_def
    by (auto simp: log_tail_steady steady_quiet frame reads_only_answered intro!: reads_only_case split: sum.splits)
  show "reads_only a s (http_restore_info E q c a s)" "reads_only a s (http_download E q c a s)"
    unfolding http_restore_info_def http_download_def Let_def
    by (auto simp: steady_quiet frame reads_only_answered reads_only_def [of a _ "(_, _, _, _)"]
        intro!: reads_only_case reads_only_sent split: option.splits)
  show "reads_only a s (http_index E c a s)"
    by (auto simp: http_index_def Let_def reads_only_answered allocate_reads_only split: option.splits prod.splits bool.splits)
  show "reads_only a s (http_restore_list E q c a s)"
    unfolding http_restore_list_def Let_def
    by (rule reads_only_case3) (simp_all add: restore_list_quiet steady_quiet reads_only_answered)
qed

text \<open>
  C21: a read request changes nothing. As long as nobody else changes files while it runs, a \<^verbatim>\<open>GET\<close> request
  (pages, status, log, configuration, listing, details, download), whatever its path and parameters
  and whatever calls fail, leaves every file and directory as it was, and of the application it
  changes nothing but the flag that a restart is required, which the status refreshes.
\<close>

theorem get_request_reads_only:
  assumes "rq_method q = ''GET''" "undisturbed s" "http_handler E q c a s = (r, c', a', s')"
  shows "os_fs s' = os_fs s \<and>
    a' = a\<lparr>app_memory := app_memory a', app_restart_required := app_restart_required a'\<rparr>"
proof -
  obtain u c1 where u: "http_require_auth E c a = (u, c1)" by (cases "http_require_auth E c a")
  have "reads_only a s (http_handler E q c a s)"
    unfolding http_handler_def Let_def assms(1) u
    by (auto simp: get_handlers_read_only reads_only_answered reads_only_def [of a _ "(_, _, _, _)"])
  then show ?thesis using assms(2,3) quiet_fs [of s s'] by (simp add: reads_only_def steady_def)
qed

theorem get_request_reads_only_witness:
  "let p = http_handler demo_web (demo_request ''GET'' ''/restore/download'') [] demo_app demo_os
   in os_fs (snd (snd (snd p))) = os_fs demo_os \<and> app_stats (fst (snd (snd p))) = app_stats demo_app"
proof -
  let ?p = "http_handler demo_web (demo_request ''GET'' ''/restore/download'') [] demo_app demo_os"
  have q: "rq_method (demo_request ''GET'' ''/restore/download'') = ''GET''" by (simp add: demo_request_def)
  have u: "undisturbed demo_os" by (simp add: undisturbed_def demo_eval)
  from get_request_reads_only [OF q u, of demo_web "[]" demo_app "fst ?p" "fst (snd ?p)" "fst (snd (snd ?p))" "snd (snd (snd ?p))"]
  have fs: "os_fs (snd (snd (snd ?p))) = os_fs demo_os"
    and a: "fst (snd (snd ?p)) = demo_app\<lparr>app_memory := app_memory (fst (snd (snd ?p))), app_restart_required := app_restart_required (fst (snd (snd ?p)))\<rparr>"
    by simp_all
  have "app_stats (fst (snd (snd ?p))) = app_stats demo_app" by (subst a) simp
  with fs show ?thesis unfolding Let_def by blast
qed

section \<open>What no request changes\<close>

definition access :: "app \<Rightarrow> config \<times> string \<times> bool" where
  "access a = (app_config a, app_web_token a, app_web_auth_enabled a)"

lemma access_updates [simp]:
  "access (snd (allocate a)) = access a" "access (count_error a) = access a" "access (on_stderr l a) = access a"
  "access (a\<lparr>app_log_queue := x\<rparr>) = access a" "access (on_stats f a) = access a" "access (a\<lparr>app_restart_required := b\<rparr>) = access a"
  by (simp_all add: access_def allocate_def count_error_def on_stderr_def on_stats_def split: list.splits)

lemma allocate_access: "allocate a = (b, a1) \<Longrightarrow> access a1 = access a"
  using access_updates(1) [of a] by simp

lemma recent_add_access [simp]: "access (recent_add l s a) = access a"
proof -
  obtain b a1 where a1: "allocate a = (b, a1)" by (cases "allocate a")
  from allocate_access [OF a1] a1 show ?thesis by (auto simp: recent_add_def access_def)
qed

lemma log_emit_access [simp]: "access (syseba_log_emit level op p t x m s a) = access a"
proof -
  obtain b1 a1 where 1: "allocate a = (b1, a1)" by (cases "allocate a")
  let ?r = "make_record level op p t x m s"
  let ?a2 = "if lr_level ?r = ''ERROR'' then count_error (recent_add (log_line ?r) s a1) else recent_add (log_line ?r) s a1"
  obtain b3 a3 where 3: "allocate ?a2 = (b3, a3)" by (cases "allocate ?a2")
  have "access a1 = access a" "access a3 = access a1"
    using allocate_access [OF 1] allocate_access [OF 3] by simp_all
  with 1 3 show ?thesis by (auto simp: syseba_log_emit_def Let_def split: bool.splits prod.splits)
qed

lemma access_same:
  "a' = a\<lparr>app_restart_required := x\<rparr> \<Longrightarrow> access a' = access a"
  "a' = a\<lparr>app_memory := y, app_restart_required := x\<rparr> \<Longrightarrow> access a' = access a"
  by (simp_all add: access_def)

lemma reads_only_access: "reads_only a s reply \<Longrightarrow> access (fst (snd (snd reply))) = access a"
  by (cases reply) (auto simp: reads_only_def intro: access_same(2))

lemma read_json_access: "http_read_json E q c a = (j, c1, a1) \<Longrightarrow> access a1 = access a"
  by (auto simp: http_read_json_def dest: allocate_access split: if_splits prod.splits bool.splits option.splits json.splits)

lemma restore_item_access: "access (fst (snd (syseba_restore_item a relative strategy n s))) = access a"
  by (simp add: syseba_restore_item_def restore_done_def Let_def split: option.splits prod.splits bool.splits sum.splits)

lemma config_saved_access: "access (fst (snd (snd (config_saved E candidate c a s)))) = access a"
proof -
  have "access a' = access b" if "config_state_json E b s = (j, a', s')" for b j a' s'
  proof -
    obtain k a1 t where k: "syseba_app_status_json (we_status E) b s = (k, a1, t)"
      by (cases "syseba_app_status_json (we_status E) b s") auto
    then have "a1 = a'" using that by (simp add: config_state_json_def split: option.splits)
    with k have "syseba_app_status_json (we_status E) b s = (k, a', t)" by simp
    from status_json_frame(2) [OF this] show ?thesis by (rule access_same(1))
  qed
  then show ?thesis by (simp add: config_saved_def Let_def split: prod.splits option.splits)
qed

lemma post_handlers_access:
  "access (fst (snd (snd (http_config_post E q c a s)))) = access a"
  "access (fst (snd (snd (http_restore_post E q c a s)))) = access a"
  "access (fst (snd (snd (http_restart E c a s)))) = access a"
proof -
  obtain j c1 a1 where j: "http_read_json E q c a = (j, c1, a1)" by (cases "http_read_json E q c a") auto
  note a1 = read_json_access [OF j]
  show "access (fst (snd (snd (http_config_post E q c a s)))) = access a"
    using a1 by (simp add: http_config_post_def j config_saved_access split: sum.splits prod.splits)
  have r: "access b = access a1" if "syseba_restore_item a1 relative strategy n s = (x, b, t)" for relative strategy n x b t
    using restore_item_access [of a1 relative strategy n s] that by simp
  show "access (fst (snd (snd (http_restore_post E q c a s)))) = access a"
    using a1 by (auto simp: http_restore_post_def j r split: sum.splits prod.splits option.splits json.splits list.splits)
  show "access (fst (snd (snd (http_restart E c a s)))) = access a" by (simp add: http_restart_def Let_def)
qed

lemma handler_access: "access (fst (snd (snd (http_handler E q c a s)))) = access a"
proof -
  obtain u c1 where u: "http_require_auth E c a = (u, c1)" by (cases "http_require_auth E c a")
  show ?thesis
    unfolding http_handler_def Let_def u
    by (simp add: post_handlers_access get_handlers_read_only [THEN reads_only_access])
qed

text \<open>
  No request changes the running program's configuration or its protection. Whatever a request
  asks for, authorised or not, and whatever calls fail, the active configuration (a new one only
  becomes active at the next start), the token and whether a token is required are afterwards what
  they were before.
\<close>

theorem request_keeps_access: "access (fst (snd (snd (http_handler E q c a s)))) = access a"
  by (rule handler_access)

section \<open>Downloads and numbers\<close>

lemma base_name_chars: "set (safe_download_name path n) \<subseteq> {x. \<not> unsafe_name_char x}"
  by (auto simp: safe_download_name_def Let_def unsafe_name_char_def uchar_def backslash_def)

text \<open>
  C38: the name of a file cannot break out of the header of its download. The header is never cut off
  (name and text fit its buffer), the name is not empty, and it contains no quote, slash, backslash
  or control character, in particular no line break: whatever the file is called, the browser
  receives one header line with one quoted name.
\<close>

theorem download_header_intact:
  "download_header path = ''Content-Disposition: attachment; filename='' @ [CHR 0x22] @ safe_download_name path 512 @ [CHR 0x22] @ crlf \<and>
   safe_download_name path 512 \<noteq> [] \<and> length (safe_download_name path 512) < 512 \<and>
   set (safe_download_name path 512) \<subseteq> {x. x \<notin> {CHR 0x22, slash, backslash} \<and> 32 \<le> uchar x}"
proof -
  let ?n = "safe_download_name path 512"
  have len: "length ?n < 512" by (simp add: safe_download_name_def Let_def)
  then have "length (''Content-Disposition: attachment; filename='' @ [CHR 0x22] @ ?n @ [CHR 0x22] @ crlf) < 1024" by (simp add: crlf_def)
  then have "download_header path = ''Content-Disposition: attachment; filename='' @ [CHR 0x22] @ ?n @ [CHR 0x22] @ crlf"
    unfolding download_header_def by (intro cut_fits) (simp add: fits_def)
  moreover have "?n \<noteq> []" by (simp add: safe_download_name_def Let_def)
  moreover have "set ?n \<subseteq> {x. x \<notin> {CHR 0x22, slash, backslash} \<and> 32 \<le> uchar x}"
    using base_name_chars [of path 512] by (auto simp: unsafe_name_char_def)
  ultimately show ?thesis using len by blast
qed

lemma query_unsigned_range: "1 \<le> fallback \<Longrightarrow> fallback \<le> maximum \<Longrightarrow> maximum < 2 ^ 32 \<Longrightarrow>
    query_unsigned E q name fallback maximum \<in> {1..maximum}"
  by (auto simp: query_unsigned_def split: prod.splits option.splits)

text \<open>
  The numbers of a query are in range. Whatever the client sends, the log request asks for 1 to
  2000 lines, and the listing for a page number from 1 to the largest unsigned number and a page
  size from 1 to the maximum.
\<close>

theorem query_numbers_in_range:
  "query_unsigned E q ''lines'' 200 2000 \<in> {1..2000} \<and>
   query_unsigned E q ''page'' 1 4294967295 \<in> {1..4294967295} \<and>
   query_unsigned E q ''page_size'' SYSEBA_DEFAULT_RESTORE_PAGE SYSEBA_MAX_RESTORE_PAGE \<in> {1..SYSEBA_MAX_RESTORE_PAGE}"
  by (intro conjI query_unsigned_range) (simp_all add: syseba_limits)

lemma c_int_small: "n < 2 ^ 31 \<Longrightarrow> c_int n = int n"
  by (simp add: c_int_def signed_of_nat signed_take_bit_int_eq_self)

lemma send_chunks_all:
  assumes "\<And>t c. length t < 2 ^ 31 \<Longrightarrow> we_write E t c = (int (length t), c @ t)"
  shows "send_chunks E contents c = (200, c @ contents)"
proof (induction contents arbitrary: c rule: length_induct)
  case (1 contents)
  let ?k = "take download_buffer contents"
  have small: "length ?k < 2 ^ 31" by (simp add: download_buffer_def)
  note w = assms [OF small, of c] c_int_small [OF small]
  show ?case
  proof (cases "contents = [] \<or> length contents < download_buffer")
    case True
    then show ?thesis using w by (subst send_chunks.simps) (auto simp: Let_def download_buffer_def)
  next
    case False
    then have k: "?k \<noteq> []" "length ?k = download_buffer" by (auto simp: download_buffer_def)
    have "send_chunks E (drop download_buffer contents) (c @ ?k) = (200, c @ contents)"
      using "1.IH" False by (simp add: download_buffer_def)
    with k w show ?thesis by (subst send_chunks.simps) (simp add: Let_def)
  qed
qed

text \<open>
  A download delivers the file. When no call fails and the connection takes what it is given, asking for
  a regular file of the restore area sends the header with the exact length of the file, then its
  contents byte by byte, whatever its size (files larger than the buffer go out in several
  pieces), and answers 200.
\<close>

theorem download_sends_file:
  assumes "\<And>t c. we_printf E t c = (int (length t), c @ t)" "\<And>t c. length t < 2 ^ 31 \<Longrightarrow> we_write E t c = (int (length t), c @ t)"
    and "query_text E q ''path'' [] SYSEBA_PATH_MAX = rel_str rs" "rs \<noteq> []" "cfg_restore (app_config a) = path_str res"
    and "os_sched s = []" "plain_path (res @ rs)" "path_fits res" "path_fits (res @ rs)"
      "link_free (os_fs s) res" "link_free (os_fs s) (res @ rs)" "length (path_str res) + 1 + length (rel_str rs) < SYSEBA_PATH_MAX"
    and "dir_chain (os_fs s) (res @ rs)" "fs_get (os_fs s) (res @ rs) = Some (Reg f)"
  shows "\<exists>s'. http_download E q c a s =
    (200, c @ download_head (path_str (res @ rs)) (of_nat (length (f_data f))) @ f_data f, a, s') \<and> os_fs s' = os_fs s"
proof -
  let ?p = "path_str (res @ rs)"
  from safe_join_mirror [OF assms(6-12)] obtain s1 where
    j: "syseba_safe_join (path_str res) (rel_str rs) SYSEBA_PATH_MAX s = (Some ?p, s1)" and q1: "quiet s s1" by blast
  have s1: "os_sched s1 = []" "os_fs s1 = os_fs s" using quiet_sched [OF q1 assms(6)] quiet_fs [OF q1] by simp_all
  have "lookup_node False ?p s1 = Inr (res @ rs, Reg f)"
    using lookup_chain [OF plain_path_good [OF assms(7)], of s1] assms(13,14) s1(2) by simp
  then have op: "syseba_open_regular_read ?p s1 = (Some (res @ rs, of_nat (length (f_data f))), s1)"
    using s1 assms(14) by (simp add: syseba_open_regular_read_def sys_open_read_def sys_fstat_def sys_fdopen_def query_calm)
  have rd: "stdio_read (res @ rs) s1 = ((f_data f, False), s1)"
    using s1 assms(14) by (simp add: stdio_read_def tick_calm fd_file_def)
  have ne: "rel_str rs \<noteq> []"
  proof -
    obtain r rs' where "rs = r # rs'" using assms(4) by (cases rs) auto
    moreover have "r \<noteq> []" using assms(7) calculation by (auto simp: plain_path_def good_comp_def)
    ultimately show ?thesis by (simp add: rel_str_def path_str_def)
  qed
  have sent: "send_chunks E x c0 = (200, c0 @ x)" for x c0 by (rule send_chunks_all) (rule assms(2))
  show ?thesis
    using j op rd ne s1
    by (simp add: http_download_def assms(1,3,5) Let_def sent answered_def sys_fclose_def query_calm)
qed

theorem download_sends_file_witness:
  "\<exists>s'. http_download demo_web (demo_request ''GET'' ''/restore/download'') [] demo_app (restore_os []) =
     (200, [] @ download_head (path_str ([''res''] @ [''a''])) (of_nat (length (f_data demo_file))) @ f_data demo_file, demo_app, s') \<and>
     os_fs s' = os_fs (restore_os [])"
proof -
  have fs: "os_fs (restore_os []) = [([''src''], Dir), ([''res''], Dir), ([''res'', ''a''], Reg demo_file)]" "os_sched (restore_os []) = []"
    by (simp_all add: restore_os_def quiet_os_def)
  have q: "query_text demo_web (demo_request ''GET'' ''/restore/download'') ''path'' [] SYSEBA_PATH_MAX = rel_str [''a'']"
    by (simp add: query_text_def query_value_def demo_web_def demo_request_def fits_def syseba_limits rel_str_def path_str_def)
  show ?thesis
    by (rule download_sends_file [OF _ _ q])
      (auto simp: demo_web_def demo_app_def demo_config_def fs plain_path_def good_comp_def backslash_def path_fits_def fits_def
        path_str_def rel_str_def syseba_limits link_free_def dir_chain_def fs_get_def le_Suc_eq less_Suc_eq)
qed

end
