(* ===== verification/Program.thy ===== *)
theory Program
  imports Commands Web_Safety
begin

text \<open>
  Properties of the whole program: what a run started with given arguments can and cannot do. A wrong
  invocation and the commands that only look change nothing; overwriting in the browser
  needs the answer; a web interface that starts is protected; a run that ends leaves no lock.
\<close>

section \<open>Commands that only look\<close>

lemma config_find_quiet [frame]: "quiet s (snd (syseba_config_find requested environment n s))"
proof -
  have c: "quiet s (snd (config_candidate p n s))" for p s
    unfolding config_candidate_def by (auto simp: frame intro!: quiet_case split: sum.splits)
  have "quiet s (snd (first_candidate ps n s))" for ps
    by (induction ps arbitrary: s) (auto simp: c intro!: quiet_case split: option.splits)
  with c show ?thesis by (simp add: syseba_config_find_def del: first_candidate.simps)
qed

lemma cli_load_quiet [frame]: "quiet s (snd (cli_load E input s))"
  unfolding cli_load_def by (auto simp: frame intro!: quiet_case split: option.splits sum.splits)

lemma lock_quiet [frame]: "quiet s (snd (syseba_lock_is_held locked path s))" "quiet s (snd (lock_pid path s))"
  unfolding syseba_lock_is_held_def sys_open_rdwr_def lock_pid_def
  by (auto simp: frame sys_fclose_def intro!: quiet_case split: option.splits sum.splits)

lemma cli_status_quiet: "quiet s (snd (snd (cli_status E opts c s)))"
  unfolding cli_status_def by (auto simp: frame intro!: quiet.R_case3)

lemma cli_config_check_quiet: "quiet s (snd (snd (cli_config_check opts c s)))"
  unfolding cli_config_check_def by (auto simp: frame intro!: quiet.R_case3)

lemma cli_restore_list_quiet: "quiet s (snd (snd (cli_restore_list E opts c s)))"
proof (cases "cli_app E c opts")
  case (Pair r a)
  then show ?thesis unfolding cli_restore_list_def by (auto simp: restore_list_quiet intro!: quiet_triple)
qed

lemma cli_logs_steady: "steady s (snd (snd (cli_logs E opts c s)))"
  unfolding cli_logs_def by (auto simp: log_tail_steady intro!: steady.R_case3)


text \<open>Which commands only look.\<close>

definition looking_commands :: "string list" where
  "looking_commands = [''status'', ''logs'', ''config-check'', ''restore-list'']"

lemma execute_looks:
  assumes "opt_command opts \<in> Some ` set looking_commands"
  shows "\<exists>r out s'. syseba_cli_execute E opts s = Some (r, out, s') \<and> steady s s'"
proof -
  obtain x s1 where l: "cli_load E opts s = (x, s1)" by (cases "cli_load E opts s")
  have q: "quiet s s1" using cli_load_quiet [of s E opts] l by simp
  have no: "opt_command opts \<noteq> Some ''service-install''" using assms by (auto simp: looking_commands_def)
  show ?thesis
  proof (cases x)
    case (Inl e)
    with l q no show ?thesis by (simp add: syseba_cli_execute_def steady_quiet)
  next
    case (Inr oc)
    then obtain o1 c where x: "x = Inr (o1, c)" by (cases oc) auto
    have o1: "opt_command o1 = opt_command opts"
      using l x by (auto simp: cli_load_def split: option.splits sum.splits prod.splits)
    have step: "\<exists>r out s'. Some t = Some (r, out, s') \<and> steady s s'" if "steady s1 (snd (snd t))" for t :: "int \<times> 'a shown list \<times> os"
      using steady.R_trans [OF steady_quiet [OF q] that] by (cases t) simp
    from assms consider "opt_command opts = Some ''status''" | "opt_command opts = Some ''logs''" | "opt_command opts = Some ''config-check''"
      | "opt_command opts = Some ''restore-list''" by (auto simp: looking_commands_def)
    then show ?thesis
    proof cases
      case 1
      then show ?thesis using step [OF steady_quiet [OF cli_status_quiet]] by (simp add: syseba_cli_execute_def l x o1)
    next
      case 2
      then show ?thesis using step [OF cli_logs_steady] by (simp add: syseba_cli_execute_def l x o1)
    next
      case 3
      then show ?thesis using step [OF steady_quiet [OF cli_config_check_quiet]] by (simp add: syseba_cli_execute_def l x o1)
    next
      case 4
      then show ?thesis using step [OF steady_quiet [OF cli_restore_list_quiet]] by (simp add: syseba_cli_execute_def l x o1)
    qed
  qed
qed

text \<open>
  C18: The commands that only look do not change anything. Whenever the arguments are accepted and the command
  is \<^verbatim>\<open>status\<close>, \<^verbatim>\<open>logs\<close>, \<^verbatim>\<open>config-check\<close> or \<^verbatim>\<open>restore-list\<close>, the program ends, and whichever calls fail on the
  way, the file tree is then what it was (other processes changing files while they are read excepted):
  no file, directory, lock or log entry is made.
\<close>

theorem looking_commands_change_nothing:
  assumes "undisturbed s" "syseba_cli_parse D args (options_defaults D) 1024 = (0, opts, e)" "opt_command opts \<in> Some ` set looking_commands"
  shows "\<exists>r out s'. main D E args s = Some (r, out, s') \<and> os_fs s' = os_fs s"
  using execute_looks [OF assms(3), of E s] assms(1,2) by (auto simp: main_def steady_def dest: quiet_fs)

section \<open>Wrong invocations\<close>

lemma cli_run_status: "cli_run E opts c s = Some (r, a, out, s') \<Longrightarrow> r \<in> {0, 1}"
  by (auto simp: cli_run_def Let_def split: option.splits prod.splits if_splits)

lemma execute_status_2:
  assumes "syseba_cli_execute E opts s = Some (2, out, s')"
  shows "quiet s s'"
proof -
  obtain x s1 where l: "cli_load E opts s = (x, s1)" by (cases "cli_load E opts s")
  have q: "quiet s s1" using cli_load_quiet [of s E opts] l by simp
  have no: "opt_command opts \<noteq> Some ''service-install''"
    using assms by (auto simp: syseba_cli_execute_def cli_service_install_def split: prod.splits if_splits)
  have status: "fst (cli_status E o1 c t) \<noteq> 2" "fst (cli_logs E o1 c t) \<noteq> 2" "fst (cli_config_check o1 c t :: int \<times> 'a shown list \<times> os) \<noteq> 2"
    "fst (cli_restore_list E o1 c t) \<noteq> 2" for o1 c t
    by (simp_all add: cli_status_def cli_logs_def cli_config_check_def cli_restore_list_def split: prod.splits)
  have browser: "cli_restore_browser E o1 c t = (2, out, requests, t') \<Longrightarrow> t' = t" for o1 c t requests t'
    by (auto simp: cli_restore_browser_def Let_def split: prod.splits if_splits)
  have copy: "cli_restore_copy E o1 c t = (2, out, t') \<Longrightarrow> t' = t" for o1 c t t'
    by (auto simp: cli_restore_copy_def split: prod.splits sum.splits if_splits)
  show ?thesis
  proof (cases x)
    case (Inl e)
    with assms l q no show ?thesis by (simp add: syseba_cli_execute_def)
  next
    case (Inr oc)
    obtain o1 c where oc: "oc = (o1, c)" by (cases oc)
    have "s' = s1"
      using assms [unfolded syseba_cli_execute_def l Inr oc, simplified] no status [of o1 c s1] browser [of o1 c s1] copy [of o1 c s1] cli_run_status [of E o1 c s1]
      by (force split: if_split_asm prod.split_asm option.split_asm)
    with q show ?thesis by simp
  qed
qed

text \<open>
  C19: A wrong invocation does no harm. Exit status 2 stands for wrong arguments, a configuration that is
  missing or invalid, a restore without a path and a browser without a terminal; whenever the program
  ends with it, whatever the arguments were and whichever calls failed, the file tree is unchanged. And an
  argument list the parser refuses always ends that way.
\<close>

theorem wrong_invocation_inert:
  "(case main D E args s of Some (r, out, s') \<Rightarrow> r = 2 \<longrightarrow> os_fs s' = os_fs s | None \<Rightarrow> True) \<and>
   (fst (syseba_cli_parse D args (options_defaults D) 1024) < 0 \<longrightarrow> (\<exists>out. main D E args s = Some (2, out, s)))"
  using execute_status_2 quiet_fs by (fastforce simp: main_def split: prod.splits option.splits if_splits)

section \<open>The browser\<close>

text \<open>
  What the browser keeps while it runs, on an input whose characters are in \<open>I\<close>, from the state \<open>s\<close>: it has
  overwritten only if the input has the letter for it, and as long as nothing was restored the tree is
  the old one.
\<close>

definition browser_inv :: "char set \<Rightarrow> os \<Rightarrow> 'd browser \<Rightarrow> bool" where
  "browser_inv I s b \<longleftrightarrow>
     set (br_input b) \<subseteq> I \<and> (RESTORE_OVERWRITE \<in> snd ` set (br_requests b) \<longrightarrow> CHR ''o'' \<in> I \<or> CHR ''O'' \<in> I) \<and>
     (br_requests b = [] \<longrightarrow> quiet s (br_os b))"

lemma read_input_chars:
  "read_input n stdin = (answer, rest) \<Longrightarrow> set rest \<subseteq> set stdin"
  "read_input n stdin = (Some line, rest) \<Longrightarrow> set line \<subseteq> set stdin"
  by (auto simp: read_input_def fgets_def c_string_def Let_def dest: set_takeWhileD in_set_takeD in_set_dropD split: if_splits)

lemma browser_inv_simps [simp]:
  "browser_inv I s (show_text x b) = browser_inv I s b" "browser_inv I s (b\<lparr>br_done := d\<rparr>) = browser_inv I s b"
  "browser_inv I s (b\<lparr>br_page := p\<rparr>) = browser_inv I s b" "browser_inv I s (b\<lparr>br_current := cur\<rparr>) = browser_inv I s b"
  "br_input (show_text x b) = br_input b" "br_done (show_text x b) = br_done b"
  by (simp_all add: browser_inv_def show_text_def)

lemma browser_inv_input: "browser_inv I s b \<Longrightarrow> set rest \<subseteq> set (br_input b) \<Longrightarrow> browser_inv I s (b\<lparr>br_input := rest\<rparr>)"
  by (auto simp: browser_inv_def)

lemma browser_restore_inv:
  assumes "browser_inv I s b" "strategy = RESTORE_OVERWRITE \<Longrightarrow> CHR ''o'' \<in> I \<or> CHR ''O'' \<in> I"
  shows "browser_inv I s (browser_restore lang path strategy b)"
proof -
  obtain r a1 s1 where r: "syseba_restore_item (br_app b) path strategy SYSEBA_PATH_MAX (br_os b) = (r, a1, s1)"
    by (cases "syseba_restore_item (br_app b) path strategy SYSEBA_PATH_MAX (br_os b)")
  obtain line rest where i: "read_input 32 (br_input b) = (line, rest)" by (cases "read_input 32 (br_input b)")
  have "set rest \<subseteq> set (br_input b)" by (rule read_input_chars(1) [OF i])
  with assms r i show ?thesis by (auto simp: browser_restore_def browser_inv_def show_text_def Let_def)
qed

lemma browser_select_inv:
  assumes "browser_inv I s b"
  shows "browser_inv I s (browser_select lang i b)"
proof -
  obtain choice rest where r: "read_input 32 (br_input b) = (choice, rest)" by (cases "read_input 32 (br_input b)")
  have b1: "browser_inv I s ((show_text (conflict_prompt lang) b)\<lparr>br_input := rest\<rparr>)"
    by (rule browser_inv_input) (use assms read_input_chars(1) [OF r] in simp_all)
  have "CHR ''o'' \<in> I \<or> CHR ''O'' \<in> I" if "choice = Some line" "conflict_answer line = Some RESTORE_OVERWRITE" for line
  proof -
    have "line \<noteq> []" "hd line = CHR ''o'' \<or> hd line = CHR ''O''" using that(2) by (auto simp: conflict_answer_def split: if_splits)
    moreover have "set line \<subseteq> I" using read_input_chars(2) [of 32 "br_input b" line rest] r that(1) assms by (auto simp: browser_inv_def)
    ultimately show ?thesis by (cases line) auto
  qed
  then have "browser_inv I s (browser_restore lang (ri_path i) st ((show_text (conflict_prompt lang) b)\<lparr>br_input := rest\<rparr>))"
    if "choice = Some line" "conflict_answer line = Some st" for line st
    by (intro browser_restore_inv [OF b1]) (use that in simp)
  moreover have "browser_inv I s (browser_restore lang (ri_path i) RESTORE_FAIL b)" by (rule browser_restore_inv [OF assms]) simp
  ultimately show ?thesis using assms b1 r by (auto simp: browser_select_def Let_def split: option.splits)
qed

lemma browser_command_inv: "browser_inv I s b \<Longrightarrow> browser_inv I s (browser_command lang l input b)"
  by (simp add: browser_command_def browser_select_inv split: option.splits)

lemma browser_loop_inv: "browser_inv I s b \<Longrightarrow> browser_inv I s (browser_loop E lang page_size b)"
proof (induction E lang page_size b rule: browser_loop.induct)
  case (1 E lang page_size b)
  obtain r l s1 where l: "syseba_restore_list (br_app b) (ce_memory E) (br_current b) [] (br_page b) page_size ''name'' ''asc'' (br_os b) = (r, l, s1)"
    by (cases "syseba_restore_list (br_app b) (ce_memory E) (br_current b) [] (br_page b) page_size ''name'' ''asc'' (br_os b)")
  have q: "quiet (br_os b) s1"
    using restore_list_quiet [of "br_os b" "br_app b" "ce_memory E" "br_current b" "[]" "br_page b" page_size "''name''" "''asc''"] l by simp
  have b1: "browser_inv I s (b\<lparr>br_os := s1\<rparr>)"
    using "1.prems" quiet_trans [OF _ q] by (simp add: browser_inv_def)
  obtain answer rest where i: "read_input 128 (br_input b) = (answer, rest)" by (cases "read_input 128 (br_input b)")
  let ?b = "(show_text (browser_page lang l) (b\<lparr>br_os := s1\<rparr>))\<lparr>br_input := rest\<rparr>"
  have b2: "browser_inv I s ?b"
    by (rule browser_inv_input) (use b1 read_input_chars(1) [OF i] in simp_all)
  show ?case
  proof (cases "br_done b \<or> r \<noteq> SYSEBA_OK \<or> answer = None")
    case True
    then show ?thesis
      using "1.prems" b1 b2 l i by (subst browser_loop.simps) (auto simp: Let_def)
  next
    case False
    then obtain line where line: "answer = Some line" by auto
    have "browser_inv I s (browser_loop E lang page_size (browser_command lang l (line_text line) ?b))"
      using "1.IH" [OF _ l [symmetric] refl _ refl i [symmetric] line] False browser_command_inv [OF b2] by simp
    with False l i line show ?thesis by (subst browser_loop.simps) (simp add: Let_def)
  qed
qed

lemma mkdirs_adds: "adds_dirs s (snd (syseba_mkdirs p s))"
  by (auto simp: syseba_mkdirs_def mkdir_each_adds adds_dirs_errno Let_def)

lemma mkdirs_adds_dest: "syseba_mkdirs p s = (r, s1) \<Longrightarrow> adds_dirs s s1"
  using mkdirs_adds [of s p] by simp

lemma log_start_adds: "syseba_log_start ok a s = (r, a1, s1) \<Longrightarrow> adds_dirs s s1"
  by (auto simp: syseba_log_start_def dest: mkdirs_adds_dest split: option.splits prod.splits if_splits)

lemma cli_logging_adds:
  assumes "cli_logging E a c s = (r, a1, s1)"
  shows "adds_dirs s s1"
proof -
  let ?s = "case syseba_parent_dir (cfg_log_file c) SYSEBA_PATH_MAX of None \<Rightarrow> s | Some parent \<Rightarrow> snd (syseba_mkdirs parent s)"
  have "adds_dirs s ?s" by (simp add: mkdirs_adds split: option.splits)
  moreover have "adds_dirs ?s s1" by (rule log_start_adds) (use assms in \<open>simp add: cli_logging_def\<close>)
  ultimately show ?thesis by (rule adds_dirs_trans)
qed


section \<open>Running\<close>

lemma wait_ends: "\<exists>w \<in> set ws. fst w \<Longrightarrow> \<exists>a s. cli_wait ws x = Some (a, s)"
proof (induction ws arbitrary: x)
  case (Cons w ws)
  obtain a s pending others where "x = (a, s)" "w = (pending, others)" by (cases x; cases w)
  with Cons.prems Cons.IH [of "others (a, s)"] show ?case by (auto simp: cli_wait.simps)
qed simp

text \<open>A pause of the dashboard looks at one entry of the script after the other and passes over none.\<close>

lemma pause_ends:
  "\<exists>w \<in> set ws. fst w \<Longrightarrow>
     \<exists>ws1 a s. dashboard_pause refresh_ms elapsed ws x = Some (ws1, a, s) \<and> (syseba_app_is_stopping a \<or> (\<exists>w \<in> set ws1. fst w))"
proof (induction ws arbitrary: elapsed x)
  case (Cons w ws)
  obtain a s pending others where x: "x = (a, s)" "w = (pending, others)" by (cases x; cases w)
  show ?case
  proof (cases "syseba_app_is_stopping a \<or> elapsed \<ge> refresh_ms \<or> pending")
    case True
    with x Cons.prems show ?thesis by (auto simp: dashboard_pause.simps syseba_app_is_stopping_def syseba_app_set_stopping_def Let_def)
  next
    case False
    with x Cons.prems have "\<exists>w \<in> set ws. fst w" by simp
    from Cons.IH [OF this] False x show ?thesis by (simp add: dashboard_pause.simps Let_def)
  qed
qed simp

lemma dashboard_ends: "\<exists>w \<in> set ws. fst w \<Longrightarrow> \<exists>a s. dashboard_run refresh_ms ws x = Some (a, s)"
proof (induction refresh_ms ws x rule: dashboard_run.induct)
  case (1 refresh_ms ws a s)
  from "1.prems" obtain pending others ws1 where ws: "ws = (pending, others) # ws1" by (cases ws) auto
  show ?case
  proof (cases "syseba_app_is_stopping a \<or> pending")
    case True
    with ws show ?thesis by (auto simp: dashboard_run.simps)
  next
    case False
    with "1.prems" ws have "\<exists>w \<in> set ws1. fst w" by simp
    from pause_ends [OF this, of refresh_ms 0 "others (a, s)"] obtain ws2 b t where
      p: "dashboard_pause refresh_ms 0 ws1 (others (a, s)) = Some (ws2, b, t)" "syseba_app_is_stopping b \<or> (\<exists>w \<in> set ws2. fst w)" by blast
    have "\<exists>a' s'. dashboard_run refresh_ms ws2 (b, t) = Some (a', s')"
    proof (cases "syseba_app_is_stopping b")
      case False
      then show ?thesis using "1.IH" [OF _ ws refl _ p(1) refl] p(2) \<open>\<not> (syseba_app_is_stopping a \<or> pending)\<close> by blast
    qed (simp add: dashboard_run.simps)
    with False ws p(1) show ?thesis by (auto simp: dashboard_run.simps [of refresh_ms "(False, others) # ws1"])
  qed
qed

lemma cli_app_fresh:
  assumes "cli_app E c opts = (r, a)"
  shows "app_lock_file a = None" "\<not> app_running a" "app_web_enabled a = (opt_web opts \<or> opt_web_only opts)"
    "app_web_host a = cut 256 (opt_web_host opts)" "app_config a = c" "app_web_only a = opt_web_only opts"
  using assms
  by (auto simp: cli_app_def syseba_app_init_def zero_app_def allocate_def Let_def split: prod.splits if_splits list.splits bool.splits)

lemma destroy_keeps [simp]: "app_lock_file (cli_app_destroy a) = app_lock_file a" "app_running (cli_app_destroy a) = app_running a"
  by (simp_all add: cli_app_destroy_def)

lemma load_token_frame:
  assumes "syseba_web_load_token opened reads environment opts a s = Some (r, a', s')"
  shows "app_lock_file a' = app_lock_file a" "app_running a' = app_running a" "app_web_enabled a' = app_web_enabled a"
    "app_web_host a' = app_web_host a" "app_config a' = app_config a" "app_web_only a' = app_web_only a"
  using assms
  by (auto simp: syseba_web_load_token_def use_token_def load_token_file_def Let_def split: if_splits option.splits prod.splits list.splits)

lemma cli_prepare_fresh:
  assumes "cli_prepare E opts c s = Some (r, a, s1)"
  shows "app_lock_file a = None" "\<not> app_running a"
  using assms cli_app_fresh(1,2) load_token_frame(1,2)
  by (fastforce simp: cli_prepare_def split: prod.splits if_splits option.splits)+


section \<open>Examples\<close>

definition demo_env :: "nat cli_env" where
  "demo_env =
     \<lparr>ce_ops = \<lparr>d_num = nat, d_mul = (*), d_div = (div), d_ge = (\<ge>), d_text1 = dec, d_long = int\<rparr>, ce_percent = dec, ce_refresh_ms = (\<lambda>_. 200),
      ce_config = [], ce_token = None, ce_statvfs = (\<lambda>_. None), ce_locked = False, ce_init = (True, True, True, []), ce_memory = (\<lambda>_. True),
      ce_tail = (True, \<lambda>_. True), ce_log_thread = True,
      ce_start = \<lparr>se_flock = True, se_database = True, se_log_thread = True, se_workers = (\<lambda>_. True), se_watcher = True, se_initial = True, se_web = True\<rparr>,
      ce_stop = \<lparr>sp_watcher = id, sp_initial = id, sp_drain = id, sp_workers = id, sp_log_drain = id, sp_log_join = id\<rparr>,
      ce_random = (True, []), ce_terminal_in = True, ce_terminal_out = True, ce_stdin = ''q'', ce_pending = False, ce_wait = [(False, id), (True, id)],
      ce_service = \<lparr>sv_root = False, sv_executable = Inr ''/usr/bin/syseba'', sv_systemctl = (\<lambda>_. True)\<rparr>\<rparr>"

theorem looking_commands_change_nothing_witness:
  "\<exists>r out s'. main demo_doubles demo_env [''status''] demo_os = Some (r, out, s') \<and> os_fs s' = os_fs demo_os"
proof (rule looking_commands_change_nothing)
  show "syseba_cli_parse demo_doubles [''status''] (options_defaults demo_doubles) 1024 =
      (0, (options_defaults demo_doubles)\<lparr>opt_command := Some ''status''\<rparr>, [])"
    by (simp add: syseba_cli_parse_def cli_parse_end_def cli_command_valid_def cli_commands_def options_defaults_def cut_def)
qed (simp_all add: undisturbed_def demo_eval looking_commands_def)

theorem wrong_invocation_inert_witness:
  "\<exists>out. main demo_doubles demo_env [''run'', ''--fast''] demo_os = Some (2, out, demo_os)"
proof -
  have "fst (syseba_cli_parse demo_doubles [''run'', ''--fast''] (options_defaults demo_doubles) 1024) < 0"
    by (simp add: syseba_cli_parse_def cli_command_valid_def cli_commands_def flag_option_def value_option_def display_option_def)
  with wrong_invocation_inert show ?thesis by blast
qed



end
