(* ===== verification/Watcher_Poll.thy ===== *)
theory Watcher_Poll
  imports App
begin

text \<open>
  The polling watcher, \<^verbatim>\<open>watcher_poll.c\<close>: a hash table of the paths below the source with their sizes
  and times, the comparison of two such snapshots, and the loop of the thread. What the comparison
  needs from the table is the locale \<open>keyed_table\<close>, interpreted on the bucket array with the FNV hash
  of the code; the walk that fills the table is an interpretation of \<open>walk_client\<close>.
\<close>

unbundle bit_operations_syntax

section \<open>Snapshots\<close>

record snapshot_entry =
  se_path :: string
  se_size :: "64 word"
  se_mtime_ns :: int
  se_directory :: bool
  se_seen :: bool

record snapshot =
  sn_buckets :: "snapshot_entry list list"
  sn_bucket_count :: nat
  sn_size :: nat

definition zero_snapshot :: snapshot where
  "zero_snapshot = \<lparr>sn_buckets = [], sn_bucket_count = 0, sn_size = 0\<rparr>"

definition snapshot_hash :: "string \<Rightarrow> 64 word" where
  "snapshot_hash value = foldl (\<lambda>hash c. (hash XOR of_nat (uchar c)) * 1099511628211) 1469598103934665603 value"

definition bucket_of :: "snapshot \<Rightarrow> string \<Rightarrow> nat" where
  "bucket_of snapshot path = unat (snapshot_hash path) mod sn_bucket_count snapshot"

definition snapshot_find :: "snapshot \<Rightarrow> string \<Rightarrow> snapshot_entry option" where
  "snapshot_find snapshot path =
     (if sn_bucket_count snapshot = 0 then None
      else find (\<lambda>e. se_path e = path) (sn_buckets snapshot ! bucket_of snapshot path))"

text \<open>\<open>memory\<close> says whether the entry and its copy of the path can be allocated.\<close>

definition snapshot_insert :: "bool \<Rightarrow> string \<Rightarrow> 64 word \<Rightarrow> int \<Rightarrow> bool \<Rightarrow> snapshot \<Rightarrow> int \<times> snapshot" where
  "snapshot_insert memory path sz mtime_ns directory snapshot =
     (if \<not> memory then (- 1, snapshot)
      else let b = bucket_of snapshot path;
               e = \<lparr>se_path = path, se_size = sz, se_mtime_ns = mtime_ns, se_directory = directory, se_seen = False\<rparr>
           in (0, snapshot\<lparr>sn_buckets := (sn_buckets snapshot)[b := e # sn_buckets snapshot ! b], sn_size := sn_size snapshot + 1\<rparr>))"

text \<open>\<open>memory k\<close>: an entry can be allocated when the table holds \<open>k\<close> entries.\<close>

definition snapshot_build_entry :: "(nat \<Rightarrow> bool) \<Rightarrow> snapshot callback" where
  "snapshot_build_entry memory path directory snapshot s =
     (case syseba_fs_stat path s of
        (None, s1) \<Rightarrow> (if os_errno s1 = Some ENOENT then 0 else - 1, snapshot, s1)
      | (Some (sz, mtime_ns, stat_directory), s1) \<Rightarrow>
          (case snapshot_insert (memory (sn_size snapshot)) path sz mtime_ns directory snapshot of (r, snapshot') \<Rightarrow> (r, snapshot', s1)))"

definition empty_snapshot :: snapshot where
  "empty_snapshot = \<lparr>sn_buckets = replicate 4093 [], sn_bucket_count = 4093, sn_size = 0\<rparr>"

definition syseba_snapshot_destroy :: "snapshot \<Rightarrow> snapshot" where
  "syseba_snapshot_destroy snapshot = zero_snapshot"

definition syseba_snapshot_build :: "bool \<Rightarrow> (nat \<Rightarrow> bool) \<Rightarrow> string \<Rightarrow> os \<Rightarrow> int \<times> snapshot \<times> os" where
  "syseba_snapshot_build table memory root s =
     (if \<not> table then (- 1, zero_snapshot\<lparr>sn_bucket_count := 4093\<rparr>, s)
      else (case syseba_walk_files (snapshot_build_entry memory) root empty_snapshot s of (r, snapshot, s1) \<Rightarrow>
              if r \<noteq> 0 then (- 1, syseba_snapshot_destroy snapshot, s1) else (0, snapshot, s1)))"

section \<open>Reconciliation\<close>

text \<open>\<^verbatim>\<open>old->seen = true\<close> on the entry that \<^verbatim>\<open>syseba_snapshot_find\<close> returns.\<close>

fun mark_first :: "string \<Rightarrow> snapshot_entry list \<Rightarrow> snapshot_entry list" where
  "mark_first path [] = []"
| "mark_first path (e # es) = (if se_path e = path then e\<lparr>se_seen := True\<rparr> # es else e # mark_first path es)"

definition mark_seen :: "string \<Rightarrow> snapshot \<Rightarrow> snapshot" where
  "mark_seen path snapshot =
     (let b = bucket_of snapshot path
      in snapshot\<lparr>sn_buckets := (sn_buckets snapshot)[b := mark_first path (sn_buckets snapshot ! b)]\<rparr>)"

text \<open>The two loops, over the entries in bucket order.\<close>

fun reconcile_current :: "snapshot_entry list \<Rightarrow> app \<Rightarrow> snapshot \<Rightarrow> os \<Rightarrow> app \<times> snapshot \<times> os" where
  "reconcile_current [] a previous s = (a, previous, s)"
| "reconcile_current (entry # entries) a previous s =
     (case snapshot_find previous (se_path entry) of
        None \<Rightarrow>
          (case syseba_app_enqueue EVENT_CREATE (se_path entry) (se_directory entry) a s of (r, a1, s1) \<Rightarrow>
             reconcile_current entries a1 previous s1)
      | Some old \<Rightarrow>
          let previous1 = mark_seen (se_path entry) previous in
          if \<not> se_directory entry \<and> (se_size entry \<noteq> se_size old \<or> se_mtime_ns entry \<noteq> se_mtime_ns old)
          then (case syseba_app_enqueue EVENT_MODIFY (se_path entry) False a s of (r, a1, s1) \<Rightarrow>
                  reconcile_current entries a1 previous1 s1)
          else reconcile_current entries a previous1 s)"

fun reconcile_previous :: "snapshot_entry list \<Rightarrow> app \<Rightarrow> os \<Rightarrow> app \<times> os" where
  "reconcile_previous [] a s = (a, s)"
| "reconcile_previous (entry # entries) a s =
     (if \<not> se_seen entry
      then (case syseba_app_enqueue EVENT_DELETE (se_path entry) (se_directory entry) a s of (r, a1, s1) \<Rightarrow>
              reconcile_previous entries a1 s1)
      else reconcile_previous entries a s)"

definition syseba_snapshot_reconcile :: "app \<Rightarrow> snapshot \<Rightarrow> snapshot \<Rightarrow> os \<Rightarrow> app \<times> snapshot \<times> os" where
  "syseba_snapshot_reconcile a previous current s =
     (case reconcile_current (concat (sn_buckets current)) a previous s of (a1, previous1, s1) \<Rightarrow>
        (case reconcile_previous (concat (sn_buckets previous1)) a1 s1 of (a2, s2) \<Rightarrow> (a2, previous1, s2)))"

section \<open>The thread\<close>

text \<open>The interval in milliseconds from the environment variable \<^verbatim>\<open>SYSEBA_POLL_INTERVAL_MS\<close>.\<close>

definition poll_interval :: "string option \<Rightarrow> nat" where
  "poll_interval configured_interval =
     (case configured_interval of
        None \<Rightarrow> 2000
      | Some v \<Rightarrow>
          if v = [] then 2000
          else let parsed = (case c_strtoul v of None \<Rightarrow> 0 | Some (n, rest, erange) \<Rightarrow> n)
               in if 250 \<le> parsed \<and> parsed \<le> 60000 then parsed else 2000)"

text \<open>The sleeps of one round, while the program is not stopping.\<close>

function sleep_slices :: "nat \<Rightarrow> nat \<Rightarrow> nat list" where
  "sleep_slices interval_ms slept =
     (if slept < interval_ms
      then let slice = (if interval_ms - slept > 200 then 200 else interval_ms - slept)
           in slice # sleep_slices interval_ms (slept + slice)
      else [])"
  by pat_completeness auto
termination
  by (relation "measure (\<lambda>(interval_ms, slept). interval_ms - slept)") (auto split: if_splits)

declare sleep_slices.simps [simp del]

text \<open>One scan after the sleep: the new snapshot replaces the previous one when it could be built.\<close>

definition poll_round ::
  "(errno option \<Rightarrow> string) \<Rightarrow> bool \<Rightarrow> (nat \<Rightarrow> bool) \<Rightarrow> app \<Rightarrow> snapshot \<Rightarrow> os \<Rightarrow> app \<times> snapshot \<times> os" where
  "poll_round strerror table memory a previous s =
     (case syseba_snapshot_build table memory (cfg_source (app_config a)) s of (r, current, s1) \<Rightarrow>
        if r = 0 then (case syseba_snapshot_reconcile a previous current s1 of (a1, p1, s2) \<Rightarrow> (a1, current, s2))
        else (syseba_log_emit ''ERROR'' ''WATCH'' (cfg_source (app_config a)) [] (strerror (os_errno s1))
                (syseba_tr (app_language a) ''Scansione watcher fallita'' ''Watcher scan failed'' @ '': '' @ strerror (os_errno s1))
                s1 a, previous, s1))"

text \<open>
  The loop: each element of \<open>rounds\<close> is what the other threads and processes do during the sleeps of
  one round, and whether the memory for the next snapshot can be had; a run of the thread is cut
  after \<open>length rounds\<close> rounds.
\<close>

fun poll_loop ::
  "(errno option \<Rightarrow> string) \<Rightarrow> ((app \<times> os \<Rightarrow> app \<times> os) \<times> bool \<times> (nat \<Rightarrow> bool)) list \<Rightarrow> app \<Rightarrow> snapshot \<Rightarrow> os \<Rightarrow> app \<times> snapshot \<times> os" where
  "poll_loop strerror [] a previous s = (a, previous, s)"
| "poll_loop strerror ((others, table, memory) # rounds) a previous s =
     (if syseba_app_is_stopping a then (a, syseba_snapshot_destroy previous, s)
      else (case others (a, s) of (a1, s1) \<Rightarrow>
              if syseba_app_is_stopping a1 then (a1, syseba_snapshot_destroy previous, s1)
              else (case poll_round strerror table memory a1 previous s1 of (a2, p2, s2) \<Rightarrow>
                      poll_loop strerror rounds a2 p2 s2)))"

definition syseba_watcher_poll_main ::
  "(errno option \<Rightarrow> string) \<Rightarrow> string option \<Rightarrow> bool \<Rightarrow> (nat \<Rightarrow> bool) \<Rightarrow>
   ((app \<times> os \<Rightarrow> app \<times> os) \<times> bool \<times> (nat \<Rightarrow> bool)) list \<Rightarrow> app \<Rightarrow> os \<Rightarrow> app \<times> snapshot \<times> os" where
  "syseba_watcher_poll_main strerror interval table memory rounds a s =
     (case syseba_snapshot_build table memory (cfg_source (app_config a)) s of (r, previous, s1) \<Rightarrow>
        if r \<noteq> 0
        then (syseba_log_emit ''ERROR'' ''WATCH'' (cfg_source (app_config a)) [] (strerror (os_errno s1))
                (syseba_tr (app_language a) ''Impossibile inizializzare il watcher polling'' ''Unable to initialize polling watcher'' @
                 '': '' @ strerror (os_errno s1)) s1 a, previous, s1)
        else poll_loop strerror rounds
               (syseba_log_emit ''INFO'' ''WATCH'' (cfg_source (app_config a)) [] ''poll''
                  (syseba_tr (app_language a) ''Watcher polling attivo'' ''Polling watcher active'' @ '' ('' @ dec (poll_interval interval) @ '' ms)'')
                  s1 a) previous s1)"

section \<open>The table\<close>

type_synonym info = "64 word \<times> int \<times> bool"

definition entry_info :: "snapshot_entry \<Rightarrow> info" where
  "entry_info e = (se_size e, se_mtime_ns e, se_directory e)"

definition snapshot_lookup :: "snapshot \<Rightarrow> string \<Rightarrow> info option" where
  "snapshot_lookup sn p = map_option entry_info (snapshot_find sn p)"

definition snapshot_add :: "string \<Rightarrow> info \<Rightarrow> snapshot \<Rightarrow> snapshot" where
  "snapshot_add p v sn = (case v of (sz, mt, d) \<Rightarrow> snd (snapshot_insert True p sz mt d sn))"

text \<open>The table is sound: every entry is in the bucket of its hash and no path has two entries.\<close>

definition snapshot_ok :: "snapshot \<Rightarrow> bool" where
  "snapshot_ok sn \<longleftrightarrow> 0 < sn_bucket_count sn \<and> length (sn_buckets sn) = sn_bucket_count sn \<and>
     (\<forall>b < sn_bucket_count sn. \<forall>e \<in> set (sn_buckets sn ! b). bucket_of sn (se_path e) = b) \<and>
     (\<forall>b < sn_bucket_count sn. distinct (map se_path (sn_buckets sn ! b)))"

lemma find_Some_iff_distinct:
  "distinct (map f xs) \<Longrightarrow> find (\<lambda>x. f x = y) xs = Some x \<longleftrightarrow> x \<in> set xs \<and> f x = y"
  by (induction xs) (auto simp: image_iff)

lemma bucket_bound: "snapshot_ok sn \<Longrightarrow> bucket_of sn p < sn_bucket_count sn"
  by (simp add: bucket_of_def snapshot_ok_def)

lemma concat_buckets:
  assumes "\<forall>i < length bs. distinct (map f (bs ! i)) \<and> (\<forall>x \<in> set (bs ! i). g (f x) = i)"
  shows "distinct (map f (concat bs))" "x \<in> set (concat bs) \<longleftrightarrow> g (f x) < length bs \<and> x \<in> set (bs ! g (f x))"
proof -
  have "distinct (map f (concat bs)) \<and> (\<forall>x \<in> set (concat bs). g (f x) < length bs \<and> x \<in> set (bs ! g (f x)))"
    using assms
  proof (induction bs rule: rev_induct)
    case (snoc b bs)
    have "\<forall>i < length bs. distinct (map f (bs ! i)) \<and> (\<forall>x \<in> set (bs ! i). g (f x) = i)"
    proof (intro allI impI)
      fix i assume "i < length bs"
      with spec [OF snoc.prems, of i] show "distinct (map f (bs ! i)) \<and> (\<forall>x \<in> set (bs ! i). g (f x) = i)"
        by (simp add: nth_append)
    qed
    note IH = snoc.IH [OF this]
    have b: "distinct (map f b)" "\<forall>x \<in> set b. g (f x) = length bs" using snoc.prems by (auto dest!: spec [of _ "length bs"])
    have "f x \<noteq> f y" if "x \<in> set (concat bs)" "y \<in> set b" for x y using IH b(2) that by (metis less_irrefl)
    then have "distinct (map f (concat (bs @ [b])))" using IH b by (auto simp: image_iff)
    moreover have "g (f x) < length (bs @ [b]) \<and> x \<in> set ((bs @ [b]) ! g (f x))" if "x \<in> set (concat (bs @ [b]))" for x
      using that IH b(2) by (auto simp: nth_append less_Suc_eq)
    ultimately show ?case by blast
  qed simp
  then show "distinct (map f (concat bs))" "x \<in> set (concat bs) \<longleftrightarrow> g (f x) < length bs \<and> x \<in> set (bs ! g (f x))"
    by (auto intro: nth_mem)
qed

lemma snapshot_entries:
  assumes "snapshot_ok sn"
  shows "distinct (map se_path (concat (sn_buckets sn)))"
    and "e \<in> set (concat (sn_buckets sn)) \<longleftrightarrow> e \<in> set (sn_buckets sn ! bucket_of sn (se_path e))"
  using concat_buckets [of "sn_buckets sn" se_path "bucket_of sn"] bucket_bound [OF assms] assms
  by (simp_all add: snapshot_ok_def)

lemma snapshot_find_iff:
  assumes "snapshot_ok sn"
  shows "snapshot_find sn p = Some e \<longleftrightarrow> e \<in> set (concat (sn_buckets sn)) \<and> se_path e = p"
proof -
  have "distinct (map se_path (sn_buckets sn ! bucket_of sn p))" using assms bucket_bound [OF assms] by (simp add: snapshot_ok_def)
  then show ?thesis
    unfolding snapshot_entries(2) [OF assms]
    using assms by (auto simp: snapshot_find_def find_Some_iff_distinct snapshot_ok_def)
qed

lemma bucket_of_update: "bucket_of (sn\<lparr>sn_buckets := bs, sn_size := k\<rparr>) = bucket_of sn" "bucket_of (sn\<lparr>sn_buckets := bs\<rparr>) = bucket_of sn"
  by (simp_all add: bucket_of_def fun_eq_iff)

lemma snapshot_add_lookup:
  assumes "snapshot_ok sn"
  shows "snapshot_lookup (snapshot_add p v sn) q = (if q = p then Some v else snapshot_lookup sn q)"
proof -
  obtain sz mt d where v: "v = (sz, mt, d)" by (cases v) auto
  have b: "bucket_of sn p < length (sn_buckets sn)" using assms bucket_bound [OF assms] by (simp add: snapshot_ok_def)
  show ?thesis
    using assms b
    by (auto simp: snapshot_lookup_def snapshot_add_def v snapshot_insert_def snapshot_find_def Let_def bucket_of_update
        nth_list_update entry_info_def snapshot_ok_def)
qed

interpretation table: keyed_table snapshot_ok snapshot_lookup snapshot_add
proof
  fix sn p and v :: info
  assume ok: "snapshot_ok sn" and new: "snapshot_lookup sn p = None"
  obtain sz mt d where v: "v = (sz, mt, d)" by (cases v) auto
  have b: "bucket_of sn p < length (sn_buckets sn)" using ok bucket_bound [OF ok] by (simp add: snapshot_ok_def)
  have "find (\<lambda>e. se_path e = p) (sn_buckets sn ! bucket_of sn p) = None"
    using new ok by (simp add: snapshot_lookup_def snapshot_find_def snapshot_ok_def)
  then have "p \<notin> se_path ` set (sn_buckets sn ! bucket_of sn p)" by (auto simp: find_None_iff)
  with ok b show "snapshot_ok (snapshot_add p v sn)"
    by (auto simp: snapshot_ok_def snapshot_add_def v snapshot_insert_def Let_def bucket_of_update nth_list_update)
qed (rule snapshot_add_lookup)

lemma empty_snapshot_ok: "snapshot_ok empty_snapshot" "snapshot_lookup empty_snapshot p = None"
  by (simp_all add: snapshot_ok_def empty_snapshot_def snapshot_lookup_def snapshot_find_def bucket_of_def)

section \<open>What a scan records\<close>

text \<open>The state of the paths below \<open>d\<close> as a scan sees it: size, time and kind of every directory and file.\<close>

definition tree_view :: "os \<Rightarrow> cpath \<Rightarrow> string \<Rightarrow> info option" where
  "tree_view s d p =
     (if p \<in> path_str ` fst ` set (tree_nodes SYSEBA_PATH_MAX (os_fs s) d) then fst (syseba_fs_stat p s) else None)"

definition readable :: "os \<Rightarrow> string \<Rightarrow> bool" where
  "readable s p \<longleftrightarrow> (\<exists>k n. p = path_str k \<and> good_path k \<and> dir_chain (os_fs s) k \<and> fs_get (os_fs s) k = Some n \<and> walked n)"

lemma stat_readable:
  assumes "os_sched s = []" "good_path k" "dir_chain (os_fs s) k" "fs_get (os_fs s) k = Some n" "walked n"
  shows "\<exists>sz mt. syseba_fs_stat (path_str k) s = (Some (sz, mt, n = Dir), s)"
  using lookup_chain [OF assms(2-4)] assms(1,5)
  by (cases n) (auto simp: syseba_fs_stat_def sys_lstat_def query_calm)

lemma stat_same:
  assumes "quiet s s'" "os_sched s = []"
  shows "fst (syseba_fs_stat p s') = fst (syseba_fs_stat p s)"
  using quiet_lookup [OF assms(1), of False p] quiet_env [OF assms(1)] quiet_sched [OF assms] assms(2)
  by (auto simp: syseba_fs_stat_def sys_lstat_def query_calm split: sum.splits node.splits)

text \<open>The callback of the scan, seen from the state \<open>s0\<close> in which the walk starts.\<close>

definition scan_note :: "os \<Rightarrow> snapshot \<Rightarrow> string \<times> bool \<Rightarrow> snapshot" where
  "scan_note s0 sn x =
     (case fst (syseba_fs_stat (fst x) s0) of None \<Rightarrow> sn | Some (sz, mt, _) \<Rightarrow> snapshot_add (fst x) (sz, mt, snd x) sn)"

interpretation scan: walk_client "snapshot_build_entry (\<lambda>_. True)" "\<lambda>sn. sn" "scan_note s0" "\<lambda>_. True"
  "\<lambda>s p. quiet s0 s \<and> os_sched s0 = [] \<and> readable s p" for s0
proof
  fix sn s p and directory :: bool
  assume calm: "os_sched s = []" and acc: "quiet s0 s \<and> os_sched s0 = [] \<and> readable s p"
  then obtain k n where k: "p = path_str k" "good_path k" "dir_chain (os_fs s) k" "fs_get (os_fs s) k = Some n" "walked n"
    by (auto simp: readable_def)
  from stat_readable [OF calm k(2-5)] obtain sz mt where st: "syseba_fs_stat p s = (Some (sz, mt, n = Dir), s)" using k(1) by auto
  then have "fst (syseba_fs_stat p s0) = Some (sz, mt, n = Dir)" using stat_same acc by (metis fst_conv)
  with st show "\<exists>c' s'. snapshot_build_entry (\<lambda>_. True) p directory sn s = (0, c', s') \<and> True \<and> c' = scan_note s0 sn (p, directory) \<and>
      quiet s s' \<and> os_errno s' = os_errno s"
    by (simp add: snapshot_build_entry_def scan_note_def snapshot_add_def snapshot_insert_def Let_def)
next
  fix s s' p assume "quiet s s'" "quiet s0 s \<and> os_sched s0 = [] \<and> readable s p"
  then show "quiet s0 s' \<and> os_sched s0 = [] \<and> readable s' p"
    using quiet_trans quiet_fs [of s s'] by (auto simp: readable_def)
qed

lemma parents_first_distinct: "parents_first ks \<Longrightarrow> distinct (map fst ks)"
  by (induction ks) (auto simp: parents_first_def)

lemma map_of_keyed: "map_of (map (\<lambda>x. (fst x, f (fst x))) xs) p = (if p \<in> fst ` set xs then Some (f p) else None)"
  by (induction xs) auto

lemma scan_note_fill:
  assumes "\<forall>x \<in> set xs. \<exists>sz mt. fst (syseba_fs_stat (fst x) s0) = Some (sz, mt, snd x)"
  shows "foldl (scan_note s0) sn xs =
    foldl (\<lambda>t x. snapshot_add (fst x) (snd x) t) sn (map (\<lambda>x. (fst x, the (fst (syseba_fs_stat (fst x) s0)))) xs)"
  using assms by (induction xs arbitrary: sn) (auto simp: scan_note_def)

text \<open>A scan of an undisturbed directory records exactly what is there.\<close>

lemma snapshot_add_unseen:
  assumes "snapshot_ok sn" "\<forall>e \<in> set (concat (sn_buckets sn)). \<not> se_seen e"
  shows "\<forall>e \<in> set (concat (sn_buckets (snapshot_add p v sn))). \<not> se_seen e"
proof -
  have b: "bucket_of sn p < length (sn_buckets sn)" using assms(1) bucket_bound [OF assms(1)] by (simp add: snapshot_ok_def)
  obtain sz mt d where v: "v = (sz, mt, d)" by (cases v) auto
  let ?e = "\<lparr>se_path = p, se_size = sz, se_mtime_ns = mt, se_directory = d, se_seen = False\<rparr>"
  have "set (sn_buckets (snapshot_add p v sn)) \<subseteq> insert (?e # sn_buckets sn ! bucket_of sn p) (set (sn_buckets sn))"
    using set_update_subset_insert [of "sn_buckets sn"] by (simp add: snapshot_add_def v snapshot_insert_def Let_def)
  with nth_mem [OF b] assms(2) show ?thesis by fastforce
qed

lemma fill_unseen:
  "snapshot_ok sn \<Longrightarrow> distinct (map fst xs) \<Longrightarrow> \<forall>x \<in> set xs. snapshot_lookup sn (fst x) = None \<Longrightarrow>
   \<forall>e \<in> set (concat (sn_buckets sn)). \<not> se_seen e \<Longrightarrow>
   \<forall>e \<in> set (concat (sn_buckets (foldl (\<lambda>t x. snapshot_add (fst x) (snd x) t) sn xs))). \<not> se_seen e"
proof (induction xs arbitrary: sn)
  case (Cons x xs)
  have "snapshot_ok (snapshot_add (fst x) (snd x) sn)" using Cons.prems by (intro table.add_ok) auto
  moreover have "\<forall>y \<in> set xs. snapshot_lookup (snapshot_add (fst x) (snd x) sn) (fst y) = None"
    using Cons.prems by (auto simp: snapshot_add_lookup image_iff)
  ultimately show ?case using Cons.IH [OF _ _ _ snapshot_add_unseen] Cons.prems by simp
qed simp

text \<open>A scan of an undisturbed directory records exactly what is there.\<close>

lemma snapshot_build_view:
  assumes "os_sched s = []" "d \<noteq> []" "walkable (os_fs s) d" "sound_tree (os_fs s)"
  shows "\<exists>sn s'. syseba_snapshot_build True (\<lambda>_. True) (path_str d) s = (0, sn, s') \<and> quiet s s' \<and>
    snapshot_ok sn \<and> snapshot_lookup sn = tree_view s d \<and> (\<forall>e \<in> set (concat (sn_buckets sn)). \<not> se_seen e)"
proof -
  let ?N = "tree_nodes SYSEBA_PATH_MAX (os_fs s) d"
  let ?xs = "map (\<lambda>x. (fst x, the (fst (syseba_fs_stat (fst x) s)))) (shown ?N)"
  have good: "good_path k \<and> dir_chain (os_fs s) k \<and> fs_get (os_fs s) k = Some n" if "fs_get (os_fs s) k = Some n" "prefix d k" for k n
    using that assms(3) sound_chain [OF assms(4)] by (auto simp: walkable_def prefix_def)
  have "\<forall>rs n. fs_get (os_fs s) (d @ rs) = Some n \<and> walked n \<longrightarrow> quiet s s \<and> os_sched s = [] \<and> readable s (path_str (d @ rs))"
    using good assms(1) unfolding readable_def by (metis prefixI quiet_refl)
  from scan.walk_complete [OF assms(2,3) TrueI assms(1), of s empty_snapshot] this obtain sn s' where
    w: "syseba_walk_files (snapshot_build_entry (\<lambda>_. True)) (path_str d) empty_snapshot s = (0, sn, s')"
    "sn = foldl (scan_note s) empty_snapshot (shown ?N)" "quiet s s'" by auto
  have nodes: "good_path k \<and> dir_chain (os_fs s) k \<and> (\<exists>n. fs_get (os_fs s) k = Some n \<and> walked n \<and> b = (n = Dir))" if "(k, b) \<in> set ?N" for k b
    using that good [of k] by (auto simp: tree_nodes_walkable [OF assms(3,2)] strict_prefix_def split: if_splits)
  have st: "\<forall>x \<in> set (shown ?N). \<exists>sz mt. fst (syseba_fs_stat (fst x) s) = Some (sz, mt, snd x)"
  proof
    fix x assume "x \<in> set (shown ?N)"
    then obtain k b where k: "(k, b) \<in> set ?N" "x = (path_str k, b)" by (auto simp: shown_def)
    with nodes obtain n where "good_path k" "dir_chain (os_fs s) k" "fs_get (os_fs s) k = Some n" "walked n" "b = (n = Dir)" by blast
    from stat_readable [OF assms(1) this(1-4)] this(5) k(2) show "\<exists>sz mt. fst (syseba_fs_stat (fst x) s) = Some (sz, mt, snd x)" by auto
  qed
  have "inj_on path_str (set (map fst ?N))"
    using nodes path_str_inj unfolding inj_on_def good_path_def by (metis (no_types, lifting) in_set_conv_nth length_map list.set_map nth_map image_iff prod.collapse)
  moreover have "distinct (map fst ?N)" using parents_first_distinct [OF tree_nodes_parents_first] assms(4) by (simp add: sound_tree_def)
  ultimately have dist: "distinct (map fst ?xs)"
    using distinct_map [of path_str "map fst ?N"] by (simp add: shown_def o_def split_def)
  have sn: "sn = foldl (\<lambda>t x. snapshot_add (fst x) (snd x) t) empty_snapshot ?xs" using w(2) scan_note_fill [OF st] by simp
  have "snapshot_ok sn \<and> snapshot_lookup sn = snapshot_lookup empty_snapshot ++ map_of ?xs"
    unfolding sn using table.fill [OF empty_snapshot_ok(1) dist] empty_snapshot_ok(2) by blast
  moreover have "(snapshot_lookup empty_snapshot ++ map_of ?xs) p = tree_view s d p" for p
  proof -
    have "map_of ?xs p = (if p \<in> fst ` set (shown ?N) then Some (the (fst (syseba_fs_stat p s))) else None)"
      by (rule map_of_keyed)
    also have "\<dots> = tree_view s d p"
      using st by (auto simp: tree_view_def shown_def image_image split_def)
    finally show ?thesis using empty_snapshot_ok(2) by (simp add: map_add_def split: option.splits)
  qed
  moreover have "\<forall>e \<in> set (concat (sn_buckets sn)). \<not> se_seen e"
    unfolding sn using empty_snapshot_ok by (intro fill_unseen dist) (auto simp: empty_snapshot_def)
  ultimately have "snapshot_ok sn" "snapshot_lookup sn = tree_view s d" "\<forall>e \<in> set (concat (sn_buckets sn)). \<not> se_seen e" by auto
  with w show ?thesis by (simp add: syseba_snapshot_build_def)
qed

section \<open>What the comparison of two snapshots reports\<close>

text \<open>The difference of two views, as events.\<close>

definition changes :: "(string \<Rightarrow> info option) \<Rightarrow> (string \<Rightarrow> info option) \<Rightarrow> (event_kind \<times> string \<times> bool) set" where
  "changes old new =
     {(EVENT_CREATE, p, d) | p d. old p = None \<and> (\<exists>sz mt. new p = Some (sz, mt, d))} \<union>
     {(EVENT_MODIFY, p, False) | p. \<exists>sz mt sz' mt' d'. new p = Some (sz, mt, False) \<and> old p = Some (sz', mt', d') \<and> (sz \<noteq> sz' \<or> mt \<noteq> mt')} \<union>
     {(EVENT_DELETE, p, d) | p d. new p = None \<and> (\<exists>sz mt. old p = Some (sz, mt, d))}"

lemma changes_iff:
  "(EVENT_CREATE, p, d) \<in> changes old new \<longleftrightarrow> old p = None \<and> (\<exists>sz mt. new p = Some (sz, mt, d))"
  "(EVENT_MODIFY, p, d) \<in> changes old new \<longleftrightarrow> \<not> d \<and>
     (\<exists>sz mt. new p = Some (sz, mt, False) \<and> (\<exists>sz' mt' d'. old p = Some (sz', mt', d') \<and> (sz \<noteq> sz' \<or> mt \<noteq> mt')))"
  "(EVENT_DELETE, p, d) \<in> changes old new \<longleftrightarrow> new p = None \<and> (\<exists>sz mt. old p = Some (sz, mt, d))"
  unfolding changes_def by (simp_all; blast)+

definition enqueue_all :: "(event_kind \<times> string \<times> bool) list \<Rightarrow> app \<Rightarrow> os \<Rightarrow> app \<times> os" where
  "enqueue_all evs a s = foldl (\<lambda>(a, s) (kind, path, directory). snd (syseba_app_enqueue kind path directory a s)) (a, s) evs"

lemma enqueue_all_simps:
  "enqueue_all [] a s = (a, s)"
  "enqueue_all ((kind, path, directory) # evs) a s =
     (case syseba_app_enqueue kind path directory a s of (r, a1, s1) \<Rightarrow> enqueue_all evs a1 s1)"
  "enqueue_all (xs @ ys) a s = (case enqueue_all xs a s of (a1, s1) \<Rightarrow> enqueue_all ys a1 s1)"
  by (simp_all add: enqueue_all_def split: prod.splits)

definition entry_events :: "snapshot \<Rightarrow> snapshot_entry \<Rightarrow> (event_kind \<times> string \<times> bool) list" where
  "entry_events previous e =
     (case snapshot_lookup previous (se_path e) of
        None \<Rightarrow> [(EVENT_CREATE, se_path e, se_directory e)]
      | Some (sz, mt, d) \<Rightarrow>
          if \<not> se_directory e \<and> (se_size e \<noteq> sz \<or> se_mtime_ns e \<noteq> mt) then [(EVENT_MODIFY, se_path e, False)] else [])"

definition mark_entry :: "string set \<Rightarrow> snapshot_entry \<Rightarrow> snapshot_entry" where
  "mark_entry P e = (if se_path e \<in> P then e\<lparr>se_seen := True\<rparr> else e)"

definition mark :: "string set \<Rightarrow> snapshot \<Rightarrow> snapshot" where
  "mark P sn = sn\<lparr>sn_buckets := map (map (mark_entry P)) (sn_buckets sn)\<rparr>"

lemma mark_entry_simps [simp]:
  "se_path (mark_entry P e) = se_path e" "se_path \<circ> mark_entry P = se_path" "entry_info (mark_entry P e) = entry_info e"
  "se_seen (mark_entry P e) \<longleftrightarrow> se_seen e \<or> se_path e \<in> P" "mark_entry P (mark_entry Q e) = mark_entry (P \<union> Q) e"
  "se_directory (mark_entry P e) = se_directory e" "mark_entry {} = (\<lambda>e. e)"
  by (auto simp: mark_entry_def entry_info_def fun_eq_iff)

lemma mark_first_map: "distinct (map se_path es) \<Longrightarrow> mark_first p es = map (mark_entry {p}) es"
proof (induction es)
  case (Cons e es)
  have "map (mark_entry {p}) es = es" if "p \<notin> se_path ` set es"
    using that by (intro map_idI) (auto simp: mark_entry_def)
  with Cons show ?case by (cases "se_path e = p") (simp_all add: mark_entry_def [of _ e])
qed simp

lemma mark_seen_mark:
  assumes "snapshot_ok sn"
  shows "mark_seen p sn = mark {p} sn"
proof -
  have "(sn_buckets sn)[bucket_of sn p := mark_first p (sn_buckets sn ! bucket_of sn p)] = map (map (mark_entry {p})) (sn_buckets sn)"
  proof (rule nth_equalityI)
    fix i assume "i < length ((sn_buckets sn)[bucket_of sn p := mark_first p (sn_buckets sn ! bucket_of sn p)])"
    then have i: "i < sn_bucket_count sn" "i < length (sn_buckets sn)" using assms by (simp_all add: snapshot_ok_def)
    show "(sn_buckets sn)[bucket_of sn p := mark_first p (sn_buckets sn ! bucket_of sn p)] ! i = map (map (mark_entry {p})) (sn_buckets sn) ! i"
    proof (cases "i = bucket_of sn p")
      case True
      with i assms show ?thesis by (simp add: mark_first_map snapshot_ok_def)
    next
      case False
      have "se_path e \<noteq> p" if "e \<in> set (sn_buckets sn ! i)" for e using assms i(1) that False by (auto simp: snapshot_ok_def)
      then have "map (mark_entry {p}) (sn_buckets sn ! i) = sn_buckets sn ! i" by (intro map_idI) (auto simp: mark_entry_def)
      with False i show ?thesis by simp
    qed
  qed simp
  then show ?thesis by (simp add: mark_seen_def mark_def Let_def)
qed

lemma mark_entries: "concat (sn_buckets (mark P sn)) = map (mark_entry P) (concat (sn_buckets sn))"
  by (simp add: mark_def map_concat)

lemma mark_mark: "mark P (mark Q sn) = mark (P \<union> Q) sn" "mark {} sn = sn"
  by (simp_all add: mark_def o_def)

lemma mark_ok: "snapshot_ok sn \<Longrightarrow> snapshot_ok (mark P sn)"
  by (simp add: snapshot_ok_def mark_def bucket_of_def)

lemma find_map_same: "(\<And>x. se_path (f x) = se_path x) \<Longrightarrow> find (\<lambda>e. se_path e = p) (map f es) = map_option f (find (\<lambda>e. se_path e = p) es)"
  by (induction es) auto

lemma mark_lookup: "snapshot_ok sn \<Longrightarrow> snapshot_lookup (mark P sn) p = snapshot_lookup sn p"
  using bucket_bound [of sn p]
  by (simp add: snapshot_lookup_def snapshot_find_def mark_def bucket_of_def find_map_same snapshot_ok_def option.map_comp o_def)

lemma mark_missing:
  assumes "snapshot_ok sn" "snapshot_lookup sn p = None"
  shows "mark (insert p P) sn = mark P sn"
proof -
  have "se_path e \<noteq> p" if "b \<in> set (sn_buckets sn)" "e \<in> set b" for b e
    using snapshot_find_iff [OF assms(1), of p e] that assms(2) by (auto simp: snapshot_lookup_def)
  then show ?thesis unfolding mark_def by (auto intro!: arg_cong [where f = "\<lambda>x. sn_buckets_update (\<lambda>_. x) sn"] simp: mark_entry_def)
qed

lemma reconcile_current_run:
  "snapshot_ok previous \<Longrightarrow> reconcile_current es a previous s =
     (case enqueue_all (concat (map (entry_events previous) es)) a s of (a', s') \<Rightarrow> (a', mark (set (map se_path es)) previous, s'))"
proof (induction es arbitrary: a previous s)
  case Nil
  then show ?case by (simp add: enqueue_all_simps mark_mark)
next
  case (Cons e es)
  have ev: "entry_events (mark P previous) = entry_events previous" for P
    using mark_lookup [OF Cons.prems] by (simp add: entry_events_def fun_eq_iff)
  show ?case
  proof (cases "snapshot_find previous (se_path e)")
    case None
    then have "snapshot_lookup previous (se_path e) = None" by (simp add: snapshot_lookup_def)
    with None Cons.IH [OF Cons.prems] mark_missing [OF Cons.prems this] show ?thesis
      by (simp add: entry_events_def enqueue_all_simps split: prod.splits)
  next
    case (Some old)
    have m: "mark (set (map se_path es)) (mark {se_path e} previous) = mark (set (map se_path (e # es))) previous"
      by (simp add: mark_mark)
    from Some Cons.IH [OF mark_ok [OF Cons.prems], of _ "{se_path e}"] m show ?thesis
      by (auto simp: entry_events_def snapshot_lookup_def entry_info_def ev mark_seen_mark [OF Cons.prems] enqueue_all_simps Let_def
          split: prod.splits)
  qed
qed

lemma reconcile_previous_run:
  "reconcile_previous es a s = enqueue_all (map (\<lambda>e. (EVENT_DELETE, se_path e, se_directory e)) (filter (\<lambda>e. \<not> se_seen e) es)) a s"
  by (induction es arbitrary: a s) (auto simp: enqueue_all_simps split: prod.splits)

text \<open>All events of one comparison, in the order in which they are queued.\<close>

definition reconcile_events :: "snapshot \<Rightarrow> snapshot \<Rightarrow> (event_kind \<times> string \<times> bool) list" where
  "reconcile_events previous current =
     concat (map (entry_events previous) (concat (sn_buckets current))) @
     map (\<lambda>e. (EVENT_DELETE, se_path e, se_directory e))
       (filter (\<lambda>e. se_path e \<notin> set (map se_path (concat (sn_buckets current)))) (concat (sn_buckets previous)))"

lemma reconcile_run:
  assumes "snapshot_ok previous" "\<forall>e \<in> set (concat (sn_buckets previous)). \<not> se_seen e"
  shows "syseba_snapshot_reconcile a previous current s =
    (case enqueue_all (reconcile_events previous current) a s of (a', s') \<Rightarrow>
       (a', mark (set (map se_path (concat (sn_buckets current)))) previous, s'))"
proof -
  let ?P = "set (map se_path (concat (sn_buckets current)))"
  have "filter (\<lambda>e. \<not> se_seen e) (map (mark_entry ?P) es) = map (mark_entry ?P) (filter (\<lambda>e. se_path e \<notin> ?P) es)"
    if "\<forall>e \<in> set es. \<not> se_seen e" for es
    using that by (induction es) auto
  with assms(2) have "map (\<lambda>e. (EVENT_DELETE, se_path e, se_directory e)) (filter (\<lambda>e. \<not> se_seen e) (concat (sn_buckets (mark ?P previous)))) =
      map (\<lambda>e. (EVENT_DELETE, se_path e, se_directory e)) (filter (\<lambda>e. se_path e \<notin> ?P) (concat (sn_buckets previous)))"
    by (simp add: mark_entries)
  then show ?thesis
    unfolding syseba_snapshot_reconcile_def reconcile_current_run [OF assms(1)] reconcile_previous_run reconcile_events_def
    by (simp add: enqueue_all_simps(3) split: prod.splits)
qed

lemma lookup_entry:
  assumes "snapshot_ok sn"
  shows "snapshot_lookup sn p = Some v \<longleftrightarrow> (\<exists>e \<in> set (concat (sn_buckets sn)). se_path e = p \<and> entry_info e = v)"
    and "snapshot_lookup sn p = None \<longleftrightarrow> p \<notin> se_path ` set (concat (sn_buckets sn))"
proof -
  show 1: "snapshot_lookup sn p = Some v \<longleftrightarrow> (\<exists>e \<in> set (concat (sn_buckets sn)). se_path e = p \<and> entry_info e = v)" for v
    unfolding snapshot_lookup_def map_option_eq_Some snapshot_find_iff [OF assms] by blast
  show "snapshot_lookup sn p = None \<longleftrightarrow> p \<notin> se_path ` set (concat (sn_buckets sn))"
    using 1 by (metis (no_types, lifting) image_iff not_None_eq)
qed

lemma lookup_ex:
  assumes "snapshot_ok sn"
  shows "(\<exists>e \<in> set (concat (sn_buckets sn)). se_path e = p \<and> P (se_size e) (se_mtime_ns e) (se_directory e)) \<longleftrightarrow>
    (\<exists>sz mt d. snapshot_lookup sn p = Some (sz, mt, d) \<and> P sz mt d)"
  unfolding lookup_entry(1) [OF assms] entry_info_def by blast

lemma distinct_tagged: "distinct (map f xs) \<Longrightarrow> distinct (map (\<lambda>e. (k, f e, g e)) (filter P xs))"
  by (induction xs) auto

lemma concat_at_most:
  assumes "\<And>e. g e \<in> {[], [f e]}" "distinct (map f es)"
  shows "distinct (concat (map g es)) \<and> set (concat (map g es)) \<subseteq> f ` set es"
  using assms(2)
proof (induction es)
  case (Cons e es)
  then have IH: "distinct (concat (map g es))" "set (concat (map g es)) \<subseteq> f ` set es" "f e \<notin> f ` set es" by auto
  then have "f e \<notin> set (concat (map g es))" by blast
  with IH assms(1) [of e] show ?case by (auto simp del: set_concat)
qed simp

text \<open>The comparison reports every difference once and nothing else.\<close>

lemma reconcile_events_changes:
  assumes "snapshot_ok previous" "snapshot_ok current"
  shows "set (reconcile_events previous current) = changes (snapshot_lookup previous) (snapshot_lookup current)"
    and "distinct (reconcile_events previous current)"
proof -
  let ?C = "concat (sn_buckets current)" and ?P = "concat (sn_buckets previous)"
  have split: "x \<in> set (entry_events previous e) \<longleftrightarrow>
      x = (EVENT_CREATE, se_path e, se_directory e) \<and> snapshot_lookup previous (se_path e) = None \<or>
      x = (EVENT_MODIFY, se_path e, False) \<and> \<not> se_directory e \<and>
        (\<exists>sz mt d. snapshot_lookup previous (se_path e) = Some (sz, mt, d) \<and> (se_size e \<noteq> sz \<or> se_mtime_ns e \<noteq> mt))" for x e
    by (auto simp: entry_events_def split: option.splits)
  have "x \<in> set (reconcile_events previous current) \<longleftrightarrow> x \<in> changes (snapshot_lookup previous) (snapshot_lookup current)" for x
  proof -
    obtain k p d where x: "x = (k, p, d)" by (cases x) auto
    have "x \<in> set (reconcile_events previous current) \<longleftrightarrow> (\<exists>e \<in> set ?C. x \<in> set (entry_events previous e)) \<or>
        (\<exists>e \<in> set ?P. x = (EVENT_DELETE, se_path e, se_directory e) \<and> snapshot_lookup current (se_path e) = None)"
      unfolding reconcile_events_def lookup_entry(2) [OF assms(2)] by auto
    also have "\<dots> \<longleftrightarrow> x \<in> changes (snapshot_lookup previous) (snapshot_lookup current)"
    proof (cases k)
      case EVENT_CREATE
      then have "(\<exists>e \<in> set ?C. x \<in> set (entry_events previous e)) \<longleftrightarrow>
          snapshot_lookup previous p = None \<and> (\<exists>e \<in> set ?C. se_path e = p \<and> se_directory e = d)"
        unfolding split x by blast
      then show ?thesis
        using lookup_ex [OF assms(2), of p "\<lambda>_ _ d'. d' = d"] EVENT_CREATE unfolding x by (simp add: changes_iff)
    next
      case EVENT_MODIFY
      let ?Q = "\<lambda>s m. \<exists>sz mt d. snapshot_lookup previous p = Some (sz, mt, d) \<and> (s \<noteq> sz \<or> m \<noteq> mt)"
      from EVENT_MODIFY have "(\<exists>e \<in> set ?C. x \<in> set (entry_events previous e)) \<longleftrightarrow>
          \<not> d \<and> (\<exists>e \<in> set ?C. se_path e = p \<and> \<not> se_directory e \<and> ?Q (se_size e) (se_mtime_ns e))"
        unfolding split x by blast
      then show ?thesis
        using lookup_ex [OF assms(2), of p "\<lambda>s m d'. \<not> d' \<and> ?Q s m"] EVENT_MODIFY unfolding x by (simp add: changes_iff ex_bool_eq)
    next
      case EVENT_DELETE
      then have "(\<exists>e \<in> set ?P. x = (EVENT_DELETE, se_path e, se_directory e) \<and> snapshot_lookup current (se_path e) = None) \<longleftrightarrow>
          snapshot_lookup current p = None \<and> (\<exists>e \<in> set ?P. se_path e = p \<and> se_directory e = d)"
        unfolding x by blast
      moreover have "\<not> (\<exists>e \<in> set ?C. x \<in> set (entry_events previous e))" using EVENT_DELETE unfolding split x by blast
      ultimately show ?thesis
        using lookup_ex [OF assms(1), of p "\<lambda>_ _ d'. d' = d"] EVENT_DELETE unfolding x by (simp add: changes_iff)
    qed
    finally show ?thesis .
  qed
  then show "set (reconcile_events previous current) = changes (snapshot_lookup previous) (snapshot_lookup current)" by blast
  have one: "map (fst \<circ> snd) (entry_events previous e) \<in> {[], [se_path e]}" for e
    by (auto simp: entry_events_def split: option.splits)
  have "distinct (map (fst \<circ> snd) (concat (map (entry_events previous) ?C)))"
    using concat_at_most [OF one snapshot_entries(1) [OF assms(2)]] by (simp add: map_concat o_def)
  then have "distinct (concat (map (entry_events previous) ?C))" by (simp add: distinct_map)
  moreover have "distinct (map (\<lambda>e. (EVENT_DELETE, se_path e, se_directory e)) (filter (\<lambda>e. se_path e \<notin> set (map se_path ?C)) ?P))"
    using distinct_tagged [OF snapshot_entries(1) [OF assms(1)]] .
  moreover have "(EVENT_DELETE, q) \<notin> set (concat (map (entry_events previous) ?C))" for q
    by (auto simp: split)
  ultimately show "distinct (reconcile_events previous current)"
    unfolding reconcile_events_def distinct_append by auto
qed

section \<open>A round of the watcher\<close>

lemma enqueue_link_free:
  assumes "ready src a" "os_sched s = []" "plain_path src" "path_fits src" "link_free (os_fs s) src"
    and "plain_path k" "path_fits k" "link_free (os_fs s) k" "prefix src k"
  shows "\<exists>a' s' ns. syseba_app_enqueue kind (path_str k) directory a s = (SYSEBA_OK, a', s') \<and> ready src a' \<and> quiet s s' \<and>
    wq_items (app_event_queue a') = wq_items (app_event_queue a) @
      [\<lparr>ev_kind = kind, ev_path = path_str k, ev_is_directory = directory, ev_initial_sync = False, ev_observed_ns = ns\<rparr>]"
proof -
  from within_link_free [OF assms(2-8)] assms(1,9) obtain s1 where
    w: "syseba_path_is_within (cfg_source (app_config a)) (path_str k) s = (True, s1)" "quiet s s1" by (auto simp: ready_def)
  obtain ns s2 where m: "syseba_monotonic_ns s1 = (ns, s2)" by (cases "syseba_monotonic_ns s1")
  have q: "quiet s s2" using monotonic_quiet [of s1] m w(2) by (auto intro: quiet_trans)
  have f: "fits SYSEBA_PATH_MAX (path_str k)" using assms(7) by (simp add: path_fits_def)
  show ?thesis
    using assms(1) w m q f
    by (auto simp: syseba_app_enqueue_def app_enqueue_internal_def ready_def allocate_ok on_stats_def wq_push_def syseba_app_is_stopping_def)
qed

lemma enqueue_all_ok:
  assumes "ready src a" "os_sched s = []" "plain_path src" "path_fits src" "link_free (os_fs s) src"
    and "\<forall>x \<in> set evs. \<exists>k. fst (snd x) = path_str k \<and> plain_path k \<and> path_fits k \<and> link_free (os_fs s) k \<and> prefix src k"
  shows "\<exists>a' s'. enqueue_all evs a s = (a', s') \<and> ready src a' \<and> quiet s s' \<and>
    map (\<lambda>e. (ev_kind e, ev_path e, ev_is_directory e)) (wq_items (app_event_queue a')) =
    map (\<lambda>e. (ev_kind e, ev_path e, ev_is_directory e)) (wq_items (app_event_queue a)) @ evs"
  using assms
proof (induction evs arbitrary: a s)
  case Nil
  then show ?case by (simp add: enqueue_all_simps)
next
  case (Cons x evs)
  obtain kind p d where x: "x = (kind, p, d)" by (cases x) auto
  with Cons.prems(6) obtain k where k: "p = path_str k" "plain_path k" "path_fits k" "link_free (os_fs s) k" "prefix src k" by auto
  from enqueue_link_free [OF Cons.prems(1-5) k(2-5), of kind d] obtain a1 s1 ns where
    1: "syseba_app_enqueue kind p d a s = (SYSEBA_OK, a1, s1)" "ready src a1" "quiet s s1"
    "wq_items (app_event_queue a1) = wq_items (app_event_queue a) @
      [\<lparr>ev_kind = kind, ev_path = p, ev_is_directory = d, ev_initial_sync = False, ev_observed_ns = ns\<rparr>]" unfolding k(1) by blast
  from Cons.IH [OF 1(2) quiet_sched [OF 1(3) Cons.prems(2)] Cons.prems(3,4)] Cons.prems(5,6) quiet_fs [OF 1(3)] obtain a' s' where
    2: "enqueue_all evs a1 s1 = (a', s')" "ready src a'" "quiet s1 s'"
    "map (\<lambda>e. (ev_kind e, ev_path e, ev_is_directory e)) (wq_items (app_event_queue a')) =
     map (\<lambda>e. (ev_kind e, ev_path e, ev_is_directory e)) (wq_items (app_event_queue a1)) @ evs" by auto
  with 1 quiet_trans [OF 1(3) 2(3)] show ?case by (simp add: x enqueue_all_simps)
qed

lemma tree_view_node:
  assumes "tree_view s d p = Some v" "walkable (os_fs s) d" "d \<noteq> []"
  shows "\<exists>rs n. p = path_str (d @ rs) \<and> fs_get (os_fs s) (d @ rs) = Some n \<and> path_fits (d @ rs)"
proof -
  from assms(1) obtain k b where k: "p = path_str k" "(k, b) \<in> set (tree_nodes SYSEBA_PATH_MAX (os_fs s) d)"
    by (auto simp: tree_view_def split: if_splits)
  then have "prefix d k" "\<exists>n. fs_get (os_fs s) k = Some n" using tree_nodes_walkable [OF assms(2,3)] by (auto split: if_splits)
  then show ?thesis using k(1) assms(2) by (auto simp: prefix_def walkable_def)
qed

lemma below_link_free:
  assumes "link_free t src" "\<forall>rs l. fs_get t (src @ rs) \<noteq> Some (Lnk l)"
  shows "link_free t (src @ rs)"
  unfolding link_free_def
proof (intro allI impI)
  fix i l
  show "fs_get t (take i (src @ rs)) \<noteq> Some (Lnk l)"
    using assms by (cases "i \<le> length src") (simp_all add: link_free_def)
qed

lemma changed_paths:
  assumes "walkable (os_fs s0) src" "walkable (os_fs s) src" "src \<noteq> []" "x \<in> changes (tree_view s0 src) (tree_view s src)"
  shows "\<exists>rs. fst (snd x) = path_str (src @ rs) \<and> path_fits (src @ rs) \<and>
    (fs_get (os_fs s0) (src @ rs) \<noteq> None \<or> fs_get (os_fs s) (src @ rs) \<noteq> None)"
proof -
  obtain k p d where x: "x = (k, p, d)" by (cases x) auto
  have "\<exists>v. tree_view s0 src p = Some v \<or> tree_view s src p = Some v"
    using assms(4) unfolding x by (cases k) (auto simp: changes_iff)
  then obtain v where "tree_view s0 src (fst (snd x)) = Some v \<or> tree_view s src (fst (snd x)) = Some v" by (auto simp: x)
  then show ?thesis
    using tree_view_node [OF _ assms(1,3)] tree_view_node [OF _ assms(2,3)] by (metis option.distinct(1))
qed



section \<open>The interval\<close>

text \<open>
  The polling interval and its sleeps. Whatever the environment variable holds, the interval is
  between 250 and 60000 milliseconds, and the sleeps of one round add up to it with none longer than
  200 milliseconds, so that a stop request is noticed within that time.
\<close>

theorem poll_sleeps_bounded:
  "250 \<le> poll_interval v \<and> poll_interval v \<le> 60000 \<and> sum_list (sleep_slices (poll_interval v) 0) = poll_interval v \<and>
   list_all (\<lambda>slice. slice \<le> 200) (sleep_slices (poll_interval v) 0)"
proof -
  have "sum_list (sleep_slices n k) = n - k \<and> list_all (\<lambda>slice. slice \<le> 200) (sleep_slices n k)" for n k
  proof (induction n k rule: sleep_slices.induct)
    case (1 n k)
    then show ?case by (subst (1 2) sleep_slices.simps) (auto simp: Let_def)
  qed
  moreover have "250 \<le> poll_interval v \<and> poll_interval v \<le> 60000" by (simp add: poll_interval_def Let_def split: option.splits)
  ultimately show ?thesis by simp
qed

end
