(* ===== verification/Watcher_Linux.thy ===== *)
theory Watcher_Linux
  imports Watcher_Poll
begin

text \<open>
  The inotify watcher, \<^verbatim>\<open>watcher_linux.c\<close>: the table of watched directories, the translation of one
  kernel event into events of the program, and the loop of the thread with its fall-back to polling.
  The kernel side of inotify is an input: the descriptors that \<^verbatim>\<open>inotify_add_watch\<close> returns and the
  results of \<^verbatim>\<open>poll\<close> and \<^verbatim>\<open>read\<close> are given as lists.
\<close>

unbundle bit_operations_syntax

section \<open>Event masks\<close>

definition IN_ATTRIB :: "32 word" where "IN_ATTRIB = 0x4"
definition IN_CLOSE_WRITE :: "32 word" where "IN_CLOSE_WRITE = 0x8"
definition IN_MOVED_FROM :: "32 word" where "IN_MOVED_FROM = 0x40"
definition IN_MOVED_TO :: "32 word" where "IN_MOVED_TO = 0x80"
definition IN_CREATE :: "32 word" where "IN_CREATE = 0x100"
definition IN_DELETE :: "32 word" where "IN_DELETE = 0x200"
definition IN_DELETE_SELF :: "32 word" where "IN_DELETE_SELF = 0x400"
definition IN_MOVE_SELF :: "32 word" where "IN_MOVE_SELF = 0x800"
definition IN_Q_OVERFLOW :: "32 word" where "IN_Q_OVERFLOW = 0x4000"
definition IN_IGNORED :: "32 word" where "IN_IGNORED = 0x8000"
definition IN_ISDIR :: "32 word" where "IN_ISDIR = 0x40000000"

lemmas in_masks =
  IN_ATTRIB_def IN_CLOSE_WRITE_def IN_MOVED_FROM_def IN_MOVED_TO_def IN_CREATE_def IN_DELETE_def
  IN_DELETE_SELF_def IN_MOVE_SELF_def IN_Q_OVERFLOW_def IN_IGNORED_def IN_ISDIR_def

record inotify_event =
  in_wd :: int
  in_mask :: "32 word"
  in_name :: string

section \<open>The table of watches\<close>

record linux_watch =
  lw_descriptor :: int
  lw_path :: string

text \<open>
  \<^verbatim>\<open>count\<close> is the length of \<open>lw_watches\<close>. \<open>lw_answers\<close> are the results of the coming calls of
  \<^verbatim>\<open>inotify_add_watch\<close> (none left: it fails), \<open>lw_memory\<close> those of the coming calls of \<^verbatim>\<open>realloc\<close> (none
  left: it succeeds), \<open>lw_removed\<close> the descriptors given to \<^verbatim>\<open>inotify_rm_watch\<close>.
\<close>

record linux_watcher =
  lw_fd :: int
  lw_watches :: "linux_watch list"
  lw_capacity :: nat
  lw_answers :: "int list"
  lw_memory :: "bool list"
  lw_removed :: "int list"

definition linux_watch_find :: "linux_watcher \<Rightarrow> int \<Rightarrow> linux_watch option" where
  "linux_watch_find watcher descriptor = find (\<lambda>w. lw_descriptor w = descriptor) (lw_watches watcher)"

definition inotify_add_watch :: "linux_watcher \<Rightarrow> int \<times> linux_watcher" where
  "inotify_add_watch watcher =
     (case lw_answers watcher of [] \<Rightarrow> (- 1, watcher) | d # ds \<Rightarrow> (d, watcher\<lparr>lw_answers := ds\<rparr>))"

definition reallocate :: "linux_watcher \<Rightarrow> bool \<times> linux_watcher" where
  "reallocate watcher = (case lw_memory watcher of [] \<Rightarrow> (True, watcher) | b # bs \<Rightarrow> (b, watcher\<lparr>lw_memory := bs\<rparr>))"

fun set_watch_path :: "int \<Rightarrow> string \<Rightarrow> linux_watch list \<Rightarrow> linux_watch list" where
  "set_watch_path descriptor path [] = []"
| "set_watch_path descriptor path (w # ws) =
     (if lw_descriptor w = descriptor then w\<lparr>lw_path := cut SYSEBA_PATH_MAX path\<rparr> # ws else w # set_watch_path descriptor path ws)"

definition linux_watch_append :: "int \<Rightarrow> string \<Rightarrow> linux_watcher \<Rightarrow> linux_watcher" where
  "linux_watch_append descriptor path watcher =
     watcher\<lparr>lw_watches := lw_watches watcher @ [\<lparr>lw_descriptor = descriptor, lw_path = cut SYSEBA_PATH_MAX path\<rparr>]\<rparr>"

definition linux_watch_add :: "string \<Rightarrow> linux_watcher \<Rightarrow> int \<times> linux_watcher" where
  "linux_watch_add path watcher =
     (case inotify_add_watch watcher of (descriptor, w1) \<Rightarrow>
        if descriptor < 0 then (- 1, w1)
        else if linux_watch_find w1 descriptor \<noteq> None
        then (0, w1\<lparr>lw_watches := set_watch_path descriptor path (lw_watches w1)\<rparr>)
        else if length (lw_watches w1) = lw_capacity w1
        then (case reallocate w1 of
                (False, w2) \<Rightarrow> (- 1, w2\<lparr>lw_removed := lw_removed w2 @ [descriptor]\<rparr>)
              | (True, w2) \<Rightarrow>
                  (0, linux_watch_append descriptor path
                        (w2\<lparr>lw_capacity := (if lw_capacity w2 = 0 then 64 else lw_capacity w2 * 2)\<rparr>)))
        else (0, linux_watch_append descriptor path w1))"

text \<open>The last watch takes the place of the removed one.\<close>

fun swap_out :: "(linux_watch \<Rightarrow> bool) \<Rightarrow> linux_watch list \<Rightarrow> linux_watch list" where
  "swap_out P [] = []"
| "swap_out P (w # ws) = (if P w then (if ws = [] then [] else last ws # butlast ws) else w # swap_out P ws)"

definition linux_watch_remove :: "int \<Rightarrow> linux_watcher \<Rightarrow> linux_watcher" where
  "linux_watch_remove descriptor watcher =
     watcher\<lparr>lw_watches := swap_out (\<lambda>w. lw_descriptor w = descriptor) (lw_watches watcher)\<rparr>"

definition linux_add_directory :: "linux_watcher callback" where
  "linux_add_directory path directory watcher s =
     (if \<not> directory then (0, watcher, s)
      else (case linux_watch_add path watcher of (r, watcher') \<Rightarrow> (r, watcher', s)))"

text \<open>\<open>fd\<close> is the result of \<^verbatim>\<open>inotify_init1\<close>, \<open>answers\<close> and \<open>memory\<close> the inputs of the table.\<close>

definition linux_watch_initialize :: "int \<Rightarrow> int list \<Rightarrow> bool list \<Rightarrow> string \<Rightarrow> os \<Rightarrow> int \<times> linux_watcher \<times> os" where
  "linux_watch_initialize fd answers memory root s =
     (let w0 = \<lparr>lw_fd = fd, lw_watches = [], lw_capacity = 0, lw_answers = answers, lw_memory = memory, lw_removed = []\<rparr>;
          failed = (\<lambda>w s. (- 1, w\<lparr>lw_fd := - 1, lw_watches := [], lw_capacity := 0\<rparr>, s))
      in if fd < 0 then failed w0 s
         else (case linux_watch_add root w0 of (r, w1) \<Rightarrow>
                 if r \<noteq> 0 then failed w1 s
                 else (case syseba_walk_files linux_add_directory root w1 s of (r, w2, s1) \<Rightarrow>
                         if r \<noteq> 0 then failed w2 s1 else (0, w2, s1))))"

section \<open>One event\<close>

definition has :: "32 word \<Rightarrow> 32 word \<Rightarrow> bool" where
  "has events bits \<longleftrightarrow> events AND bits \<noteq> 0"

definition event_path :: "linux_watch \<Rightarrow> inotify_event \<Rightarrow> string option" where
  "event_path watch event =
     (if in_name event \<noteq> []
      then let path = lw_path watch @ slash # in_name event in if fits SYSEBA_PATH_MAX path then Some path else None
      else Some (cut SYSEBA_PATH_MAX (lw_path watch)))"

definition enqueue_if :: "bool \<Rightarrow> event_kind \<Rightarrow> string \<Rightarrow> bool \<Rightarrow> app \<Rightarrow> os \<Rightarrow> app \<times> os" where
  "enqueue_if c kind path directory a s =
     (if c then (case syseba_app_enqueue kind path directory a s of (r, a1, s1) \<Rightarrow> (a1, s1)) else (a, s))"

text \<open>\<open>wait\<close> is what happens while the initial synchronisation waits for its workers.\<close>

definition linux_process_event ::
  "(app \<times> os \<Rightarrow> app \<times> os) \<Rightarrow> inotify_event \<Rightarrow> app \<Rightarrow> linux_watcher \<Rightarrow> os \<Rightarrow> app \<times> linux_watcher \<times> os" where
  "linux_process_event wait event a watcher s =
     (let events = in_mask event; directory = has events IN_ISDIR in
      if has events IN_Q_OVERFLOW
      then let a1 = syseba_log_emit ''WARNING'' ''WATCH'' (cfg_source (app_config a)) [] ''IN_Q_OVERFLOW''
                 (syseba_tr (app_language a) ''Coda inotify satura; avvio riconciliazione'' ''inotify queue overflow; reconciling'') s a
           in (case syseba_app_initial_sync wait a1 s of (r, a2, s2) \<Rightarrow> (a2, watcher, s2))
      else (case linux_watch_find watcher (in_wd event) of
              None \<Rightarrow> (a, watcher, s)
            | Some watch \<Rightarrow>
                (case event_path watch event of
                   None \<Rightarrow> (a, watcher, s)
                 | Some path \<Rightarrow>
                     if has events IN_IGNORED then (a, linux_watch_remove (in_wd event) watcher, s)
                     else if has events (IN_DELETE_SELF OR IN_MOVE_SELF) then (a, linux_watch_remove (in_wd event) watcher, s)
                     else let created = has events (IN_CREATE OR IN_MOVED_TO);
                              watcher1 = (if created \<and> directory then snd (linux_watch_add path watcher) else watcher)
                          in (case enqueue_if created EVENT_CREATE path directory a s of (a1, s1) \<Rightarrow>
                             (case enqueue_if (has events (IN_CLOSE_WRITE OR IN_ATTRIB) \<and> \<not> directory) EVENT_MODIFY path False a1 s1 of (a2, s2) \<Rightarrow>
                             (case enqueue_if (has events (IN_DELETE OR IN_MOVED_FROM)) EVENT_DELETE path directory a2 s2 of (a3, s3) \<Rightarrow>
                                (a3, watcher1, s3)))))))"

section \<open>The thread\<close>

fun linux_process_events ::
  "(app \<times> os \<Rightarrow> app \<times> os) \<Rightarrow> inotify_event list \<Rightarrow> app \<Rightarrow> linux_watcher \<Rightarrow> os \<Rightarrow> app \<times> linux_watcher \<times> os" where
  "linux_process_events wait [] a w s = (a, w, s)"
| "linux_process_events wait (e # es) a w s =
     (case linux_process_event wait e a w s of (a1, w1, s1) \<Rightarrow> linux_process_events wait es a1 w1 s1)"

text \<open>
  One turn of the loop is a result of \<^verbatim>\<open>poll\<close>: an error, a timeout, or readable with the events that the
  reads return until they would block. \<open>others\<close> is what the other threads do during the call.
\<close>

datatype poll_result = Poll_Error errno | Poll_Timeout | Poll_Readable "inotify_event list list"

fun linux_loop ::
  "(app \<times> os \<Rightarrow> app \<times> os) \<Rightarrow> ((app \<times> os \<Rightarrow> app \<times> os) \<times> poll_result) list \<Rightarrow> app \<Rightarrow> linux_watcher \<Rightarrow> os \<Rightarrow> app \<times> linux_watcher \<times> os" where
  "linux_loop wait [] a w s = (a, w, s)"
| "linux_loop wait ((others, r) # turns) a w s =
     (if syseba_app_is_stopping a then (a, w, s)
      else (case others (a, s) of (a1, s1) \<Rightarrow>
              (case r of
                 Poll_Error e \<Rightarrow> if e = EINTR then linux_loop wait turns a1 w s1 else (a1, w, s1)
               | Poll_Timeout \<Rightarrow> linux_loop wait turns a1 w s1
               | Poll_Readable chunks \<Rightarrow>
                   (case linux_process_events wait (concat chunks) a1 w s1 of (a2, w2, s2) \<Rightarrow> linux_loop wait turns a2 w2 s2))))"

text \<open>\<open>fallback\<close> is the run of the polling watcher when inotify cannot be used.\<close>

definition syseba_watcher_native_main ::
  "(errno option \<Rightarrow> string) \<Rightarrow> (app \<times> os \<Rightarrow> app \<times> os) \<Rightarrow> int \<Rightarrow> int list \<Rightarrow> bool list \<Rightarrow>
   ((app \<times> os \<Rightarrow> app \<times> os) \<times> poll_result) list \<Rightarrow> (app \<Rightarrow> os \<Rightarrow> app \<times> os) \<Rightarrow> app \<Rightarrow> os \<Rightarrow> app \<times> os" where
  "syseba_watcher_native_main strerror wait fd answers memory turns fallback a s =
     (case linux_watch_initialize fd answers memory (cfg_source (app_config a)) s of (r, w, s1) \<Rightarrow>
        if r \<noteq> 0
        then fallback (syseba_log_emit ''WARNING'' ''WATCH'' (cfg_source (app_config a)) [] (strerror (os_errno s1))
               (syseba_tr (app_language a) ''inotify non disponibile'' ''inotify unavailable'' @ ''; '' @
                syseba_tr (app_language a) ''uso il polling'' ''using polling'') s1 a) s1
        else (case linux_loop wait turns
                     (syseba_log_emit ''INFO'' ''WATCH'' (cfg_source (app_config a)) [] ''inotify''
                        (syseba_tr (app_language a) ''Watcher inotify attivo'' ''inotify watcher active'' @ '' ('' @
                         dec (length (lw_watches w)) @ '' '' @ syseba_tr (app_language a) ''directory'' ''directories'' @ '')'') s1 a) w s1
              of (a2, w2, s2) \<Rightarrow> (a2, s2)))"

section \<open>The table of watches is a map\<close>

text \<open>The paths by descriptor, and the soundness of the array: no descriptor twice, within its capacity.\<close>

definition watch_map :: "linux_watcher \<Rightarrow> int \<Rightarrow> string option" where
  "watch_map w d = map_option lw_path (linux_watch_find w d)"

definition watch_ok :: "linux_watcher \<Rightarrow> bool" where
  "watch_ok w \<longleftrightarrow> distinct (map lw_descriptor (lw_watches w)) \<and> length (lw_watches w) \<le> lw_capacity w"

lemma watch_map_iff:
  assumes "watch_ok w"
  shows "watch_map w d = Some p \<longleftrightarrow> (\<exists>x \<in> set (lw_watches w). lw_descriptor x = d \<and> lw_path x = p)"
proof -
  have "find (\<lambda>w. lw_descriptor w = d) ws = Some x \<longleftrightarrow> x \<in> set ws \<and> lw_descriptor x = d" if "distinct (map lw_descriptor ws)" for ws x
    using that by (induction ws) (auto simp: image_iff)
  with assms show ?thesis by (auto simp: watch_map_def linux_watch_find_def watch_ok_def)
qed

lemma option_eqI: "(\<And>v. x = Some v \<longleftrightarrow> y = Some v) \<Longrightarrow> x = y"
  by (metis not_Some_eq)

lemma swap_out_set:
  assumes "distinct (map lw_descriptor ws)"
  shows "distinct (map lw_descriptor (swap_out (\<lambda>w. lw_descriptor w = d) ws))"
    and "set (swap_out (\<lambda>w. lw_descriptor w = d) ws) = {w \<in> set ws. lw_descriptor w \<noteq> d}"
    and "length (swap_out (\<lambda>w. lw_descriptor w = d) ws) \<le> length ws"
proof -
  let ?P = "\<lambda>w. lw_descriptor w = d"
  have m: "mset (swap_out ?P ws) = filter_mset (\<lambda>w. \<not> ?P w) (mset ws)"
    using assms
  proof (induction ws)
    case (Cons w ws)
    have l: "ws \<noteq> [] \<Longrightarrow> add_mset (last ws) (mset (butlast ws)) = mset ws"
      by (metis append_butlast_last_id mset.simps(2) mset_rev rev.simps(2) rev_append rev_rev_ident append.left_neutral rev.simps(1) append_Cons)
    have "filter_mset (\<lambda>w. \<not> ?P w) (mset ws) = mset ws" if "lw_descriptor w = d"
      using Cons.prems that by (auto simp: filter_mset_eq_conv image_iff)
    with Cons l show ?case by auto
  qed simp
  show "set (swap_out ?P ws) = {w \<in> set ws. lw_descriptor w \<noteq> d}" using arg_cong [OF m, of set_mset] by auto
  show "length (swap_out ?P ws) \<le> length ws" using arg_cong [OF m, of size] by (metis size_filter_mset_lesseq size_mset)
  have "mset (map lw_descriptor (swap_out ?P ws)) = mset (map lw_descriptor (filter (\<lambda>w. \<not> ?P w) ws))" using m by simp
  then show "distinct (map lw_descriptor (swap_out ?P ws))"
    using assms by (metis mset_eq_imp_distinct_iff distinct_map_filter)
qed

lemma set_watch_path_keys: "map lw_descriptor (set_watch_path d p ws) = map lw_descriptor ws"
  by (induction ws) auto

lemma set_watch_path_set:
  assumes "distinct (map lw_descriptor ws)"
  shows "x \<in> set (set_watch_path d p ws) \<longleftrightarrow>
    (\<exists>w \<in> set ws. x = (if lw_descriptor w = d then w\<lparr>lw_path := cut SYSEBA_PATH_MAX p\<rparr> else w))"
  using assms
proof (induction ws)
  case (Cons w ws)
  show ?case
  proof (cases "lw_descriptor w = d")
    case True
    then have "lw_descriptor v \<noteq> d" if "v \<in> set ws" for v
      using Cons.prems imageI [OF that, of lw_descriptor] by auto
    with True show ?thesis by auto
  next
    case False
    with Cons show ?thesis by auto
  qed
qed simp

lemma watch_update_map:
  assumes "watch_ok w" "linux_watch_find w d \<noteq> None" "w' = w\<lparr>lw_watches := set_watch_path d p (lw_watches w)\<rparr>"
  shows "watch_ok w' \<and> watch_map w' = (watch_map w)(d \<mapsto> cut SYSEBA_PATH_MAX p)"
proof -
  have dist: "distinct (map lw_descriptor (lw_watches w))" using assms(1) by (simp add: watch_ok_def)
  have ok: "watch_ok w'"
    using assms(1,3) set_watch_path_keys [of d p "lw_watches w"] by (metis (no_types, lifting) length_map linux_watcher.select_convs(2,3)
        linux_watcher.surjective linux_watcher.update_convs(2) watch_ok_def)
  have m: "\<exists>x \<in> set (lw_watches w). lw_descriptor x = d" using assms(2) by (auto simp: linux_watch_find_def find_None_iff)
  have "watch_map w' e = Some q \<longleftrightarrow> ((watch_map w)(d \<mapsto> cut SYSEBA_PATH_MAX p)) e = Some q" for e q
  proof -
    have "watch_map w' e = Some q \<longleftrightarrow> (\<exists>x \<in> set (lw_watches w). lw_descriptor x = e \<and> (if e = d then q = cut SYSEBA_PATH_MAX p else lw_path x = q))"
    proof -
      have "watch_map w' e = Some q \<longleftrightarrow> (\<exists>x. x \<in> set (set_watch_path d p (lw_watches w)) \<and> lw_descriptor x = e \<and> lw_path x = q)"
        using watch_map_iff [OF ok, of e q] assms(3) by auto
      also have "\<dots> \<longleftrightarrow> (\<exists>x \<in> set (lw_watches w). lw_descriptor x = e \<and> (if e = d then q = cut SYSEBA_PATH_MAX p else lw_path x = q))"
      proof -
        define u where "u = (\<lambda>w :: linux_watch. if lw_descriptor w = d then w\<lparr>lw_path := cut SYSEBA_PATH_MAX p\<rparr> else w)"
        have u: "lw_descriptor (u w) = lw_descriptor w" "lw_path (u w) = (if lw_descriptor w = d then cut SYSEBA_PATH_MAX p else lw_path w)" for w :: linux_watch
          by (simp_all add: u_def)
        have "x \<in> set (set_watch_path d p (lw_watches w)) \<longleftrightarrow> x \<in> u ` set (lw_watches w)" for x
          unfolding set_watch_path_set [OF dist] u_def by blast
        then have "(\<exists>x. x \<in> set (set_watch_path d p (lw_watches w)) \<and> lw_descriptor x = e \<and> lw_path x = q) \<longleftrightarrow>
            (\<exists>x \<in> set (lw_watches w). lw_descriptor (u x) = e \<and> lw_path (u x) = q)" by auto
        also have "\<dots> \<longleftrightarrow> (\<exists>x \<in> set (lw_watches w). lw_descriptor x = e \<and> (if e = d then q = cut SYSEBA_PATH_MAX p else lw_path x = q))"
          unfolding u by (intro bex_cong) auto
        finally show ?thesis .
      qed
      finally show ?thesis .
    qed
    moreover have "(\<exists>x \<in> set (lw_watches w). lw_descriptor x = d \<and> q = cut SYSEBA_PATH_MAX p) \<longleftrightarrow> q = cut SYSEBA_PATH_MAX p" using m by blast
    ultimately show ?thesis
      using watch_map_iff [OF assms(1), of e q] by (cases "e = d") (simp_all add: eq_commute [of q])
  qed
  with ok show ?thesis by (blast intro: option_eqI)
qed

lemma watch_append_map:
  assumes "watch_ok w" "linux_watch_find w d = None" "length (lw_watches w) < c" "lw_capacity w \<le> c"
  shows "watch_ok (linux_watch_append d p (w\<lparr>lw_capacity := c\<rparr>)) \<and>
    watch_map (linux_watch_append d p (w\<lparr>lw_capacity := c\<rparr>)) = (watch_map w)(d \<mapsto> cut SYSEBA_PATH_MAX p)"
proof -
  let ?w = "linux_watch_append d p (w\<lparr>lw_capacity := c\<rparr>)"
  have new: "\<forall>x \<in> set (lw_watches w). lw_descriptor x \<noteq> d" using assms(2) by (auto simp: linux_watch_find_def find_None_iff)
  then have ok: "watch_ok ?w" using assms(1,3) by (auto simp: watch_ok_def linux_watch_append_def)
  have "watch_map ?w e = Some q \<longleftrightarrow> ((watch_map w)(d \<mapsto> cut SYSEBA_PATH_MAX p)) e = Some q" for e q
    using watch_map_iff [OF ok, of e q] watch_map_iff [OF assms(1), of e q] new by (auto simp: linux_watch_append_def)
  with ok show ?thesis by (blast intro: option_eqI)
qed

lemma watch_remove_map:
  assumes "watch_ok w"
  shows "watch_ok (linux_watch_remove d w)" "watch_map (linux_watch_remove d w) = (watch_map w)(d := None)"
proof -
  have dist: "distinct (map lw_descriptor (lw_watches w))" using assms by (simp add: watch_ok_def)
  show ok: "watch_ok (linux_watch_remove d w)"
    using assms swap_out_set(1,3) [OF dist, of d] by (auto simp: watch_ok_def linux_watch_remove_def)
  show "watch_map (linux_watch_remove d w) = (watch_map w)(d := None)"
  proof (rule ext, rule option_eqI)
    fix e p
    show "watch_map (linux_watch_remove d w) e = Some p \<longleftrightarrow> ((watch_map w)(d := None)) e = Some p"
      using watch_map_iff [OF ok, of e p] watch_map_iff [OF assms, of e p] swap_out_set(2) [OF dist, of d]
      by (auto simp: linux_watch_remove_def)
  qed
qed

lemma watch_add_full:
  assumes "watch_ok w" "linux_watch_find w e = None" "length (lw_watches w) = lw_capacity w" "reallocate w = (b, w2)"
  shows "b \<Longrightarrow> let w' = linux_watch_append e path (w2\<lparr>lw_capacity := (if lw_capacity w2 = 0 then 64 else lw_capacity w2 * 2)\<rparr>)
      in watch_ok w' \<and> watch_map w' = (watch_map w)(e \<mapsto> cut SYSEBA_PATH_MAX path)"
    and "watch_ok w2" "watch_map w2 = watch_map w" "lw_answers w2 = lw_answers w"
proof -
  let ?c = "if lw_capacity w2 = 0 then 64 else lw_capacity w2 * 2"
  have w2: "lw_watches w2 = lw_watches w" "lw_capacity w2 = lw_capacity w" "lw_answers w2 = lw_answers w"
    using assms(4) by (auto simp: reallocate_def split: list.splits)
  then show "watch_ok w2" "watch_map w2 = watch_map w" "lw_answers w2 = lw_answers w"
    using assms(1) by (auto simp: watch_ok_def watch_map_def linux_watch_find_def fun_eq_iff)
  moreover have "linux_watch_find w2 e = None" "length (lw_watches w2) < ?c" "lw_capacity w2 \<le> ?c"
    using assms(2,3) w2 by (auto simp: linux_watch_find_def)
  ultimately show "let w' = linux_watch_append e path (w2\<lparr>lw_capacity := ?c\<rparr>)
      in watch_ok w' \<and> watch_map w' = (watch_map w)(e \<mapsto> cut SYSEBA_PATH_MAX path)"
    using watch_append_map [of w2 e ?c path] by (simp add: linux_watch_append_def Let_def)
qed

lemma watch_append_answers: "lw_answers (linux_watch_append e path w) = lw_answers w"
  by (simp add: linux_watch_append_def)

lemma watch_removed_irrelevant:
  "watch_ok (w\<lparr>lw_removed := ds\<rparr>) = watch_ok w" "watch_map (w\<lparr>lw_removed := ds\<rparr>) = watch_map w"
  by (simp_all add: watch_ok_def watch_map_def linux_watch_find_def fun_eq_iff)

lemma watch_add_map:
  assumes "watch_ok w" "linux_watch_add path w = (r, w')"
  shows "watch_ok w' \<and>
    (if r = 0 then \<exists>e. e \<ge> 0 \<and> lw_answers w = e # lw_answers w' \<and> watch_map w' = (watch_map w)(e \<mapsto> cut SYSEBA_PATH_MAX path)
     else watch_map w' = watch_map w)"
proof (cases "lw_answers w")
  case Nil
  with assms show ?thesis by (simp add: linux_watch_add_def inotify_add_watch_def)
next
  case (Cons e es)
  define w1 where "w1 = w\<lparr>lw_answers := es\<rparr>"
  have w1: "inotify_add_watch w = (e, w1)" "watch_ok w1" "watch_map w1 = watch_map w" "lw_answers w1 = es"
    using assms(1) Cons by (simp_all add: inotify_add_watch_def w1_def watch_ok_def watch_map_def linux_watch_find_def fun_eq_iff)
  consider (neg) "e < 0" | (known) "e \<ge> 0" "linux_watch_find w1 e \<noteq> None"
    | (full) "e \<ge> 0" "linux_watch_find w1 e = None" "length (lw_watches w1) = lw_capacity w1"
    | (room) "e \<ge> 0" "linux_watch_find w1 e = None" "length (lw_watches w1) < lw_capacity w1"
    using w1(2) by (fastforce simp: watch_ok_def)
  then show ?thesis
  proof cases
    case neg
    with assms(2) w1 show ?thesis by (simp add: linux_watch_add_def)
  next
    case known
    with assms(2) w1 have "r = 0" "w' = w1\<lparr>lw_watches := set_watch_path e path (lw_watches w1)\<rparr>" by (simp_all add: linux_watch_add_def)
    with watch_update_map [OF w1(2) known(2)] known(1) w1(3) Cons show ?thesis by (simp add: w1_def)
  next
    case full
    obtain b w2 where b: "reallocate w1 = (b, w2)" by (cases "reallocate w1")
    note grown = watch_add_full [OF w1(2) full(2,3) b]
    with assms(2) w1 full b Cons show ?thesis
      by (cases b) (auto simp: linux_watch_add_def Let_def watch_append_answers watch_removed_irrelevant)
  next
    case room
    with assms(2) w1 have r: "r = 0" "w' = linux_watch_append e path w1" by (simp_all add: linux_watch_add_def)
    from watch_append_map [OF w1(2) room(2,3) order_refl, of path] r room(1) w1(3) Cons show ?thesis
      by (simp add: linux_watch_append_def) (simp add: w1_def)
  qed
qed

text \<open>
  C22: the array of watches is a map from descriptors to paths. On a sound array (no descriptor twice,
  never more entries than its capacity) a successful \<^verbatim>\<open>syseba_linux_watch_add\<close> sets the path of the
  descriptor the kernel returned, new or known, a failed one leaves the map alone, removing a
  descriptor removes just that one, and the array stays sound; \<^verbatim>\<open>syseba_linux_watch_find\<close> reads the map.
\<close>

theorem linux_watch_table_refines_map:
  assumes "watch_ok w" "linux_watch_add path w = (r, w')"
  shows "watch_ok w' \<and> watch_ok (linux_watch_remove d w) \<and>
    watch_map (linux_watch_remove d w) = (watch_map w)(d := None) \<and>
    (if r = 0 then \<exists>e. e \<ge> 0 \<and> lw_answers w = e # lw_answers w' \<and> watch_map w' = (watch_map w)(e \<mapsto> cut SYSEBA_PATH_MAX path)
     else watch_map w' = watch_map w)"
  using watch_add_map [OF assms] watch_remove_map [OF assms(1), of d] by blast

definition demo_watcher :: linux_watcher where
  "demo_watcher = \<lparr>lw_fd = 3, lw_watches = [\<lparr>lw_descriptor = 1, lw_path = ''/src''\<rparr>], lw_capacity = 1, lw_answers = [2],
     lw_memory = [], lw_removed = []\<rparr>"

theorem linux_watch_table_refines_map_witness:
  "watch_map (snd (linux_watch_add ''/src/d'' demo_watcher)) 2 = Some ''/src/d''"
proof -
  have ok: "watch_ok demo_watcher" by (simp add: watch_ok_def demo_watcher_def)
  obtain r w' where w: "linux_watch_add ''/src/d'' demo_watcher = (r, w')" by (cases "linux_watch_add ''/src/d'' demo_watcher")
  moreover have "fst (linux_watch_add ''/src/d'' demo_watcher) = 0" by code_simp
  ultimately have "r = 0" by simp
  with linux_watch_table_refines_map [OF ok w, of 1] w show ?thesis by (auto simp: cut_def syseba_limits demo_watcher_def)
qed

section \<open>What an event of the kernel queues\<close>

text \<open>The events of the program for one kernel event about a watched path.\<close>

definition mask_events :: "32 word \<Rightarrow> string \<Rightarrow> (event_kind \<times> string \<times> bool) list" where
  "mask_events events path =
     (let directory = has events IN_ISDIR in
      (if has events (IN_CREATE OR IN_MOVED_TO) then [(EVENT_CREATE, path, directory)] else []) @
      (if has events (IN_CLOSE_WRITE OR IN_ATTRIB) \<and> \<not> directory then [(EVENT_MODIFY, path, False)] else []) @
      (if has events (IN_DELETE OR IN_MOVED_FROM) then [(EVENT_DELETE, path, directory)] else []))"

lemma enqueue_if_all: "enqueue_if c kind path directory a s = enqueue_all (if c then [(kind, path, directory)] else []) a s"
  by (simp add: enqueue_if_def enqueue_all_simps split: prod.splits)

lemma enqueue_all_three:
  "(case enqueue_all xs a s of (a1, s1) \<Rightarrow> case enqueue_all ys a1 s1 of (a2, s2) \<Rightarrow> case enqueue_all zs a2 s2 of (a3, s3) \<Rightarrow> (a3, w, s3)) =
   (case enqueue_all (xs @ ys @ zs) a s of (a', s') \<Rightarrow> (a', w, s'))"
  by (simp add: enqueue_all_simps(3) split: prod.splits)

text \<open>
  C23: a kernel event is translated completely. For an event about a name in a watched directory
  below the source (no call failing, no link on the path), the queue receives exactly one event for
  each kind of change the mask announces, about the path of the directory joined with the name, in the
  order creation, change, deletion; a new directory is watched as well, but only itself: whatever it
  already contains (a directory moved in with its files) is neither queued nor watched.
\<close>

theorem linux_event_queues_changes:
  assumes "ready src a" "os_sched s = []" "plain_path src" "path_fits src" "link_free (os_fs s) src"
    and "linux_watch_find w (in_wd e) = Some watch" "lw_path watch = path_str (src @ ds)" "in_name e = d"
    and "plain_path (src @ ds @ [d])" "path_fits (src @ ds @ [d])" "link_free (os_fs s) (src @ ds @ [d])" "src \<noteq> []"
    and "\<not> has (in_mask e) IN_Q_OVERFLOW" "\<not> has (in_mask e) IN_IGNORED" "\<not> has (in_mask e) (IN_DELETE_SELF OR IN_MOVE_SELF)"
  shows "\<exists>a' s'. linux_process_event wait e a w s =
      (a', if has (in_mask e) (IN_CREATE OR IN_MOVED_TO) \<and> has (in_mask e) IN_ISDIR
           then snd (linux_watch_add (path_str (src @ ds @ [d])) w) else w, s') \<and> quiet s s' \<and>
    map (\<lambda>e. (ev_kind e, ev_path e, ev_is_directory e)) (wq_items (app_event_queue a')) =
    map (\<lambda>e. (ev_kind e, ev_path e, ev_is_directory e)) (wq_items (app_event_queue a)) @ mask_events (in_mask e) (path_str (src @ ds @ [d]))"
proof -
  let ?p = "path_str (src @ ds @ [d])"
  have "d \<noteq> []" using assms(9) by (auto simp: plain_path_def good_comp_def)
  then have path: "event_path watch e = Some ?p"
    using path_str_below [of "src @ ds" d] assms(7,8,10,12) by (simp add: event_path_def path_fits_def)
  have "\<forall>x \<in> set (mask_events (in_mask e) ?p). \<exists>k. fst (snd x) = path_str k \<and> plain_path k \<and> path_fits k \<and> link_free (os_fs s) k \<and> prefix src k"
    using assms(9-11) by (auto simp: mask_events_def Let_def intro!: exI [of _ "src @ ds @ [d]"])
  from enqueue_all_ok [OF assms(1-5) this] obtain a' s' where
    "enqueue_all (mask_events (in_mask e) ?p) a s = (a', s')" "quiet s s'"
    "map (\<lambda>e. (ev_kind e, ev_path e, ev_is_directory e)) (wq_items (app_event_queue a')) =
     map (\<lambda>e. (ev_kind e, ev_path e, ev_is_directory e)) (wq_items (app_event_queue a)) @ mask_events (in_mask e) ?p" by blast
  then show ?thesis
    using path assms(6,13-15)
    unfolding linux_process_event_def Let_def enqueue_if_all enqueue_all_three by (simp add: mask_events_def Let_def)
qed

theorem linux_event_queues_changes_witness:
  "\<exists>a' w' s'. linux_process_event (\<lambda>w. w) \<lparr>in_wd = 1, in_mask = 0x88, in_name = ''a''\<rparr> demo_app demo_watcher demo_os = (a', w', s') \<and>
     map (\<lambda>e. (ev_kind e, ev_path e)) (wq_items (app_event_queue a')) = [(EVENT_CREATE, ''/src/a''), (EVENT_MODIFY, ''/src/a'')]"
proof -
  let ?e = "\<lparr>in_wd = 1, in_mask = 0x88, in_name = ''a''\<rparr> :: inotify_event"
  have r: "ready [''src''] demo_app"
    by (simp add: ready_def demo_app_def demo_config_def zero_app_def syseba_app_is_stopping_def empty_wq_def path_str_def)
  have q: "wq_items (app_event_queue demo_app) = []" by (simp add: demo_app_def zero_app_def empty_wq_def)
  have p: "plain_path [''src'']" "path_fits [''src'']" "plain_path ([''src''] @ [] @ [''a''])" "path_fits ([''src''] @ [] @ [''a''])"
    using demo_routed by (auto simp: routed_def plain_path_def)
  have l: "link_free (os_fs demo_os) [''src'']" "link_free (os_fs demo_os) ([''src''] @ [] @ [''a''])"
    by (auto simp: demo_eval le_Suc_eq)
  have m: "\<not> has 0x88 IN_Q_OVERFLOW" "\<not> has 0x88 IN_IGNORED" "\<not> has 0x88 (IN_DELETE_SELF OR IN_MOVE_SELF)"
    "mask_events 0x88 ''/src/a'' = [(EVENT_CREATE, ''/src/a'', False), (EVENT_MODIFY, ''/src/a'', False)]"
    by code_simp+
  have "os_sched demo_os = []" "linux_watch_find demo_watcher (in_wd ?e) = Some \<lparr>lw_descriptor = 1, lw_path = ''/src''\<rparr>"
    by (simp_all add: demo_os_def quiet_os_def linux_watch_find_def demo_watcher_def)
  from linux_event_queues_changes [OF r this(1) p(1,2) l(1) this(2) _ _ p(3,4) l(2), of "\<lambda>w. w"] m q
  show ?thesis by (auto simp: path_str_def)
qed

end
