(* ===== verification/Daemon.thy ===== *)
theory Daemon
  imports Program Watcher_Linux
begin

text \<open>
  The running daemon as a state machine. The threads of the program (the requests of the web server, the
  watcher, the workers, the log writer) and the world outside take steps on the shared state in any
  order; what holds of every state that can be reached after a start is shown by induction over the
  steps.
\<close>

section \<open>The steps\<close>

inductive daemon_step :: "('c, 'd) web_env \<Rightarrow> app \<times> os \<Rightarrow> app \<times> os \<Rightarrow> bool" for W where
  request: "http_handler W q c a s = (r, c', a', s') \<Longrightarrow> daemon_step W (a, s) (a', s')"
| change: "syseba_app_enqueue kind path directory a s = (r, a', s') \<Longrightarrow> daemon_step W (a, s) (a', s')"
| initial: "syseba_app_enqueue_initial kind path directory a s = (r, a', s') \<Longrightarrow> daemon_step W (a, s) (a', s')"
| work: "wq_pop (app_event_queue a) = (Some e, q) \<Longrightarrow> worker_handle strerror memory e (a\<lparr>app_event_queue := q\<rparr>) s = (a', s') \<Longrightarrow>
    daemon_step W (a, s) (a', s')"
| log: "wq_pop (app_log_queue a) = (Some rec, q) \<Longrightarrow> log_write_file rec (w :: unit writer) (a\<lparr>app_log_queue := q\<rparr>) s = (w1, a1, s') \<Longrightarrow>
    log_write_database db_write rec w1 a1 = (w2, a2) \<Longrightarrow> daemon_step W (a, s) (a2\<lparr>app_log_queue := wq_task_done (app_log_queue a2)\<rparr>, s')"
| sync_start: "daemon_step W (a, s) (sync_begin s a, s)"
| sync_stop: "daemon_step W (a, s) (sync_end errors s a, s)"
| stop: "daemon_step W (a, s) (syseba_app_request_stop a, s)"
| outside: "daemon_step W (a, s) (a, s')"

inductive_cases daemon_stepE: "daemon_step W (a, s) (a', s')"

section \<open>What no step changes\<close>

lemma access_updates_more [simp]:
  "access (a\<lparr>app_event_queue := x\<rparr>) = access a" "access (sync_begin s a) = access a" "access (sync_end errors s a) = access a"
  "access (syseba_app_request_stop a) = access a" "access (syseba_app_set_stopping a) = access a" "access (initial_progress b1 b2 a) = access a"
  by (simp_all add: access_def sync_begin_def sync_end_def Let_def syseba_app_request_stop_def syseba_app_set_stopping_def initial_progress_def on_stats_def)

lemma enqueue_access: "app_enqueue_internal kind path directory initial a s = (r, a', s') \<Longrightarrow> access a' = access a"
  by (auto simp: app_enqueue_internal_def Let_def dest!: allocate_access split: if_splits prod.splits bool.splits)

lemma process_change_access: "process_change e backup a s = (r, copied, skipped, a', s') \<Longrightarrow> access a' = access a"
  by (auto simp: process_change_def Let_def split: if_splits prod.splits bool.splits)

lemma process_delete_access: "process_delete memory backup restore a s = (r, a', s') \<Longrightarrow> access a' = access a"
  by (auto simp: process_delete_def split: if_splits prod.splits option.splits)

lemma process_event_access: "syseba_app_process_event memory e a s = (r, a', s') \<Longrightarrow> access a' = access a"
  by (auto simp: syseba_app_process_event_def dest!: process_change_access process_delete_access
      split: if_splits prod.splits option.splits bool.splits)

lemma worker_handle_access: "worker_handle strerror memory e a s = (a', s') \<Longrightarrow> access a' = access a"
  by (auto simp: worker_handle_def Let_def dest!: process_event_access split: prod.splits if_splits)

lemma log_write_access: "log_write_file rec w a s = (w', a', s') \<Longrightarrow> access a' = access a"
  by (auto simp: log_write_file_def Let_def split: if_splits prod.splits option.splits bool.splits)

lemma log_database_access: "log_write_database db_write rec w a = (w', a') \<Longrightarrow> access a' = access a"
  by (auto simp: log_write_database_def Let_def split: if_splits prod.splits option.splits)

lemma daemon_step_access: "daemon_step W x y \<Longrightarrow> access (fst y) = access (fst x)"
proof (induction rule: daemon_step.induct)
  case (request q c a s r c' a' s')
  then show ?case using handler_access [of W q c a s] by simp
qed (auto simp: syseba_app_enqueue_def syseba_app_enqueue_initial_def dest!: enqueue_access worker_handle_access log_write_access log_database_access)

lemma daemon_steps_access: "(daemon_step W)\<^sup>*\<^sup>* x y \<Longrightarrow> access (fst y) = access (fst x)"
  by (induction rule: rtranclp_induct) (auto dest: daemon_step_access)

section \<open>The start\<close>

lemma start_threads_access: "start_threads env a = (ok, a') \<Longrightarrow> access a' = access a"
  by (auto simp: start_threads_def start_workers_def syseba_watcher_start_def access_def allocate_def
      split: if_splits prod.splits bool.splits option.splits list.splits)

lemma web_start_access: "syseba_web_start ok a s = (r, a') \<Longrightarrow> access a' = access a"
proof -
  have "access (a\<lparr>app_web_context := b\<rparr>) = access a" for b by (simp add: access_def)
  then show "syseba_web_start ok a s = (r, a') \<Longrightarrow> access a' = access a" by (auto simp: syseba_web_start_def split: if_splits)
qed

lemma app_start_access:
  assumes "syseba_app_start env stop a s = (SYSEBA_OK, a', s')"
  shows "access a' = access a"
proof -
  obtain r0 s1 where 0: "prepare_runtime_paths a s = (r0, s1)" by (cases "prepare_runtime_paths a s")
  obtain r1 a1 s2 where 1: "(if app_web_only a then (SYSEBA_OK, a, s1) else syseba_app_acquire_lock (se_flock env) a s1) = (r1, a1, s2)"
    by (metis prod_cases3)
  obtain r2 a2 s3 where 2: "(if se_database env then syseba_log_start (se_log_thread env) a1 s2 else (- 1, a1, s2)) = (r2, a2, s3)"
    by (metis prod_cases3)
  obtain ns s4 where m: "syseba_monotonic_ns s3 = (ns, s4)" by (cases "syseba_monotonic_ns s3")
  define a3 where "a3 = a2\<lparr>app_started_ns := ns, app_started_at := syseba_iso_now s4, app_running := \<not> app_web_only a2\<rparr>"
  obtain b a4 where 4: "(if app_web_only a3 then (True, a3) else start_threads env a3) = (b, a4)"
    by (cases "if app_web_only a3 then (True, a3) else start_threads env a3")
  obtain r5 a5 where 5: "(if app_web_enabled a4 then syseba_web_start (se_web env) a4 s4 else (SYSEBA_OK, a4)) = (r5, a5)"
    by (cases "if app_web_enabled a4 then syseba_web_start (se_web env) a4 s4 else (SYSEBA_OK, a4)")
  have ok: "r0 = 0" "r1 = SYSEBA_OK" "r2 = 0" "b" "r5 = SYSEBA_OK"
    using assms unfolding syseba_app_start_def 0 prod.case 1 2 m Let_def a3_def [symmetric] 4 5 by (auto split: if_splits bool.splits)
  have "access a1 = access a" using 1 ok(2) acquire_ok [of "se_flock env" a s1 a1 s2] by (auto simp: access_def split: if_splits)
  moreover have "access a2 = access a1" using 2 ok(3) by (auto simp: access_def syseba_log_start_def split: if_splits option.splits prod.splits)
  moreover have "access a3 = access a2" by (simp add: access_def a3_def)
  moreover have "access a4 = access a3" using 4 start_threads_access [of env a3 b a4] by (auto split: if_splits)
  moreover have "access a5 = access a4" using 5 web_start_access [of "se_web env" a4 s4 r5 a5] by (auto split: if_splits)
  moreover have "access a' = access a5"
    using assms ok unfolding syseba_app_start_def 0 prod.case 1 2 m Let_def a3_def [symmetric] 4 5 by auto
  ultimately show ?thesis by simp
qed

section \<open>A started web interface is protected\<close>

lemma cli_prepare_protected:
  assumes "cli_prepare E opts c s = Some (SYSEBA_OK, a, s')" "app_web_enabled a"
  shows "if opt_no_web_auth opts then web_host_is_loopback (opt_web_host opts) \<and> \<not> app_web_auth_enabled a
    else app_web_auth_enabled a \<and> web_token_valid (app_web_token a)"
proof -
  obtain r0 a0 where i: "cli_app E c opts = (r0, a0)" by (cases "cli_app E c opts")
  have "app_web_enabled a0"
    using assms i load_token_frame(3) by (fastforce simp: cli_prepare_def split: if_splits option.splits)
  with assms(1) i have "syseba_web_load_token (fst (ce_random E)) (snd (ce_random E)) (ce_token E) opts a0 s = Some (SYSEBA_OK, a, s')"
    by (auto simp: cli_prepare_def split: if_splits option.splits)
  from load_token_access [OF this] show ?thesis by (auto split: if_splits)
qed

lemma token_no_nul: "web_token_valid t \<Longrightarrow> CHR 0x00 \<notin> set t"
  by (auto simp: web_token_valid_def uchar_def)

lemma web_only_starts:
  assumes "app_web_only a" "app_web_enabled a" "se_database env" "se_web env"
    and "fst (prepare_runtime_paths a s) = 0" "fst (syseba_log_start (se_log_thread env) a (snd (prepare_runtime_paths a s))) = 0"
    and "fits 320 (app_web_host a @ '':'' @ int_text (app_web_port a))"
  shows "fst (syseba_app_start env stop a s) = SYSEBA_OK"
proof -
  obtain s1 where 1: "prepare_runtime_paths a s = (0, s1)" using assms(5) by (cases "prepare_runtime_paths a s") simp
  obtain a2 s2 where 2: "syseba_log_start (se_log_thread env) a s1 = (0, a2, s2)"
    using assms(6) 1 by (cases "syseba_log_start (se_log_thread env) a s1") auto
  then have "a2 = a\<lparr>app_log_thread_started := True\<rparr>" by (auto simp: syseba_log_start_def split: option.splits prod.splits if_splits)
  then have a2: "app_web_only a2" "app_web_enabled a2" "app_web_host a2 = app_web_host a" "app_web_port a2 = app_web_port a"
    using assms(1,2) by simp_all
  obtain ns s4 where m: "syseba_monotonic_ns s2 = (ns, s4)" by (cases "syseba_monotonic_ns s2")
  define a3 where "a3 = a2\<lparr>app_started_ns := ns, app_started_at := syseba_iso_now s4, app_running := False\<rparr>"
  have "fst (syseba_web_start True a3 s4) = SYSEBA_OK" using assms(7) a2 by (simp add: syseba_web_start_def a3_def)
  then obtain a5 where 5: "syseba_web_start True a3 s4 = (SYSEBA_OK, a5)" by (cases "syseba_web_start True a3 s4") simp
  then show ?thesis
    unfolding syseba_app_start_def 1 prod.case using assms(1,3,4) a2(1,2) 2 m by (simp add: a3_def Let_def)
qed

end
