(* ===== verification/Database.thy ===== *)
theory Database
  imports Log
begin

text \<open>
  The event database of \<^verbatim>\<open>database.c\<close>: opening it, the migration of its table, the writer with its
  prepared statement and closing. SQLite is not part of the sources and is a record of the calls the
  code makes, on a connection of any type; what its documentation promises is the hypothesis
  \<open>sqlite_laws\<close>. The lemmas show that a migration is all or nothing and ends with every column
  present, that a write stores its record once or not at all and always returns, and that the writer
  thread of the log stores the records in the order of its queue.
\<close>

section \<open>SQLite\<close>

abbreviation SQLITE_OK :: int where
  "SQLITE_OK \<equiv> 0"

abbreviation SQLITE_SCHEMA :: int where
  "SQLITE_SCHEMA \<equiv> 17"

abbreviation SQLITE_DONE :: int where
  "SQLITE_DONE \<equiv> 101"

text \<open>
  The calls, on the state \<open>'d\<close> of a connection and its database; \<open>'h\<close> are statements and \<open>None\<close> is the
  null pointer. \<open>sq_open\<close> gives \<open>Inl\<close> with the handle, if any, when the result is not \<^verbatim>\<open>SQLITE_OK\<close>;
  \<open>sq_exec\<close> has the result, the message and the state after it; \<open>sq_rows\<close> lists the second column of the
  rows \<^verbatim>\<open>sqlite3_step\<close> delivers.
\<close>

record ('d, 'h) sqlite =
  sq_open :: "string \<Rightarrow> 'd option + 'd"
  sq_close :: "'d \<Rightarrow> 'd"
  sq_extended_result_codes :: "'d \<Rightarrow> 'd"
  sq_busy_timeout :: "nat \<Rightarrow> 'd \<Rightarrow> 'd"
  sq_errmsg :: "'d \<Rightarrow> string"
  sq_exec :: "string \<Rightarrow> 'd \<Rightarrow> int \<times> string option \<times> 'd"
  sq_prepare :: "string \<Rightarrow> 'd \<Rightarrow> int \<times> 'h option \<times> 'd"
  sq_rows :: "'h option \<Rightarrow> 'd \<Rightarrow> string option list \<times> 'd"
  sq_reset :: "'h option \<Rightarrow> 'd \<Rightarrow> 'd"
  sq_clear_bindings :: "'h option \<Rightarrow> 'd \<Rightarrow> 'd"
  sq_bind_text :: "'h option \<Rightarrow> nat \<Rightarrow> string \<Rightarrow> 'd \<Rightarrow> int \<times> 'd"
  sq_step :: "'h option \<Rightarrow> 'd \<Rightarrow> int \<times> 'd"
  sq_finalize :: "'h option \<Rightarrow> 'd \<Rightarrow> 'd"

section \<open>Executing statements\<close>

definition database_exec :: "('d, 'h) sqlite \<Rightarrow> string \<Rightarrow> nat \<Rightarrow> 'd \<Rightarrow> (string + unit) \<times> 'd" where
  "database_exec S sql n d =
     (case sq_exec S sql d of (result, message, d1) \<Rightarrow>
        if result \<noteq> SQLITE_OK then (Inl (cut n (case message of None \<Rightarrow> sq_errmsg S d1 | Some m \<Rightarrow> m)), d1)
        else (Inr (), d1))"

definition table_info_sql :: string where
  "table_info_sql = ''PRAGMA table_info(logs)''"

definition database_has_column :: "('d, 'h) sqlite \<Rightarrow> string \<Rightarrow> 'd \<Rightarrow> bool \<times> 'd" where
  "database_has_column S name d =
     (case sq_prepare S table_info_sql d of (result, h, d1) \<Rightarrow>
        if result \<noteq> SQLITE_OK then (False, d1)
        else (case sq_rows S h d1 of (rows, d2) \<Rightarrow> (Some name \<in> set rows, sq_finalize S h d2)))"

section \<open>Migration\<close>

definition info_text :: string where
  "info_text = [CHR 0x27] @ ''INFO'' @ [CHR 0x27]"

definition columns :: "(string \<times> string) list" where
  "columns =
     [(''timestamp'', ''ALTER TABLE logs ADD COLUMN timestamp TEXT''),
      (''level'', ''ALTER TABLE logs ADD COLUMN level TEXT DEFAULT '' @ info_text),
      (''operation'', ''ALTER TABLE logs ADD COLUMN operation TEXT''),
      (''source_path'', ''ALTER TABLE logs ADD COLUMN source_path TEXT''),
      (''target_path'', ''ALTER TABLE logs ADD COLUMN target_path TEXT''),
      (''additional_info'', ''ALTER TABLE logs ADD COLUMN additional_info TEXT'')]"

definition begin_sql :: string where
  "begin_sql = ''BEGIN IMMEDIATE''"

definition commit_sql :: string where
  "commit_sql = ''COMMIT''"

definition rollback_sql :: string where
  "rollback_sql = ''ROLLBACK''"

definition create_sql :: string where
  "create_sql = ''CREATE TABLE IF NOT EXISTS logs (id INTEGER PRIMARY KEY AUTOINCREMENT,timestamp TEXT,level TEXT DEFAULT '' @ info_text @
     '',operation TEXT,source_path TEXT,target_path TEXT,additional_info TEXT)''"

definition index_sql :: string where
  "index_sql = ''CREATE INDEX IF NOT EXISTS idx_logs_timestamp ON logs(timestamp)''"

fun migrate_columns :: "('d, 'h) sqlite \<Rightarrow> nat \<Rightarrow> (string \<times> string) list \<Rightarrow> 'd \<Rightarrow> (string + unit) \<times> 'd" where
  "migrate_columns S n [] d = (Inr (), d)"
| "migrate_columns S n ((name, sql) # cs) d =
     (case database_has_column S name d of (found, d1) \<Rightarrow>
        if found then migrate_columns S n cs d1
        else (case database_exec S sql n d1 of
                (Inl e, d2) \<Rightarrow> (Inl e, d2)
              | (Inr _, d2) \<Rightarrow> migrate_columns S n cs d2))"

text \<open>The statements between \<^verbatim>\<open>BEGIN IMMEDIATE\<close> and the end of the transaction; the first that fails ends them.\<close>

definition migrate_table :: "('d, 'h) sqlite \<Rightarrow> nat \<Rightarrow> 'd \<Rightarrow> (string + unit) \<times> 'd" where
  "migrate_table S n d =
     (case database_exec S create_sql n d of
        (Inl e, d1) \<Rightarrow> (Inl e, d1)
      | (Inr _, d1) \<Rightarrow>
          (case migrate_columns S n columns d1 of
             (Inl e, d2) \<Rightarrow> (Inl e, d2)
           | (Inr _, d2) \<Rightarrow>
               (case database_exec S index_sql n d2 of
                  (Inl e, d3) \<Rightarrow> (Inl e, d3)
                | (Inr _, d3) \<Rightarrow> database_exec S commit_sql n d3)))"

definition database_migrate :: "('d, 'h) sqlite \<Rightarrow> nat \<Rightarrow> 'd \<Rightarrow> (string + unit) \<times> 'd" where
  "database_migrate S n d =
     (case database_exec S begin_sql n d of
        (Inl e, d1) \<Rightarrow> (Inl e, d1)
      | (Inr _, d1) \<Rightarrow>
          (case migrate_table S n d1 of
             (Inl e, d2) \<Rightarrow> (case sq_exec S rollback_sql d2 of (_, _, d3) \<Rightarrow> (Inl e, d3))
           | (Inr _, d2) \<Rightarrow> (Inr (), d2)))"

section \<open>Opening and closing\<close>

definition pragmas :: "string list" where
  "pragmas = [''PRAGMA journal_mode=WAL'', ''PRAGMA synchronous=NORMAL'', ''PRAGMA foreign_keys=ON'']"

fun exec_each :: "('d, 'h) sqlite \<Rightarrow> string list \<Rightarrow> nat \<Rightarrow> 'd \<Rightarrow> (string + unit) \<times> 'd" where
  "exec_each S [] n d = (Inr (), d)"
| "exec_each S (sql # sqls) n d =
     (case database_exec S sql n d of (Inl e, d1) \<Rightarrow> (Inl e, d1) | (Inr _, d1) \<Rightarrow> exec_each S sqls n d1)"

definition database_directory :: "string \<Rightarrow> os \<Rightarrow> bool \<times> os" where
  "database_directory path s =
     (case syseba_parent_dir path SYSEBA_PATH_MAX of
        None \<Rightarrow> (False, s)
      | Some parent \<Rightarrow> (case syseba_mkdirs parent s of (r, s1) \<Rightarrow> (r = 0, s1)))"

text \<open>\<^verbatim>\<open>syseba_fs_exists(path) && !syseba_fs_is_regular(path)\<close>.\<close>

definition not_regular :: "string \<Rightarrow> os \<Rightarrow> bool \<times> os" where
  "not_regular path s =
     (case syseba_fs_exists path s of (e, s1) \<Rightarrow>
        if \<not> e then (False, s1) else (case syseba_fs_is_regular path s1 of (r, s2) \<Rightarrow> (\<not> r, s2)))"

definition database_connect :: "('d, 'h) sqlite \<Rightarrow> string \<Rightarrow> nat \<Rightarrow> string + 'd" where
  "database_connect S path n =
     (case sq_open S path of
        Inl None \<Rightarrow> Inl (cut n ''Unable to open SQLite database'')
      | Inl (Some d) \<Rightarrow> Inl (cut n (sq_errmsg S d))
      | Inr d \<Rightarrow>
          (case exec_each S pragmas n (sq_busy_timeout S 5000 (sq_extended_result_codes S d)) of
             (Inl e, d1) \<Rightarrow> Inl e
           | (Inr _, d1) \<Rightarrow>
               (case database_migrate S n d1 of (Inl e, d2) \<Rightarrow> Inl e | (Inr _, d2) \<Rightarrow> Inr d2)))"

definition database_open ::
  "('d, 'h) sqlite \<Rightarrow> (errno option \<Rightarrow> string) \<Rightarrow> string \<Rightarrow> nat \<Rightarrow> os \<Rightarrow> (string + 'd) \<times> os" where
  "database_open S strerror path n s =
     (case database_directory path s of (made, s1) \<Rightarrow>
        if \<not> made then (Inl (cut n (''Unable to create database directory: '' @ strerror (os_errno s1))), s1)
        else (case not_regular path s1 of (bad, s2) \<Rightarrow>
          if bad then (Inl (cut n (''Database path is not a regular file: '' @ path)), set_errno EINVAL s2)
          else (database_connect S path n, s2)))"

definition syseba_database_initialize ::
  "('d, 'h) sqlite \<Rightarrow> (errno option \<Rightarrow> string) \<Rightarrow> string \<Rightarrow> nat \<Rightarrow> os \<Rightarrow> (string + 'd) \<times> os" where
  "syseba_database_initialize S strerror path n s =
     (case database_open S strerror path n s of
        (Inl e, s1) \<Rightarrow> (Inl e, s1)
      | (Inr d, s1) \<Rightarrow> (Inr (sq_close S d), s1))"

record ('d, 'h) database_writer =
  dw_connection :: 'd
  dw_insert :: "'h option"

definition insert_sql :: string where
  "insert_sql = ''INSERT INTO logs (timestamp, level, operation, source_path, target_path, additional_info) VALUES (?, ?, ?, ?, ?, ?)''"

text \<open>\<open>memory\<close> is the result of \<^verbatim>\<open>calloc\<close>. A failing \<^verbatim>\<open>sqlite3_prepare_v2\<close> leaves a null statement.\<close>

definition syseba_database_open_writer ::
  "('d, 'h) sqlite \<Rightarrow> (errno option \<Rightarrow> string) \<Rightarrow> bool \<Rightarrow> string \<Rightarrow> nat \<Rightarrow> os \<Rightarrow> (string + ('d, 'h) database_writer) \<times> os" where
  "syseba_database_open_writer S strerror memory path n s =
     (if \<not> memory then (Inl (cut n ''Out of memory''), s)
      else (case database_open S strerror path n s of
              (Inl e, s1) \<Rightarrow> (Inl e, s1)
            | (Inr d, s1) \<Rightarrow>
                (case sq_prepare S insert_sql d of (result, h, d1) \<Rightarrow>
                   if result \<noteq> SQLITE_OK then (Inl (if h = None then cut n (sq_errmsg S d1) else []), s1)
                   else (Inr \<lparr>dw_connection = d1, dw_insert = h\<rparr>, s1))))"

definition syseba_database_close :: "('d, 'h) sqlite \<Rightarrow> ('d, 'h) database_writer \<Rightarrow> 'd" where
  "syseba_database_close S w =
     sq_close S (if dw_insert w = None then dw_connection w else sq_finalize S (dw_insert w) (dw_connection w))"

section \<open>Writing\<close>

definition record_fields :: "log_record \<Rightarrow> string list" where
  "record_fields r = [lr_timestamp r, lr_level r, lr_operation r, lr_source_path r, lr_target_path r, lr_additional_info r]"

fun bind_fields :: "('d, 'h) sqlite \<Rightarrow> 'h option \<Rightarrow> nat \<Rightarrow> string list \<Rightarrow> 'd \<Rightarrow> bool \<times> 'd" where
  "bind_fields S h i [] d = (True, d)"
| "bind_fields S h i (t # ts) d =
     (case sq_bind_text S h i t d of (result, d1) \<Rightarrow>
        if result \<noteq> SQLITE_OK then (False, d1) else bind_fields S h (i + 1) ts d1)"

text \<open>The function calls itself as long as the schema has changed under the statement: \<open>None\<close> would be a call that never returns.\<close>

partial_function (option) syseba_database_write ::
  "('d, 'h) sqlite \<Rightarrow> ('d, 'h) database_writer \<Rightarrow> log_record \<Rightarrow> (int \<times> ('d, 'h) database_writer) option" where
  "syseba_database_write S w r =
     (let h = dw_insert w; d = sq_clear_bindings S h (sq_reset S h (dw_connection w)) in
      case bind_fields S h 1 (record_fields r) d of (bound, d1) \<Rightarrow>
        if \<not> bound then Some (- 1, w\<lparr>dw_connection := d1\<rparr>)
        else (case sq_step S h d1 of (result, d2) \<Rightarrow>
          if result = SQLITE_SCHEMA
          then (case database_migrate S 256 (sq_finalize S h d2) of (migrated, d3) \<Rightarrow>
                  if isl migrated then Some (- 1, \<lparr>dw_connection = d3, dw_insert = None\<rparr>)
                  else (case sq_prepare S insert_sql d3 of (prepared, h2, d4) \<Rightarrow>
                    if prepared \<noteq> SQLITE_OK then Some (- 1, \<lparr>dw_connection = d4, dw_insert = h2\<rparr>)
                    else syseba_database_write S \<lparr>dw_connection = d4, dw_insert = h2\<rparr> r))
          else Some (if result = SQLITE_DONE then 0 else - 1, w\<lparr>dw_connection := d2\<rparr>)))"

section \<open>What SQLite promises\<close>

text \<open>
  What a connection shows of its database: the columns of the table \<^verbatim>\<open>logs\<close> if it exists, its rows (none
  without a table), what an open transaction goes back to, and a bound on the number of times other connections will still
  change the schema.
\<close>

record dbview =
  dv_columns :: "string list option"
  dv_rows :: "string option list list"
  dv_saved :: "(string list option \<times> string option list list) option"
  dv_changes :: nat

definition rolled_back :: "dbview \<Rightarrow> dbview" where
  "rolled_back v = (case dv_saved v of None \<Rightarrow> v | Some (cs, rows) \<Rightarrow> v\<lparr>dv_columns := cs, dv_rows := rows, dv_saved := None\<rparr>)"

definition table_columns :: "string list" where
  "table_columns = ''id'' # map fst columns"

text \<open>The effect of the statements of a migration when they succeed.\<close>

definition sql_effect :: "string \<Rightarrow> dbview \<Rightarrow> dbview" where
  "sql_effect sql v =
     (if sql = begin_sql then v\<lparr>dv_saved := Some (dv_columns v, dv_rows v)\<rparr>
      else if sql = commit_sql then v\<lparr>dv_saved := None\<rparr>
      else if sql = rollback_sql then rolled_back v
      else if sql = create_sql then (if dv_columns v = None then v\<lparr>dv_columns := Some table_columns\<rparr> else v)
      else (case map_of (map prod.swap columns) sql of
              Some name \<Rightarrow> v\<lparr>dv_columns := map_option (\<lambda>cs. cs @ [name]) (dv_columns v)\<rparr>
            | None \<Rightarrow> v))"

definition migration_sql :: "string set" where
  "migration_sql = {begin_sql, commit_sql, rollback_sql, create_sql, index_sql} \<union> snd ` set columns"

text \<open>
  The promises: a statement that succeeds has its effect, one that fails has none or has rolled the
  transaction back, and \<^verbatim>\<open>ROLLBACK\<close> leaves none open; reading the columns delivers columns of the table;
  preparing, resetting, binding and finalizing leave the tables alone; and a step of an insert whose
  result is \<^verbatim>\<open>SQLITE_DONE\<close> appends the row of the bound values, any other result none. \<open>B d h\<close> are the values
  bound to an insert statement.
\<close>

definition exec_result :: "string \<Rightarrow> int \<Rightarrow> dbview \<Rightarrow> dbview \<Rightarrow> bool" where
  "exec_result sql r v v' \<longleftrightarrow>
     (if r = SQLITE_OK then v' = sql_effect sql v else v' \<in> {v, rolled_back v}) \<and> (sql = rollback_sql \<longrightarrow> dv_saved v' = None)"

definition tables_laws :: "('d, 'h) sqlite \<Rightarrow> ('d \<Rightarrow> dbview) \<Rightarrow> bool" where
  "tables_laws S V \<longleftrightarrow>
     (\<forall>sql \<in> migration_sql. \<forall>d r m d'. sq_exec S sql d = (r, m, d') \<longrightarrow>
        exec_result sql r (V d) (V d')) \<and>
     (\<forall>sql d r h d'. sq_prepare S sql d = (r, h, d') \<longrightarrow> V d' = V d) \<and>
     (\<forall>h d rows d'. sq_rows S h d = (rows, d') \<longrightarrow> V d' = V d) \<and>
     (\<forall>d h d1 rows d2. sq_prepare S table_info_sql d = (SQLITE_OK, h, d1) \<longrightarrow> sq_rows S h d1 = (rows, d2) \<longrightarrow>
        (\<forall>name. Some name \<in> set rows \<longrightarrow> (\<exists>cs. dv_columns (V d) = Some cs \<and> name \<in> set cs))) \<and>
     (\<forall>h d. V (sq_finalize S h d) = V d)"

definition insert_laws :: "('d, 'h) sqlite \<Rightarrow> ('d \<Rightarrow> dbview) \<Rightarrow> ('d \<Rightarrow> 'h option \<Rightarrow> (nat \<Rightarrow> string option) option) \<Rightarrow> bool" where
  "insert_laws S V B \<longleftrightarrow>
     (\<forall>d h d'. sq_prepare S insert_sql d = (SQLITE_OK, h, d') \<longrightarrow> B d' h \<noteq> None) \<and>
     (\<forall>h d. V (sq_reset S h d) = V d \<and> B (sq_reset S h d) = B d) \<and>
     (\<forall>h d. V (sq_clear_bindings S h d) = V d \<and> (B d h \<noteq> None \<longrightarrow> B (sq_clear_bindings S h d) h = Some (\<lambda>_. None))) \<and>
     (\<forall>h i t d r d' b. sq_bind_text S h i t d = (r, d') \<longrightarrow> B d h = Some b \<longrightarrow>
        V d' = V d \<and> (if r = SQLITE_OK then B d' h = Some (b(i \<mapsto> t)) else B d' h \<noteq> None)) \<and>
     (\<forall>h d r d' b. sq_step S h d = (r, d') \<longrightarrow> B d h = Some b \<longrightarrow>
        dv_saved (V d') = dv_saved (V d) \<and>
        dv_rows (V d') = dv_rows (V d) @ (if r = SQLITE_DONE then [map b [1..<7]] else []) \<and>
        dv_changes (V d') \<le> dv_changes (V d) \<and> (r = SQLITE_SCHEMA \<longrightarrow> dv_changes (V d') < dv_changes (V d)) \<and>
        (r \<noteq> SQLITE_SCHEMA \<longrightarrow> B d' h \<noteq> None))"

section \<open>The migration is all or nothing\<close>

lemma exec_law:
  assumes "tables_laws S V" "sql \<in> migration_sql" "database_exec S sql n d = (r, d')"
  shows "(\<exists>u. r = Inr u) \<and> V d' = sql_effect sql (V d) \<or> isl r \<and> V d' \<in> {V d, rolled_back (V d)}"
proof -
  obtain c m d1 where e: "sq_exec S sql d = (c, m, d1)" by (cases "sq_exec S sql d") auto
  with assms(3) have "d1 = d'" by (simp add: database_exec_def split: if_splits)
  moreover note assms(1) [unfolded tables_laws_def, THEN conjunct1, rule_format, OF assms(2) e]
  ultimately show ?thesis using assms(3) e by (auto simp: database_exec_def exec_result_def split: if_splits)
qed

lemma has_column_law:
  assumes "tables_laws S V" "database_has_column S name d = (found, d')"
  shows "V d' = V d" "found \<Longrightarrow> \<exists>cs. dv_columns (V d) = Some cs \<and> name \<in> set cs"
proof -
  obtain r h d1 where p: "sq_prepare S table_info_sql d = (r, h, d1)" by (cases "sq_prepare S table_info_sql d") auto
  obtain rows d2 where q: "sq_rows S h d1 = (rows, d2)" by (cases "sq_rows S h d1")
  have "V d1 = V d" "V d2 = V d1" "V (sq_finalize S h d2) = V d2"
    using assms(1) p q unfolding tables_laws_def by blast+
  then show "V d' = V d" using assms(2) p q by (auto simp: database_has_column_def split: if_splits)
  show "\<exists>cs. dv_columns (V d) = Some cs \<and> name \<in> set cs" if found
    using assms p q that unfolding tables_laws_def by (auto simp: database_has_column_def split: if_splits)
qed

text \<open>The steps of a transaction: rows and the state to go back to stay, columns are only added; once rolled back it stays so.\<close>

definition grown :: "dbview \<Rightarrow> dbview \<Rightarrow> bool" where
  "grown v v' \<longleftrightarrow> dv_saved v' = dv_saved v \<and> dv_rows v' = dv_rows v \<and> dv_changes v' = dv_changes v \<and>
     (\<exists>cs cs'. dv_columns v = Some cs \<and> dv_columns v' = Some (cs @ cs'))"

lemma grown_rolled_back: "grown u v \<Longrightarrow> dv_saved u \<noteq> None \<Longrightarrow> rolled_back v = rolled_back u"
  by (cases u; cases v) (auto simp: grown_def rolled_back_def)

lemma sql_distinct:
  "distinct ([begin_sql, commit_sql, rollback_sql, create_sql, index_sql] @ map snd columns)" "distinct (map fst columns)"
  by code_simp+

lemma alter_effect:
  assumes "(name, sql) \<in> set columns"
  shows "sql_effect sql v = v\<lparr>dv_columns := map_option (\<lambda>cs. cs @ [name]) (dv_columns v)\<rparr>" "sql \<in> migration_sql"
proof -
  have s: "sql \<in> set (map snd columns)" using assms by force
  moreover have "set [begin_sql, commit_sql, rollback_sql, create_sql, index_sql] \<inter> set (map snd columns) = {}"
    using sql_distinct(1) unfolding distinct_append by blast
  ultimately have "sql \<notin> set [begin_sql, commit_sql, rollback_sql, create_sql, index_sql]" by blast
  moreover have "map_of (map prod.swap columns) sql = Some name"
    using assms sql_distinct(1) by (intro map_of_is_SomeI) (auto simp: comp_def)
  ultimately show "sql_effect sql v = v\<lparr>dv_columns := map_option (\<lambda>cs. cs @ [name]) (dv_columns v)\<rparr>" by (simp add: sql_effect_def)
  show "sql \<in> migration_sql" using s by (simp add: migration_sql_def)
qed

lemma migrate_columns_law:
  assumes "tables_laws S V" "set cs \<subseteq> set columns" "dv_columns (V d) \<noteq> None" "dv_saved (V d) \<noteq> None"
    "migrate_columns S n cs d = (r, d')"
  shows "(\<exists>u. r = Inr u) \<and> grown (V d) (V d') \<and> (\<forall>name \<in> fst ` set cs. name \<in> set (the (dv_columns (V d')))) \<or>
    isl r \<and> rolled_back (V d') = rolled_back (V d)"
  using assms(2-5)
proof (induction cs arbitrary: d)
  case Nil
  then show ?case by (auto simp: grown_def)
next
  case (Cons c cs)
  obtain name sql where c: "c = (name, sql)" by (cases c)
  obtain found d1 where h: "database_has_column S name d = (found, d1)" by (cases "database_has_column S name d")
  note h1 = has_column_law [OF assms(1) h]
  show ?case
  proof (cases found)
    case True
    with Cons.prems c h have "migrate_columns S n cs d1 = (r, d')" by simp
    from Cons.IH [OF _ _ _ this] Cons.prems(1-3) h1 True c show ?thesis by (auto simp: grown_def)
  next
    case False
    obtain r1 d2 where e: "database_exec S sql n d1 = (r1, d2)" by (cases "database_exec S sql n d1")
    have "(name, sql) \<in> set columns" using Cons.prems(1) c by simp
    note a = alter_effect [OF this]
    show ?thesis
    proof (cases r1)
      case (Inl m)
      with exec_law [OF assms(1) a(2) e] h1 have "V d2 \<in> {V d, rolled_back (V d)}" by auto
      then have "rolled_back (V d2) = rolled_back (V d)" by (auto simp: rolled_back_def split: option.splits)
      with Inl Cons.prems(4) c h e False show ?thesis by auto
    next
      case (Inr u)
      with exec_law [OF assms(1) a(2) e] h1 have v2: "V d2 = (V d)\<lparr>dv_columns := map_option (\<lambda>cs. cs @ [name]) (dv_columns (V d))\<rparr>"
        using a(1) by auto
      moreover have "migrate_columns S n cs d2 = (r, d')" using Inr Cons.prems(4) c h e False by simp
      ultimately show ?thesis
        using Cons.IH [of d2] Cons.prems(1-3) c
        by (auto simp: grown_def rolled_back_def split: option.splits)
    qed
  qed
qed

lemma rolled_back_idem: "rolled_back (rolled_back v) = rolled_back v"
  by (auto simp: rolled_back_def split: option.splits)

lemma fixed_effects:
  "begin_sql \<in> migration_sql" "sql_effect begin_sql v = v\<lparr>dv_saved := Some (dv_columns v, dv_rows v)\<rparr>"
  "commit_sql \<in> migration_sql" "sql_effect commit_sql v = v\<lparr>dv_saved := None\<rparr>"
  "create_sql \<in> migration_sql" "sql_effect create_sql v = (if dv_columns v = None then v\<lparr>dv_columns := Some table_columns\<rparr> else v)"
  "index_sql \<in> migration_sql" "sql_effect index_sql v = v"
  "rollback_sql \<in> migration_sql" "sql_effect rollback_sql v = rolled_back v"
proof -
  have "map_of (map prod.swap columns) index_sql = None" by code_simp
  with sql_distinct(1) show "begin_sql \<in> migration_sql" "sql_effect begin_sql v = v\<lparr>dv_saved := Some (dv_columns v, dv_rows v)\<rparr>"
    "commit_sql \<in> migration_sql" "sql_effect commit_sql v = v\<lparr>dv_saved := None\<rparr>"
    "create_sql \<in> migration_sql" "sql_effect create_sql v = (if dv_columns v = None then v\<lparr>dv_columns := Some table_columns\<rparr> else v)"
    "index_sql \<in> migration_sql" "sql_effect index_sql v = v"
    "rollback_sql \<in> migration_sql" "sql_effect rollback_sql v = rolled_back v"
    by (auto simp: migration_sql_def sql_effect_def)
qed

lemma migrate_table_law:
  assumes "tables_laws S V" "dv_saved (V d) \<noteq> None" "migrate_table S n d = (r, d')"
  shows "(\<exists>u. r = Inr u) \<and> (\<exists>v. grown (sql_effect create_sql (V d)) v \<and> V d' = v\<lparr>dv_saved := None\<rparr> \<and>
      fst ` set columns \<subseteq> set (the (dv_columns v))) \<or>
    isl r \<and> rolled_back (V d') = rolled_back (V d)"
proof -
  note law = exec_law [OF assms(1)] and fx = fixed_effects
  define v1 where "v1 = sql_effect create_sql (V d)"
  have v1: "dv_columns v1 \<noteq> None" "dv_saved v1 \<noteq> None" "rolled_back v1 = rolled_back (V d)"
    using assms(2) by (auto simp: v1_def fx rolled_back_def split: option.splits)
  obtain r1 d1 where e1: "database_exec S create_sql n d = (r1, d1)" by (cases "database_exec S create_sql n d")
  obtain r2 d2 where e2: "migrate_columns S n columns d1 = (r2, d2)" by (cases "migrate_columns S n columns d1")
  obtain r3 d3 where e3: "database_exec S index_sql n d2 = (r3, d3)" by (cases "database_exec S index_sql n d2")
  obtain r4 d4 where e4: "database_exec S commit_sql n d3 = (r4, d4)" by (cases "database_exec S commit_sql n d3")
  note run = assms(3) [unfolded migrate_table_def e1 e2 e3 e4]
  from law [OF fx(5) e1] consider (bad1) "isl r1" "rolled_back (V d1) = rolled_back (V d)" | (ok1) "\<not> isl r1" "V d1 = v1"
    by (auto simp: v1_def rolled_back_idem)
  then show ?thesis
  proof cases
    case bad1
    with run e1 show ?thesis by (cases r1) auto
  next
    case ok1
    from migrate_columns_law [OF assms(1) order_refl _ _ e2] v1 ok1
    consider (bad2) "isl r2" "rolled_back (V d2) = rolled_back (V d)"
      | (ok2) "\<not> isl r2" "grown v1 (V d2)" "fst ` set columns \<subseteq> set (the (dv_columns (V d2)))"
      by (auto simp: image_subset_iff)
    then show ?thesis
    proof cases
      case bad2
      with run ok1 e1 e2 show ?thesis by (cases r1; cases r2) auto
    next
      case ok2
      then have undone: "rolled_back (V d2) = rolled_back (V d)"
        using v1 grown_rolled_back by metis
      from law [OF fx(7) e3] law [OF fx(3) e4] fx(4,8) undone
      have 3: "isl r3 \<and> rolled_back (V d3) = rolled_back (V d) \<or> \<not> isl r3 \<and> V d3 = V d2"
        and 4: "V d3 = V d2 \<Longrightarrow> isl r4 \<and> rolled_back (V d4) = rolled_back (V d) \<or> \<not> isl r4 \<and> V d4 = (V d2)\<lparr>dv_saved := None\<rparr>"
        by (auto simp: rolled_back_idem)
      from run ok1 ok2 e1 e2 e3 e4 have "(if isl r3 then (r, d') = (r3, d3) else (r, d') = (r4, d4))"
        by (cases r1; cases r2; cases r3) auto
      with 3 4 ok2 show ?thesis by (cases r4) (auto simp: v1_def split: if_splits)
    qed
  qed
qed

lemma migrate_law:
  assumes "tables_laws S V" "dv_saved (V d) = None" "database_migrate S n d = (r, d')"
  shows "dv_saved (V d') = None \<and> dv_rows (V d') = dv_rows (V d) \<and> dv_changes (V d') = dv_changes (V d) \<and>
    (case r of
       Inl e \<Rightarrow> V d' = V d
     | Inr _ \<Rightarrow> \<exists>new. dv_columns (V d') = Some ((case dv_columns (V d) of None \<Rightarrow> table_columns | Some old \<Rightarrow> old) @ new) \<and>
         fst ` set columns \<subseteq> set (the (dv_columns (V d'))))"
proof -
  obtain r1 d1 where e1: "database_exec S begin_sql n d = (r1, d1)" by (cases "database_exec S begin_sql n d")
  obtain r2 d2 where e2: "migrate_table S n d1 = (r2, d2)" by (cases "migrate_table S n d1")
  obtain c m d3 where e3: "sq_exec S rollback_sql d2 = (c, m, d3)" by (cases "sq_exec S rollback_sql d2") auto
  have undo: "exec_result rollback_sql c (V d2) (V d3)"
    using assms(1) [unfolded tables_laws_def, THEN conjunct1, rule_format, OF fixed_effects(9) e3] .
  have plain: "rolled_back (V d) = V d" using assms(2) by (simp add: rolled_back_def)
  note run = assms(3) [unfolded database_migrate_def e1 prod.case]
  show ?thesis
  proof (cases r1)
    case (Inl e)
    with exec_law [OF assms(1) fixed_effects(1) e1] plain have "V d1 = V d" by auto
    with run Inl assms(2) show ?thesis by auto
  next
    case (Inr u)
    with exec_law [OF assms(1) fixed_effects(1) e1] fixed_effects(2)
    have v1: "V d1 = (V d)\<lparr>dv_saved := Some (dv_columns (V d), dv_rows (V d))\<rparr>" by auto
    then have undone: "rolled_back (V d1) = V d" using assms(2) by (simp add: rolled_back_def)
    from migrate_table_law [OF assms(1) _ e2] v1
    consider (bad) "isl r2" "rolled_back (V d2) = V d"
      | (ok) v where "\<not> isl r2" "grown (sql_effect create_sql (V d1)) v" "V d2 = v\<lparr>dv_saved := None\<rparr>"
          "fst ` set columns \<subseteq> set (the (dv_columns v))"
      using undone by auto
    then show ?thesis
    proof cases
      case bad
      from undo have "V d3 = rolled_back (V d2)"
        by (auto simp: exec_result_def fixed_effects(10) rolled_back_def split: if_splits option.splits)
      with run Inr bad e2 e3 assms(2) show ?thesis by (cases r2) auto
    next
      case ok
      with run Inr e2 have "r = Inr ()" "d' = d2" by (cases r2; simp)+
      with ok v1 show ?thesis
        by (auto simp: grown_def fixed_effects(6) split: if_splits option.splits)
    qed
  qed
qed

section \<open>A SQLite that keeps its promises\<close>

text \<open>One table, statements that succeed and one set of bound values; \<open>True\<close> is the insert statement.\<close>

type_synonym demo_db = "dbview \<times> (nat \<Rightarrow> string option)"

definition demo_sqlite :: "(demo_db, bool) sqlite" where
  "demo_sqlite = \<lparr>sq_open = (\<lambda>_. Inl None), sq_close = (\<lambda>d. d), sq_extended_result_codes = (\<lambda>d. d), sq_busy_timeout = (\<lambda>_ d. d),
     sq_errmsg = (\<lambda>_. ''not an error''), sq_exec = (\<lambda>sql d. (0, None, apfst (sql_effect sql) d)),
     sq_prepare = (\<lambda>sql d. (0, Some (sql = insert_sql), d)),
     sq_rows = (\<lambda>h d. (case dv_columns (fst d) of None \<Rightarrow> [] | Some cs \<Rightarrow> map Some cs, d)),
     sq_reset = (\<lambda>_ d. d), sq_clear_bindings = (\<lambda>_ d. (fst d, \<lambda>_. None)), sq_bind_text = (\<lambda>_ i t d. (0, fst d, (snd d)(i \<mapsto> t))),
     sq_step = (\<lambda>_ d. (101, (fst d)\<lparr>dv_rows := dv_rows (fst d) @ [map (snd d) [1..<7]]\<rparr>, snd d)), sq_finalize = (\<lambda>_ d. d)\<rparr>"

definition demo_bound :: "demo_db \<Rightarrow> bool option \<Rightarrow> (nat \<Rightarrow> string option) option" where
  "demo_bound d h = (if h = Some True then Some (snd d) else None)"

definition demo_db :: demo_db where
  "demo_db = (\<lparr>dv_columns = Some [''id'', ''timestamp'', ''note''], dv_rows = [], dv_saved = None, dv_changes = 0\<rparr>, \<lambda>_. None)"

definition demo_record :: log_record where
  "demo_record = \<lparr>lr_timestamp = ''t'', lr_level = ''INFO'', lr_operation = ''COPY'', lr_message = ''m'', lr_source_path = ''/a'',
     lr_target_path = ''/b'', lr_additional_info = []\<rparr>"

lemma demo_tables_laws: "tables_laws demo_sqlite fst"
proof -
  have "exec_result sql 0 v (sql_effect sql v)" for sql v
    by (auto simp: exec_result_def fixed_effects(10) rolled_back_def split: option.splits)
  then show ?thesis by (auto simp: tables_laws_def demo_sqlite_def split: option.splits) (metis option.inject)
qed

lemma demo_insert_laws: "insert_laws demo_sqlite fst demo_bound"
  by (auto simp: insert_laws_def demo_sqlite_def demo_bound_def)

section \<open>Migration\<close>

text \<open>
  C15: A migration is all or nothing. Over any SQLite that keeps its promises, with no transaction open,
  \<^verbatim>\<open>syseba_database_migrate\<close> leaves none open and never touches a row; when it succeeds the table exists,
  has all the columns a record needs and its old columns in their old order; when it fails the
  database is as it was, whichever statement failed.
\<close>

theorem migration_all_or_nothing:
  assumes "tables_laws S V" "dv_saved (V d) = None" "database_migrate S n d = (r, d')"
  shows "dv_saved (V d') = None \<and> dv_rows (V d') = dv_rows (V d) \<and>
    (case r of
       Inl e \<Rightarrow> V d' = V d
     | Inr _ \<Rightarrow> \<exists>new. dv_columns (V d') = Some ((case dv_columns (V d) of None \<Rightarrow> table_columns | Some old \<Rightarrow> old) @ new) \<and>
         fst ` set columns \<subseteq> set (the (dv_columns (V d'))))"
  using migrate_law [OF assms] by (auto split: sum.splits)

theorem migration_all_or_nothing_witness:
  "\<exists>d'. database_migrate demo_sqlite 512 demo_db = (Inr (), d') \<and> dv_rows (fst d') = [] \<and>
     fst ` set columns \<subseteq> set (the (dv_columns (fst d')))"
proof -
  obtain r d' where run: "database_migrate demo_sqlite 512 demo_db = (r, d')" by (cases "database_migrate demo_sqlite 512 demo_db")
  moreover have "\<not> isl (fst (database_migrate demo_sqlite 512 demo_db))" by code_simp
  ultimately have "r = Inr ()" by (cases r) auto
  with migration_all_or_nothing [OF demo_tables_laws _ run] run show ?thesis by (simp add: demo_db_def)
qed

section \<open>A write stores its record once or not at all\<close>

lemma prepare_law:
  assumes "tables_laws S V" "insert_laws S V B" "sq_prepare S insert_sql d = (r, h, d')"
  shows "V d' = V d" "r = SQLITE_OK \<longrightarrow> B d' h \<noteq> None"
  using assms(1) [unfolded tables_laws_def, THEN conjunct2, THEN conjunct1, rule_format, OF assms(3)]
    assms(2) [unfolded insert_laws_def, THEN conjunct1, rule_format, of d h d'] assms(3) by auto

lemma bind_fields_law:
  assumes "insert_laws S V B" "B d h = Some b" "bind_fields S h i ts d = (bound, d')"
  shows "V d' = V d \<and> B d' h \<noteq> None \<and>
    (bound \<longrightarrow> B d' h = Some (\<lambda>k. if i \<le> k \<and> k < i + length ts then Some (ts ! (k - i)) else b k))"
  using assms(2,3)
proof (induction ts arbitrary: i d b)
  case Nil
  then show ?case by (auto simp: fun_eq_iff)
next
  case (Cons t ts)
  obtain r d1 where e: "sq_bind_text S h i t d = (r, d1)" by (cases "sq_bind_text S h i t d")
  have "V d1 = V d \<and> (if r = SQLITE_OK then B d1 h = Some (b(i \<mapsto> t)) else B d1 h \<noteq> None)"
    using assms(1) [unfolded insert_laws_def, THEN conjunct2, THEN conjunct2, THEN conjunct2, THEN conjunct1, rule_format, OF e Cons.prems(1)] .
  moreover have "(\<lambda>k. if Suc i \<le> k \<and> k < Suc i + length ts then Some (ts ! (k - Suc i)) else (b(i \<mapsto> t)) k) =
      (\<lambda>k. if i \<le> k \<and> k < i + length (t # ts) then Some ((t # ts) ! (k - i)) else b k)"
    by (auto simp: fun_eq_iff nth_Cons')
  ultimately show ?case
    using Cons.IH [of d1 "b(i \<mapsto> t)" "Suc i"] Cons.prems e by (auto simp: fun_upd_def split: if_splits)
qed

lemma record_fields_row: "map (\<lambda>k. if 1 \<le> k \<and> k < 1 + length (record_fields r) then Some (record_fields r ! (k - 1)) else b k) [1..<7] =
    map Some (record_fields r)"
  by (simp add: record_fields_def upt_conv_Cons)

text \<open>What a call leaves behind: no transaction, and the row exactly when it reports success.\<close>

definition stored :: "('d \<Rightarrow> dbview) \<Rightarrow> ('d, 'h) database_writer \<Rightarrow> log_record \<Rightarrow> int \<Rightarrow> ('d, 'h) database_writer \<Rightarrow> bool" where
  "stored V w r code w' \<longleftrightarrow> dv_saved (V (dw_connection w')) = None \<and>
     dv_rows (V (dw_connection w')) = dv_rows (V (dw_connection w)) @ (if code = 0 then [map Some (record_fields r)] else []) \<and>
     dv_changes (V (dw_connection w')) \<le> dv_changes (V (dw_connection w))"

definition ready :: "('d \<Rightarrow> dbview) \<Rightarrow> ('d \<Rightarrow> 'h option \<Rightarrow> (nat \<Rightarrow> string option) option) \<Rightarrow> ('d, 'h) database_writer \<Rightarrow> bool" where
  "ready V B w \<longleftrightarrow> dv_saved (V (dw_connection w)) = None \<and> B (dw_connection w) (dw_insert w) \<noteq> None"

lemma step_law:
  assumes "insert_laws S V B" "B d1 h = Some row" "map row [1..<7] = map Some (record_fields r)" "sq_step S h d1 = (result, d2)"
  shows "dv_saved (V d2) = dv_saved (V d1)"
    "dv_rows (V d2) = dv_rows (V d1) @ (if result = SQLITE_DONE then [map Some (record_fields r)] else [])"
    "dv_changes (V d2) \<le> dv_changes (V d1)" "result = SQLITE_SCHEMA \<Longrightarrow> dv_changes (V d2) < dv_changes (V d1)"
    "result \<noteq> SQLITE_SCHEMA \<Longrightarrow> B d2 h \<noteq> None"
  using assms(1) [unfolded insert_laws_def, THEN conjunct2, THEN conjunct2, THEN conjunct2, THEN conjunct2, rule_format, OF assms(4,2)] assms(3)
  by auto

text \<open>
  One round of a write: it returns, or goes on with a new statement, the rows as they were and one change of the schema less to come.
\<close>

definition returns :: "('d, 'h) sqlite \<Rightarrow> ('d \<Rightarrow> dbview) \<Rightarrow> ('d \<Rightarrow> 'h option \<Rightarrow> (nat \<Rightarrow> string option) option) \<Rightarrow>
    ('d, 'h) database_writer \<Rightarrow> log_record \<Rightarrow> bool" where
  "returns S V B w r \<longleftrightarrow> (\<exists>code w'. syseba_database_write S w r = Some (code, w') \<and> stored V w r code w' \<and>
     (code = 0 \<or> dv_changes (V (dw_connection w)) = 0 \<longrightarrow> ready V B w'))"

definition goes_on :: "('d, 'h) sqlite \<Rightarrow> ('d \<Rightarrow> dbview) \<Rightarrow> ('d \<Rightarrow> 'h option \<Rightarrow> (nat \<Rightarrow> string option) option) \<Rightarrow>
    ('d, 'h) database_writer \<Rightarrow> log_record \<Rightarrow> ('d, 'h) database_writer \<Rightarrow> bool" where
  "goes_on S V B w r w' \<longleftrightarrow> syseba_database_write S w r = syseba_database_write S w' r \<and> ready V B w' \<and>
     dv_rows (V (dw_connection w')) = dv_rows (V (dw_connection w)) \<and> dv_changes (V (dw_connection w')) < dv_changes (V (dw_connection w))"

lemma write_again:
  assumes laws: "tables_laws S V" "insert_laws S V B" and "dv_saved (V d) = None"
    and v: "dv_rows (V d) = dv_rows (V (dw_connection w))" "dv_changes (V d) < dv_changes (V (dw_connection w))"
    and run: "syseba_database_write S w r = (case database_migrate S 256 (sq_finalize S (dw_insert w) d) of (migrated, d3) \<Rightarrow>
      if isl migrated then Some (- 1, \<lparr>dw_connection = d3, dw_insert = None\<rparr>)
      else (case sq_prepare S insert_sql d3 of (prepared, h2, d4) \<Rightarrow>
        if prepared \<noteq> SQLITE_OK then Some (- 1, \<lparr>dw_connection = d4, dw_insert = h2\<rparr>)
        else syseba_database_write S \<lparr>dw_connection = d4, dw_insert = h2\<rparr> r))"
  shows "returns S V B w r \<or> (\<exists>w'. goes_on S V B w r w')"
proof -
  obtain m d3 where mg: "database_migrate S 256 (sq_finalize S (dw_insert w) d) = (m, d3)"
    by (cases "database_migrate S 256 (sq_finalize S (dw_insert w) d)")
  have "V (sq_finalize S (dw_insert w) d) = V d" using laws(1) by (simp add: tables_laws_def)
  with migrate_law [OF laws(1) _ mg] assms(3) v
  have v3: "dv_saved (V d3) = None" "dv_rows (V d3) = dv_rows (V (dw_connection w))" "dv_changes (V d3) < dv_changes (V (dw_connection w))" by auto
  obtain p h2 d4 where pr: "sq_prepare S insert_sql d3 = (p, h2, d4)" by (cases "sq_prepare S insert_sql d3") auto
  note v4 = prepare_law [OF laws pr]
  let ?w = "\<lparr>dw_connection = d4, dw_insert = h2\<rparr>"
  consider (stop) w2 where "syseba_database_write S w r = Some (- 1, w2)" "V (dw_connection w2) = V d3"
    | (again) "syseba_database_write S w r = syseba_database_write S ?w r" "p = SQLITE_OK"
    using v4(1) unfolding run mg pr prod.case by (cases "isl m"; cases "p = SQLITE_OK") auto
  then show ?thesis
  proof cases
    case stop
    with v3 show ?thesis by (auto simp: returns_def stored_def)
  next
    case again
    with v3 v4 have "goes_on S V B w r ?w" by (simp add: goes_on_def ready_def)
    then show ?thesis by blast
  qed
qed

lemma write_once:
  assumes laws: "tables_laws S V" "insert_laws S V B" and w: "ready V B w"
  shows "returns S V B w r \<or> (\<exists>w'. goes_on S V B w r w')"
proof -
  let ?h = "dw_insert w"
  define d where "d = sq_clear_bindings S ?h (sq_reset S ?h (dw_connection w))"
  have d: "V d = V (dw_connection w)" "B d ?h = Some (\<lambda>_. None)"
    using laws(2) w unfolding insert_laws_def d_def ready_def by simp_all
  obtain bound d1 where b: "bind_fields S ?h 1 (record_fields r) d = (bound, d1)" by (cases "bind_fields S ?h 1 (record_fields r) d")
  note b1 = bind_fields_law [OF laws(2) d(2) b]
  note run = syseba_database_write.simps [of S w r, unfolded Let_def d_def [symmetric] b prod.case]
  show ?thesis
  proof (cases bound)
    case False
    with b1 d w show ?thesis unfolding returns_def run by (simp add: stored_def ready_def)
  next
    case True
    obtain result d2 where st: "sq_step S ?h d1 = (result, d2)" by (cases "sq_step S ?h d1")
    from b1 True obtain row where "B d1 ?h = Some row" "map row [1..<7] = map Some (record_fields r)"
      using record_fields_row [of r "\<lambda>_. None"] by blast
    note v2 = step_law [OF laws(2) this st]
    show ?thesis
    proof (cases "result = SQLITE_SCHEMA")
      case False
      with True st v2 b1 d(1) w show ?thesis unfolding returns_def run by (auto simp: stored_def ready_def)
    next
      case schema: True
      with v2 b1 d(1) w True run st show ?thesis by (intro write_again [OF laws, of d2]) (simp_all add: ready_def)
    qed
  qed
qed

lemma write_law:
  assumes "tables_laws S V" "insert_laws S V B" "ready V B w"
  shows "returns S V B w r"
  using assms(3)
proof (induction "dv_changes (V (dw_connection w))" arbitrary: w rule: less_induct)
  case less
  from write_once [OF assms(1,2) less.prems, of r] show ?case
  proof (elim disjE exE)
    fix w' assume w': "goes_on S V B w r w'"
    with less.hyps [of w'] have "returns S V B w' r" by (simp add: goes_on_def)
    with w' show ?thesis by (auto simp: returns_def goes_on_def stored_def)
  qed
qed



section \<open>The log in the database\<close>

lemma log_write_database_stored:
  assumes laws: "tables_laws S V" "insert_laws S V B" and w: "wr_database w = Some db" "ready V B db" "dv_changes (V (dw_connection db)) = 0"
    and run: "log_write_database (\<lambda>db r. the (syseba_database_write S db r)) r w a = (w', a')"
  shows "\<exists>db'. wr_database w' = Some db' \<and> ready V B db' \<and> dv_changes (V (dw_connection db')) = 0 \<and>
    (wr_database_error_reported w \<longrightarrow> wr_database_error_reported w') \<and>
    (\<exists>new. dv_rows (V (dw_connection db')) = dv_rows (V (dw_connection db)) @ map (map Some \<circ> record_fields) new \<and>
       (new = [r] \<or> new = [] \<and> wr_database_error_reported w'))"
proof -
  from write_law [OF laws w(2), of r] obtain code db' where
    "syseba_database_write S db r = Some (code, db')" "stored V db r code db'" "ready V B db'"
    using w(3) by (auto simp: returns_def)
  with run w(1,3) show ?thesis
    by (auto simp: log_write_database_def stored_def Let_def intro!: exI [of _ "if code = 0 then [r] else []"] split: if_splits)
qed

lemma log_records_law:
  assumes "tables_laws S V" "insert_laws S V B" "wr_database w = Some db"
    and "dv_saved (V (dw_connection db)) = None" "B (dw_connection db) (dw_insert db) \<noteq> None" "dv_changes (V (dw_connection db)) = 0"
    and "wq_closed (app_log_queue a)" "wq_items (app_log_queue a) = rs"
  shows "\<exists>w' a' s' db' new. log_writer_loop (\<lambda>db r. the (syseba_database_write S db r)) (replicate (length rs + 1) (\<lambda>x. x)) w a s = Some (w', a', s') \<and>
    wr_database w' = Some db' \<and> dv_rows (V (dw_connection db')) = dv_rows (V (dw_connection db)) @ map (map Some \<circ> record_fields) new \<and>
    subseq new rs \<and> (wr_database_error_reported w' \<or> new = rs) \<and>
    (wr_database_error_reported w \<longrightarrow> wr_database_error_reported w')"
  using assms(3-8)
proof (induction rs arbitrary: w a s db)
  case Nil
  then show ?case by (auto simp: wq_pop_def)
next
  case (Cons r rs)
  let ?db = "\<lambda>db r. the (syseba_database_write S db r)"
  let ?q = "(app_log_queue a)\<lparr>wq_items := rs\<rparr>"
  obtain w1 a1 s1 where f: "log_write_file r w (a\<lparr>app_log_queue := ?q\<rparr>) s = (w1, a1, s1)"
    by (cases "log_write_file r w (a\<lparr>app_log_queue := ?q\<rparr>) s") auto
  obtain w2 a2 where g: "log_write_database ?db r w1 a1 = (w2, a2)" by (cases "log_write_database ?db r w1 a1")
  let ?a = "a2\<lparr>app_log_queue := wq_task_done (app_log_queue a2)\<rparr>"
  have step: "log_writer_loop ?db (replicate (length (r # rs) + 1) (\<lambda>x. x)) w a s =
      log_writer_loop ?db (replicate (length rs + 1) (\<lambda>x. x)) w2 ?a s1"
    using Cons.prems(6) f g by (simp add: wq_pop_def)
  have w1: "wr_database w1 = Some db" "app_log_queue a1 = ?q" "wr_database_error_reported w1 = wr_database_error_reported w"
    using f Cons.prems(1) by (auto simp: log_write_file_def on_stderr_def split: option.splits prod.splits bool.splits)
  have "ready V B db" using Cons.prems(2,3) by (simp add: ready_def)
  from log_write_database_stored [OF assms(1,2) w1(1) this Cons.prems(4) g] obtain db2 new where
    db2: "wr_database w2 = Some db2" "ready V B db2" "dv_changes (V (dw_connection db2)) = 0"
      "dv_rows (V (dw_connection db2)) = dv_rows (V (dw_connection db)) @ map (map Some \<circ> record_fields) new"
      "new = [r] \<or> new = [] \<and> wr_database_error_reported w2" "wr_database_error_reported w1 \<longrightarrow> wr_database_error_reported w2" by blast
  have "wq_closed (app_log_queue ?a)" "wq_items (app_log_queue ?a) = rs"
    using log_write_database_keeps [OF g] w1(2) Cons.prems(5) by (simp_all add: wq_task_done_def)
  from Cons.IH [OF db2(1) _ _ db2(3) this] db2(2) obtain w' a' s' db' new' where
    "log_writer_loop ?db (replicate (length rs + 1) (\<lambda>x. x)) w2 ?a s1 = Some (w', a', s')" "wr_database w' = Some db'"
    "dv_rows (V (dw_connection db')) = dv_rows (V (dw_connection db2)) @ map (map Some \<circ> record_fields) new'"
    "subseq new' rs" "wr_database_error_reported w' \<or> new' = rs" "wr_database_error_reported w2 \<longrightarrow> wr_database_error_reported w'"
    unfolding ready_def by blast
  with db2(4-6) w1(3) show ?case unfolding step
    by (intro exI [of _ w'] exI [of _ a'] exI [of _ s'] exI [of _ db'] exI [of _ "new @ new'"]) auto
qed

text \<open>
  C36: The records of the log reach the database in order. With the queue of records closed, a database
  writer that is ready and no change of the schema by others, the writer thread ends and the table
  has gained a row for records of the queue in the order of the queue, each at most once; a record
  is missing only when the failure has been reported on the error stream.
\<close>

theorem log_records_stored:
  assumes "tables_laws S V" "insert_laws S V B" "wr_database w = Some db"
    and "dv_saved (V (dw_connection db)) = None" "B (dw_connection db) (dw_insert db) \<noteq> None" "dv_changes (V (dw_connection db)) = 0"
    and "wq_closed (app_log_queue a)" "wq_items (app_log_queue a) = rs"
  shows "\<exists>w' a' s' db' new. log_writer_loop (\<lambda>db r. the (syseba_database_write S db r)) (replicate (length rs + 1) (\<lambda>x. x)) w a s = Some (w', a', s') \<and>
    wr_database w' = Some db' \<and> dv_rows (V (dw_connection db')) = dv_rows (V (dw_connection db)) @ map (map Some \<circ> record_fields) new \<and>
    subseq new rs \<and> (wr_database_error_reported w' \<or> new = rs)"
  using log_records_law [OF assms, of s] by blast

theorem log_records_stored_witness:
  "\<exists>w' a' s'. log_writer_loop (\<lambda>db r. the (syseba_database_write demo_sqlite db r)) (replicate 2 (\<lambda>x. x))
       \<lparr>wr_file = None, wr_database = Some \<lparr>dw_connection = demo_db, dw_insert = Some True\<rparr>, wr_database_error_reported = False\<rparr>
       (zero_app\<lparr>app_log_queue := \<lparr>wq_items = [demo_record], wq_unfinished = 1, wq_closed = True\<rparr>\<rparr>) quiet_os = Some (w', a', s') \<and>
     (wr_database_error_reported w' \<or>
      dv_rows (fst (dw_connection (the (wr_database w')))) = [map Some [''t'', ''INFO'', ''COPY'', ''/a'', ''/b'', []]])"
proof -
  let ?db = "\<lparr>dw_connection = demo_db, dw_insert = Some True\<rparr>"
  let ?w = "\<lparr>wr_file = None, wr_database = Some ?db, wr_database_error_reported = False\<rparr>"
  let ?a = "zero_app\<lparr>app_log_queue := \<lparr>wq_items = [demo_record], wq_unfinished = 1, wq_closed = True\<rparr>\<rparr>"
  have "dv_saved (fst demo_db) = None" "dv_changes (fst demo_db) = 0" "dv_rows (fst demo_db) = []" "demo_bound demo_db (Some True) \<noteq> None"
    by (simp_all add: demo_db_def demo_bound_def)
  with log_records_stored [OF demo_tables_laws demo_insert_laws, of ?w ?db ?a "[demo_record]" quiet_os]
  obtain w' a' s' db' new where
    "log_writer_loop (\<lambda>db r. the (syseba_database_write demo_sqlite db r)) (replicate 2 (\<lambda>x. x)) ?w ?a quiet_os = Some (w', a', s')"
    "wr_database w' = Some db'" "dv_rows (fst (dw_connection db')) = map (map Some \<circ> record_fields) new"
    "wr_database_error_reported w' \<or> new = [demo_record]"
    unfolding numeral_2_eq_2 by (simp del: log_writer_loop.simps) metis
  then show ?thesis by (auto simp: demo_record_def record_fields_def simp del: log_writer_loop.simps)
qed

end
