(* ===== verification/Service_Mac.thy ===== *)
theory Service_Mac
  imports Service
begin

text \<open>
  The macOS service of \<^verbatim>\<open>service_macos.c\<close>: escaping a text for a property list, the property list of the
  launch daemon, its installation and the restart. \<^verbatim>\<open>launchctl\<close>, the caller's identity and the path of the
  executable are given by a record. The lemmas show that no path can leave its element and that
  the arguments of the property list, read back and given to the parser of the command line, run the
  daemon with the paths of the installation.
\<close>

section \<open>Escaping\<close>

definition xml_char :: "char \<Rightarrow> string" where
  "xml_char c =
     (if c = CHR ''&'' then ''&amp;'' else if c = CHR ''<'' then ''&lt;'' else if c = CHR ''>'' then ''&gt;''
      else if c = quote then ''&quot;'' else if c = CHR 0x27 then ''&apos;'' else [c])"

fun xml_escape_loop :: "nat \<Rightarrow> string \<Rightarrow> string \<Rightarrow> string option" where
  "xml_escape_loop n [] out = Some out"
| "xml_escape_loop n (c # cs) out =
     (if uchar c < 32 \<and> c \<noteq> CHR 0x09 \<or> length out + length (xml_char c) \<ge> n then None
      else xml_escape_loop n cs (out @ xml_char c))"

definition xml_escape :: "string \<Rightarrow> nat \<Rightarrow> string option" where
  "xml_escape input n = (if n = 0 then None else xml_escape_loop n input [])"

section \<open>The property list\<close>

definition xml_string :: "string \<Rightarrow> string" where
  "xml_string t = ''<string>'' @ t @ ''</string>''"

definition plist_head :: string where
  "plist_head =
     ''<?xml version='' @ [quote] @ ''1.0'' @ [quote] @ '' encoding='' @ [quote] @ ''UTF-8'' @ [quote] @ ''?>'' @ [newline] @
     ''<!DOCTYPE plist PUBLIC '' @ [quote] @ ''-//Apple//DTD PLIST 1.0//EN'' @ [quote] @ '' '' @ [quote] @
     ''http://www.apple.com/DTDs/PropertyList-1.0.dtd'' @ [quote] @ ''>'' @ [newline] @
     ''<plist version='' @ [quote] @ ''1.0'' @ [quote] @ ''><dict>'' @ [newline] @
     ''<key>Label</key><string>com.okno.syseba</string>'' @ [newline] @
     ''<key>ProgramArguments</key><array>'' @ [newline]"

definition plist_tail :: string where
  "plist_tail =
     ''<key>RunAtLoad</key><true/><key>KeepAlive</key><true/>'' @ [newline] @
     ''<key>ThrottleInterval</key><integer>5</integer>'' @ [newline] @
     ''<key>ProcessType</key><string>Background</string>'' @ [newline] @
     ''<key>StandardOutPath</key><string>/usr/local/var/log/syseba/service.log</string>'' @ [newline] @
     ''<key>StandardErrorPath</key><string>/usr/local/var/log/syseba/service-error.log</string>'' @ [newline] @
     ''</dict></plist>'' @ [newline]"

text \<open>The elements of the array, line by line; the paths are escaped.\<close>

definition plist_lines :: "string \<Rightarrow> string \<Rightarrow> string \<Rightarrow> string \<Rightarrow> string \<Rightarrow> int \<Rightarrow> language \<Rightarrow> string list list" where
  "plist_lines executable config token db lock port lang =
     [[executable, ''run'', ''--silent''], [''--web'', ''--web-host'', ''0.0.0.0''], [''--web-port'', int_text port], [''--config'', config],
      [''--web-token-file'', token], [''--db-path'', db], [''--lockfile'', lock], [''--lang'', if lang = LANGUAGE_EN then ''en'' else ''it'']]"

definition plist_text :: "string list list \<Rightarrow> string" where
  "plist_text lines =
     plist_head @ concat (map (\<lambda>line. concat (map xml_string line) @ [newline]) lines) @ ''</array>'' @ [newline] @ plist_tail"

definition service_plist :: "'d options \<Rightarrow> config \<Rightarrow> string \<Rightarrow> (string option) option" where
  "service_plist opts c executable =
     (let escaped = map (\<lambda>t. xml_escape t (SYSEBA_PATH_MAX * 2)) [executable, cfg_config_path c, opt_token_path opts, opt_db_path opts, opt_lock_path opts] in
      if None \<in> set escaped then None
      else (case map the escaped of
              [x, cp, tp, dp, lp] \<Rightarrow>
                let text = plist_text (plist_lines x cp tp dp lp (opt_web_port opts) (opt_language opts))
                in Some (if fits (SYSEBA_PATH_MAX * 12) text then Some text else None)
            | _ \<Rightarrow> None))"

section \<open>Installation and restart\<close>

text \<open>
  \<^verbatim>\<open>geteuid() == 0\<close>, the path \<^verbatim>\<open>_NSGetExecutablePath\<close> finds if its buffer is long enough, whether \<^verbatim>\<open>launchctl\<close> with
  these arguments could be run and exited with 0 (the result of \<^verbatim>\<open>bootout\<close> is not looked at), whether it is
  there at all, and whether \<^verbatim>\<open>fork\<close> succeeds.
\<close>

record macos_env =
  mv_root :: bool
  mv_executable :: "string option"
  mv_launchctl :: "string list \<Rightarrow> bool"
  mv_launchctl_present :: bool
  mv_fork :: bool

definition plist_path :: string where
  "plist_path = ''/Library/LaunchDaemons/com.okno.syseba.plist''"

text \<open>The steps are those of \<^verbatim>\<open>syseba_write_atomic\<close> with mode 0644.\<close>

definition write_plist :: "string \<Rightarrow> string \<Rightarrow> os \<Rightarrow> int \<times> os" where
  "write_plist path content s = write_atomic path content 420 s"

definition macos_service_install :: "macos_env \<Rightarrow> 'd options \<Rightarrow> os \<Rightarrow> result \<times> os" where
  "macos_service_install E opts s =
     (if \<not> mv_root E then (SYSEBA_ERR_PERMISSION, s)
      else (case syseba_config_load (opt_config_path opts) s of
              (Inl e, s1) \<Rightarrow> (SYSEBA_ERR_INVALID, s1)
            | (Inr c, s1) \<Rightarrow>
                (case mv_executable E of
                   None \<Rightarrow> (SYSEBA_ERR_INVALID, s1)
                 | Some executable \<Rightarrow>
                     (case sys_realpath executable s1 of
                        (Inl e, s2) \<Rightarrow> (SYSEBA_ERR_INVALID, s2)
                      | (Inr resolved, s2) \<Rightarrow>
                          (case service_plist opts c resolved of
                             Some (Some text) \<Rightarrow>
                               (case syseba_mkdirs ''/usr/local/var/log/syseba'' s2 of (r, s3) \<Rightarrow>
                                  if r \<noteq> 0 then (SYSEBA_ERR, s3)
                                  else (case write_plist plist_path text s3 of (r1, s4) \<Rightarrow>
                                    if r1 \<noteq> 0 then (SYSEBA_ERR, s4)
                                    else if mv_launchctl E [''bootstrap'', ''system'', plist_path] \<and>
                                        mv_launchctl E [''enable'', ''system/com.okno.syseba''] \<and>
                                        mv_launchctl E [''kickstart'', ''-k'', ''system/com.okno.syseba'']
                                    then (SYSEBA_OK, s4) else (SYSEBA_ERR, s4)))
                           | _ \<Rightarrow> (SYSEBA_ERR_INVALID, s2))))))"

definition macos_restart_available :: "macos_env \<Rightarrow> bool" where
  "macos_restart_available E \<longleftrightarrow> mv_root E \<and> mv_launchctl_present E"

definition macos_request_restart :: "macos_env \<Rightarrow> result" where
  "macos_request_restart E = (if \<not> macos_restart_available E then SYSEBA_ERR else if \<not> mv_fork E then SYSEBA_ERR else SYSEBA_OK)"

definition macos_restart_command :: string where
  "macos_restart_command = ''sudo launchctl kickstart -k system/com.okno.syseba''"

section \<open>Reading a property list\<close>

text \<open>The text of an element up to the next tag: an entity stands for its character.\<close>

definition entities :: "(string \<times> char) list" where
  "entities = [(''amp;'', CHR ''&''), (''lt;'', CHR ''<''), (''gt;'', CHR ''>''), (''quot;'', quote), (''apos;'', CHR 0x27)]"

function xml_read :: "string \<Rightarrow> (string \<times> string) option" where
  "xml_read [] = None"
| "xml_read (c # r) =
     (if c = CHR ''<'' then Some ([], r)
      else if c = CHR ''&''
      then (case find (\<lambda>(e, x). prefix e r) entities of
              None \<Rightarrow> None
            | Some (e, x) \<Rightarrow> map_option (apfst (Cons x)) (xml_read (drop (length e) r)))
      else map_option (apfst (Cons c)) (xml_read r))"
  by pat_completeness auto
termination
  by (relation "measure length") auto

declare xml_read.simps(2) [simp del]

interpretation xml: escaping xml_char xml_read "CHR ''<''"
proof
  fix c r show "xml_read (xml_char c @ r) = map_option (apfst (Cons c)) (xml_read r)"
    by (simp add: xml_char_def xml_read.simps(2) entities_def)
qed (simp add: xml_read.simps(2))

lemma xml_read_shorter: "xml_read r = Some (w, t) \<Longrightarrow> length t < length r"
proof (induction r arbitrary: w rule: xml_read.induct)
  case (2 c r)
  then show ?case by (fastforce simp: xml_read.simps(2) split: if_splits option.splits prod.splits)
qed simp

text \<open>The strings of an array, and the array that follows a key.\<close>

function plist_array :: "string \<Rightarrow> string list option" where
  "plist_array r =
     (if r = [] then None
      else if hd r = newline then plist_array (tl r)
      else if prefix ''</array>'' r then Some []
      else if \<not> prefix ''<string>'' r then None
      else (case xml_read (drop 8 r) of
              None \<Rightarrow> None
            | Some (w, t) \<Rightarrow> if prefix ''/string>'' t then map_option (Cons w) (plist_array (drop 8 t)) else None))"
  by pat_completeness auto
termination
  by (relation "measure length") (auto dest!: xml_read_shorter)

declare plist_array.simps [simp del]

fun after :: "string \<Rightarrow> string \<Rightarrow> string option" where
  "after key [] = None"
| "after key (c # r) = (if prefix key (c # r) then Some (drop (length key) (c # r)) else after key r)"

definition program_arguments :: "string \<Rightarrow> string list option" where
  "program_arguments text = Option.bind (after ''<key>ProgramArguments</key><array>'' text) plist_array"

abbreviation xml_code :: "string \<Rightarrow> string" where
  "xml_code w \<equiv> concat (map xml_char w)"

lemma xml_escape_loop_code: "xml_escape_loop n cs out = Some e \<Longrightarrow> e = out @ xml_code cs"
  by (induction cs arbitrary: out) (fastforce split: if_splits)+

lemma xml_escape_code: "xml_escape w n \<noteq> None \<Longrightarrow> xml_escape w n = Some (xml_code w)"
  by (auto simp: xml_escape_def dest: xml_escape_loop_code split: if_splits)

lemma xml_char_length: "length (xml_char c) \<le> 6"
  by (simp add: xml_char_def)

lemma xml_escape_loop_fits: "\<forall>c \<in> set cs. 32 \<le> uchar c \<Longrightarrow> length out + 6 * length cs < n \<Longrightarrow> xml_escape_loop n cs out \<noteq> None"
proof (induction cs arbitrary: out)
  case (Cons c cs)
  then show ?case using xml_char_length [of c] Cons.IH [of "out @ xml_char c"] by auto
qed simp

lemma plist_array_string: "plist_array (xml_string (xml_code w) @ r) = map_option (Cons w) (plist_array r)"
proof -
  have "xml_string (xml_code w) @ r = ''<string>'' @ xml_code w @ CHR ''<'' # ''/string>'' @ r" by (simp add: xml_string_def)
  then show ?thesis
    using xml.read_coded [of w "''/string>'' @ r"] by (subst plist_array.simps) (simp add: newline_def)
qed

lemma plist_array_line: "plist_array (concat (map (xml_string \<circ> xml_code) ws) @ r) = map_option (append ws) (plist_array r)"
  by (induction ws) (auto simp: plist_array_string option.map_comp comp_def option.map_ident)

lemma plist_array_lines:
  "plist_array (concat (map (\<lambda>line. concat (map xml_string line) @ [newline]) (map (map xml_code) ls)) @ ''</array>'' @ r) = Some (concat ls)"
proof (induction ls)
  case Nil
  show ?case by (subst plist_array.simps) (simp add: newline_def)
next
  case (Cons l ls)
  have "plist_array (newline # t) = plist_array t" for t by (subst plist_array.simps) simp
  with Cons plist_array_line [of l] show ?case by (simp add: comp_def)
qed

lemma xml_code_plain: "set w \<inter> {CHR ''&'', CHR ''<'', CHR ''>'', quote, CHR 0x27} = {} \<Longrightarrow> xml_code w = w"
  by (induction w) (auto simp: xml_char_def)

lemma xml_code_int_text: "xml_code (int_text i) = int_text i"
proof -
  have "c_isdigit c \<Longrightarrow> c \<notin> {CHR ''&'', CHR ''<'', CHR ''>'', quote, CHR 0x27}" for c
    by (auto simp: c_isdigit_def uchar_def quote_def)
  with dec_digits show ?thesis by (intro xml_code_plain) (auto simp: int_text_def quote_def)
qed

lemma plist_lines_code:
  "plist_lines (xml_code x) (xml_code c) (xml_code t) (xml_code d) (xml_code l) port lang = map (map xml_code) (plist_lines x c t d l port lang)"
  by (simp add: plist_lines_def xml_code_int_text xml_char_def quote_def)

lemma after_head: "after ''<key>ProgramArguments</key><array>'' (plist_head @ r) = Some (newline # r)"
  by (simp add: plist_head_def quote_def newline_def)

lemma xml_escape_fits: "\<forall>c \<in> set w. 32 \<le> uchar c \<Longrightarrow> 6 * length w < n \<Longrightarrow> xml_escape w n = Some (xml_code w)"
  using xml_escape_loop_fits [of w "[]" n] by (intro xml_escape_code) (auto simp: xml_escape_def)

lemma service_plist_fits:
  assumes "\<forall>t \<in> {executable, cfg_config_path c, opt_token_path opts, opt_db_path opts, opt_lock_path opts}. xml_escape t (SYSEBA_PATH_MAX * 2) = Some (xml_code t)"
    and "fits (SYSEBA_PATH_MAX * 12) (plist_text (plist_lines (xml_code executable) (xml_code (cfg_config_path c)) (xml_code (opt_token_path opts))
      (xml_code (opt_db_path opts)) (xml_code (opt_lock_path opts)) (opt_web_port opts) (opt_language opts)))"
  shows "\<exists>text. service_plist opts c executable = Some (Some text)"
  using assms by (simp add: service_plist_def Let_def)

section \<open>The property list starts the daemon that was installed\<close>

text \<open>
  The property list that is installed on macOS starts the daemon that was asked for. Whatever
  characters the paths have, the array of program arguments, read with the entities of XML, is the
  executable with the arguments of the service, and the parser of the command line turns these into
  options with the paths, the port and the language of the installation, the web interface on and
  its token required.
\<close>

theorem plist_starts_daemon:
  assumes "service_plist opts c executable = Some (Some text)" "wf_options opts" "fits SYSEBA_PATH_MAX (cfg_config_path c)"
  shows "\<exists>arguments run. program_arguments text = Some (executable # arguments) \<and>
     syseba_cli_parse D arguments (options_defaults D) n = (0, run, []) \<and>
     opt_command run = Some ''run'' \<and> opt_config_path run = cfg_config_path c \<and> opt_token_path run = opt_token_path opts \<and>
     opt_db_path run = opt_db_path opts \<and> opt_lock_path run = opt_lock_path opts \<and> opt_web_port run = opt_web_port opts \<and>
     opt_language run = opt_language opts \<and> opt_web run \<and> \<not> opt_no_web_auth run"
proof -
  let ?lines = "plist_lines executable (cfg_config_path c) (opt_token_path opts) (opt_db_path opts) (opt_lock_path opts) (opt_web_port opts) (opt_language opts)"
  let ?args = "service_arguments (cfg_config_path c) (opt_token_path opts) (opt_db_path opts) (opt_lock_path opts) (opt_web_port opts) (opt_language opts)"
  have "text = plist_text (map (map xml_code) ?lines)"
    using assms(1) unfolding service_plist_def plist_lines_code [symmetric]
    by (auto simp: Let_def xml_escape_code split: if_splits)
  then have "program_arguments text = plist_array (newline # concat (map (\<lambda>line. concat (map xml_string line) @ [newline]) (map (map xml_code) ?lines)) @ ''</array>'' @ newline # plist_tail)"
    by (simp only: program_arguments_def plist_text_def after_head) simp
  also have "\<dots> = Some (concat ?lines)" using plist_array_lines [of ?lines] by (subst plist_array.simps) simp
  also have "concat ?lines = executable # ?args" by (simp add: plist_lines_def service_arguments_def)
  finally have "program_arguments text = Some (executable # ?args)" .
  moreover have "fits SYSEBA_PATH_MAX (opt_token_path opts)" "fits SYSEBA_PATH_MAX (opt_db_path opts)" "fits SYSEBA_PATH_MAX (opt_lock_path opts)"
    "opt_web_port opts \<in> {1..65535}" using assms(2) by (simp_all add: wf_options_def)
  note service_arguments_parse [OF assms(3) this, of D "opt_language opts" n]
  ultimately show ?thesis by (simp add: options_defaults_def)
qed

theorem plist_starts_daemon_witness:
  "\<exists>text arguments run. service_plist (options_defaults demo_doubles) (demo_config\<lparr>cfg_config_path := ''/etc/a&b <1>.conf''\<rparr>) ''/usr/bin/syseba'' = Some (Some text) \<and>
     program_arguments text = Some (''/usr/bin/syseba'' # arguments) \<and>
     syseba_cli_parse demo_doubles arguments (options_defaults demo_doubles) 1024 = (0, run, []) \<and>
     opt_config_path run = ''/etc/a&b <1>.conf''"
proof -
  let ?c = "demo_config\<lparr>cfg_config_path := ''/etc/a&b <1>.conf''\<rparr>"
  let ?ps = "[''/usr/bin/syseba'', ''/etc/a&b <1>.conf'', ''/etc/syseba/syseba_web.token'', ''/var/lib/syseba/syseba_logs.db'', ''/run/syseba/syseba.lock'']"
  let ?o = "options_defaults demo_doubles"
  have v: "cfg_config_path ?c = ?ps ! 1" "opt_token_path ?o = ?ps ! 2" "opt_db_path ?o = ?ps ! 3" "opt_lock_path ?o = ?ps ! 4" "opt_web_port ?o = 8765"
    by (simp_all add: options_defaults_def cut_def syseba_limits SYSEBA_DEFAULT_TOKEN_def SYSEBA_DEFAULT_DB_def
        SYSEBA_DEFAULT_LOCK_def SYSEBA_DEFAULT_WEB_PORT_def)
  have e: "xml_escape t (SYSEBA_PATH_MAX * 2) = Some (xml_code t)" if "t \<in> set ?ps" for t
    using that by (intro xml_escape_fits) (auto simp: uchar_def syseba_limits)
  have "length (int_text 8765) \<le> 4" using dec_length [of 8765 3] by (simp add: int_text_def)
  then have f: "fits (SYSEBA_PATH_MAX * 12) (plist_text
      (plist_lines (xml_code (?ps ! 0)) (xml_code (?ps ! 1)) (xml_code (?ps ! 2)) (xml_code (?ps ! 3)) (xml_code (?ps ! 4)) 8765 (opt_language ?o)))"
    by (simp add: fits_def syseba_limits plist_text_def plist_lines_def plist_head_def plist_tail_def xml_string_def xml_char_def quote_def)
  have "\<exists>text. service_plist ?o ?c (?ps ! 0) = Some (Some text)"
  proof (rule service_plist_fits; unfold v)
    show "\<forall>t \<in> {?ps ! 0, ?ps ! 1, ?ps ! 2, ?ps ! 3, ?ps ! 4}. xml_escape t (SYSEBA_PATH_MAX * 2) = Some (xml_code t)"
      using e by simp
  qed (rule f)
  then have "\<exists>text. service_plist ?o ?c ''/usr/bin/syseba'' = Some (Some text)" by simp
  then obtain u where u: "service_plist (options_defaults demo_doubles) ?c ''/usr/bin/syseba'' = Some (Some u)" by blast
  have "fits SYSEBA_PATH_MAX (cfg_config_path ?c)" by (simp add: fits_def syseba_limits)
  from plist_starts_daemon [OF u wf_options_defaults this, of demo_doubles 1024] u show ?thesis by auto
qed

end
