(* ===== verification/Service_Windows.thy ===== *)
theory Service_Windows
  imports Service
begin

text \<open>
  The Windows service of \<^verbatim>\<open>service_windows.c\<close>: what it reports to the service manager, its control handler and
  main function, and its installation. The service manager is a record of outcomes. The lemmas show
  that the reports are the life of a service as the manager expects it, and that the command line
  that is registered is read back as the arguments of the service.
\<close>

section \<open>The status of the service\<close>

datatype service_state = SERVICE_STOPPED | SERVICE_START_PENDING | SERVICE_STOP_PENDING | SERVICE_RUNNING

definition SERVICE_ACCEPT_STOP :: "32 word" where "SERVICE_ACCEPT_STOP = 1"
definition SERVICE_ACCEPT_SHUTDOWN :: "32 word" where "SERVICE_ACCEPT_SHUTDOWN = 4"
definition SERVICE_CONTROL_STOP :: "32 word" where "SERVICE_CONTROL_STOP = 1"
definition SERVICE_CONTROL_SHUTDOWN :: "32 word" where "SERVICE_CONTROL_SHUTDOWN = 5"
definition ERROR_SERVICE_SPECIFIC_ERROR :: "32 word" where "ERROR_SERVICE_SPECIFIC_ERROR = 1066"

record service_status =
  ss_state :: service_state
  ss_exit_code :: "32 word"
  ss_wait_hint :: "32 word"
  ss_controls :: "32 word"
  ss_checkpoint :: "32 word"

text \<open>The static variables of the file, whether \<^verbatim>\<open>syseba_cli_request_stop\<close> was called, and the calls of \<^verbatim>\<open>SetServiceStatus\<close>.\<close>

record windows_service =
  ws_handle :: bool
  ws_exit_code :: int
  ws_checkpoint :: "32 word"
  ws_stop_requested :: bool
  ws_reports :: "service_status list"

definition service_initial :: windows_service where
  "service_initial = \<lparr>ws_handle = False, ws_exit_code = 1, ws_checkpoint = 1, ws_stop_requested = False, ws_reports = []\<rparr>"

definition report_service_status :: "service_state \<Rightarrow> 32 word \<Rightarrow> 32 word \<Rightarrow> windows_service \<Rightarrow> windows_service" where
  "report_service_status state code hint w =
     (let pending = (state = SERVICE_START_PENDING \<or> state = SERVICE_STOP_PENDING);
          status = \<lparr>ss_state = state, ss_exit_code = code, ss_wait_hint = hint,
             ss_controls = (if state = SERVICE_RUNNING then SERVICE_ACCEPT_STOP OR SERVICE_ACCEPT_SHUTDOWN else 0),
             ss_checkpoint = (if pending then ws_checkpoint w else 0)\<rparr>;
          w1 = (if pending then w\<lparr>ws_checkpoint := ws_checkpoint w + 1\<rparr> else w)
      in if ws_handle w1 then w1\<lparr>ws_reports := ws_reports w1 @ [status]\<rparr> else w1)"

definition windows_service_control :: "32 word \<Rightarrow> windows_service \<Rightarrow> windows_service" where
  "windows_service_control control w =
     (if control = SERVICE_CONTROL_STOP \<or> control = SERVICE_CONTROL_SHUTDOWN
      then (report_service_status SERVICE_STOP_PENDING 0 30000 w)\<lparr>ws_stop_requested := True\<rparr> else w)"

text \<open>
  \<open>registered\<close> is whether \<^verbatim>\<open>RegisterServiceCtrlHandlerA\<close> succeeded, \<open>controls\<close> what the manager sends while the program runs, \<open>execute\<close> the
  result of \<^verbatim>\<open>syseba_cli_execute\<close> with these options and whether it was told to stop.
\<close>

definition windows_service_main :: "bool \<Rightarrow> 32 word list \<Rightarrow> ('d options \<Rightarrow> bool \<Rightarrow> int) \<Rightarrow> 'd options \<Rightarrow> windows_service \<Rightarrow> windows_service" where
  "windows_service_main registered controls execute opts w =
     (if \<not> registered then w\<lparr>ws_handle := False\<rparr>
      else let w1 = report_service_status SERVICE_START_PENDING 0 30000 (w\<lparr>ws_handle := True\<rparr>);
               w2 = report_service_status SERVICE_RUNNING 0 0 w1;
               w3 = fold windows_service_control controls w2;
               code = execute (opts\<lparr>opt_windows_service := False, opt_silent := True\<rparr>) (ws_stop_requested w3)
           in report_service_status SERVICE_STOPPED (if code = 0 then 0 else ERROR_SERVICE_SPECIFIC_ERROR) 0 (w3\<lparr>ws_exit_code := code\<rparr>))"

text \<open>\<open>dispatched\<close> is whether \<^verbatim>\<open>StartServiceCtrlDispatcherA\<close> could run the service.\<close>

definition windows_service_dispatch :: "bool \<Rightarrow> bool \<Rightarrow> 32 word list \<Rightarrow> ('d options \<Rightarrow> bool \<Rightarrow> int) \<Rightarrow> 'd options \<Rightarrow> int \<times> windows_service" where
  "windows_service_dispatch dispatched registered controls execute opts =
     (if \<not> dispatched then (1, service_initial)
      else let w = windows_service_main registered controls execute opts service_initial in (ws_exit_code w, w))"

section \<open>Installation\<close>

definition service_command :: "'d options \<Rightarrow> config \<Rightarrow> string \<Rightarrow> string option" where
  "service_command opts c executable =
     (if \<exists>p \<in> set [cfg_config_path c, opt_token_path opts, opt_db_path opts, opt_lock_path opts]. set p \<inter> {CHR 0x0D, CHR 0x0A, quote} \<noteq> {} then None
      else let text = [quote] @ executable @ [quote] @ '' run --silent --web --web-host 0.0.0.0 --web-port '' @ int_text (opt_web_port opts) @
                '' --config '' @ [quote] @ cfg_config_path c @ [quote] @ '' --web-token-file '' @ [quote] @ opt_token_path opts @ [quote] @
                '' --db-path '' @ [quote] @ opt_db_path opts @ [quote] @ '' --lockfile '' @ [quote] @ opt_lock_path opts @ [quote] @
                '' --lang '' @ (if opt_language opts = LANGUAGE_EN then ''en'' else ''it'') @ '' --windows-service''
           in if fits (SYSEBA_PATH_MAX * 4) text then Some text else None)"

text \<open>
  The path of the executable if it fits its buffer, and the outcomes of the calls to the service manager: opening it, creating
  the service with a command (or finding that it exists), opening and changing it, starting it or finding it running.
\<close>

datatype created = Created | Service_Exists | Create_Failed

record scm_env =
  sm_executable :: "string option"
  sm_manager :: bool
  sm_create :: "string \<Rightarrow> created"
  sm_open :: bool
  sm_change :: "string \<Rightarrow> bool"
  sm_start :: bool

definition windows_service_install :: "scm_env \<Rightarrow> 'd options \<Rightarrow> os \<Rightarrow> result \<times> os" where
  "windows_service_install E opts s =
     (case syseba_config_load (opt_config_path opts) s of
        (Inl e, s1) \<Rightarrow> (SYSEBA_ERR_INVALID, s1)
      | (Inr c, s1) \<Rightarrow>
          (case sm_executable E of
             None \<Rightarrow> (SYSEBA_ERR, s1)
           | Some executable \<Rightarrow>
               if executable = [] then (SYSEBA_ERR, s1)
               else (case service_command opts c executable of
                       None \<Rightarrow> (SYSEBA_ERR, s1)
                     | Some command \<Rightarrow>
                         if \<not> sm_manager E then (SYSEBA_ERR_PERMISSION, s1)
                         else let service = (case sm_create E command of
                                  Created \<Rightarrow> True | Service_Exists \<Rightarrow> sm_open E \<and> sm_change E command | Create_Failed \<Rightarrow> False)
                              in if service \<and> sm_start E then (SYSEBA_OK, s1) else (SYSEBA_ERR, s1))))"

definition windows_restart_available :: bool where
  "windows_restart_available = False"

definition windows_request_restart :: "result \<times> string" where
  "windows_request_restart = (SYSEBA_ERR, ''Use an elevated terminal: sc stop SySeBa && sc start SySeBa'')"

definition windows_restart_command :: string where
  "windows_restart_command = ''sc stop SySeBa && sc start SySeBa''"

section \<open>The life of the service\<close>

definition stops :: "32 word list \<Rightarrow> 32 word list" where
  "stops controls = filter (\<lambda>c. c = SERVICE_CONTROL_STOP \<or> c = SERVICE_CONTROL_SHUTDOWN) controls"

definition status_of :: "service_state \<Rightarrow> 32 word \<Rightarrow> 32 word \<Rightarrow> 32 word \<Rightarrow> 32 word \<Rightarrow> service_status" where
  "status_of state code hint controls checkpoint =
     \<lparr>ss_state = state, ss_exit_code = code, ss_wait_hint = hint, ss_controls = controls, ss_checkpoint = checkpoint\<rparr>"

lemma controls_reports:
  assumes "ws_handle w"
  shows "fold windows_service_control controls w =
    w\<lparr>ws_checkpoint := ws_checkpoint w + of_nat (length (stops controls)), ws_stop_requested := (ws_stop_requested w \<or> stops controls \<noteq> []),
      ws_reports := ws_reports w @ map (\<lambda>i. status_of SERVICE_STOP_PENDING 0 30000 0 (ws_checkpoint w + of_nat i)) [0..<length (stops controls)]\<rparr>"
  using assms
proof (induction controls arbitrary: w)
  case (Cons c controls)
  have shift: "map (\<lambda>i. status_of SERVICE_STOP_PENDING 0 30000 0 (k + of_nat i)) [0..<Suc n] =
      status_of SERVICE_STOP_PENDING 0 30000 0 k # map (\<lambda>i. status_of SERVICE_STOP_PENDING 0 30000 0 (k + 1 + of_nat i)) [0..<n]" for k :: "32 word" and n
    by (simp add: upt_conv_Cons del: upt_Suc flip: map_Suc_upt) (simp add: add_ac comp_def)
  show ?case
  proof (cases "c = SERVICE_CONTROL_STOP \<or> c = SERVICE_CONTROL_SHUTDOWN")
    case True
    let ?w = "windows_service_control c w"
    have w: "?w = w\<lparr>ws_checkpoint := ws_checkpoint w + 1, ws_stop_requested := True,
        ws_reports := ws_reports w @ [status_of SERVICE_STOP_PENDING 0 30000 0 (ws_checkpoint w)]\<rparr>"
      using True Cons.prems by (auto simp: windows_service_control_def report_service_status_def status_of_def)
    have "stops (c # controls) = c # stops controls" using True by (simp add: stops_def)
    then have n: "length (stops (c # controls)) = Suc (length (stops controls))" by simp
    show ?thesis unfolding n shift using Cons.IH [of ?w] Cons.prems \<open>stops (c # controls) = _\<close> by (simp add: w add_ac)
  next
    case False
    then have "windows_service_control c w = w" "stops (c # controls) = stops controls" by (simp_all add: windows_service_control_def stops_def)
    with Cons show ?thesis by simp
  qed
qed (simp add: stops_def)

text \<open>
  C26: The service manager sees a proper life of the service. Once registered, the reports are starting,
  running (the only one that accepts stop and shutdown), one stopping report for each stop or shutdown
  received, with check points that count up, and stopped, with an error code exactly when the program failed; the
  program is told to stop exactly when the manager asked for it, runs silently, and its result is the exit code.
\<close>

theorem windows_service_life:
  assumes "windows_service_dispatch True True controls execute opts = (code, w)"
  shows "code = execute (opts\<lparr>opt_windows_service := False, opt_silent := True\<rparr>) (stops controls \<noteq> []) \<and>
    ws_reports w = [status_of SERVICE_START_PENDING 0 30000 0 1, status_of SERVICE_RUNNING 0 0 5 0] @
      map (\<lambda>i. status_of SERVICE_STOP_PENDING 0 30000 0 (of_nat i)) [2..<2 + length (stops controls)] @
      [status_of SERVICE_STOPPED (if code = 0 then 0 else 1066) 0 0 0]"
proof -
  define w2 where "w2 = report_service_status SERVICE_RUNNING 0 0 (report_service_status SERVICE_START_PENDING 0 30000 (service_initial\<lparr>ws_handle := True\<rparr>))"
  have accept: "SERVICE_ACCEPT_STOP OR SERVICE_ACCEPT_SHUTDOWN = 5" by (simp add: SERVICE_ACCEPT_STOP_def SERVICE_ACCEPT_SHUTDOWN_def)
  have w2: "w2 = service_initial\<lparr>ws_handle := True, ws_checkpoint := 2,
      ws_reports := [status_of SERVICE_START_PENDING 0 30000 0 1, status_of SERVICE_RUNNING 0 0 5 0]\<rparr>"
    by (simp add: w2_def report_service_status_def service_initial_def status_of_def accept)
  have shift: "map (\<lambda>i. status_of SERVICE_STOP_PENDING 0 30000 0 (2 + of_nat i)) [0..<n] = map (\<lambda>i. status_of SERVICE_STOP_PENDING 0 30000 0 (of_nat i)) [2..<2 + n]" for n
    by (rule nth_equalityI) (simp_all del: upt_Suc add_2_eq_Suc)
  have "ws_handle w2" by (simp add: w2)
  from controls_reports [OF this, of controls] assms show ?thesis
    unfolding windows_service_dispatch_def windows_service_main_def Let_def w2_def [symmetric]
    by (auto simp: w2 service_initial_def report_service_status_def status_of_def shift [unfolded status_of_def] ERROR_SERVICE_SPECIFIC_ERROR_def)
qed

theorem windows_service_life_witness:
  "fst (windows_service_dispatch True True [4, 1, 5] (\<lambda>_ stopped. if stopped then 0 else 1) (options_defaults demo_doubles)) = 0 \<and>
   map ss_state (ws_reports (snd (windows_service_dispatch True True [4, 1, 5] (\<lambda>_ stopped. if stopped then 0 else 1) (options_defaults demo_doubles)))) =
     [SERVICE_START_PENDING, SERVICE_RUNNING, SERVICE_STOP_PENDING, SERVICE_STOP_PENDING, SERVICE_STOPPED]"
proof -
  let ?d = "windows_service_dispatch True True [4, 1, 5] (\<lambda>_ stopped. if stopped then 0 else 1) (options_defaults demo_doubles)"
  have "stops [4, 1, 5] = [1, 5]" by (simp add: stops_def SERVICE_CONTROL_STOP_def SERVICE_CONTROL_SHUTDOWN_def)
  with windows_service_life [of "[4, 1, 5]" "\<lambda>_ stopped. if stopped then 0 else 1" "options_defaults demo_doubles" "fst ?d" "snd ?d"]
  show ?thesis by (simp add: status_of_def upt_rec)
qed

section \<open>The command line read back\<close>

text \<open>
  How the Microsoft C library splits a command line into \<^verbatim>\<open>argv\<close>. In the name of the program quotes only
  group; in the other arguments \<open>n\<close> backslashes stand for themselves unless a quote follows: then every
  two stand for one, and an odd one makes the quote a character of the argument.
\<close>

definition blank :: "char \<Rightarrow> bool" where
  "blank c \<longleftrightarrow> c = CHR '' '' \<or> c = CHR 0x09"

fun program_name :: "bool \<Rightarrow> string \<Rightarrow> string \<times> string" where
  "program_name q [] = ([], [])"
| "program_name q (c # r) =
     (if c = quote then program_name (\<not> q) r
      else if \<not> q \<and> blank c then ([], c # r) else apfst (Cons c) (program_name q r))"

fun win_argument :: "nat \<Rightarrow> bool \<Rightarrow> string \<Rightarrow> string \<times> string" where
  "win_argument n q [] = (replicate n backslash, [])"
| "win_argument n q (c # r) =
     (if c = backslash then win_argument (Suc n) q r
      else if c = quote
      then if odd n then apfst (append (replicate (n div 2) backslash @ [quote])) (win_argument 0 q r)
           else if q \<and> r \<noteq> [] \<and> hd r = quote then apfst (append (replicate (n div 2) backslash @ [quote])) (win_argument 0 q (tl r))
           else apfst (append (replicate (n div 2) backslash)) (win_argument 0 (\<not> q) r)
      else if \<not> q \<and> blank c then (replicate n backslash, c # r)
      else apfst (append (replicate n backslash @ [c])) (win_argument 0 q r))"

lemma win_argument_length: "length (snd (win_argument n q r)) \<le> length r"
  by (induction n q r rule: win_argument.induct) (auto simp: le_SucI intro: le_trans)

lemma win_argument_shorter: "\<not> blank c \<Longrightarrow> length (snd (win_argument 0 False (c # r))) < Suc (length r)"
  using win_argument_length [of _ _ r] by (simp add: less_Suc_eq_le)

function win_arguments :: "string \<Rightarrow> string list" where
  "win_arguments [] = []"
| "win_arguments (c # r) =
     (if blank c then win_arguments r
      else fst (win_argument 0 False (c # r)) # win_arguments (snd (win_argument 0 False (c # r))))"
  by pat_completeness auto
termination
  by (relation "measure length") (auto dest: win_argument_shorter simp del: win_argument.simps)

declare win_arguments.simps(2) [simp del] win_argument.simps(2) [simp del]

definition windows_argv :: "string \<Rightarrow> string list" where
  "windows_argv cs = fst (program_name False cs) # win_arguments (snd (program_name False cs))"

text \<open>A token that stands for a word: quoted, when the word has no quote and does not end in a backslash, or plain.\<close>

definition quotable :: "string \<Rightarrow> bool" where
  "quotable w \<longleftrightarrow> quote \<notin> set w \<and> (w \<noteq> [] \<longrightarrow> last w \<noteq> backslash)"

definition win_token :: "string \<Rightarrow> string \<Rightarrow> bool" where
  "win_token t w \<longleftrightarrow> t = [quote] @ w @ [quote] \<and> quotable w \<or> t = w \<and> w \<noteq> [] \<and> set w \<inter> {CHR '' '', CHR 0x09, quote, backslash} = {}"

lemma backslash_not: "backslash \<noteq> quote" "\<not> blank backslash" "\<not> blank quote"
  by (simp_all add: backslash_def quote_def blank_def)

lemma program_name_quoted: "quote \<notin> set w \<Longrightarrow> program_name False (quote # w @ quote # CHR '' '' # r) = (w, CHR '' '' # r)"
proof -
  assume "quote \<notin> set w"
  then have "program_name True (w @ quote # CHR '' '' # r) = (w, CHR '' '' # r)"
    by (induction w) (auto simp: blank_def quote_def)
  then show ?thesis by simp
qed

lemma win_argument_end: "r = [] \<or> blank (hd r) \<Longrightarrow> win_argument 0 False r = ([], r)"
  by (cases r) (auto simp: win_argument.simps(2) blank_def quote_def backslash_def)

lemma win_argument_quoted:
  assumes "quote \<notin> set w" "w \<noteq> [] \<longrightarrow> last w \<noteq> backslash" "w = [] \<longrightarrow> n = 0" "r = [] \<or> blank (hd r)"
  shows "win_argument n True (w @ quote # r) = (replicate n backslash @ w, r)"
  using assms(1-3)
proof (induction w arbitrary: n)
  case Nil
  then show ?case using assms(4) backslash_not win_argument_end [OF assms(4)] by (auto simp: win_argument.simps(2))
next
  case (Cons c w)
  show ?case
  proof (cases "c = backslash")
    case True
    with Cons.prems have "w \<noteq> []" by auto
    with Cons.IH [of "Suc n"] Cons.prems True show ?thesis by (simp add: win_argument.simps(2) replicate_app_Cons_same)
  next
    case False
    moreover have "w \<noteq> [] \<longrightarrow> last w \<noteq> backslash" using Cons.prems by auto
    ultimately show ?thesis using Cons.IH [of 0] Cons.prems by (auto simp: win_argument.simps(2))
  qed
qed

lemma win_argument_plain:
  assumes "set w \<inter> {CHR '' '', CHR 0x09, quote, backslash} = {}" "r = [] \<or> blank (hd r)"
  shows "win_argument 0 False (w @ r) = (w, r)"
  using assms(1) by (induction w) (auto simp: win_argument_end [OF assms(2)] win_argument.simps(2) blank_def)

lemma win_arguments_token:
  assumes "win_token t w" "r = [] \<or> blank (hd r)"
  shows "win_arguments (CHR '' '' # t @ r) = w # win_arguments r"
proof -
  have "win_argument 0 False (t @ r) = (w, r)" using assms(1) unfolding win_token_def
  proof
    assume "t = [quote] @ w @ [quote] \<and> quotable w"
    moreover from this have "w = [] \<Longrightarrow> r \<noteq> [] \<Longrightarrow> hd r \<noteq> quote" using assms(2) by (auto simp: blank_def quote_def)
    ultimately show ?thesis using win_argument_quoted [of w 0 r] assms(2) backslash_not by (simp add: win_argument.simps(2) quotable_def)
  qed (use win_argument_plain assms(2) in auto)
  moreover obtain c t' where "t = c # t'" "\<not> blank c" using assms(1) by (cases t) (auto simp: win_token_def blank_def quote_def)
  ultimately show ?thesis by (simp add: win_arguments.simps(2) [of "CHR '' ''"] win_arguments.simps(2) [of c] blank_def)
qed

lemma win_arguments_joined: "list_all2 win_token ts ws \<Longrightarrow> win_arguments (joined ts) = ws"
proof (induction ts ws rule: list_all2_induct)
  case (Cons t ts w ws)
  have "joined ts = [] \<or> blank (hd (joined ts))" by (cases ts) (simp_all add: joined_def blank_def)
  with Cons win_arguments_token [of t w "joined ts"] show ?case by (simp add: joined_def)
qed (simp add: joined_def)

lemma win_token_int_text: "win_token (int_text i) (int_text i)"
proof -
  have "c_isdigit c \<Longrightarrow> c \<notin> {CHR '' '', CHR 0x09, quote, backslash}" for c
    by (auto simp: c_isdigit_def uchar_def quote_def backslash_def)
  with dec_digits show ?thesis unfolding win_token_def int_text_def by (auto simp: quote_def backslash_def)
qed

lemma service_command_argv:
  assumes "service_command opts c executable = Some command" "quote \<notin> set executable"
    "\<forall>p \<in> {cfg_config_path c, opt_token_path opts, opt_db_path opts, opt_lock_path opts}. quotable p"
  shows "windows_argv command = executable # service_arguments (cfg_config_path c) (opt_token_path opts) (opt_db_path opts)
      (opt_lock_path opts) (opt_web_port opts) (opt_language opts) @ [''--windows-service'']"
proof -
  let ?q = "\<lambda>w. [quote] @ w @ [quote]"
  let ?ts = "[''run'', ''--silent'', ''--web'', ''--web-host'', ''0.0.0.0'', ''--web-port'', int_text (opt_web_port opts), ''--config'', ?q (cfg_config_path c),
      ''--web-token-file'', ?q (opt_token_path opts), ''--db-path'', ?q (opt_db_path opts), ''--lockfile'', ?q (opt_lock_path opts),
      ''--lang'', if opt_language opts = LANGUAGE_EN then ''en'' else ''it'', ''--windows-service'']"
  have "win_token w w" if "w \<in> {''run'', ''--silent'', ''--web'', ''--web-host'', ''0.0.0.0'', ''--web-port'', ''--config'',
      ''--web-token-file'', ''--db-path'', ''--lockfile'', ''--lang'', ''en'', ''it'', ''--windows-service''}" for w
    using that by (auto simp: win_token_def quote_def backslash_def)
  moreover have "win_token (?q w) w" if "quotable w" for w using that by (simp add: win_token_def)
  ultimately have "win_arguments (joined ?ts) = service_arguments (cfg_config_path c) (opt_token_path opts) (opt_db_path opts)
      (opt_lock_path opts) (opt_web_port opts) (opt_language opts) @ [''--windows-service'']"
    using assms(3) win_token_int_text by (intro win_arguments_joined) (simp add: service_arguments_def)
  moreover have "command = quote # executable @ quote # joined ?ts"
    using assms(1) by (simp add: service_command_def Let_def joined_def split: if_splits)
  moreover have "joined ?ts = CHR '' '' # tl (joined ?ts)" by (simp add: joined_def)
  ultimately show ?thesis using program_name_quoted [OF assms(2)] unfolding windows_argv_def by (metis fst_conv snd_conv)
qed



end
