(* ===== verification/Host.thy ===== *)
theory Host
  imports Status
begin

text \<open>
  The rest of \<^verbatim>\<open>platform.c\<close>: the metrics of the process from \<^verbatim>\<open>/proc/self/status\<close>, sleeping, the size of the
  terminal and copies of strings. The lemmas show that the metrics are the numbers the kernel wrote
  and that a sleep lasts as long as asked for, however often it is interrupted.
\<close>

section \<open>Process metrics\<close>

text \<open>\<open>None\<close> is the value \<open>-1.0\<close>; the processor time is never measured on Linux.\<close>

record 'd metrics =
  m_cpu :: "'d option"
  m_memory :: "'d option"
  m_threads :: "32 word"

text \<open>\<^verbatim>\<open>sscanf(line, "key %lu", &value) == 1\<close>: the key, white space, a number.\<close>

definition scan_number :: "string \<Rightarrow> string \<Rightarrow> nat option" where
  "scan_number key line = (if prefix key line then map_option fst (c_strtoul (drop (length key) line)) else None)"

definition metrics_line :: "'d double_ops \<Rightarrow> string \<Rightarrow> 'd metrics \<Rightarrow> 'd metrics" where
  "metrics_line D line m =
     (let m1 = (case scan_number ''VmRSS:'' line of None \<Rightarrow> m | Some v \<Rightarrow> m\<lparr>m_memory := Some (d_div D (d_num D (int v)) (d_num D 1024))\<rparr>)
      in case scan_number ''Threads:'' line of None \<Rightarrow> m1 | Some v \<Rightarrow> m1\<lparr>m_threads := of_nat v\<rparr>)"

lemma fgets_rest_shorter: "2 \<le> n \<Longrightarrow> text \<noteq> [] \<Longrightarrow> length (snd (fgets n text)) < length text"
  by (cases "text") (auto simp: fgets_def Let_def)

function metrics_loop :: "'d double_ops \<Rightarrow> string \<Rightarrow> 'd metrics \<Rightarrow> 'd metrics" where
  "metrics_loop D text m =
     (if text = [] then m
      else metrics_loop D (snd (fgets 256 text)) (metrics_line D (c_string (fst (fgets 256 text))) m))"
  by pat_completeness auto
termination
  by (relation "measure (\<lambda>(D, text, m). length text)") (simp_all add: fgets_rest_shorter)

declare metrics_loop.simps [simp del]

text \<open>The content of the file, or \<open>None\<close> when it cannot be opened.\<close>

definition syseba_process_metrics :: "'d double_ops \<Rightarrow> string option \<Rightarrow> int \<times> 'd metrics" where
  "syseba_process_metrics D status =
     (let m = \<lparr>m_cpu = None, m_memory = None, m_threads = 0\<rparr>
      in case status of None \<Rightarrow> (- 1, m) | Some text \<Rightarrow> (0, metrics_loop D text m))"

section \<open>Sleeping\<close>

text \<open>
  \<^verbatim>\<open>nanosleep\<close> that is interrupted stores the time that is left in its request. A script lists how long each call
  sleeps before a signal comes; without a signal it sleeps to the end.
\<close>

type_synonym timespec = "nat \<times> nat"

definition nanoseconds :: "timespec \<Rightarrow> nat" where
  "nanoseconds t = fst t * 1000000000 + snd t"

definition timespec_of :: "nat \<Rightarrow> timespec" where
  "timespec_of ns = (ns div 1000000000, ns mod 1000000000)"

fun sleep_loop :: "timespec \<Rightarrow> nat list \<Rightarrow> nat \<Rightarrow> nat" where
  "sleep_loop requested [] slept = slept + nanoseconds requested"
| "sleep_loop requested (signal # signals) slept =
     (if signal < nanoseconds requested
      then sleep_loop (timespec_of (nanoseconds requested - signal)) signals (slept + signal)
      else slept + nanoseconds requested)"

definition syseba_sleep_ms :: "32 word \<Rightarrow> nat list \<Rightarrow> nat" where
  "syseba_sleep_ms milliseconds signals =
     sleep_loop (unat (milliseconds div 1000), unat (milliseconds mod 1000) * 1000000) signals 0"

section \<open>The terminal\<close>

text \<open>Columns and rows as \<^verbatim>\<open>TIOCGWINSZ\<close> gives them; \<open>None\<close> when the call fails.\<close>

definition syseba_terminal_width :: "(16 word \<times> 16 word) option \<Rightarrow> 32 word" where
  "syseba_terminal_width winsize = (case winsize of Some (cols, rows) \<Rightarrow> if cols > 0 then ucast cols else 100 | None \<Rightarrow> 100)"

definition syseba_terminal_height :: "(16 word \<times> 16 word) option \<Rightarrow> 32 word" where
  "syseba_terminal_height winsize = (case winsize of Some (cols, rows) \<Rightarrow> if rows > 0 then ucast rows else 30 | None \<Rightarrow> 30)"

definition escape_char :: char where
  "escape_char = CHR 0x1B"

definition syseba_console_clear :: string where
  "syseba_console_clear = [escape_char] @ ''[2J'' @ [escape_char] @ ''[H''"

text \<open>A copy of a string, when there is memory for it.\<close>

definition syseba_strdup :: "bool \<Rightarrow> string \<Rightarrow> string option" where
  "syseba_strdup memory text = (if memory then Some text else None)"

section \<open>A sleep lasts as long as asked for\<close>

lemma nanoseconds_timespec [simp]: "nanoseconds (timespec_of n) = n"
  by (simp add: nanoseconds_def timespec_of_def)

lemma sleep_loop_total: "sleep_loop requested signals slept = slept + nanoseconds requested"
  by (induction requested signals slept rule: sleep_loop.induct) auto

text \<open>
  However often signals interrupt it, \<^verbatim>\<open>syseba_sleep_ms\<close> sleeps exactly the milliseconds it is asked for, and every request
  it makes has less than a second of nanoseconds.
\<close>

theorem sleep_exact: "syseba_sleep_ms ms signals = unat ms * 1000000 \<and> unat (ms mod 1000) * 1000000 < 1000000000"
proof -
  have "unat (ms mod 1000) < 1000" by (simp add: unat_mod)
  moreover have "nanoseconds (unat (ms div 1000), unat (ms mod 1000) * 1000000) = unat ms * 1000000"
  proof -
    have "unat (ms div 1000) * 1000 + unat (ms mod 1000) = unat ms" by (simp add: unat_div unat_mod)
    then show ?thesis by (simp add: nanoseconds_def)
  qed
  ultimately show ?thesis by (simp add: syseba_sleep_ms_def sleep_loop_total)
qed

section \<open>The metrics are what the kernel wrote\<close>

definition status_line :: "string \<Rightarrow> bool" where
  "status_line l \<longleftrightarrow> newline \<notin> set l \<and> CHR 0x00 \<notin> set l \<and> length l < 255"

lemma c_string_plain: "CHR 0x00 \<notin> set l \<Longrightarrow> c_string l = l"
  by (simp add: c_string_def takeWhile_eq_all_conv) metis

lemma fgets_status_line: "status_line l \<Longrightarrow> fgets 256 (l @ newline # rest) = (l @ [newline], rest)"
  by (simp add: status_line_def fgets_line)

lemma metrics_loop_lines:
  assumes "\<forall>l \<in> set ls. status_line l"
  shows "metrics_loop D (concat (map (\<lambda>l. l @ [newline]) ls)) m = fold (\<lambda>l. metrics_line D (l @ [newline])) ls m"
  using assms
proof (induction ls arbitrary: m)
  case (Cons l ls)
  then have "c_string (l @ [newline]) = l @ [newline]" by (intro c_string_plain) (auto simp: status_line_def newline_def)
  with Cons fgets_status_line [of l] show ?case by (subst metrics_loop.simps) simp
qed (simp add: metrics_loop.simps)

text \<open>What one line does to each metric, with what follows the number left open.\<close>

lemma metrics_line_fields:
  "m_memory (metrics_line D l m) = (case scan_number ''VmRSS:'' l of None \<Rightarrow> m_memory m | Some v \<Rightarrow> Some (d_div D (d_num D (int v)) (d_num D 1024)))"
  "m_threads (metrics_line D l m) = (case scan_number ''Threads:'' l of None \<Rightarrow> m_threads m | Some v \<Rightarrow> of_nat v)"
  "m_cpu (metrics_line D l m) = m_cpu m"
  by (simp_all add: metrics_line_def Let_def split: option.splits)

lemma scan_number_other: "\<not> prefix key l \<Longrightarrow> newline \<notin> set key \<Longrightarrow> scan_number key (l @ [newline]) = None"
  by (auto simp: scan_number_def prefix_snoc)

lemma scan_number_line:
  assumes "\<forall>c \<in> set w. c_isspace c" "v \<le> ULONG_MAX" "rest = [] \<or> \<not> c_isdigit (hd rest)"
  shows "scan_number key (key @ w @ dec v @ rest) = Some v"
proof -
  have "dropWhile c_isspace (w @ dec v @ rest) = dropWhile c_isspace (dec v @ rest)"
    using assms(1) by (simp add: dropWhile_append2)
  then have "c_strtoul (w @ dec v @ rest) = c_strtoul (dec v @ rest)" by (simp add: c_strtoul_def)
  with c_strtoul_dec [OF assms(2,3)] show ?thesis by (simp add: scan_number_def)
qed

lemma fold_last_change:
  assumes "x \<in> set ls" "\<And>m. f (g x m) = v" "\<And>l m. l \<in> set ls \<Longrightarrow> l = x \<or> f (g l m) = f m"
  shows "f (fold g ls m) = v"
  using assms(1,3)
proof (induction ls arbitrary: m)
  case (Cons l ls)
  show ?case
  proof (cases "x \<in> set ls")
    case True
    with Cons show ?thesis by simp
  next
    case False
    then have "x = l" using Cons.prems(1) by simp
    moreover have "f (fold g ls m') = f m'" for m' using Cons.prems(2) False by (induction ls arbitrary: m') fastforce+
    ultimately show ?thesis using assms(2) by simp
  qed
qed simp

text \<open>
  The metrics shown are those of the kernel. From a status file of ordinary lines in which one line
  each gives \<^verbatim>\<open>VmRSS\<close> in kB and \<^verbatim>\<open>Threads\<close>, in whatever order and with whatever white space before the
  number, \<^verbatim>\<open>syseba_process_metrics\<close> succeeds with that memory divided by 1024 and that number of threads.
\<close>

theorem process_metrics_read:
  assumes "\<forall>l \<in> set ls. status_line l" "rss \<in> set ls" "threads \<in> set ls"
    and rss: "rss = ''VmRSS:'' @ w1 @ dec kb @ '' kB''" "\<forall>c \<in> set w1. c_isspace c" "kb \<le> ULONG_MAX"
    and threads: "threads = ''Threads:'' @ w2 @ dec n" "\<forall>c \<in> set w2. c_isspace c" "n \<le> ULONG_MAX"
    and "\<forall>l \<in> set ls. prefix ''VmRSS:'' l \<longrightarrow> l = rss" "\<forall>l \<in> set ls. prefix ''Threads:'' l \<longrightarrow> l = threads"
  shows "syseba_process_metrics D (Some (concat (map (\<lambda>l. l @ [newline]) ls))) =
    (0, \<lparr>m_cpu = None, m_memory = Some (d_div D (d_num D (int kb)) (d_num D 1024)), m_threads = of_nat n\<rparr>)"
proof -
  let ?g = "\<lambda>l. metrics_line D (l @ [newline])"
  have nl: "\<not> c_isdigit newline" by code_simp
  have r: "scan_number ''VmRSS:'' (rss @ [newline]) = Some kb"
    using scan_number_line [OF rss(2,3), of "'' kB'' @ [newline]" "''VmRSS:''"] by (simp add: rss(1) c_isdigit_def uchar_def)
  have t: "scan_number ''Threads:'' (threads @ [newline]) = Some n"
    using scan_number_line [OF threads(2,3), of "[newline]" "''Threads:''"] nl by (simp add: threads(1))
  have "m_memory (fold ?g ls m) = Some (d_div D (d_num D (int kb)) (d_num D 1024))" for m
    by (rule fold_last_change [OF assms(2)])
      (use assms(10) r scan_number_other [of "''VmRSS:''"] in \<open>auto simp: metrics_line_fields newline_def\<close>)
  moreover have "m_threads (fold ?g ls m) = of_nat n" for m
    by (rule fold_last_change [OF assms(3)])
      (use assms(11) t scan_number_other [of "''Threads:''"] in \<open>auto simp: metrics_line_fields newline_def\<close>)
  moreover have "m_cpu (fold ?g ls m) = m_cpu m" for m by (induction ls arbitrary: m) (simp_all add: metrics_line_fields)
  ultimately show ?thesis by (simp add: syseba_process_metrics_def metrics_loop_lines [OF assms(1)])
qed

definition nat_ops :: "nat double_ops" where
  "nat_ops = \<lparr>d_num = nat, d_mul = (*), d_div = (div), d_ge = (\<ge>), d_text1 = (\<lambda>x. dec x @ ''.0''), d_long = int\<rparr>"

theorem process_metrics_read_witness:
  "syseba_process_metrics nat_ops (Some (''Name: syseba'' @ [newline] @ ''VmRSS:    2048 kB'' @ [newline] @ ''Threads: 7'' @ [newline])) =
     (0, \<lparr>m_cpu = None, m_memory = Some 2, m_threads = 7\<rparr>)"
proof -
  let ?ls = "[''Name: syseba'', ''VmRSS:    2048 kB'', ''Threads: 7'']"
  have "syseba_process_metrics nat_ops (Some (concat (map (\<lambda>l. l @ [newline]) ?ls))) =
      (0, \<lparr>m_cpu = None, m_memory = Some (d_div nat_ops (d_num nat_ops (int 2048)) (d_num nat_ops 1024)), m_threads = of_nat 7\<rparr>)"
  proof (rule process_metrics_read)
    show "''VmRSS:    2048 kB'' = ''VmRSS:'' @ ''    '' @ dec 2048 @ '' kB''" "''Threads: 7'' = ''Threads:'' @ '' '' @ dec 7" by code_simp+
    show "\<forall>c \<in> set ''    ''. c_isspace c" "\<forall>c \<in> set '' ''. c_isspace c" by code_simp+
    show "\<forall>l \<in> set ?ls. status_line l" by code_simp
    show "2048 \<le> ULONG_MAX" "7 \<le> ULONG_MAX" by (simp_all add: ULONG_MAX_def)
    show "\<forall>l \<in> set ?ls. prefix ''VmRSS:'' l \<longrightarrow> l = ''VmRSS:    2048 kB''" "\<forall>l \<in> set ?ls. prefix ''Threads:'' l \<longrightarrow> l = ''Threads: 7''" by simp_all
  qed simp_all
  then show ?thesis by (simp add: nat_ops_def)
qed

end
