(* ===== verification/Dashboard.thy ===== *)
theory Dashboard
  imports Host Commands
begin

text \<open>
  The picture of the console dashboard of \<^verbatim>\<open>dashboard.c\<close>, as the text it writes: bars, lines per directory,
  counters and the recent log lines. Floating-point numbers and their printing are a parameter. The
  lemmas show that the picture fits the terminal it is drawn for, that a bar has the width it was
  asked for and never overruns its buffer, and that the recent lines are the last ones of the ring.
\<close>

section \<open>Pieces\<close>

definition syseba_color :: "string \<Rightarrow> string" where
  "syseba_color name =
     [escape_char] @
     (if name = ''green'' then ''[32m'' else if name = ''yellow'' then ''[33m'' else if name = ''red'' then ''[31m''
      else if name = ''cyan'' then ''[36m'' else if name = ''bold'' then ''[1m'' else if name = ''dim'' then ''[2m'' else ''[0m'')"

definition dashboard_rule :: "nat \<Rightarrow> char \<Rightarrow> string" where
  "dashboard_rule width character = replicate width character @ [newline]"

text \<open>\<^verbatim>\<open>%-*.*s\<close>: at most and at least \<open>n\<close> characters.\<close>

definition column :: "nat \<Rightarrow> string \<Rightarrow> string" where
  "column n w = pad_right n (take n w)"

text \<open>
  What the picture takes from outside: the operations on doubles, less-than, the conversion to \<^verbatim>\<open>unsigned\<close>
  and \<^verbatim>\<open>%.2f\<close>, the version, \<^verbatim>\<open>statvfs\<close>, the size of the terminal and the status file of the process.
\<close>

record 'd dash_env =
  da_ops :: "'d double_ops"
  da_less :: "'d \<Rightarrow> 'd \<Rightarrow> bool"
  da_unsigned :: "'d \<Rightarrow> nat"
  da_fixed2 :: "'d \<Rightarrow> string"
  da_version :: string
  da_statvfs :: "string \<Rightarrow> (64 word \<times> 64 word \<times> 64 word) option"
  da_winsize :: "(16 word \<times> 16 word) option"
  da_status :: "string option"

definition dashboard_bar :: "'d dash_env \<Rightarrow> 'd \<Rightarrow> nat \<Rightarrow> nat \<Rightarrow> string" where
  "dashboard_bar E percent width output_size =
     (let p0 = (if da_less E percent (d_num (da_ops E) 0) then d_num (da_ops E) 0 else percent);
          p = (if da_less E (d_num (da_ops E) 100) p0 then d_num (da_ops E) 100 else p0);
          w = (if width + 1 > output_size then output_size - 1 else width);
          filled = da_unsigned E (d_mul (da_ops E) (d_div (da_ops E) p (d_num (da_ops E) 100)) (d_num (da_ops E) (int w)))
      in map (\<lambda>index. if index < filled then CHR ''#'' else CHR ''-'') [0..<w])"

definition dashboard_disk :: "'d dash_env \<Rightarrow> string \<Rightarrow> string \<Rightarrow> nat \<Rightarrow> string" where
  "dashboard_disk E label path width =
     (let bar_width = (if width > 96 then 36 else if width > 72 then 24 else 14) in
      case syseba_disk_usage path (da_statvfs E path) of (r, usage) \<Rightarrow>
        if r \<noteq> 0
        then '' '' @ pad_right 9 label @ '' '' @ column (if width > 31 then width - 31 else 20) path @ ''  '' @
             syseba_color ''red'' @ ''NOT FOUND'' @ syseba_color ''reset'' @ [newline]
        else let percent = used_percent (da_ops E) usage;
                 bar = dashboard_bar E percent bar_width 64;
                 tone = (if d_ge (da_ops E) percent (d_num (da_ops E) 90) then syseba_color ''red''
                         else if d_ge (da_ops E) percent (d_num (da_ops E) 75) then syseba_color ''yellow'' else syseba_color ''green'')
             in '' '' @ pad_right 9 label @ '' '' @ column (if width > bar_width + 25 then width - bar_width - 25 else 18) path @ ''  '' @
                tone @ ''['' @ bar @ '']'' @ syseba_color ''reset'' @ '' '' @ pad_left 6 (da_fixed2 E percent) @ ''%'' @ [newline])"

definition dashboard_uptime :: "64 word \<Rightarrow> 64 word \<Rightarrow> nat \<Rightarrow> string" where
  "dashboard_uptime now_ns started_ns output_size =
     (let seconds = (now_ns - started_ns) div 1000000000;
          days = seconds div 86400; hours = (seconds mod 86400) div 3600; minutes = (seconds mod 3600) div 60; remaining = seconds mod 60
      in if days > 0
         then cut output_size (dec (unat days) @ ''d '' @ dec2 (unat hours) @ '':'' @ dec2 (unat minutes) @ '':'' @ dec2 (unat remaining))
         else cut output_size (dec2 (unat hours) @ '':'' @ dec2 (unat minutes) @ '':'' @ dec2 (unat remaining)))"

section \<open>The picture\<close>

definition dashboard_width :: "32 word \<Rightarrow> nat" where
  "dashboard_width width = (if width < 64 then 64 else if width > 140 then 140 else unat width)"

definition dashboard_title :: "'d dash_env \<Rightarrow> nat \<Rightarrow> os \<Rightarrow> string" where
  "dashboard_title E width s =
     syseba_console_clear @ syseba_color ''bold'' @ dashboard_rule width (CHR ''='') @
     '' SySeBa '' @ pad_right (if width > 43 then width - 43 else 1) ''The Syncro Service Backup'' @ '' '' @
     syseba_color ''green'' @ ''RUNNING'' @ syseba_color ''reset'' @ ''  PID '' @ dec (os_pid s) @ [newline] @
     dashboard_rule width (CHR ''='') @ syseba_color ''reset''"

definition dashboard_head :: "'d dash_env \<Rightarrow> nat \<Rightarrow> bool \<Rightarrow> string \<Rightarrow> app \<Rightarrow> os \<Rightarrow> string" where
  "dashboard_head E width compact uptime a s =
     '' '' @ pad_right 19 (cut 32 (syseba_timestamp_now s)) @ '' '' @ pad_right 18 uptime @ ''  '' @ pad_right 8 ''Version'' @ '' '' @ da_version E @ [newline] @
     (if \<not> compact
      then '' '' @ pad_right 9 (syseba_tr (app_language a) ''Sorgente'' ''Source'') @ '' '' @ column (width - 12) (cfg_source (app_config a)) @ [newline]
      else []) @ [newline]"

definition dashboard_disks :: "'d dash_env \<Rightarrow> nat \<Rightarrow> app \<Rightarrow> string" where
  "dashboard_disks E width a =
     dashboard_disk E (syseba_tr (app_language a) ''Sorgente'' ''Source'') (cfg_source (app_config a)) width @
     dashboard_disk E ''Backup'' (cfg_backup (app_config a)) width @
     dashboard_disk E ''Restore'' (cfg_restore (app_config a)) width @ [newline]"

definition dashboard_sync :: "'d dash_env \<Rightarrow> app \<Rightarrow> string" where
  "dashboard_sync E a =
     '' '' @ syseba_color ''cyan'' @ pad_right 18 (syseba_tr (app_language a) ''Sincronizzazione'' ''Synchronization'') @ syseba_color ''reset'' @ '' '' @
     pad_right 22 (app_initial_state a) @
     (case initial_percent (da_ops E) (app_stats a) (app_initial_state a) of
        None \<Rightarrow> []
      | Some p \<Rightarrow> '' '' @ pad_left 6 (da_fixed2 E p) @ ''%  '' @ dec (unat (initial_done (app_stats a))) @ ''/'' @ dec (unat (initial_total (app_stats a)))) @
     [newline]"

definition counters :: "string \<Rightarrow> 64 word \<Rightarrow> string \<Rightarrow> 64 word \<Rightarrow> string \<Rightarrow> 64 word \<Rightarrow> string" where
  "counters l1 n1 l2 n2 l3 n3 =
     '' '' @ pad_right 13 l1 @ '' '' @ pad_left 8 (dec (unat n1)) @ ''   '' @ pad_right 13 l2 @ '' '' @ pad_left 8 (dec (unat n2)) @
     ''   '' @ pad_right 13 l3 @ '' '' @ pad_left 8 (dec (unat n3)) @ [newline]"

definition metric_text :: "'d dash_env \<Rightarrow> string \<Rightarrow> 'd option \<Rightarrow> string" where
  "metric_text E unit v = cut 32 (case v of None \<Rightarrow> ''n/a'' | Some x \<Rightarrow> da_fixed2 E x @ unit)"

definition dashboard_counters :: "'d dash_env \<Rightarrow> nat \<Rightarrow> app \<Rightarrow> string" where
  "dashboard_counters E width a =
     (let st = app_stats a; m = snd (syseba_process_metrics (da_ops E) (da_status E)) in
      dashboard_rule width (CHR ''-'') @
      counters (syseba_tr (app_language a) ''Copiati'' ''Copied'') (st_copied st) (syseba_tr (app_language a) ''Aggiornati'' ''Updated'') (st_updated st)
        (syseba_tr (app_language a) ''Eliminati'' ''Deleted'') (st_deleted st) @
      counters (syseba_tr (app_language a) ''Ripristinati'' ''Restored'') (st_restored st) (syseba_tr (app_language a) ''Saltati'' ''Skipped'') (st_skipped st)
        (syseba_tr (app_language a) ''Errori'' ''Errors'') (st_errors st) @
      '' CPU '' @ pad_right 9 (metric_text E ''%'' (m_cpu m)) @ ''   RAM '' @ pad_right 12 (metric_text E '' MB'' (m_memory m)) @
      ''   Threads '' @ pad_right 4 (dec (unat (m_threads m))) @ ''   Queue '' @ pad_right 6 (dec (length (wq_items (app_event_queue a)))) @ [newline])"

text \<open>The block of recent activity, with the loop over the ring.\<close>

definition dashboard_recent_lines :: "nat \<Rightarrow> app \<Rightarrow> string list" where
  "dashboard_recent_lines available a =
     (let displayed = (if app_recent_count a < available then app_recent_count a else available);
          first = (app_recent_next a + app_recent_capacity a - app_recent_count a) mod app_recent_capacity a;
          start = app_recent_count a - displayed
      in concat (map (\<lambda>index. case app_recent_logs a ! ((first + index) mod app_recent_capacity a) of None \<Rightarrow> [] | Some line \<Rightarrow> [line])
           [start ..< app_recent_count a]))"

definition dashboard_recent :: "nat \<Rightarrow> nat \<Rightarrow> app \<Rightarrow> string" where
  "dashboard_recent width height a =
     (let available = (if height > 25 then height - 25 else 2) in
      dashboard_rule width (CHR ''-'') @
      '' '' @ syseba_color ''bold'' @ syseba_tr (app_language a) ''Attivita recente'' ''Recent activity'' @ syseba_color ''reset'' @ [newline] @
      concat (map (\<lambda>line. '' '' @ column (width - 2) line @ [newline]) (dashboard_recent_lines available a)) @
      (if min (app_recent_count a) available = 0
       then '' '' @ syseba_tr (app_language a) ''In attesa di eventi...'' ''Waiting for events...'' @ [newline] else []))"

definition dashboard_foot :: "nat \<Rightarrow> app \<Rightarrow> string" where
  "dashboard_foot width a =
     dashboard_rule width (CHR ''-'') @
     '' '' @ syseba_tr (app_language a) ''Log'' ''Log'' @ '': '' @ cfg_log_file (app_config a) @
     (if app_web_enabled a then ''   Web: http://'' @ app_web_host a @ '':'' @ int_text (app_web_port a) else []) @
     [newline] @ '' '' @ syseba_tr (app_language a) ''Ctrl+C per arrestare in modo ordinato'' ''Ctrl+C for a graceful shutdown'' @ [newline]"

definition dashboard_compact :: "nat \<Rightarrow> nat \<Rightarrow> bool" where
  "dashboard_compact width height \<longleftrightarrow> height < 27 \<or> width < 80"

definition dashboard_render :: "'d dash_env \<Rightarrow> app \<Rightarrow> os \<Rightarrow> string \<times> os" where
  "dashboard_render E a s =
     (let width = dashboard_width (syseba_terminal_width (da_winsize E)); height = unat (syseba_terminal_height (da_winsize E));
          compact = dashboard_compact width height in
      case syseba_monotonic_ns s of (now_ns, s1) \<Rightarrow>
        (dashboard_title E width s1 @ dashboard_head E width compact (dashboard_uptime now_ns (app_started_ns a) 64) a s1 @
         dashboard_disks E width a @ dashboard_sync E a @ dashboard_counters E width a @
         (if compact then [] else dashboard_recent width height a) @ dashboard_foot width a, s1))"

section \<open>Bars and times\<close>

text \<open>
  A bar has exactly the width asked for, or as much of it as its buffer holds with the terminating
  NUL, and all its marks come before all its gaps.
\<close>

lemma map_less_upt: "map (\<lambda>i. if i < k then x else y) [0..<w] = replicate (min k w) x @ replicate (w - k) y"
  by (rule nth_equalityI) (auto simp: nth_append)

theorem dashboard_bar_shape:
  assumes "0 < output_size"
  shows "\<exists>k. dashboard_bar E percent width output_size = replicate k (CHR ''#'') @ replicate (min width (output_size - 1) - k) (CHR ''-'') \<and>
    k \<le> min width (output_size - 1) \<and> length (dashboard_bar E percent width output_size) + 1 \<le> output_size"
proof -
  have w: "(if width + 1 > output_size then output_size - 1 else width) = min width (output_size - 1)" using assms by auto
  let ?w = "min width (output_size - 1)"
  have "\<exists>f. dashboard_bar E percent width output_size = map (\<lambda>i. if i < f then CHR ''#'' else CHR ''-'') [0..<?w]"
    unfolding dashboard_bar_def Let_def w by (rule exI, rule refl)
  then obtain f where "dashboard_bar E percent width output_size = replicate (min f ?w) (CHR ''#'') @ replicate (?w - f) (CHR ''-'')"
    unfolding map_less_upt by blast
  then show ?thesis using assms by (intro exI [of _ "min f ?w"]) (auto simp: min_def)
qed

text \<open>The dashboard and the status document show the same running time.\<close>

theorem dashboard_uptime_status: "dashboard_uptime now started n = format_uptime ((now - started) div 1000000000) n"
  by (simp add: dashboard_uptime_def format_uptime_def dec2w_def Let_def)

text \<open>The dashboard and the status document read the ring of recent lines alike.\<close>

lemma dashboard_recent_view: "dashboard_recent_lines n a = recent_view n a"
proof -
  have "app_recent_count a - (if app_recent_count a < n then app_recent_count a else n) = (if app_recent_count a > n then app_recent_count a - n else 0)"
    by auto
  then show ?thesis by (simp add: dashboard_recent_lines_def recent_view_def Let_def)
qed

section \<open>The picture fits\<close>

text \<open>The number of lines of a text.\<close>

definition line_count :: "string \<Rightarrow> nat" where
  "line_count w = length (filter (\<lambda>c. c = newline) w)"

lemma line_count_append [simp]: "line_count (v @ w) = line_count v + line_count w"
  by (simp add: line_count_def)

lemma line_count_simps [simp]:
  "line_count [] = 0" "line_count (c # w) = (if c = newline then 1 else 0) + line_count w" "line_count (replicate n c) = (if c = newline then n else 0)"
  by (simp_all add: line_count_def)

lemma line_count_zero: "newline \<notin> set w \<Longrightarrow> line_count w = 0"
  by (auto simp: line_count_def filter_empty_conv)

lemma line_count_pad [simp]: "line_count (pad_right n w) = line_count w" "line_count (pad_left n w) = line_count w"
  by (simp_all add: pad_right_def pad_left_def newline_def)

lemma line_count_take: "newline \<notin> set w \<Longrightarrow> line_count (take n w) = 0"
  by (auto intro!: line_count_zero dest: in_set_takeD)

lemma line_count_column [simp]: "newline \<notin> set w \<Longrightarrow> line_count (column n w) = 0"
  by (simp add: column_def line_count_take)

lemma dec_one_line: "newline \<notin> set (dec n)"
  using dec_digits [of n] by (auto simp: newline_def c_isdigit_def uchar_def)

lemma line_count_dec [simp]: "line_count (dec n) = 0" "line_count (dec2 n) = 0" "line_count (int_text i) = 0"
  using dec_one_line by (simp_all add: dec2_def int_text_def line_count_zero newline_def)

lemma line_count_color [simp]: "line_count (syseba_color c) = 0"
  by (simp add: syseba_color_def escape_char_def newline_def)

lemma line_count_tr: "newline \<notin> set i \<Longrightarrow> newline \<notin> set e \<Longrightarrow> line_count (syseba_tr l i e) = 0"
  by (cases l) (simp_all add: syseba_tr_def line_count_zero)

lemma line_count_rule [simp]: "c \<noteq> newline \<Longrightarrow> line_count (dashboard_rule w c) = 1"
  by (simp add: dashboard_rule_def)

lemma timestamp_one_line: "newline \<notin> set (syseba_timestamp_now s)"
  using dec_one_line by (auto simp: syseba_timestamp_now_def strftime_text_def dec2_def newline_def)

lemma uptime_one_line: "newline \<notin> set (dashboard_uptime now started n)"
  using dec_one_line by (auto simp: dashboard_uptime_def Let_def cut_def dec2_def newline_def dest!: in_set_takeD split: if_splits)

text \<open>The texts of the picture that come from outside are single lines.\<close>

definition single_lines :: "'d dash_env \<Rightarrow> app \<Rightarrow> bool" where
  "single_lines E a \<longleftrightarrow> newline \<notin> set (da_version E) \<and> (\<forall>x. newline \<notin> set (da_fixed2 E x)) \<and>
     (\<forall>w \<in> {cfg_source (app_config a), cfg_backup (app_config a), cfg_restore (app_config a), cfg_log_file (app_config a), app_initial_state a, app_web_host a}.
        newline \<notin> set w) \<and> (\<forall>n. \<forall>line \<in> set (recent_view n a). newline \<notin> set line)"

lemma line_count_disk:
  assumes "single_lines E a" "newline \<notin> set label" "newline \<notin> set path"
  shows "line_count (dashboard_disk E label path width) = 1"
proof -
  have "newline \<notin> set (dashboard_bar E p w 64)" for p w by (auto simp: dashboard_bar_def Let_def newline_def)
  with assms show ?thesis
    by (auto simp: dashboard_disk_def Let_def line_count_zero single_lines_def newline_def split: prod.splits)
qed

lemma recent_view_bound: "length (recent_view n a) \<le> min n (app_recent_count a)"
proof -
  have "length (concat (map (\<lambda>i. case f i of None \<Rightarrow> [] | Some l \<Rightarrow> [l]) is)) \<le> length is" for f :: "nat \<Rightarrow> string option" and "is"
    by (induction "is") (auto split: option.splits)
  then show ?thesis unfolding recent_view_def Let_def by (rule order_trans) auto
qed

lemma line_count_recent:
  assumes "single_lines E a" "25 < height"
  shows "line_count (dashboard_recent width height a) \<le> height - 23"
proof -
  let ?ls = "recent_view (height - 25) a"
  have "line_count (concat (map (\<lambda>line. '' '' @ column (width - 2) line @ [newline]) ?ls)) = length ls'" if "ls' = ?ls" for ls'
  proof -
    have "\<forall>line \<in> set ?ls. newline \<notin> set line" using assms(1) by (simp add: single_lines_def)
    then have "line_count (concat (map (\<lambda>line. '' '' @ column (width - 2) line @ [newline]) ls)) = length ls" if "set ls \<subseteq> set ?ls" for ls
      using that by (induction ls) (auto simp: newline_def)
    then show ?thesis using that by blast
  qed
  moreover have "length ?ls \<le> min (height - 25) (app_recent_count a)" by (rule recent_view_bound)
  moreover have "line_count (syseba_tr (app_language a) ''Attivita recente'' ''Recent activity'') = 0"
    "line_count (syseba_tr (app_language a) ''In attesa di eventi...'' ''Waiting for events...'') = 0"
    by (rule line_count_tr; simp add: newline_def)+
  ultimately show ?thesis
    using assms(2) by (auto simp: dashboard_recent_def Let_def dashboard_recent_view newline_def min_def split: if_splits)
qed

lemma line_count_parts:
  assumes "single_lines E a"
  shows "line_count (dashboard_title E width s) = 3"
    "line_count (dashboard_head E width compact (dashboard_uptime now started 64) a s) = (if compact then 2 else 3)"
    "line_count (dashboard_disks E width a) = 4" "line_count (dashboard_sync E a) = 1"
    "line_count (dashboard_counters E width a) = 4" "line_count (dashboard_foot width a) = 3"
proof -
  have one: "newline \<notin> set (cfg_source (app_config a))" "newline \<notin> set (cfg_backup (app_config a))" "newline \<notin> set (cfg_restore (app_config a))"
    "newline \<notin> set (cfg_log_file (app_config a))" "newline \<notin> set (app_initial_state a)"
    "newline \<notin> set (app_web_host a)" "newline \<notin> set (da_version E)" "\<And>x. newline \<notin> set (da_fixed2 E x)"
    using assms by (simp_all add: single_lines_def)
  note zero = one [THEN line_count_zero] uptime_one_line [THEN line_count_zero] line_count_tr
  show "line_count (dashboard_title E width s) = 3"
    by (simp add: dashboard_title_def syseba_console_clear_def escape_char_def newline_def)
  have "line_count (cut 32 (syseba_timestamp_now s)) = 0" by (simp add: cut_def line_count_take timestamp_one_line)
  then show "line_count (dashboard_head E width compact (dashboard_uptime now started 64) a s) = (if compact then 2 else 3)"
    using one(1) by (simp add: dashboard_head_def zero newline_def)
  show "line_count (dashboard_disks E width a) = 4"
    using line_count_disk [OF assms _ one(1)] line_count_disk [OF assms _ one(2)] line_count_disk [OF assms _ one(3)]
    by (simp add: dashboard_disks_def syseba_tr_def newline_def)
  show "line_count (dashboard_sync E a) = 1"
    by (simp add: dashboard_sync_def zero newline_def split: option.splits)
  have "line_count (metric_text E u v) = 0" if "newline \<notin> set u" for u v
    unfolding metric_text_def cut_def using one(8) that by (intro line_count_take) (auto simp: newline_def split: option.splits)
  then show "line_count (dashboard_counters E width a) = 4"
    by (simp add: dashboard_counters_def counters_def zero Let_def newline_def)
  show "line_count (dashboard_foot width a) = 3"
    by (simp add: dashboard_foot_def zero newline_def)
qed

text \<open>
  C40: The picture of the dashboard has fewer lines than the terminal has rows. On a terminal of at least 18
  rows, when the texts it shows are single lines, \<^verbatim>\<open>syseba_dashboard_render\<close> writes fewer lines than the terminal has, however
  many recent lines there are, in the compact and in the full form; and it lays them out for a width of 64
  to 140 columns.
\<close>

theorem dashboard_fits_terminal:
  assumes "single_lines E a" "18 \<le> unat (syseba_terminal_height (da_winsize E))"
  shows "line_count (fst (dashboard_render E a s)) < unat (syseba_terminal_height (da_winsize E)) \<and>
    dashboard_width (syseba_terminal_width (da_winsize E)) \<in> {64..140}"
proof -
  define width where "width = dashboard_width (syseba_terminal_width (da_winsize E))"
  define height where "height = unat (syseba_terminal_height (da_winsize E))"
  obtain now s1 where m: "syseba_monotonic_ns s = (now, s1)" by (cases "syseba_monotonic_ns s")
  note parts = line_count_parts [OF assms(1)]
  have "line_count (fst (dashboard_render E a s)) < height"
  proof (cases "dashboard_compact width height")
    case True
    with assms(2) m show ?thesis by (simp add: dashboard_render_def Let_def parts flip: width_def height_def)
  next
    case False
    then have "25 < height" by (simp add: dashboard_compact_def)
    from False m line_count_recent [OF assms(1) this, of width] this show ?thesis
      by (simp add: dashboard_render_def Let_def parts flip: width_def height_def)
  qed
  moreover have "width \<in> {64..140}" by (auto simp: width_def dashboard_width_def word_less_nat_alt)
  ultimately show ?thesis by (simp add: width_def height_def)
qed

definition demo_dash :: "nat dash_env" where
  "demo_dash = \<lparr>da_ops = nat_ops, da_less = (<), da_unsigned = (\<lambda>x. x), da_fixed2 = (\<lambda>x. dec x @ ''.00''), da_version = ''2.0'',
     da_statvfs = (\<lambda>_. Some (100, 25, 4096)), da_winsize = Some (100, 30), da_status = None\<rparr>"

theorem dashboard_fits_terminal_witness:
  "line_count (fst (dashboard_render demo_dash (zero_app\<lparr>app_config := demo_config\<rparr>) demo_os)) < 30"
proof -
  have h: "unat (syseba_terminal_height (da_winsize demo_dash)) = 30" by (simp add: demo_dash_def syseba_terminal_height_def)
  have "recent_view n (zero_app\<lparr>app_config := demo_config\<rparr>) = []" for n by (simp add: recent_view_def zero_app_def)
  then have "single_lines demo_dash (zero_app\<lparr>app_config := demo_config\<rparr>)"
    using dec_one_line by (simp add: single_lines_def demo_dash_def zero_app_def demo_config_def newline_def)
  from dashboard_fits_terminal [OF this] show ?thesis unfolding h by simp
qed

end
