(* ===== verification/Watcher_Windows.thy ===== *)
theory Watcher_Windows
  imports App
begin

text \<open>
  The native watcher of Windows, \<^verbatim>\<open>watcher_windows.c\<close>: reading the notifications from the bytes of a buffer,
  turning each into an event, and the loop around \<^verbatim>\<open>ReadDirectoryChangesW\<close>. The calls of Windows and the
  functions of the program that have another branch there are a record. The lemmas show that a buffer
  laid out as Windows documents it is read completely, every notification once and in order.
\<close>

section \<open>The outside\<close>

text \<open>
  \<open>wn_utf8\<close> is \<^verbatim>\<open>WideCharToMultiByte\<close> into a buffer of the given size, \<open>wn_directory\<close> whether
  \<^verbatim>\<open>GetFileAttributesA\<close> finds a directory, \<open>wn_enqueue\<close> and \<open>wn_sync\<close> are \<^verbatim>\<open>syseba_app_enqueue\<close> and
  \<^verbatim>\<open>syseba_app_initial_sync\<close> as built for Windows.
\<close>

record windows_env =
  wn_utf8 :: "16 word list \<Rightarrow> nat \<Rightarrow> string option"
  wn_directory :: "string \<Rightarrow> os \<Rightarrow> bool"
  wn_enqueue :: "event_kind \<Rightarrow> string \<Rightarrow> bool \<Rightarrow> app \<times> os \<Rightarrow> app \<times> os"
  wn_sync :: "app \<times> os \<Rightarrow> app \<times> os"

section \<open>One notification\<close>

record notification =
  nt_action :: "32 word"
  nt_name :: "16 word list"

definition action_kind :: "32 word \<Rightarrow> event_kind option" where
  "action_kind action =
     (if action = 1 \<or> action = 5 then Some EVENT_CREATE
      else if action = 2 \<or> action = 4 then Some EVENT_DELETE
      else if action = 3 then Some EVENT_MODIFY else None)"

definition wide_slice_to_utf8 :: "windows_env \<Rightarrow> 16 word list \<Rightarrow> nat \<Rightarrow> string option" where
  "wide_slice_to_utf8 E input output_size =
     (case wn_utf8 E input (output_size - 1) of
        None \<Rightarrow> None
      | Some t \<Rightarrow> if t = [] \<or> length t \<ge> output_size then None else Some t)"

definition windows_dispatch :: "windows_env \<Rightarrow> notification \<Rightarrow> app \<times> os \<Rightarrow> app \<times> os" where
  "windows_dispatch E event st =
     (case wide_slice_to_utf8 E (nt_name event) SYSEBA_PATH_MAX of
        None \<Rightarrow> st
      | Some relative \<Rightarrow>
          let path = cfg_source (app_config (fst st)) @ [backslash] @ relative in
          if \<not> fits SYSEBA_PATH_MAX path then st
          else let directory = wn_directory E path (snd st) in
               (case action_kind (nt_action event) of None \<Rightarrow> st | Some kind \<Rightarrow> wn_enqueue E kind path directory st))"

section \<open>The buffer\<close>

text \<open>
  A \<^verbatim>\<open>FILE_NOTIFY_INFORMATION\<close>: the offset of the next one, the action, the length of the name in bytes, the name, all
  little-endian. Bytes behind those written count as 0; the documented layout never refers to them.
\<close>

definition buffer_byte :: "8 word list \<Rightarrow> nat \<Rightarrow> nat" where
  "buffer_byte b i = (if i < length b then unat (b ! i) else 0)"

definition le16 :: "8 word list \<Rightarrow> nat \<Rightarrow> nat" where
  "le16 b i = buffer_byte b i + 256 * buffer_byte b (i + 1)"

definition le32 :: "8 word list \<Rightarrow> nat \<Rightarrow> nat" where
  "le32 b i = le16 b i + 65536 * le16 b (i + 2)"

definition next_entry_offset :: "8 word list \<Rightarrow> nat \<Rightarrow> nat" where
  "next_entry_offset b off = le32 b off"

definition read_notification :: "8 word list \<Rightarrow> nat \<Rightarrow> notification" where
  "read_notification b off =
     \<lparr>nt_action = of_nat (le32 b (off + 4)),
      nt_name = map (\<lambda>k. of_nat (le16 b (off + 12 + 2 * k))) [0..<le32 b (off + 8) div 2]\<rparr>"

text \<open>
  The loop over the entries; \<^verbatim>\<open>offset\<close> has 32 bits. An offset that comes back to an earlier entry would make it run
  forever, which is the value \<open>None\<close>.
\<close>

partial_function (option) notification_loop ::
  "(notification \<Rightarrow> app \<times> os \<Rightarrow> app \<times> os) \<Rightarrow> 8 word list \<Rightarrow> nat \<Rightarrow> nat \<Rightarrow> app \<times> os \<Rightarrow> (app \<times> os) option" where
  "notification_loop dispatch b bytes offset st =
     (if offset < bytes
      then let st1 = dispatch (read_notification b offset) st in
           if next_entry_offset b offset = 0 then Some st1
           else notification_loop dispatch b bytes ((offset + next_entry_offset b offset) mod 2 ^ 32) st1
      else Some st)"

section \<open>The thread\<close>

text \<open>
  A turn of the loop: what the other threads do meanwhile, whether a new read could be started (looked at
  only when none is pending), and how waiting for it ended.
\<close>

datatype completion = Not_Completed bool | Completed "8 word list"
datatype wait_outcome = Wait_Timeout | Wait_Failed | Wait_Object completion

text \<open>\<open>Not_Completed True\<close> is \<^verbatim>\<open>ERROR_OPERATION_ABORTED\<close>; \<open>Completed []\<close> a buffer that overflowed.\<close>

definition watch_overflow :: "windows_env \<Rightarrow> app \<times> os \<Rightarrow> app \<times> os" where
  "watch_overflow E st =
     (case st of (a, s) \<Rightarrow>
        wn_sync E (syseba_log_emit ''WARNING'' ''WATCH'' (cfg_source (app_config a)) [] ''buffer-overflow''
          (syseba_tr (app_language a) ''Overflow del watcher Windows'' ''Windows watcher overflow'') s a, s))"

fun windows_loop ::
  "windows_env \<Rightarrow> ((app \<times> os \<Rightarrow> app \<times> os) \<times> bool \<times> wait_outcome) list \<Rightarrow> bool \<Rightarrow> app \<times> os \<Rightarrow> (bool \<times> app \<times> os) option" where
  "windows_loop E [] pending st = Some (pending, st)"
| "windows_loop E ((others, started, r) # turns) pending st =
     (if syseba_app_is_stopping (fst st) \<or> \<not> pending \<and> \<not> started then Some (pending, st)
      else let st1 = others st in
        (case r of
           Wait_Timeout \<Rightarrow> windows_loop E turns True st1
         | Wait_Failed \<Rightarrow> Some (True, st1)
         | Wait_Object (Not_Completed aborted) \<Rightarrow> if aborted then Some (True, st1) else windows_loop E turns False st1
         | Wait_Object (Completed b) \<Rightarrow>
             if b = [] then windows_loop E turns False (watch_overflow E st1)
             else (case notification_loop (windows_dispatch E) b (length b) 0 st1 of
                     None \<Rightarrow> None
                   | Some st2 \<Rightarrow> windows_loop E turns False st2)))"

text \<open>
  \<open>wide\<close>: the source could be converted, \<open>directory\<close> and \<open>completed\<close>: the handles could be opened. \<open>fallback\<close> is the polling watcher.
\<close>

definition windows_watcher_main ::
  "windows_env \<Rightarrow> bool \<Rightarrow> bool \<Rightarrow> bool \<Rightarrow> ((app \<times> os \<Rightarrow> app \<times> os) \<times> bool \<times> wait_outcome) list \<Rightarrow>
   (app \<times> os \<Rightarrow> app \<times> os) \<Rightarrow> app \<times> os \<Rightarrow> (app \<times> os) option" where
  "windows_watcher_main E wide directory completed turns fallback st =
     (case st of (a, s) \<Rightarrow>
        if \<not> wide then Some (fallback st)
        else if \<not> directory
        then Some (fallback (syseba_log_emit ''WARNING'' ''WATCH'' (cfg_source (app_config a)) [] ''ReadDirectoryChangesW''
               (syseba_tr (app_language a) ''Watcher Windows non disponibile; uso il polling'' ''Windows watcher unavailable; using polling'') s a, s))
        else if \<not> completed then Some (fallback st)
        else map_option snd (windows_loop E turns False
               (syseba_log_emit ''INFO'' ''WATCH'' (cfg_source (app_config a)) [] ''ReadDirectoryChangesW''
                  (syseba_tr (app_language a) ''Watcher Windows nativo attivo'' ''Native Windows watcher active'') s a, s)))"

section \<open>The layout Windows documents\<close>

definition enc16 :: "nat \<Rightarrow> 8 word list" where
  "enc16 n = [of_nat n, of_nat (n div 256)]"

definition enc32 :: "nat \<Rightarrow> 8 word list" where
  "enc32 n = enc16 n @ enc16 (n div 65536)"

definition enc_name :: "16 word list \<Rightarrow> 8 word list" where
  "enc_name ws = concat (map (\<lambda>w. enc16 (unat w)) ws)"

definition enc_entry :: "nat \<Rightarrow> notification \<Rightarrow> 8 word list" where
  "enc_entry next e = enc32 next @ enc32 (unat (nt_action e)) @ enc32 (2 * length (nt_name e)) @ enc_name (nt_name e)"

text \<open>Every entry but the last is padded to a multiple of four bytes and names the offset of the next.\<close>

definition entry_size :: "notification \<Rightarrow> nat" where
  "entry_size e = 12 + 2 * length (nt_name e) + (if even (length (nt_name e)) then 0 else 2)"

fun enc_entries :: "notification list \<Rightarrow> 8 word list" where
  "enc_entries [] = []"
| "enc_entries [e] = enc_entry 0 e"
| "enc_entries (e # es) = enc_entry (entry_size e) e @ replicate (if even (length (nt_name e)) then 0 else 2) 0 @ enc_entries es"

lemma enc_lengths [simp]: "length (enc16 n) = 2" "length (enc32 n) = 4" "length (enc_name ws) = 2 * length ws"
  by (simp_all add: enc16_def enc32_def enc_name_def length_concat comp_def sum_list_triv)

lemma buffer_byte_append [simp]:
  "buffer_byte (x @ y) (length x + k) = buffer_byte y k" "k < length x \<Longrightarrow> buffer_byte (x @ y) k = buffer_byte x k"
  by (simp_all add: buffer_byte_def nth_append)

lemma le16_enc: "n < 65536 \<Longrightarrow> le16 (enc16 n @ r) 0 = n"
  by (simp add: le16_def buffer_byte_def enc16_def unat_of_nat)

lemma le16_append: "le16 (x @ y) (length x + k) = le16 y k"
  using buffer_byte_append(1) [of x y k] buffer_byte_append(1) [of x y "k + 1"] by (simp add: le16_def add.assoc)

lemma le32_append: "le32 (x @ y) (length x + k) = le32 y k"
  using le16_append [of x y k] le16_append [of x y "k + 2"] by (simp add: le32_def add.assoc)

lemma le32_enc: "n < 2 ^ 32 \<Longrightarrow> le32 (enc32 n @ r) 0 = n"
proof -
  assume "n < 2 ^ 32"
  then have "le16 (enc16 (n div 65536) @ r) 0 = n div 65536" by (intro le16_enc) (simp add: div_less_iff_less_mult)
  moreover have "le16 (enc16 n @ enc16 (n div 65536) @ r) 0 = n mod 65536"
    using mod_mult2_eq [of n 256 256] by (simp add: le16_def buffer_byte_def enc16_def unat_of_nat)
  moreover have "le16 (enc16 n @ enc16 (n div 65536) @ r) 2 = le16 (enc16 (n div 65536) @ r) 0"
    using le16_append [of "enc16 n" "enc16 (n div 65536) @ r" 0] by simp
  ultimately show ?thesis by (simp add: le32_def enc32_def numeral_2_eq_2)
qed

lemma le16_name: "k < length ws \<Longrightarrow> le16 (enc_name ws @ r) (2 * k) = unat (ws ! k)"
proof (induction ws arbitrary: k)
  case (Cons w ws)
  have split: "enc_name (w # ws) @ r = enc16 (unat w) @ enc_name ws @ r" by (simp add: enc_name_def)
  show ?case
  proof (cases k)
    case 0
    then show ?thesis using le16_enc [of "unat w" "enc_name ws @ r"] unsigned_less [of w] unfolding split by simp
  next
    case (Suc j)
    then show ?thesis using Cons le16_append [of "enc16 (unat w)" "enc_name ws @ r" "2 * j"] unfolding split by simp
  qed
qed simp

lemma read_entry:
  assumes "next < 2 ^ 32" "2 * length (nt_name e) < 2 ^ 32"
  shows "next_entry_offset (pre @ enc_entry next e @ r) (length pre) = next" "read_notification (pre @ enc_entry next e @ r) (length pre) = e"
proof -
  let ?b = "pre @ enc_entry next e @ r"
  let ?n = "enc_name (nt_name e) @ r"
  have at: "le32 ?b (length pre + k) = le32 (enc_entry next e @ r) k" "le16 ?b (length pre + k) = le16 (enc_entry next e @ r) k" for k
    by (rule le32_append, rule le16_append)
  have split: "enc_entry next e @ r = enc32 next @ enc32 (unat (nt_action e)) @ enc32 (2 * length (nt_name e)) @ ?n" by (simp add: enc_entry_def)
  show "next_entry_offset ?b (length pre) = next"
    using at(1) [of 0] le32_enc [OF assms(1)] by (simp add: next_entry_offset_def split)
  have "le32 (enc_entry next e @ r) 4 = unat (nt_action e)"
    using le32_append [of "enc32 next" _ 0] le32_enc [of "unat (nt_action e)"] unsigned_less [of "nt_action e"] by (simp add: split)
  moreover have "le32 (enc_entry next e @ r) 8 = 2 * length (nt_name e)"
    using le32_append [of "enc32 next @ enc32 (unat (nt_action e))" "enc32 (2 * length (nt_name e)) @ ?n" 0] le32_enc [OF assms(2)] by (simp add: split)
  moreover have "le16 (enc_entry next e @ r) (12 + 2 * k) = unat (nt_name e ! k)" if "k < length (nt_name e)" for k
    using le16_append [of "enc32 next @ enc32 (unat (nt_action e)) @ enc32 (2 * length (nt_name e))" ?n "2 * k"] le16_name [OF that] by (simp add: split)
  ultimately show "read_notification ?b (length pre) = e"
    by (intro notification.equality) (auto simp: read_notification_def at add.assoc intro!: nth_equalityI)
qed

lemma enc_entry_length: "length (enc_entry next e) = 12 + 2 * length (nt_name e)"
  by (simp add: enc_entry_def)

lemma notification_loop_entries:
  assumes "es \<noteq> []" "length (pre @ enc_entries es) < 2 ^ 32"
  shows "notification_loop dispatch (pre @ enc_entries es) (length (pre @ enc_entries es)) (length pre) st = Some (fold dispatch es st)"
  using assms
proof (induction es arbitrary: pre st rule: enc_entries.induct)
  case (2 e)
  have "2 * length (nt_name e) < 2 ^ 32" using 2 by (simp add: enc_entry_length)
  from read_entry [OF _ this, of 0 pre "[]"] show ?case
    by (subst notification_loop.simps) (simp add: enc_entry_length Let_def)
next
  case (3 e e2 es)
  let ?pad = "replicate (if even (length (nt_name e)) then 0 else 2) 0 :: 8 word list"
  let ?pre = "pre @ enc_entry (entry_size e) e @ ?pad"
  let ?b = "pre @ enc_entries (e # e2 # es)"
  have b: "?b = ?pre @ enc_entries (e2 # es)" by simp
  have pre: "length ?pre = length pre + entry_size e" by (simp add: enc_entry_length entry_size_def)
  have lt: "length pre + entry_size e < 2 ^ 32" "2 * length (nt_name e) < 2 ^ 32"
    using "3.prems"(2) by (auto simp: enc_entry_length entry_size_def)
  have r: "next_entry_offset ?b (length pre) = entry_size e" "read_notification ?b (length pre) = e"
    using read_entry [of "entry_size e" e pre "?pad @ enc_entries (e2 # es)"] lt by simp_all
  have "length pre < length ?b" by (simp add: enc_entry_length)
  moreover have "entry_size e \<noteq> 0" "(length pre + entry_size e) mod 2 ^ 32 = length ?pre" using lt(1) pre by (simp_all add: entry_size_def)
  ultimately have "notification_loop dispatch ?b (length ?b) (length pre) st = notification_loop dispatch ?b (length ?b) (length ?pre) (dispatch e st)"
    by (subst notification_loop.simps) (simp only: r Let_def if_True if_False)
  with "3.IH" [of ?pre "dispatch e st"] "3.prems"(2) show ?case unfolding b by simp
qed simp

text \<open>
  C24: No notification of Windows is lost or doubled. For a buffer laid out as documented, whatever the
  names and actions, the loop of the watcher ends, having dispatched every notification
  exactly once and in order.
\<close>

theorem notifications_dispatched:
  assumes "es \<noteq> []" "length (enc_entries es) \<le> 256 * 1024"
  shows "notification_loop (windows_dispatch E) (enc_entries es) (length (enc_entries es)) 0 st = Some (fold (windows_dispatch E) es st)"
  using notification_loop_entries [of es "[]" "windows_dispatch E" st] assms by simp

definition demo_windows :: windows_env where
  "demo_windows = \<lparr>wn_utf8 = (\<lambda>ws n. Some (map (\<lambda>w. char_of (unat w)) ws)), wn_directory = (\<lambda>_ _. False),
     wn_enqueue = (\<lambda>kind path directory st. snd (syseba_app_enqueue kind path directory (fst st) (snd st))),
     wn_sync = (\<lambda>st. snd (syseba_app_initial_sync (\<lambda>st. st) (fst st) (snd st)))\<rparr>"

theorem notifications_dispatched_witness:
  "notification_loop (windows_dispatch demo_windows) (enc_entries [\<lparr>nt_action = 1, nt_name = [97]\<rparr>, \<lparr>nt_action = 3, nt_name = [97, 98]\<rparr>]) 32 0 (zero_app, quiet_os) =
     Some (windows_dispatch demo_windows \<lparr>nt_action = 3, nt_name = [97, 98]\<rparr> (windows_dispatch demo_windows \<lparr>nt_action = 1, nt_name = [97]\<rparr> (zero_app, quiet_os)))"
  using notifications_dispatched [of "[\<lparr>nt_action = 1, nt_name = [97]\<rparr>, \<lparr>nt_action = 3, nt_name = [97, 98]\<rparr>]" demo_windows "(zero_app, quiet_os)"]
  by (simp add: enc_entry_length)

end
