(* ===== verification/Fs_Windows.thy ===== *)
theory Fs_Windows
  imports Tree
begin

text \<open>
  The Windows branches of \<^verbatim>\<open>fs.c\<close>: the copy of a file over Windows handles and the walk of a directory with
  \<^verbatim>\<open>FindFirstFileA\<close>. The state of a copy is the source as other processes may change it, what stands at the destination and a
  schedule of what the calls meet. The lemmas show that a copy that reports success is complete even if the
  source was being written to, and that the walk visits every entry but the reparse points.
\<close>

unbundle bit_operations_syntax

section \<open>Windows calls\<close>

record wfile =
  wf_data :: string
  wf_attributes :: "32 word"
  wf_volume :: "32 word"
  wf_index :: "64 word"
  wf_creation :: "64 word"
  wf_access :: "64 word"
  wf_write :: "64 word"

text \<open>
  What a call meets: a failure with its error code, a transfer of fewer bytes, or a source that another
  process has just changed.
\<close>

datatype wevent = WFail "32 word" | WShort nat | WChange "wfile \<Rightarrow> wfile"

record wstate =
  wi_source :: "wfile option"
  wi_destination :: "wfile option"
  wi_sched :: "wevent list"
  wi_last_error :: "32 word"
  wi_errno :: "errno option"

definition ERROR_FILE_NOT_FOUND :: "32 word" where "ERROR_FILE_NOT_FOUND = 2"
definition ERROR_PATH_NOT_FOUND :: "32 word" where "ERROR_PATH_NOT_FOUND = 3"
definition ERROR_ACCESS_DENIED :: "32 word" where "ERROR_ACCESS_DENIED = 5"
definition ERROR_SHARING_VIOLATION :: "32 word" where "ERROR_SHARING_VIOLATION = 32"
definition ERROR_FILE_EXISTS :: "32 word" where "ERROR_FILE_EXISTS = 80"
definition ERROR_ALREADY_EXISTS :: "32 word" where "ERROR_ALREADY_EXISTS = 183"
definition FILE_ATTRIBUTE_DIRECTORY :: "32 word" where "FILE_ATTRIBUTE_DIRECTORY = 0x10"
definition FILE_ATTRIBUTE_NORMAL :: "32 word" where "FILE_ATTRIBUTE_NORMAL = 0x80"
definition FILE_ATTRIBUTE_REPARSE_POINT :: "32 word" where "FILE_ATTRIBUTE_REPARSE_POINT = 0x400"

text \<open>A call: it fails and sets the error, or runs its body with the limit on its transfer.\<close>

definition wfail :: "32 word \<Rightarrow> wstate \<Rightarrow> 'a option \<times> wstate" where
  "wfail e w = (None, w\<lparr>wi_last_error := e\<rparr>)"

definition wcall :: "(nat option \<Rightarrow> wstate \<Rightarrow> 'a option \<times> wstate) \<Rightarrow> wstate \<Rightarrow> 'a option \<times> wstate" where
  "wcall body w =
     (case wi_sched w of
        [] \<Rightarrow> body None w
      | WFail e # r \<Rightarrow> wfail e (w\<lparr>wi_sched := r\<rparr>)
      | WShort n # r \<Rightarrow> body (Some n) (w\<lparr>wi_sched := r\<rparr>)
      | WChange f # r \<Rightarrow> body None (w\<lparr>wi_sched := r, wi_source := map_option f (wi_source w)\<rparr>))"

definition open_source :: "wstate \<Rightarrow> unit option \<times> wstate" where
  "open_source = wcall (\<lambda>_ w. if wi_source w = None then wfail ERROR_FILE_NOT_FOUND w else (Some (), w))"

definition source_information :: "wstate \<Rightarrow> wfile option \<times> wstate" where
  "source_information = wcall (\<lambda>_ w. (wi_source w, w))"

definition create_new :: "wstate \<Rightarrow> unit option \<times> wstate" where
  "create_new = wcall (\<lambda>_ w.
     if wi_destination w \<noteq> None then wfail ERROR_FILE_EXISTS w
     else (Some (), w\<lparr>wi_destination := Some \<lparr>wf_data = [], wf_attributes = FILE_ATTRIBUTE_NORMAL, wf_volume = 0, wf_index = 0,
            wf_creation = 0, wf_access = 0, wf_write = 0\<rparr>\<rparr>))"

text \<open>A read before the end of the file gives at least one byte.\<close>

definition read_file :: "nat \<Rightarrow> nat \<Rightarrow> wstate \<Rightarrow> string option \<times> wstate" where
  "read_file n off = wcall (\<lambda>limit w.
     let m = (case limit of None \<Rightarrow> n | Some k \<Rightarrow> min n (max 1 k))
     in (map_option (\<lambda>f. take m (drop off (wf_data f))) (wi_source w), w))"

definition write_file :: "string \<Rightarrow> wstate \<Rightarrow> nat option \<times> wstate" where
  "write_file bytes = wcall (\<lambda>limit w.
     let m = (case limit of None \<Rightarrow> length bytes | Some k \<Rightarrow> min (length bytes) k)
     in (Some m, w\<lparr>wi_destination := map_option (\<lambda>f. f\<lparr>wf_data := wf_data f @ take m bytes\<rparr>) (wi_destination w)\<rparr>))"

definition set_file_time :: "wfile \<Rightarrow> wstate \<Rightarrow> unit option \<times> wstate" where
  "set_file_time info = wcall (\<lambda>_ w.
     (Some (), w\<lparr>wi_destination := map_option (\<lambda>f. f\<lparr>wf_creation := wf_creation info, wf_access := wf_access info, wf_write := wf_write info\<rparr>) (wi_destination w)\<rparr>))"

definition flush_file_buffers :: "wstate \<Rightarrow> unit option \<times> wstate" where
  "flush_file_buffers = wcall (\<lambda>_ w. (Some (), w))"

definition delete_file :: "wstate \<Rightarrow> unit option \<times> wstate" where
  "delete_file = wcall (\<lambda>_ w. (Some (), w\<lparr>wi_destination := None\<rparr>))"

section \<open>The copy\<close>

definition windows_copy_error :: "32 word \<Rightarrow> errno" where
  "windows_copy_error e =
     (if e = ERROR_FILE_NOT_FOUND \<or> e = ERROR_PATH_NOT_FOUND then ENOENT
      else if e = ERROR_ACCESS_DENIED \<or> e = ERROR_SHARING_VIOLATION then EACCES
      else if e = ERROR_FILE_EXISTS \<or> e = ERROR_ALREADY_EXISTS then EEXIST
      else EIO)"

definition copy_error :: "wstate \<Rightarrow> wstate" where
  "copy_error w = w\<lparr>wi_errno := Some (windows_copy_error (wi_last_error w))\<rparr>"

function windows_write_loop :: "string \<Rightarrow> 64 word \<Rightarrow> wstate \<Rightarrow> 64 word option \<times> wstate" where
  "windows_write_loop bytes copied w =
     (if bytes = [] then (Some copied, w)
      else (case write_file bytes w of
              (Some chunk, w1) \<Rightarrow>
                if chunk = 0 then (None, copy_error w1)
                else windows_write_loop (drop chunk bytes) (copied + of_nat chunk) w1
            | (None, w1) \<Rightarrow> (None, copy_error w1)))"
  by pat_completeness auto
termination
  by (relation "measure (\<lambda>(bytes, copied, w). length bytes)") auto

declare windows_write_loop.simps [simp del]

definition copy_chunk :: nat where
  "copy_chunk = 1024 * 1024"

text \<open>The source after a call is what the events that the call met have made of it.\<close>

definition change_of :: "wevent \<Rightarrow> wfile \<Rightarrow> wfile" where
  "change_of e x = (case e of WChange f \<Rightarrow> f x | _ \<Rightarrow> x)"

definition passes :: "wstate \<Rightarrow> wstate \<Rightarrow> bool" where
  "passes w w' \<longleftrightarrow> (\<exists>es. wi_sched w = es @ wi_sched w' \<and> wi_source w' = map_option (fold change_of es) (wi_source w))"

lemma passesI: "wi_sched w' = wi_sched w \<Longrightarrow> wi_source w' = wi_source w \<Longrightarrow> passes w w'"
  by (cases "wi_source w") (simp_all add: passes_def)

lemma passes_trans: "passes w w1 \<Longrightarrow> passes w1 w2 \<Longrightarrow> passes w w2"
proof -
  assume "passes w w1" "passes w1 w2"
  then obtain es fs where "wi_sched w = es @ wi_sched w1" "wi_source w1 = map_option (fold change_of es) (wi_source w)"
    "wi_sched w1 = fs @ wi_sched w2" "wi_source w2 = map_option (fold change_of fs) (wi_source w1)" by (auto simp: passes_def)
  then show ?thesis unfolding passes_def by (intro exI [of _ "es @ fs"]) (simp add: option.map_comp)
qed

lemma passes_shorter: "passes w w' \<Longrightarrow> length (wi_sched w') \<le> length (wi_sched w)"
  by (auto simp: passes_def)

lemma passes_quiet: "passes w w' \<Longrightarrow> wi_sched w = [] \<Longrightarrow> wi_sched w' = [] \<and> wi_source w' = wi_source w"
  by (cases "wi_source w") (auto simp: passes_def)

lemma wcall_first:
  obtains "wi_sched w = []" "wcall body w = body None w"
  | e r where "wi_sched w = WFail e # r" "wcall body w = wfail e (w\<lparr>wi_sched := r\<rparr>)"
  | l w1 where "passes w w1" "length (wi_sched w1) < length (wi_sched w)" "wi_destination w1 = wi_destination w" "wcall body w = body l w1"
proof (cases "wi_sched w")
  case (Cons e r)
  show ?thesis
  proof (cases e)
    case (WFail c)
    with Cons that(2) show ?thesis by (simp add: wcall_def)
  next
    case (WShort n)
    have "passes w (w\<lparr>wi_sched := r\<rparr>)"
      unfolding passes_def by (intro exI [of _ "[e]"]) (cases "wi_source w"; simp add: Cons WShort change_of_def)
    with Cons WShort that(3) show ?thesis by (simp add: wcall_def)
  next
    case (WChange f)
    have "passes w (w\<lparr>wi_sched := r, wi_source := map_option f (wi_source w)\<rparr>)"
      unfolding passes_def by (intro exI [of _ "[e]"]) (cases "wi_source w"; simp add: Cons WChange change_of_def)
    with Cons WChange that(3) show ?thesis by (simp add: wcall_def)
  qed
qed (use that(1) in \<open>simp add: wcall_def\<close>)

lemma wcall_passes:
  assumes "\<And>l v. passes v (snd (body l v))"
  shows "passes w (snd (wcall body w))" "wi_sched w \<noteq> [] \<Longrightarrow> length (wi_sched (snd (wcall body w))) < length (wi_sched w)"
proof -
  have "passes w (snd (wcall body w)) \<and> (wi_sched w \<noteq> [] \<longrightarrow> length (wi_sched (snd (wcall body w))) < length (wi_sched w))"
  proof (cases rule: wcall_first [of w body])
    case (2 e r)
    then have "passes w (w\<lparr>wi_sched := r, wi_last_error := e\<rparr>)"
      unfolding passes_def by (intro exI [of _ "[WFail e]"]) (cases "wi_source w"; simp add: change_of_def)
    with 2 show ?thesis by (simp add: wfail_def)
  next
    case (3 l w1)
    with assms [of w1 l] passes_trans passes_shorter show ?thesis by (metis le_less_trans)
  qed (use assms in simp)
  then show "passes w (snd (wcall body w))" "wi_sched w \<noteq> [] \<Longrightarrow> length (wi_sched (snd (wcall body w))) < length (wi_sched w)" by simp_all
qed

lemmas call_defs = open_source_def source_information_def create_new_def read_file_def write_file_def set_file_time_def
  flush_file_buffers_def delete_file_def

lemma calls_pass:
  "passes w (snd (open_source w))" "passes w (snd (source_information w))" "passes w (snd (create_new w))" "passes w (snd (read_file n off w))"
  "passes w (snd (write_file bytes w))" "passes w (snd (set_file_time info w))" "passes w (snd (flush_file_buffers w))" "passes w (snd (delete_file w))"
  unfolding call_defs by (rule wcall_passes(1); simp add: passesI Let_def wfail_def)+

lemma read_shorter: "wi_sched w \<noteq> [] \<Longrightarrow> length (wi_sched (snd (read_file n off w))) < length (wi_sched w)"
  unfolding read_file_def by (rule wcall_passes(2)) (simp_all add: passesI Let_def)

lemma write_loop_passes: "passes w (snd (windows_write_loop bytes copied w))"
proof (induction bytes copied w rule: windows_write_loop.induct)
  case (1 bytes copied w)
  show ?case
  proof (cases "write_file bytes w")
    case (Pair r w1)
    have "passes w1 (copy_error w1)" by (simp add: copy_error_def passesI)
    with calls_pass(5) [of w bytes] Pair have "passes w w1" "passes w (copy_error w1)" by (auto intro: passes_trans)
    with 1 [OF _ Pair [symmetric]] Pair show ?thesis
      by (subst windows_write_loop.simps) (auto simp: passesI intro: passes_trans split: option.splits)
  qed
qed

function windows_copy_loop :: "nat \<Rightarrow> 64 word \<Rightarrow> wstate \<Rightarrow> 64 word option \<times> wstate" where
  "windows_copy_loop off copied w =
     (case read_file copy_chunk off w of
        (None, w1) \<Rightarrow> (None, copy_error w1)
      | (Some bytes, w1) \<Rightarrow>
          if bytes = [] then (Some copied, w1)
          else (case windows_write_loop bytes copied w1 of
                  (None, w2) \<Rightarrow> (None, w2)
                | (Some copied2, w2) \<Rightarrow> windows_copy_loop (off + length bytes) copied2 w2))"
  by pat_completeness auto
termination
proof (relation "measures [\<lambda>(off, copied, w). length (wi_sched w), \<lambda>(off, copied, w). (case wi_source w of None \<Rightarrow> 0 | Some f \<Rightarrow> length (wf_data f) - off)]", goal_cases)
  case (2 off copied w r w1 bytes r2 w2 copied2)
  then have r: "read_file copy_chunk off w = (Some bytes, w1)" and wr: "windows_write_loop bytes copied w1 = (Some copied2, w2)" and "bytes \<noteq> []" by auto
  have p: "passes w w1" "passes w1 w2" using calls_pass(4) [of w copy_chunk off] write_loop_passes [of w1 bytes copied] r wr by simp_all
  show ?case
  proof (cases "wi_sched w = []")
    case True
    with r \<open>bytes \<noteq> []\<close> obtain f where "wi_source w = Some f" "bytes = take copy_chunk (drop off (wf_data f))"
      by (auto simp: read_file_def wcall_def)
    moreover have "wi_sched w2 = []" "wi_source w2 = wi_source w" using True passes_quiet p by metis+
    ultimately show ?thesis using \<open>bytes \<noteq> []\<close> True by (auto simp: not_le)
  next
    case False
    with read_shorter [OF this, of copy_chunk off] r passes_shorter [OF p(2)] show ?thesis by simp
  qed
qed simp

declare windows_copy_loop.simps [simp del]

text \<open>The end of the copy: the source must be the file it was, and all its bytes copied.\<close>

definition windows_copy_finish :: "wfile \<Rightarrow> 64 word \<Rightarrow> wstate \<Rightarrow> bool \<times> wstate" where
  "windows_copy_finish initial copied w =
     (case source_information w of
        (Some final, w1) \<Rightarrow>
          if wf_volume initial \<noteq> wf_volume final \<or> wf_index initial \<noteq> wf_index final \<or>
             (of_nat (length (wf_data initial)) :: 64 word) \<noteq> of_nat (length (wf_data final)) \<or>
             wf_write initial \<noteq> wf_write final \<or> copied \<noteq> of_nat (length (wf_data initial))
          then (False, w1\<lparr>wi_errno := Some EAGAIN\<rparr>)
          else (case set_file_time initial w1 of
                  (None, w2) \<Rightarrow> (False, copy_error w2)
                | (Some _, w2) \<Rightarrow>
                    (case flush_file_buffers w2 of
                       (None, w3) \<Rightarrow> (False, copy_error w3)
                     | (Some _, w3) \<Rightarrow> (True, w3)))
      | (None, w1) \<Rightarrow> (False, w1\<lparr>wi_errno := Some EAGAIN\<rparr>))"

definition plain_file :: "wfile \<Rightarrow> bool" where
  "plain_file f \<longleftrightarrow> wf_attributes f AND (FILE_ATTRIBUTE_DIRECTORY OR FILE_ATTRIBUTE_REPARSE_POINT) = 0"

definition windows_copy_body :: "wstate \<Rightarrow> bool \<times> wstate" where
  "windows_copy_body w =
     (case open_source w of
        (None, w1) \<Rightarrow> (False, copy_error w1)
      | (Some _, w1) \<Rightarrow>
          (case source_information w1 of
             (None, w2) \<Rightarrow> (False, copy_error w2)
           | (Some initial, w2) \<Rightarrow>
               if \<not> plain_file initial then (False, copy_error w2)
               else (case create_new w2 of
                       (None, w3) \<Rightarrow> (False, copy_error w3)
                     | (Some _, w3) \<Rightarrow>
                         (case windows_copy_loop 0 0 w3 of
                            (None, w4) \<Rightarrow> (False, w4)
                          | (Some copied, w4) \<Rightarrow> windows_copy_finish initial copied w4))))"

definition copy_file_once_windows :: "wstate \<Rightarrow> int \<times> wstate" where
  "copy_file_once_windows w =
     (case windows_copy_body w of
        (True, w1) \<Rightarrow> (0, w1)
      | (False, w1) \<Rightarrow> (- 1, (snd (delete_file w1))\<lparr>wi_errno := wi_errno w1\<rparr>))"

section \<open>Opening files\<close>

text \<open>
  The three functions that open a stream. The file at the path is \<open>wi_source\<close>, the one that is to be new \<open>wi_destination\<close>; the
  C library may fail to wrap the handle.
\<close>

definition wrap_handle :: "wstate \<Rightarrow> unit option \<times> wstate" where
  "wrap_handle = wcall (\<lambda>_ w. (Some (), w))"

definition open_always :: "wstate \<Rightarrow> unit option \<times> wstate" where
  "open_always = wcall (\<lambda>_ w. (Some (), if wi_source w = None
     then w\<lparr>wi_source := Some \<lparr>wf_data = [], wf_attributes = FILE_ATTRIBUTE_NORMAL, wf_volume = 0, wf_index = 0,
            wf_creation = 0, wf_access = 0, wf_write = 0\<rparr>\<rparr> else w))"

definition set_werrno :: "errno \<Rightarrow> wstate \<Rightarrow> wstate" where
  "set_werrno e w = w\<lparr>wi_errno := Some e\<rparr>"

definition open_stream :: "wstate \<Rightarrow> bool \<times> wstate" where
  "open_stream w =
     (case wrap_handle w of
        (None, w1) \<Rightarrow> (False, w1)
      | (Some _, w1) \<Rightarrow> (case wrap_handle w1 of (None, w2) \<Rightarrow> (False, w2) | (Some _, w2) \<Rightarrow> (True, w2)))"

definition windows_open_regular_read :: "wstate \<Rightarrow> 64 word option \<times> wstate" where
  "windows_open_regular_read w =
     (case open_source w of
        (None, w1) \<Rightarrow>
          (None, set_werrno (if wi_last_error w1 = ERROR_FILE_NOT_FOUND \<or> wi_last_error w1 = ERROR_PATH_NOT_FOUND then ENOENT else EACCES) w1)
      | (Some _, w1) \<Rightarrow>
          (case source_information w1 of
             (None, w2) \<Rightarrow> (None, set_werrno EINVAL w2)
           | (Some information, w2) \<Rightarrow>
               if \<not> plain_file information then (None, set_werrno EINVAL w2)
               else (case open_stream w2 of (ok, w3) \<Rightarrow> (if ok then Some (of_nat (length (wf_data information))) else None, w3))))"

definition windows_open_regular_append :: "wstate \<Rightarrow> bool \<times> wstate" where
  "windows_open_regular_append w =
     (case open_always w of
        (None, w1) \<Rightarrow> (False, set_werrno EACCES w1)
      | (Some _, w1) \<Rightarrow>
          (case source_information w1 of
             (None, w2) \<Rightarrow> (False, set_werrno EACCES w2)
           | (Some information, w2) \<Rightarrow> if \<not> plain_file information then (False, set_werrno EACCES w2) else open_stream w2))"

definition windows_open_exclusive_write :: "wstate \<Rightarrow> bool \<times> wstate" where
  "windows_open_exclusive_write w =
     (case create_new w of
        (None, w1) \<Rightarrow>
          (False, set_werrno (if wi_last_error w1 = ERROR_FILE_EXISTS \<or> wi_last_error w1 = ERROR_ALREADY_EXISTS then EEXIST else EACCES) w1)
      | (Some _, w1) \<Rightarrow> open_stream w1)"

section \<open>The walk\<close>

text \<open>\<open>F\<close> gives the entries of \<^verbatim>\<open>FindFirstFileA\<close> and \<^verbatim>\<open>FindNextFileA\<close> for a pattern: names and attributes.\<close>

type_synonym find_files = "string \<Rightarrow> os \<Rightarrow> (string \<times> 32 word) list option \<times> os"

definition walk_skips :: "string \<Rightarrow> 32 word \<Rightarrow> bool" where
  "walk_skips name attributes \<longleftrightarrow> name = ''.'' \<or> name = ''..'' \<or> attributes AND FILE_ATTRIBUTE_REPARSE_POINT \<noteq> 0"

definition find_pattern :: "string \<Rightarrow> string" where
  "find_pattern root = root @ [backslash, CHR ''*'']"

function windows_walk_entries :: "find_files \<Rightarrow> 'c callback \<Rightarrow> string \<Rightarrow> (string \<times> 32 word) list \<Rightarrow> 'c \<Rightarrow> os \<Rightarrow> int \<times> 'c \<times> os" where
  "windows_walk_entries F cb root [] c s = (0, c, s)"
| "windows_walk_entries F cb root ((name, attributes) # es) c s =
     (if walk_skips name attributes then windows_walk_entries F cb root es c s
      else let path = root @ [backslash] @ name; directory = (attributes AND FILE_ATTRIBUTE_DIRECTORY \<noteq> 0) in
        if \<not> fits SYSEBA_PATH_MAX path then (- 1, c, set_errno ENAMETOOLONG s)
        else (case cb path directory c s of (r, c1, s1) \<Rightarrow>
          if r \<noteq> 0 then (- 1, c1, s1)
          else if \<not> directory then windows_walk_entries F cb root es c1 s1
          else if \<not> fits SYSEBA_PATH_MAX (find_pattern path) then (- 1, c1, set_errno ENAMETOOLONG s1)
          else (case F (find_pattern path) s1 of
                  (None, s2) \<Rightarrow> (- 1, c1, s2)
                | (Some es2, s2) \<Rightarrow>
                    (case windows_walk_entries F cb path es2 c1 s2 of (r2, c2, s3) \<Rightarrow>
                       if r2 \<noteq> 0 then (- 1, c2, s3) else windows_walk_entries F cb root es c2 s3))))"
  by pat_completeness auto
termination
  by (relation "measures [\<lambda>(F, cb, root, es, c, s). SYSEBA_PATH_MAX - length root, \<lambda>(F, cb, root, es, c, s). length es]")
    (auto simp: fits_def)

declare windows_walk_entries.simps(2) [simp del]

definition windows_walk_internal :: "find_files \<Rightarrow> 'c callback \<Rightarrow> string \<Rightarrow> 'c \<Rightarrow> os \<Rightarrow> int \<times> 'c \<times> os" where
  "windows_walk_internal F cb root c s =
     (if \<not> fits SYSEBA_PATH_MAX (find_pattern root) then (- 1, c, set_errno ENAMETOOLONG s)
      else (case F (find_pattern root) s of
              (None, s1) \<Rightarrow> (- 1, c, s1)
            | (Some es, s1) \<Rightarrow> windows_walk_entries F cb root es c s1))"

section \<open>A copy that succeeds is complete\<close>

text \<open>Another process that changes the data of the source moves its time of last writing forward.\<close>

definition honest :: "wevent \<Rightarrow> bool" where
  "honest e \<longleftrightarrow> (\<forall>x. wf_write x \<le> wf_write (change_of e x) \<and> (wf_write (change_of e x) = wf_write x \<longrightarrow> wf_data (change_of e x) = wf_data x))"

definition follows :: "wfile \<Rightarrow> wfile \<Rightarrow> bool" where
  "follows f f' \<longleftrightarrow> wf_write f \<le> wf_write f' \<and> (wf_write f' = wf_write f \<longrightarrow> wf_data f' = wf_data f)"

lemma follows_trans: "follows f g \<Longrightarrow> follows g h \<Longrightarrow> follows f h"
  by (auto simp: follows_def dest: order.antisym)

lemma follows_between: "follows f g \<Longrightarrow> follows g h \<Longrightarrow> wf_write h = wf_write f \<Longrightarrow> wf_data g = wf_data f \<and> wf_write g = wf_write f"
  by (auto simp: follows_def dest: order.antisym)

lemma honest_fold: "\<forall>e \<in> set es. honest e \<Longrightarrow> follows x (fold change_of es x)"
proof (induction es arbitrary: x)
  case (Cons e es)
  then have "follows x (change_of e x)" by (simp add: honest_def follows_def)
  with Cons follows_trans show ?case by fastforce
qed (simp add: follows_def)

lemma passes_follows:
  assumes "passes w w'" "\<forall>e \<in> set (wi_sched w). honest e"
  shows "\<forall>e \<in> set (wi_sched w'). honest e" "wi_source w = Some f \<Longrightarrow> \<exists>f'. wi_source w' = Some f' \<and> follows f f'"
  using assms honest_fold unfolding passes_def by auto

lemma wcall_Some: "wcall body w = (Some r, w') \<Longrightarrow> \<exists>l w1. wi_destination w1 = wi_destination w \<and> body l w1 = (Some r, w')"
  by (cases rule: wcall_first [of w body]) (auto simp: wfail_def)

lemma call_results:
  "open_source w = (Some u, w') \<Longrightarrow> wi_destination w' = wi_destination w"
  "source_information w = (Some f, w') \<Longrightarrow> wi_destination w' = wi_destination w \<and> wi_source w' = Some f"
  "create_new w = (Some u, w') \<Longrightarrow> wi_destination w = None \<and> (\<exists>d. wi_destination w' = Some d \<and> wf_data d = [])"
  "write_file bytes w = (Some m, w') \<Longrightarrow> wi_destination w' = map_option (\<lambda>f. f\<lparr>wf_data := wf_data f @ take m bytes\<rparr>) (wi_destination w)"
  "set_file_time info w = (Some u, w') \<Longrightarrow> wi_destination w' =
     map_option (\<lambda>f. f\<lparr>wf_creation := wf_creation info, wf_access := wf_access info, wf_write := wf_write info\<rparr>) (wi_destination w)"
  "flush_file_buffers w = (Some u, w') \<Longrightarrow> wi_destination w' = wi_destination w"
  unfolding call_defs by (drule wcall_Some; fastforce simp: wfail_def Let_def split: if_splits)+

lemma read_file_spec:
  assumes "read_file n off w = (Some bytes, w1)" "0 < n"
  shows "wi_destination w1 = wi_destination w \<and> (\<exists>f k. wi_source w1 = Some f \<and> bytes = take k (drop off (wf_data f)) \<and> 0 < k)"
proof -
  let ?m = "\<lambda>l. case l of None \<Rightarrow> n | Some k \<Rightarrow> min n (max 1 k)"
  obtain l f where "wi_destination w1 = wi_destination w" "wi_source w1 = Some f" "bytes = take (?m l) (drop off (wf_data f))"
    using wcall_Some [OF assms(1) [unfolded read_file_def]] by (auto simp: Let_def)
  moreover have "0 < ?m l" using assms(2) by (cases l) auto
  ultimately show ?thesis by blast
qed

lemma write_loop_data:
  "windows_write_loop bytes copied w = (Some copied', w') \<Longrightarrow> wi_destination w = Some d \<Longrightarrow>
     wi_destination w' = Some (d\<lparr>wf_data := wf_data d @ bytes\<rparr>)"
proof (induction bytes copied w arbitrary: d rule: windows_write_loop.induct)
  case (1 bytes copied w)
  show ?case
  proof (cases "bytes = []")
    case False
    with "1.prems"(1) obtain m w1 where w1: "write_file bytes w = (Some m, w1)" "m \<noteq> 0"
      "windows_write_loop (drop m bytes) (copied + of_nat m) w1 = (Some copied', w')"
      by (subst (asm) windows_write_loop.simps) (auto split: prod.splits option.splits if_splits)
    from "1.IH" [OF False w1(1) [symmetric] refl w1(2,3)] call_results(4) [OF w1(1)] "1.prems"(2) show ?thesis by simp
  qed (use 1 in \<open>subst (asm) windows_write_loop.simps, simp\<close>)
qed

lemma copy_loop_passes: "passes w (snd (windows_copy_loop off copied w))"
proof (induction off copied w rule: windows_copy_loop.induct)
  case (1 off copied w)
  obtain r w1 where r: "read_file copy_chunk off w = (r, w1)" by (cases "read_file copy_chunk off w")
  have "passes w1 (copy_error w1)" by (simp add: copy_error_def passesI)
  with calls_pass(4) [of w copy_chunk off] r have p: "passes w w1" "passes w (copy_error w1)" by (auto intro: passes_trans)
  show ?case
  proof (cases r)
    case (Some bytes)
    obtain c w2 where wr: "windows_write_loop bytes copied w1 = (c, w2)" by (cases "windows_write_loop bytes copied w1")
    with write_loop_passes [of w1 bytes copied] p have "passes w w2" by (auto intro: passes_trans)
    with "1.IH" [OF r [symmetric] Some _ wr [symmetric]] p r wr Some show ?thesis
      by (subst windows_copy_loop.simps) (auto intro: passes_trans split: option.splits)
  qed (use r p in \<open>subst windows_copy_loop.simps, simp\<close>)
qed

lemma windows_copy_loop_data:
  assumes "windows_copy_loop off copied w = (Some copied', w')" "wi_source w = Some f" "wi_destination w = Some d" "\<forall>e \<in> set (wi_sched w). honest e"
  shows "\<exists>f' x. wi_source w' = Some f' \<and> follows f f' \<and> wi_destination w' = Some (d\<lparr>wf_data := x\<rparr>) \<and>
    (wf_write f' = wf_write f \<longrightarrow> x = wf_data d @ drop off (wf_data f))"
  using assms
proof (induction off copied w arbitrary: f d rule: windows_copy_loop.induct)
  case (1 off copied w)
  from "1.prems"(1) obtain bytes w1 where r: "read_file copy_chunk off w = (Some bytes, w1)"
    by (subst (asm) windows_copy_loop.simps) (auto split: prod.splits option.splits)
  from read_file_spec [OF this] obtain f1 k where f1: "wi_destination w1 = Some d" "wi_source w1 = Some f1" "bytes = take k (drop off (wf_data f1))" "0 < k"
    using "1.prems"(3) by (auto simp: copy_chunk_def)
  have p1: "passes w w1" using calls_pass(4) [of w copy_chunk off] r by simp
  from passes_follows [OF p1 "1.prems"(4)] "1.prems"(2) f1(2) have s1: "\<forall>e \<in> set (wi_sched w1). honest e" "follows f f1" by auto
  show ?case
  proof (cases "bytes = []")
    case True
    with "1.prems"(1) r have "w' = w1" by (subst (asm) windows_copy_loop.simps) simp
    with f1 s1 True show ?thesis by (intro exI [of _ f1] exI [of _ "wf_data d"]) (auto simp: follows_def)
  next
    case False
    with "1.prems"(1) r obtain c w2 where wr: "windows_write_loop bytes copied w1 = (Some c, w2)" and
      loop: "windows_copy_loop (off + length bytes) c w2 = (Some copied', w')"
      by (subst (asm) windows_copy_loop.simps) (auto split: prod.splits option.splits)
    have p2: "passes w1 w2" using write_loop_passes [of w1 bytes copied] wr by simp
    from passes_follows [OF p2 s1(1)] f1(2) obtain f2 where s2: "\<forall>e \<in> set (wi_sched w2). honest e" "wi_source w2 = Some f2" "follows f1 f2" by auto
    from "1.IH" [OF r [symmetric] refl False wr [symmetric] refl loop s2(2) write_loop_data [OF wr f1(1)] s2(1)] obtain f' x where
      x: "wi_source w' = Some f'" "follows f2 f'" "wi_destination w' = Some (d\<lparr>wf_data := x\<rparr>)"
        "wf_write f' = wf_write f2 \<longrightarrow> x = (wf_data d @ bytes) @ drop (off + length bytes) (wf_data f2)" by auto
    have "x = wf_data d @ drop off (wf_data f)" if "wf_write f' = wf_write f"
    proof -
      have "wf_data f1 = wf_data f" "wf_data f2 = wf_data f" "wf_write f2 = wf_write f"
        using that s1(2) s2(3) x(2) follows_between follows_trans by metis+
      moreover have "bytes @ drop (length bytes) (drop off (wf_data f1)) = drop off (wf_data f1)"
        unfolding f1(3) by (metis append_take_drop_id length_take take_all_iff min_def nle_le append_eq_conv_conj)
      ultimately show ?thesis using x(4) that by (simp add: add.commute)
    qed
    with x s1(2) s2(3) follows_trans show ?thesis by blast
  qed
qed

lemma windows_copy_finish_spec:
  assumes "windows_copy_finish initial copied w = (True, w')" "wi_source w = Some f" "wi_destination w = Some d" "\<forall>e \<in> set (wi_sched w). honest e"
  shows "\<exists>final. follows f final \<and> wf_write final = wf_write initial \<and>
    wi_destination w' = Some (d\<lparr>wf_creation := wf_creation initial, wf_access := wf_access initial, wf_write := wf_write initial\<rparr>)"
proof -
  from assms(1) obtain final w1 w2 where c: "source_information w = (Some final, w1)" "wf_write initial = wf_write final"
    "set_file_time initial w1 = (Some (), w2)" "flush_file_buffers w2 = (Some (), w')"
    by (auto simp: windows_copy_finish_def split: prod.splits option.splits if_splits)
  have "passes w w1" using calls_pass(2) [of w] c(1) by simp
  from passes_follows(2) [OF this assms(4,2)] call_results(2) [OF c(1)] have "follows f final" by auto
  with call_results(2) [OF c(1)] call_results(5) [OF c(3)] call_results(6) [OF c(4)] c(2) assms(3) show ?thesis by auto
qed

lemma delete_file_spec: "wi_destination (snd (delete_file w)) = None \<or> (\<exists>e. wi_last_error (snd (delete_file w)) = e \<and> WFail e \<in> set (wi_sched w))"
  unfolding delete_file_def by (cases rule: wcall_first [of w "\<lambda>_ w. (Some (), w\<lparr>wi_destination := None\<rparr>)"]) (auto simp: wfail_def)

lemma finish_passes: "passes w (snd (windows_copy_finish initial copied w))"
proof -
  have e: "passes v (copy_error v)" "passes v (v\<lparr>wi_errno := x\<rparr>)" for v x by (simp_all add: copy_error_def passesI)
  show ?thesis unfolding windows_copy_finish_def
    using calls_pass(2) [of w] calls_pass(6) [of _ initial] calls_pass(7)
    by (auto split: prod.splits option.splits intro: e passes_trans) (metis e passes_trans snd_conv)+
qed

lemma body_passes: "passes w (snd (windows_copy_body w))"
proof -
  have e: "passes v (copy_error v)" for v by (simp add: copy_error_def passesI)
  obtain r1 w1 where 1: "open_source w = (r1, w1)" by (cases "open_source w")
  obtain r2 w2 where 2: "source_information w1 = (r2, w2)" by (cases "source_information w1")
  obtain r3 w3 where 3: "create_new w2 = (r3, w3)" by (cases "create_new w2")
  obtain r4 w4 where 4: "windows_copy_loop 0 0 w3 = (r4, w4)" by (cases "windows_copy_loop 0 0 w3")
  have p: "passes w w1" "passes w w2" "passes w w3" "passes w w4"
    using calls_pass(1) [of w] calls_pass(2) [of w1] calls_pass(3) [of w2] copy_loop_passes [of w3 0 0] 1 2 3 4 passes_trans
    by (metis snd_conv)+
  then have "passes w (copy_error w1)" "passes w (copy_error w2)" "passes w (copy_error w3)" "passes w (snd (windows_copy_finish i c w4))" for i c
    using e finish_passes passes_trans by blast+
  with p show ?thesis by (simp add: windows_copy_body_def 1 2 3 4 split: option.splits)
qed

lemma write_file_calm:
  "wi_sched w = [] \<Longrightarrow> wi_destination w = Some d \<Longrightarrow>
     write_file bytes w = (Some (length bytes), w\<lparr>wi_destination := Some (d\<lparr>wf_data := wf_data d @ bytes\<rparr>)\<rparr>)"
  by (simp add: write_file_def wcall_def)

lemma write_loop_calm:
  "wi_sched w = [] \<Longrightarrow> wi_destination w = Some d \<Longrightarrow> bytes \<noteq> [] \<Longrightarrow>
     windows_write_loop bytes copied w = (Some (copied + of_nat (length bytes)), w\<lparr>wi_destination := Some (d\<lparr>wf_data := wf_data d @ bytes\<rparr>)\<rparr>)"
  by (subst windows_write_loop.simps) (simp add: write_file_calm, subst windows_write_loop.simps, simp)

lemma windows_copy_loop_calm:
  assumes "wi_sched w = []" "wi_source w = Some f" "wi_destination w = Some d" "off \<le> length (wf_data f)"
  shows "windows_copy_loop off copied w =
    (Some (copied + of_nat (length (wf_data f) - off)), w\<lparr>wi_destination := Some (d\<lparr>wf_data := wf_data d @ drop off (wf_data f)\<rparr>)\<rparr>)"
  using assms
proof (induction off copied w arbitrary: d rule: windows_copy_loop.induct)
  case (1 off copied w)
  let ?bytes = "take copy_chunk (drop off (wf_data f))"
  have r: "read_file copy_chunk off w = (Some ?bytes, w)" using "1.prems" by (simp add: read_file_def wcall_def)
  have d: "d = d\<lparr>wf_data := wf_data d\<rparr>" by simp
  show ?case
  proof (cases "off = length (wf_data f)")
    case True
    with r "1.prems" show ?thesis by (subst windows_copy_loop.simps) simp
  next
    case False
    with "1.prems"(4) have ne: "?bytes \<noteq> []" by (simp add: copy_chunk_def)
    let ?w = "w\<lparr>wi_destination := Some (d\<lparr>wf_data := wf_data d @ ?bytes\<rparr>)\<rparr>"
    note wr = write_loop_calm [OF "1.prems"(1,3) ne, of copied]
    have le: "off + length ?bytes \<le> length (wf_data f)" using "1.prems"(4) by simp
    from "1.IH" [OF r [symmetric] refl ne wr [symmetric] refl, of "d\<lparr>wf_data := wf_data d @ ?bytes\<rparr>"] "1.prems" le
    have "windows_copy_loop (off + length ?bytes) (copied + of_nat (length ?bytes)) ?w =
      (Some (copied + of_nat (length ?bytes) + of_nat (length (wf_data f) - (off + length ?bytes))),
       ?w\<lparr>wi_destination := Some (d\<lparr>wf_data := (wf_data d @ ?bytes) @ drop (off + length ?bytes) (wf_data f)\<rparr>)\<rparr>)" by simp
    moreover have "of_nat (length ?bytes) + of_nat (length (wf_data f) - (off + length ?bytes)) = (of_nat (length (wf_data f) - off) :: 64 word)"
      unfolding of_nat_add [symmetric] using le by simp
    moreover have "?bytes @ drop (off + length ?bytes) (wf_data f) = drop off (wf_data f)"
      by (metis append_take_drop_id append_eq_conv_conj drop_drop add.commute)
    ultimately show ?thesis using r ne wr by (subst windows_copy_loop.simps) (simp add: add.assoc)
  qed
qed

lemma windows_copy_calm:
  assumes "wi_sched w = []" "wi_source w = Some f" "wi_destination w = None" "plain_file f"
  shows "fst (copy_file_once_windows w) = 0"
proof -
  have "open_source w = (Some (), w)" "source_information w = (Some f, w)" using assms by (simp_all add: call_defs wcall_def)
  moreover obtain d where c: "create_new w = (Some (), w\<lparr>wi_destination := Some d\<rparr>)" using assms by (simp add: create_new_def wcall_def)
  let ?w = "w\<lparr>wi_destination := Some (d\<lparr>wf_data := wf_data d @ wf_data f\<rparr>)\<rparr>"
  from assms windows_copy_loop_calm [of "w\<lparr>wi_destination := Some d\<rparr>" f d 0 0] have
    "windows_copy_loop 0 0 (w\<lparr>wi_destination := Some d\<rparr>) = (Some (of_nat (length (wf_data f))), ?w)" by simp
  moreover have "fst (windows_copy_finish f (of_nat (length (wf_data f))) ?w)"
    using assms by (simp add: windows_copy_finish_def call_defs wcall_def)
  ultimately show ?thesis using c assms(4)
    by (auto simp: copy_file_once_windows_def windows_copy_body_def plain_file_def split: prod.splits bool.splits)
qed


definition demo_wfile :: wfile where
  "demo_wfile = \<lparr>wf_data = ''data'', wf_attributes = FILE_ATTRIBUTE_NORMAL, wf_volume = 7, wf_index = 9, wf_creation = 1, wf_access = 2, wf_write = 3\<rparr>"

definition demo_wstate :: wstate where
  "demo_wstate = \<lparr>wi_source = Some demo_wfile, wi_destination = None, wi_sched = [], wi_last_error = 0, wi_errno = None\<rparr>"


text \<open>Opening for reading succeeds for plain files only and gives the size that the file had then.\<close>

lemma windows_open_read_plain:
  assumes "windows_open_regular_read w = (Some n, w')"
  shows "\<exists>es rest f. wi_sched w = es @ rest \<and> map_option (fold change_of es) (wi_source w) = Some f \<and> plain_file f \<and> n = of_nat (length (wf_data f))"
proof -
  from assms obtain w1 w2 f where c: "open_source w = (Some (), w1)" "source_information w1 = (Some f, w2)" "plain_file f" "n = of_nat (length (wf_data f))"
    by (auto simp: windows_open_regular_read_def split: prod.splits option.splits if_splits)
  have "passes w w2" using calls_pass(1) [of w] calls_pass(2) [of w1] c passes_trans by (metis snd_conv)
  with call_results(2) [OF c(2)] obtain es where "wi_sched w = es @ wi_sched w2" "map_option (fold change_of es) (wi_source w) = Some f"
    unfolding passes_def by metis
  with c show ?thesis by blast
qed

section \<open>What the walk visits\<close>

text \<open>The entries below a directory, every directory before its content, for a listing of every directory.\<close>

fun windows_nodes :: "nat \<Rightarrow> (string \<Rightarrow> (string \<times> 32 word) list) \<Rightarrow> string \<Rightarrow> (string \<times> bool) list" where
  "windows_nodes 0 L root = []"
| "windows_nodes (Suc n) L root =
     concat (map (\<lambda>(name, attributes).
       if walk_skips name attributes then []
       else let path = root @ [backslash] @ name; directory = (attributes AND FILE_ATTRIBUTE_DIRECTORY \<noteq> 0)
            in (path, directory) # (if directory then windows_nodes n L path else [])) (L root))"

definition windows_visit :: "nat \<Rightarrow> (string \<Rightarrow> (string \<times> 32 word) list) \<Rightarrow> string \<Rightarrow> string \<times> 32 word \<Rightarrow> (string \<times> bool) list" where
  "windows_visit n L root e =
     (case e of (name, attributes) \<Rightarrow>
       if walk_skips name attributes then []
       else let path = root @ [backslash] @ name; directory = (attributes AND FILE_ATTRIBUTE_DIRECTORY \<noteq> 0)
            in (path, directory) # (if directory then windows_nodes n L path else []))"

lemma windows_nodes_Suc: "windows_nodes (Suc n) L root = concat (map (windows_visit n L root) (L root))"
  by (simp add: windows_visit_def cong: map_cong)

declare windows_nodes.simps(2) [simp del]

definition short_paths :: "(string \<times> bool) list \<Rightarrow> bool" where
  "short_paths ps \<longleftrightarrow> (\<forall>p \<in> set ps. length (fst p) + 2 < SYSEBA_PATH_MAX)"

lemma short_paths_simps [simp]:
  "short_paths []" "short_paths (p # ps) \<longleftrightarrow> length (fst p) + 2 < SYSEBA_PATH_MAX \<and> short_paths ps"
  "short_paths (ps @ qs) \<longleftrightarrow> short_paths ps \<and> short_paths qs"
  by (auto simp: short_paths_def)

lemma windows_walk_entries_visits:
  assumes F: "\<And>p s. F (find_pattern p) s = (Some (L p), s)"
    and "SYSEBA_PATH_MAX - length root \<le> n" "short_paths (concat (map (windows_visit n L root) es))"
  shows "windows_walk_entries F (\<lambda>p d c s. (0, f (p, d) c, s)) root es c s = (0, fold f (concat (map (windows_visit n L root) es)) c, s)"
  using assms(2,3)
proof (induction n arbitrary: root es c rule: less_induct)
  case (less n)
  let ?cb = "\<lambda>p d c s. (0, f (p, d) c, s)"
  show ?case using less.prems(2)
  proof (induction es arbitrary: c)
    case (Cons e es)
    obtain name attributes where e: "e = (name, attributes)" by (cases e)
    show ?case
    proof (cases "walk_skips name attributes")
      case False
      let ?path = "root @ [backslash] @ name" and ?dir = "attributes AND FILE_ATTRIBUTE_DIRECTORY \<noteq> 0"
      have visit: "windows_visit n L root e = (?path, ?dir) # (if ?dir then windows_nodes n L ?path else [])"
        by (simp add: windows_visit_def e False Let_def)
      with Cons.prems have short: "length ?path + 2 < SYSEBA_PATH_MAX" by simp
      then have fit: "fits SYSEBA_PATH_MAX ?path" "fits SYSEBA_PATH_MAX (find_pattern ?path)" by (simp_all add: fits_def find_pattern_def)
      obtain m where m: "n = Suc m" "SYSEBA_PATH_MAX - length ?path \<le> m" using less.prems(1) short by (cases n) auto
      have sub: "windows_walk_entries F ?cb ?path (L ?path) c s = (0, fold f (windows_nodes n L ?path) c, s)" if ?dir for c
        using less.IH [of m ?path "L ?path" c] m Cons.prems visit that by (simp add: windows_nodes_Suc)
      have rest: "windows_walk_entries F ?cb root es c s = (0, fold f (concat (map (windows_visit n L root) es)) c, s)" for c
        using Cons.IH Cons.prems by simp
      from False fit sub rest show ?thesis by (simp add: e [symmetric] visit) (simp add: e windows_walk_entries.simps(2) Let_def F)
    qed (use Cons e in \<open>simp add: windows_visit_def windows_walk_entries.simps(2)\<close>)
  qed simp
qed

lemma windows_nodes_entries:
  "(p, d) \<in> set (windows_nodes n L root) \<Longrightarrow>
     \<exists>dir name attributes. p = dir @ [backslash] @ name \<and> (name, attributes) \<in> set (L dir) \<and> \<not> walk_skips name attributes"
  by (induction n arbitrary: root) (fastforce simp: windows_nodes_Suc windows_visit_def Let_def split: if_splits)+

text \<open>
  The walk on Windows visits every entry below its root, each directory before its content, and passes by
  links. When every directory can be listed and every path is short enough for its buffers,
  \<^verbatim>\<open>syseba_walk_internal\<close> returns 0 and has called a callback that succeeds with exactly the entries below the root, in this
  order; none of them is a reparse point, so it neither leaves the tree nor runs in circles.
\<close>

theorem windows_walk_visits:
  assumes "\<forall>p s. F (find_pattern p) s = (Some (L p), s)" "length root + 2 < SYSEBA_PATH_MAX" "short_paths (windows_nodes (Suc SYSEBA_PATH_MAX) L root)"
  shows "windows_walk_internal F (\<lambda>p d c s. (0, f (p, d) c, s)) root c s = (0, fold f (windows_nodes (Suc SYSEBA_PATH_MAX) L root) c, s) \<and>
    (\<forall>p \<in> set (windows_nodes (Suc SYSEBA_PATH_MAX) L root). \<exists>dir name attributes. fst p = dir @ [backslash] @ name \<and>
       (name, attributes) \<in> set (L dir) \<and> attributes AND FILE_ATTRIBUTE_REPARSE_POINT = 0)"
proof
  have "SYSEBA_PATH_MAX - length root \<le> SYSEBA_PATH_MAX" by simp
  moreover have "fits SYSEBA_PATH_MAX (find_pattern root)" using assms(2) by (simp add: fits_def find_pattern_def)
  ultimately show "windows_walk_internal F (\<lambda>p d c s. (0, f (p, d) c, s)) root c s = (0, fold f (windows_nodes (Suc SYSEBA_PATH_MAX) L root) c, s)"
    using windows_walk_entries_visits [of F L root SYSEBA_PATH_MAX "L root" f c s] assms(1,3)
    by (simp add: windows_walk_internal_def windows_nodes_Suc)
  show "\<forall>p \<in> set (windows_nodes (Suc SYSEBA_PATH_MAX) L root). \<exists>dir name attributes. fst p = dir @ [backslash] @ name \<and>
       (name, attributes) \<in> set (L dir) \<and> attributes AND FILE_ATTRIBUTE_REPARSE_POINT = 0"
    using windows_nodes_entries by (fastforce simp: walk_skips_def)
qed

definition demo_listing :: "string \<Rightarrow> (string \<times> 32 word) list" where
  "demo_listing p = (if p = ''C:'' then [(''.'', 0x10), (''d'', 0x10), (''link'', 0x410), (''f'', 0x80)] else [])"

theorem windows_walk_visits_witness:
  "fst (snd (windows_walk_internal (\<lambda>p s. (Some (demo_listing (take (length p - 2) p)), s)) (\<lambda>p d c s. (0, c @ [(p, d)], s)) ''C:'' [] quiet_os)) =
     [(''C:'' @ [backslash] @ ''d'', True), (''C:'' @ [backslash] @ ''f'', False)]"
proof -
  let ?F = "\<lambda>p s. (Some (demo_listing (take (length p - 2) p)), s)"
  have F: "\<forall>p s. ?F (find_pattern p) s = (Some (demo_listing p), s)" by (simp add: find_pattern_def)
  have leaf: "windows_nodes n demo_listing p = []" if "p \<noteq> ''C:''" for n p using that by (cases n) (simp_all add: windows_nodes_Suc demo_listing_def)
  have nodes: "windows_nodes (Suc n) demo_listing ''C:'' = [(''C:'' @ [backslash] @ ''d'', True), (''C:'' @ [backslash] @ ''f'', False)]" for n
    by (simp add: windows_nodes_Suc windows_visit_def demo_listing_def [of "''C:''"] walk_skips_def FILE_ATTRIBUTE_DIRECTORY_def
        FILE_ATTRIBUTE_REPARSE_POINT_def leaf)
  have "length ''C:'' + 2 < SYSEBA_PATH_MAX" "short_paths (windows_nodes (Suc SYSEBA_PATH_MAX) demo_listing ''C:'')"
    unfolding nodes by (simp_all add: syseba_limits)
  from windows_walk_visits [OF F this, of "\<lambda>p c. c @ [p]" "[]" quiet_os] show ?thesis unfolding nodes by simp
qed

end
