(* ===== verification/Spec2Isabelle.thy ===== *)
theory Spec2Isabelle
  imports Queue Daemon Database Service_Mac Service_Windows Dashboard Watcher_Windows Fs_Windows
begin

text \<open>
  \<^bold>\<open>SySeBa, the Syncro Service Backup.\<close> SySeBa keeps a backup tree in step with a source tree: a watcher sees
  changes, workers copy them, deleted files are moved from the backup to a restore area, from where
  they can be listed and restored, by command line or by a web interface. The sources are C, under
  \<^verbatim>\<open>src/src/\<close>; the model follows their Linux branch, with the service of macOS and
  the service, the watcher, the copy and the walk of Windows beside it.

  \<^bold>\<open>How the code is modelled.\<close> Every function of the sources is a HOL function of the same name (without
  \<^verbatim>\<open>static\<close> prefixes where the name is long) that takes the state it works on and gives it back. The state
  of the operating system is the record \<^typ>\<open>os\<close> of \<^verbatim>\<open>Posix\<close>: a file tree with links, the clock, \<^verbatim>\<open>errno\<close> and a
  schedule that makes any later call fail, transfer less than asked for, or meet a file that another
  process has changed. The state of the program is the record \<^typ>\<open>app\<close> of \<^verbatim>\<open>Log\<close> (\<^verbatim>\<open>syseba_app_t\<close>). Errors are
  values: \<^typ>\<open>result\<close> codes, \<open>-1\<close>, or \<^verbatim>\<open>Inl\<close>. Buffers of fixed size cut their text or refuse it as
  \<^verbatim>\<open>snprintf\<close> does (\<^const>\<open>cut\<close>, \<^const>\<open>fits\<close>); counters are words of their width. What a thread does while another
  waits is an argument, and so is what the program is told by code outside the repository: \<^verbatim>\<open>civetweb\<close>
  and \<^verbatim>\<open>cJSON\<close> (the record \<^typ>\<open>('c, 'd) web_env\<close>), \<^verbatim>\<open>SQLite\<close> (the record \<^typ>\<open>('d, 'h) sqlite\<close>, with what its documentation promises as
  the hypotheses \<^const>\<open>tables_laws\<close> and \<^const>\<open>insert_laws\<close>), \<^verbatim>\<open>inotify\<close>, \<^verbatim>\<open>flock\<close>, \<^verbatim>\<open>statvfs\<close>, \<^verbatim>\<open>systemctl\<close>, \<^verbatim>\<open>launchctl\<close>,
  the Windows calls, floating-point arithmetic.

  \<^bold>\<open>The theories.\<close>
    \<^item> \<^verbatim>\<open>Prelude\<close>: C strings and the C library functions on them, decimal numbers, words, association lists,
      and the locale of a table with unique keys. \<^verbatim>\<open>Posix\<close>: the file tree, path resolution and the calls; the
      locale \<^verbatim>\<open>reading\<close> of relations that every reading call keeps, with its interpretations.
      \<^verbatim>\<open>Types\<close>: limits, enumerations and structures of \<^verbatim>\<open>syseba_internal.h\<close>.
    \<^item> \<^verbatim>\<open>Queue\<close> (\<^verbatim>\<open>queue.c\<close>): the linked queue over an explicit heap, refined to a list; a pool of producers
      and workers as a step relation, with conservation, order and progress.
    \<^item> \<^verbatim>\<open>Platform\<close> (\<^verbatim>\<open>platform.c\<close>): canonical paths, creation of directories, clocks, deadlines, random bytes, disk
      usage; \<^verbatim>\<open>Host\<close>: process metrics, sleeping, the terminal. \<^verbatim>\<open>Fs\<close>, \<^verbatim>\<open>Tree\<close> and \<^verbatim>\<open>Restore\<close> (\<^verbatim>\<open>fs.c\<close>): the atomic copy of a file; walking, copying, removing and
      moving trees, unused names; the listing, search, order and pages of the restore area and restoring.
      \<^verbatim>\<open>Fs_Windows\<close>: the copy of a file, the opening of streams and the walk as \<^verbatim>\<open>fs.c\<close> has them for Windows.
    \<^item> \<^verbatim>\<open>Config\<close> (\<^verbatim>\<open>config.c\<close>): the containment of paths after resolving links, the parser and the writer of the
      configuration, validation.
    \<^item> \<^verbatim>\<open>Log\<close> (\<^verbatim>\<open>log.c\<close>): records, the ring of recent lines, the writer thread, the last lines of the log file.
      \<^verbatim>\<open>Database\<close> (\<^verbatim>\<open>database.c\<close>): opening and migrating the event database, writing a record.
      \<^verbatim>\<open>App\<close> (\<^verbatim>\<open>app.c\<close>, \<^verbatim>\<open>watcher.c\<close>): events, workers, initial synchronisation, instance lock, start, stop.
      \<^verbatim>\<open>Status\<close>: the status document of \<^verbatim>\<open>app.c\<close>.
    \<^item> \<^verbatim>\<open>Watcher_Poll\<close> (\<^verbatim>\<open>watcher_poll.c\<close>): snapshots in a hash table and their comparison. \<^verbatim>\<open>Watcher_Linux\<close>
      (\<^verbatim>\<open>watcher_linux.c\<close>): the table of watches and the handling of a notification. \<^verbatim>\<open>Watcher_Windows\<close>
      (\<^verbatim>\<open>watcher_windows.c\<close>): the buffer of notifications, their dispatch and the thread.
    \<^item> \<^verbatim>\<open>Web_Token\<close>, \<^verbatim>\<open>Web\<close>, \<^verbatim>\<open>Web_Safety\<close> (\<^verbatim>\<open>web.c\<close>): the token, the handlers, and what requests can change.
    \<^item> \<^verbatim>\<open>Cli\<close>, \<^verbatim>\<open>Commands\<close> (\<^verbatim>\<open>cli.c\<close>, \<^verbatim>\<open>main.c\<close>, the loop of \<^verbatim>\<open>dashboard.c\<close>): the parser of the arguments, the
      commands, the program. \<^verbatim>\<open>Dashboard\<close> (\<^verbatim>\<open>dashboard.c\<close>): the picture. \<^verbatim>\<open>Service\<close> (\<^verbatim>\<open>service_linux.c\<close>): the unit and its installation, and the locale of an
      escaping and its reader; \<^verbatim>\<open>Service_Mac\<close> (\<^verbatim>\<open>service_macos.c\<close>): the property list;
      \<^verbatim>\<open>Service_Windows\<close> (\<^verbatim>\<open>service_windows.c\<close>): the command line, its reader and the reports to the manager.
      \<^verbatim>\<open>Program\<close> and \<^verbatim>\<open>Daemon\<close>: properties of whole runs, and the daemon as a state machine of its threads.

  \<^bold>\<open>What is shown.\<close>
    \<^item> No data is lost: items pass through the queue exactly once and in order and are all finished; the
      copy of a file is complete or has not happened, for every schedule of failures, on Windows even if the
      source is being written to; a change reaches
      the backup, a deletion keeps the old copy in the restore area, and the source is never changed;
      the first synchronisation queues every file; the watchers report what changed, and no notification of a buffer is lost; a file can be
      restored, and without \<^verbatim>\<open>--overwrite\<close> only free names are used.
    \<^item> Paths stay inside: what \<^verbatim>\<open>syseba_safe_join\<close> accepts resolves below its base.
    \<^item> Access: a request without the token changes nothing and learns nothing; read requests only read; no
      request changes the token or the active configuration; a daemon started without
      \<^verbatim>\<open>--no-web-auth\<close> has a valid token and is protected in every state it reaches.
    \<^item> Commands: accepted options are well formed; wrong invocations and looking commands change nothing;
      the browser overwrites on request only; a run ends when told to and leaves no lock; the unit,
      property list or command line that is installed starts the daemon with the options of the
      installation; the reports of a Windows service are a proper life; the dashboard has fewer lines
      than the terminal.
    \<^item> Database: a migration happens as a whole or not at all; a write ends and stores its record once or
      reports failure; the writer thread stores the records in the order of the queue.
    \<^item> Data: the configuration and the token are read back as written; a configuration is accepted exactly when
      it is sound; the comparison in constant time is equality, the search is a substring test;
      listings are sorted and their pages are a partition; the last lines of a log, the recent lines
      and the pages are what they should be. Loops end.

  \<^bold>\<open>Bounds and fuel.\<close> \<^verbatim>\<open>namei\<close> follows at most 40 links, as the kernel does, and the walk of a tree is bounded
  by the length of a path (\<^verbatim>\<open>SYSEBA_PATH_MAX\<close>), since every level adds at least two characters. Loops over
  schedules or scripts (reads of the random device, waits, the loops of the threads) are
  functions of the script and give \<open>None\<close> when it ends first; the theorems on them say which scripts suffice.
  A write to the database calls itself while the schema changes and is a partial function; it is
  shown to return when others change the schema finitely often. All other loops are total functions with a measure.

  \<^bold>\<open>Theorems that assume a quiet system\<close> say so (\<^verbatim>\<open>os_sched s = []\<close>: no call fails; \<^verbatim>\<open>undisturbed\<close>: no file
  changes under a read); a theorem without such an assumption holds for every schedule.

  \<^bold>\<open>Not modelled.\<close> The other Windows branches inside \<^verbatim>\<open>platform.c\<close>, \<^verbatim>\<open>fs.c\<close>, \<^verbatim>\<open>app.c\<close>, \<^verbatim>\<open>config.c\<close> and \<^verbatim>\<open>cli.c\<close>, which are other
  programs over other calls behind the same interface (the operations that the Windows watcher and
  service call are parameters there); the database file in the file tree, which only SQLite
  touches (the start and the commands see the database as success or failure); the help text; the
  wrappers of threads and mutexes in \<^verbatim>\<open>platform.c\<close>, since interleaving is given by arguments and
  step relations; file modes of created directories; the wording of error messages that no
  theorem depends on; the vendored libraries.
\<close>

section \<open>From the command line to the last request\<close>

text \<open>
  C3: A daemon that was not told to go without a token is protected as long as it runs. Let the
  arguments be accepted and not contain \<^verbatim>\<open>--no-web-auth\<close>, let the preparation and the start succeed with the
  web interface on. Then a valid token is in force, and in every state that the daemon reaches,
  whatever requests, changes, workers, log entries and interference of others have led
  there, a request that does not present that token changes nothing: not the file system and nothing
  of the application but the memory of the page it may be sent.
\<close>

theorem daemon_stays_protected:
  assumes "syseba_cli_parse D args (options_defaults D) n = (0, opts, e)" "''--no-web-auth'' \<notin> set args"
    and "cli_prepare E (opts\<lparr>opt_config_path := config_path\<rparr>) c s0 = Some (SYSEBA_OK, a0, s1)" "app_web_enabled a0"
    and "syseba_app_start (ce_start E) (ce_stop E) a0 s1 = (SYSEBA_OK, a1, s2)"
    and "(daemon_step W)\<^sup>*\<^sup>* (a1, s2) (a, s)"
    and "headers_ok W connection" "\<not> presents_token W connection (app_web_token a0)"
  shows "web_token_valid (app_web_token a0) \<and> \<not> http_authorized W connection a \<and>
    (case http_handler W request connection a s of (r, connection', a', s') \<Rightarrow> s' = s \<and> a' = a\<lparr>app_memory := app_memory a'\<rparr>)"
proof -
  have "\<not> opt_no_web_auth opts" using cli_parse_asked_for [OF assms(1)] assms(2) by (simp add: asked_for_def)
  with cli_prepare_protected [OF assms(3,4)] have valid: "app_web_auth_enabled a0" "web_token_valid (app_web_token a0)" by simp_all
  have "access a = access a0" using daemon_steps_access [OF assms(6)] app_start_access [OF assms(5)] by simp
  with valid have a: "app_web_auth_enabled a" "app_web_token a = app_web_token a0" by (simp_all add: access_def)
  then have "\<not> http_authorized W connection a"
    using authorized_iff [OF assms(7), of a] token_no_nul [OF valid(2)] assms(8) by simp
  with refused_inert [OF this, of request s] valid(2) show ?thesis by (cases "http_handler W request connection a s") simp
qed

theorem daemon_stays_protected_witness:
  "\<exists>a0 s1 a1 s2. cli_prepare demo_env ((options_defaults demo_doubles)\<lparr>opt_command := Some ''run'', opt_web_only := True,
        opt_explicit_token := ''0123456789abcdef'', opt_config_path := ''/etc/s.conf''\<rparr>) demo_config demo_os = Some (SYSEBA_OK, a0, s1) \<and>
     syseba_app_start (ce_start demo_env) (ce_stop demo_env) a0 s1 = (SYSEBA_OK, a1, s2) \<and>
     snd (snd (snd (http_handler demo_web (demo_request ''POST'' ''/api/service/restart'') [] a1 s2))) = s2"
proof -
  let ?o = "(options_defaults demo_doubles)\<lparr>opt_command := Some ''run'', opt_web_only := True, opt_explicit_token := ''0123456789abcdef''\<rparr>"
  let ?args = "[''run'', ''--web-only'', ''--web-token=0123456789abcdef'']"
  have p: "syseba_cli_parse demo_doubles ?args (options_defaults demo_doubles) 1024 = (0, ?o, [])"
    by (simp add: syseba_cli_parse_def cli_parse_end_def cli_command_valid_def cli_commands_def flag_option_def value_option_def display_option_def
        text_option_def option_value_def option_copy_def options_defaults_def fits_def cut_def syseba_limits)
  let ?o1 = "?o\<lparr>opt_config_path := ''/etc/s.conf''\<rparr>"
  let ?b = "zero_app\<lparr>app_config := demo_config, app_db_path := ''/var/lib/syseba/syseba_logs.db'', app_lock_path := ''/run/syseba/syseba.lock''\<rparr>"
  let ?a0 = "(snd (cli_app demo_env demo_config ?o1))\<lparr>app_web_auth_enabled := True, app_web_token := ''0123456789abcdef'', app_web_token_source := ''argument''\<rparr>"
  have i: "fst (cli_app demo_env demo_config ?o1) = SYSEBA_OK" "app_db_path ?a0 = ''/var/lib/syseba/syseba_logs.db''"
    "app_lock_path ?a0 = ''/run/syseba/syseba.lock''" "app_web_port ?a0 = 8765" "app_web_host ?a0 = ''127.0.0.1''" "app_config ?a0 = demo_config"
    "app_web_only ?a0" "app_web_enabled ?a0"
    by (simp_all add: cli_app_def syseba_app_init_def demo_env_def options_defaults_def zero_app_def allocate_def Let_def cut_def syseba_limits
        SYSEBA_DEFAULT_DB_def SYSEBA_DEFAULT_LOCK_def SYSEBA_DEFAULT_WEB_PORT_def SYSEBA_DEFAULT_WEB_HOST_def)
  have "prepare_runtime_paths ?a0 t = prepare_runtime_paths ?b t" "fst (syseba_log_start True ?a0 t) = fst (syseba_log_start True ?b t)" for t
    using i by (simp_all add: prepare_runtime_paths_def syseba_log_start_def split: option.splits prod.splits)
  moreover have "fst (prepare_runtime_paths ?b demo_os) = 0" "fst (syseba_log_start True ?b (snd (prepare_runtime_paths ?b demo_os))) = 0" by code_simp+
  ultimately have paths: "fst (prepare_runtime_paths ?a0 demo_os) = 0" "fst (syseba_log_start True ?a0 (snd (prepare_runtime_paths ?a0 demo_os))) = 0"
    by simp_all
  have "length (int_text 8765) \<le> 4" using dec_length [of 8765 3] by (simp add: int_text_def)
  then have "fits 320 (app_web_host ?a0 @ '':'' @ int_text (app_web_port ?a0))" unfolding i by (simp add: fits_def)
  moreover have "cli_prepare demo_env ?o1 demo_config demo_os = Some (SYSEBA_OK, ?a0, demo_os)"
    using i(1,8) by (cases "cli_app demo_env demo_config ?o1")
      (simp add: cli_prepare_def syseba_web_load_token_def use_token_def web_token_valid_def SYSEBA_WEB_TOKEN_MIN_def syseba_limits fits_def cut_def
        uchar_def options_defaults_def)
  ultimately obtain a0 s1 where z: "cli_prepare demo_env ?o1 demo_config demo_os = Some (SYSEBA_OK, a0, s1)"
    "app_web_enabled a0" "app_web_token a0 = ''0123456789abcdef''" "app_web_only a0" "fst (prepare_runtime_paths a0 s1) = 0"
    "fst (syseba_log_start True a0 (snd (prepare_runtime_paths a0 s1))) = 0" "fits 320 (app_web_host a0 @ '':'' @ int_text (app_web_port a0))"
    using paths i(7,8) by simp
  have "fst (syseba_app_start (ce_start demo_env) (ce_stop demo_env) a0 s1) = SYSEBA_OK"
    by (rule web_only_starts [OF z(4,2)]) (use z in \<open>simp_all add: demo_env_def\<close>)
  with z obtain a1 s2 where q: "cli_prepare demo_env (?o\<lparr>opt_config_path := ''/etc/s.conf''\<rparr>) demo_config demo_os = Some (SYSEBA_OK, a0, s1)"
    "app_web_enabled a0" "app_web_token a0 = ''0123456789abcdef''" "syseba_app_start (ce_start demo_env) (ce_stop demo_env) a0 s1 = (SYSEBA_OK, a1, s2)"
    by (cases "syseba_app_start (ce_start demo_env) (ce_stop demo_env) a0 s1") auto
  have h: "headers_ok demo_web []" by (simp add: headers_ok_def demo_web_def)
  have "\<not> presents_token demo_web [] (app_web_token a0)"
    by (auto simp: q(3) presents_token_def demo_web_def dest!: arg_cong [of _ _ "\<lambda>v. last v"])
  from daemon_stays_protected [OF p _ q(1,2,4) rtranclp.rtrancl_refl h this, of "demo_request ''POST'' ''/api/service/restart''"] q(1,4)
  show ?thesis by (auto split: prod.splits)
qed

end
